(* ===== verification/Prelude.thy ===== *)
theory Prelude
  imports Main "HOL-Library.Word" "HOL-Library.Signed_Division" "HOL-Library.Monad_Syntax"
begin

unbundle bit_operations_syntax

text \<open>
  Shared vocabulary of the development: the machine integers of the C sources as words of
  their width, the little-endian byte idioms every engine of the repository uses, the sign
  extension helper \<open>sext\<close>, and the collections of facts the component theories rely on.

  A C expression on \<open>uint32_t\<close> values becomes a term on \<open>32 word\<close>: \<open>+\<close>, \<open>-\<close> and
  \<open>*\<close> wrap as the C operators do, \<open>push_bit\<close> is \<open><<\<close>, \<open>drop_bit\<close> is \<open>>>\<close> on an unsigned
  value and \<open>signed_drop_bit\<close> is \<open>>>\<close> on a value cast to \<open>int32_t\<close>; \<open>ucast\<close> and \<open>scast\<close>
  are the integer conversions.
\<close>

type_synonym u8 = "8 word"
type_synonym u16 = "16 word"
type_synonym u32 = "32 word"
type_synonym u64 = "64 word"

text \<open>A register index: a 5-bit field of an instruction, so every index is below 32.\<close>

type_synonym reg = "5 word"

named_theorems engine_simps \<open>unfolding rules of the engines' small helpers\<close>
named_theorems wf_intros \<open>preservation of the state invariant by the operations\<close>

section \<open>Little-endian bytes\<close>

text \<open>
  The load sites assemble \<open>p[0] | p[1] << 8 | p[2] << 16 | p[3] << 24\<close>; the store sites
  scatter \<open>(uint8_t)(v >> 8 * i)\<close>.
\<close>

definition le16 :: "u8 \<Rightarrow> u8 \<Rightarrow> u32" where
  "le16 b0 b1 = ucast b0 OR push_bit 8 (ucast b1)"

definition le32 :: "u8 \<Rightarrow> u8 \<Rightarrow> u8 \<Rightarrow> u8 \<Rightarrow> u32" where
  "le32 b0 b1 b2 b3 =
     ucast b0 OR push_bit 8 (ucast b1) OR push_bit 16 (ucast b2) OR push_bit 24 (ucast b3)"

definition byte_of :: "nat \<Rightarrow> u32 \<Rightarrow> u8" where
  "byte_of i v = ucast (drop_bit (8 * i) v)"

lemma bit_le16: "bit (le16 b0 b1) n \<longleftrightarrow> (if n < 8 then bit b0 n else n < 16 \<and> bit b1 (n - 8))"
  by (auto simp: le16_def bit_simps dest: bit_imp_le_length)

lemma bit_le32:
  "bit (le32 b0 b1 b2 b3) n \<longleftrightarrow>
     (if n < 8 then bit b0 n else if n < 16 then bit b1 (n - 8)
      else if n < 24 then bit b2 (n - 16) else n < 32 \<and> bit b3 (n - 24))"
  by (auto simp: le32_def bit_simps dest: bit_imp_le_length)

lemma le32_bytes [simp]: "le32 (byte_of 0 v) (byte_of 1 v) (byte_of 2 v) (byte_of 3 v) = v"
  by (rule bit_word_eqI) (auto simp: bit_le32 byte_of_def bit_simps)

lemma byte_of_le32 [simp]:
  "byte_of 0 (le32 b0 b1 b2 b3) = b0" "byte_of 1 (le32 b0 b1 b2 b3) = b1"
  "byte_of 2 (le32 b0 b1 b2 b3) = b2" "byte_of 3 (le32 b0 b1 b2 b3) = b3"
  by (rule bit_word_eqI, force simp: bit_le32 byte_of_def bit_simps)+

lemma le16_bytes: "le16 (byte_of 0 v) (byte_of 1 v) = take_bit 16 v"
  by (rule bit_word_eqI) (auto simp: bit_le16 byte_of_def bit_simps)

section \<open>Sign extension\<close>

text \<open>
  \<open>static int32_t sext(uint32_t v, int bits)\<close> of \<open>emu/purv.c\<close> (the same text is in
  \<open>emu/purvs/purvs.c\<close> and \<open>emu/purva/transcode.c\<close>): shift the field to the top, shift it
  back arithmetically.
\<close>

definition sext :: "u32 \<Rightarrow> nat \<Rightarrow> u32" where
  "sext v bits = (let sh = 32 - bits in signed_drop_bit sh (push_bit sh v))"

lemma bit_sext:
  assumes "0 < bits" "bits \<le> 32"
  shows "bit (sext v bits) n \<longleftrightarrow> n < 32 \<and> bit v (min n (bits - 1))"
proof -
  have "min n (bits - 1) = (if n < bits then n else bits - 1)"
    using assms by auto
  then show ?thesis
    using assms by (auto simp: sext_def Let_def bit_simps)
qed

lemma sext_32 [simp]: "sext v 32 = v"
  by (simp add: sext_def)

text \<open>Sign extension reads the low bits of its argument as a two's complement number.\<close>

lemma sext_signed_take_bit:
  assumes "0 < bits" "bits \<le> 32"
  shows "sext v bits = signed_take_bit (bits - 1) v"
  using assms
  by (intro bit_word_eqI) (auto simp: bit_sext bit_signed_take_bit_iff min.commute)

lemma sext_word_of_int:
  assumes "0 < bits" "bits \<le> 32"
  shows "sext v bits = word_of_int (signed_take_bit (bits - 1) (uint v))"
proof -
  have "signed_take_bit (bits - 1) v = word_of_int (signed_take_bit (bits - 1) (uint v))"
    using assms
    by (intro bit_word_eqI)
      (auto simp: bit_signed_take_bit_iff bit_word_of_int_iff bit_uint_iff min_def)
  then show ?thesis using assms by (simp add: sext_signed_take_bit)
qed

section \<open>Words and naturals\<close>

lemma word_rel_bound:
  fixes rel l n :: u32
  assumes "rel < l" "n \<le> l - rel"
  shows "unat rel + unat n \<le> unat l"
proof -
  have "unat (l - rel) = unat l - unat rel"
    using assms(1) by (simp add: unat_sub)
  with assms show ?thesis
    by (simp add: word_le_nat_alt word_less_nat_alt)
qed

text \<open>Comparisons of 1 with a numeral, which the simplifier does not decide by itself.\<close>

lemma word_one_cmp [simp]:
  "(1 :: 'a::len word) < numeral n \<longleftrightarrow> unat (1 :: 'a word) < unat (numeral n :: 'a word)"
  "(1 :: 'a word) \<le> numeral n \<longleftrightarrow> unat (1 :: 'a word) \<le> unat (numeral n :: 'a word)"
  "numeral n < (1 :: 'a word) \<longleftrightarrow> unat (numeral n :: 'a word) < unat (1 :: 'a word)"
  "numeral n \<le> (1 :: 'a word) \<longleftrightarrow> unat (numeral n :: 'a word) \<le> unat (1 :: 'a word)"
  by (simp_all add: word_less_nat_alt word_le_nat_alt)

lemma unat_lt_32 [simp]: "unat (w :: u32) < 4294967296"
  using unsigned_less [where w = w and ?'a = nat] by simp

text \<open>Rounding down to a multiple of 16.\<close>

lemma round_down:
  fixes x :: u32
  shows "unat (x AND NOT 15) \<le> unat x" "unat x \<le> unat (x AND NOT 15) + 15" "(x AND NOT 15) AND 15 = 0"
proof -
  have "(x AND NOT 15) AND (x AND 15) = 0" by (rule bit_word_eqI) (auto simp: bit_simps)
  then have "(x AND NOT 15) + (x AND 15) = (x AND NOT 15) OR (x AND 15)" by (rule disjunctive_add_eq_or)
  also have "\<dots> = x" by (rule bit_word_eqI) (auto simp: bit_simps)
  finally have e: "x AND NOT 15 = x - (x AND 15)" by (simp add: algebra_simps)
  have le: "x AND 15 \<le> x" "x AND 15 \<le> 15" by (rule word_and_le2, rule word_and_le1)
  have "unat (x AND NOT 15) = unat x - unat (x AND 15)" unfolding e by (rule unat_sub [OF le(1)])
  moreover have "unat (x AND 15) \<le> unat x" "unat (x AND 15) \<le> 15" using le by (simp_all add: word_le_nat_alt)
  ultimately show "unat (x AND NOT 15) \<le> unat x" "unat x \<le> unat (x AND NOT 15) + 15" by linarith+
  show "(x AND NOT 15) AND 15 = 0" by (rule bit_word_eqI) (auto simp: bit_simps)
qed

end
