(* ===== verification/Vm.thy ===== *)
theory Vm
  imports Prelude
begin

text \<open>
  The VM state of \<open>emu/purv.h\<close> (\<open>emu/purvs/purvs.h\<close> declares the same fields plus the
  evaluator): the memory regions, the registers, the trap handlers and the memory callback,
  and the address translation \<open>mem_xlate\<close> that every load and store of the engines goes
  through.

  The handlers of the C state are function pointers that receive the state. They are kept in a
  record \<open>hooks\<close> of their own, fixed while the engine runs; what they change outside the VM
  (the host's globals) is the field \<open>world\<close> of the state, whose type is a parameter.
\<close>

section \<open>Memory regions\<close>

text \<open>
  \<open>RiscvEmulatorRegion_t\<close>: host storage, its length in bytes, the guest address of its first
  byte. The storage is \<open>None\<close> for a NULL pointer.
\<close>

record region =
  rg_ptr :: "u8 list option"
  rg_len :: u32
  rg_base :: u32

definition RISCV_HALF :: u32 where
  "RISCV_HALF = 0x80000000"

text \<open>
  What purv.h asks of a region: storage of \<open>len\<close> bytes, and a length of 0 for an unmapped one.
\<close>

definition wf_region :: "region \<Rightarrow> bool" where
  "wf_region r = (case rg_ptr r of None \<Rightarrow> rg_len r = 0 | Some bs \<Rightarrow> length bs = unat (rg_len r))"

text \<open>
  The bounded check of one region: \<open>rel = addr - base; rel < len && n <= len - rel\<close>. The
  result is the offset into the storage.
\<close>

definition region_at :: "region \<Rightarrow> u32 \<Rightarrow> u32 \<Rightarrow> nat option" where
  "region_at r addr n =
     (let rel = addr - rg_base r
      in if rel < rg_len r \<and> n \<le> rg_len r - rel then Some (unat rel) else None)"

text \<open>
  An access to the storage itself. \<open>None\<close> is an access outside the host buffer, which C leaves
  undefined: the models below keep it as a value, so that memory safety is a theorem.
\<close>

definition region_rd :: "region \<Rightarrow> nat \<Rightarrow> u8 option" where
  "region_rd r i =
     (case rg_ptr r of None \<Rightarrow> None | Some bs \<Rightarrow> if i < length bs then Some (bs ! i) else None)"

definition region_wr :: "region \<Rightarrow> nat \<Rightarrow> u8 \<Rightarrow> region option" where
  "region_wr r i b =
     (case rg_ptr r of None \<Rightarrow> None
      | Some bs \<Rightarrow> if i < length bs then Some (r\<lparr>rg_ptr := Some (bs[i := b])\<rparr>) else None)"

lemma region_at_in_storage:
  assumes "wf_region r" "region_at r a n = Some off"
  obtains bs where "rg_ptr r = Some bs" "off + unat n \<le> length bs" "off < length bs"
proof -
  let ?rel = "a - rg_base r"
  from assms(2) have rel: "?rel < rg_len r" "n \<le> rg_len r - ?rel" "off = unat ?rel"
    by (auto simp: region_at_def Let_def split: if_splits)
  from rel(1) have nz: "rg_len r \<noteq> 0" by auto
  with assms(1) obtain bs where bs: "rg_ptr r = Some bs" "length bs = unat (rg_len r)"
    by (auto simp: wf_region_def split: option.splits)
  from word_rel_bound [OF rel(1,2)] rel(1,3) bs
  show ?thesis by (intro that) (auto simp: word_less_nat_alt)
qed

lemma region_rd_wf:
  "wf_region r \<Longrightarrow> region_at r a n = Some off \<Longrightarrow> i < unat n \<Longrightarrow> \<exists>b. region_rd r (off + i) = Some b"
  by (erule (1) region_at_in_storage) (simp add: region_rd_def)

lemma region_wr_wf:
  "wf_region r \<Longrightarrow> region_at r a n = Some off \<Longrightarrow> i < unat n \<Longrightarrow>
     \<exists>r'. region_wr r (off + i) b = Some r'"
  by (erule (1) region_at_in_storage) (simp add: region_wr_def)

lemma wf_region_wr [wf_intros]: "region_wr r i b = Some r' \<Longrightarrow> wf_region r \<Longrightarrow> wf_region r'"
  by (auto simp: region_wr_def wf_region_def split: option.splits if_splits)

lemma region_wr_shape:
  "region_wr r i b = Some r' \<Longrightarrow> rg_len r' = rg_len r \<and> rg_base r' = rg_base r"
  by (auto simp: region_wr_def split: option.splits if_splits)

lemma region_at_wr: "region_wr r i b = Some r' \<Longrightarrow> region_at r' a n = region_at r a n"
  by (simp add: region_at_def region_wr_shape)

lemma region_rd_wr:
  "region_wr r i b = Some r' \<Longrightarrow> region_rd r' j = (if i = j then Some b else region_rd r j)"
  by (auto simp: region_wr_def region_rd_def split: option.splits if_splits)

lemma region_wr_rd: "region_wr r i b = Some r' \<Longrightarrow> region_rd r i \<noteq> None"
  by (auto simp: region_wr_def region_rd_def split: option.splits if_splits)

section \<open>The state and its handlers\<close>

text \<open>
  \<open>struct RiscvEmulatorState\<close>. The registers are a map on 5-bit indices: every index of the
  engines is masked to 5 bits or is a compressed 3-bit field plus 8.
\<close>

record 'w vm =
  pc :: u32
  inst :: u32
  regs :: "reg \<Rightarrow> u32"
  readonly :: region
  writable :: region
  world :: 'w

datatype mem_op = RISCV_MEM_LOAD | RISCV_MEM_STORE

text \<open>
  \<open>RiscvEmulatorTrapFn\<close> (nonzero, here \<open>True\<close>, stops the run loop) and
  \<open>RiscvEmulatorMemFn\<close>; a NULL handler is \<open>None\<close>.
\<close>

type_synonym 'w trap_fn = "'w vm \<Rightarrow> bool \<times> 'w vm"
type_synonym 'w mem_fn = "'w vm \<Rightarrow> mem_op \<Rightarrow> u32 \<Rightarrow> u32 \<Rightarrow> u32 \<times> 'w vm"

record 'w hooks =
  h_ecall :: "'w trap_fn option"
  h_ebreak :: "'w trap_fn option"
  h_illegal :: "'w trap_fn option"
  h_callback :: "'w mem_fn option"

text \<open>The state invariant: both regions have their storage and \<open>x0\<close> is zero.\<close>

definition vm_ok :: "'w vm \<Rightarrow> bool" where
  "vm_ok s = (wf_region (readonly s) \<and> wf_region (writable s) \<and> regs s 0 = 0)"

section \<open>Address translation and host accesses\<close>

text \<open>A host pointer: into the storage of one of the two regions, at an offset.\<close>

datatype hptr = WPtr nat | RPtr nat

definition mem_xlate :: "'w vm \<Rightarrow> u32 \<Rightarrow> u32 \<Rightarrow> bool \<Rightarrow> hptr option" where
  "mem_xlate s addr n write =
     (case region_at (writable s) addr n of
        Some off \<Rightarrow> Some (WPtr off)
      | None \<Rightarrow>
          if write then None
          else (case region_at (readonly s) addr n of
                  Some off \<Rightarrow> Some (RPtr off)
                | None \<Rightarrow> None))"

fun rd8 :: "'w vm \<Rightarrow> hptr \<Rightarrow> nat \<Rightarrow> u8 option" where
  "rd8 s (WPtr off) i = region_rd (writable s) (off + i)"
| "rd8 s (RPtr off) i = region_rd (readonly s) (off + i)"

fun wr8 :: "'w vm \<Rightarrow> hptr \<Rightarrow> nat \<Rightarrow> u8 \<Rightarrow> 'w vm option" where
  "wr8 s (WPtr off) i b = map_option (\<lambda>r. s\<lparr>writable := r\<rparr>) (region_wr (writable s) (off + i) b)"
| "wr8 s (RPtr off) i b = map_option (\<lambda>r. s\<lparr>readonly := r\<rparr>) (region_wr (readonly s) (off + i) b)"

text \<open>\<open>static void wr(s, i, v)\<close>: a register write; \<open>x0\<close> is never written.\<close>

definition wr :: "'w vm \<Rightarrow> reg \<Rightarrow> u32 \<Rightarrow> 'w vm" where
  "wr s i v = (if i \<noteq> 0 then s\<lparr>regs := (regs s)(i := v)\<rparr> else s)"

lemma wr_fields [simp]:
  "pc (wr s i v) = pc s" "inst (wr s i v) = inst s" "readonly (wr s i v) = readonly s"
  "writable (wr s i v) = writable s" "world (wr s i v) = world s"
  by (simp_all add: wr_def)

lemma regs_wr: "regs (wr s i v) j = (if i = j \<and> i \<noteq> 0 then v else regs s j)"
  by (simp add: wr_def)

lemma vm_ok_wr [wf_intros]: "vm_ok s \<Longrightarrow> vm_ok (wr s i v)"
  by (simp add: vm_ok_def regs_wr)

lemma vm_ok_pc [simp]: "vm_ok (s\<lparr>pc := p\<rparr>) = vm_ok s"
  by (simp add: vm_ok_def)

lemma vm_ok_inst [simp]: "vm_ok (s\<lparr>inst := w\<rparr>) = vm_ok s"
  by (simp add: vm_ok_def)

text \<open>
  The translated range lies in the storage: no byte of it can be an access outside the buffer.
  A write translation only ever names the writable region.
\<close>

lemma mem_xlate_rd:
  "vm_ok s \<Longrightarrow> mem_xlate s a n w = Some p \<Longrightarrow> i < unat n \<Longrightarrow> \<exists>b. rd8 s p i = Some b"
  by (auto simp: mem_xlate_def vm_ok_def region_rd_wf split: option.splits if_splits)

lemma mem_xlate_write: "mem_xlate s a n True = Some p \<Longrightarrow> \<exists>off. p = WPtr off"
  by (auto simp: mem_xlate_def split: option.splits)

lemma mem_xlate_wr:
  "vm_ok s \<Longrightarrow> mem_xlate s a n True = Some p \<Longrightarrow> i < unat n \<Longrightarrow> \<exists>s'. wr8 s p i b = Some s'"
  by (fastforce simp: mem_xlate_def vm_ok_def dest: region_wr_wf split: option.splits)

lemma wr8_W:
  assumes "wr8 s (WPtr off) i b = Some s'"
  obtains r where "region_wr (writable s) (off + i) b = Some r" "s' = s\<lparr>writable := r\<rparr>"
  using assms by auto

lemma vm_ok_wr8 [wf_intros]: "wr8 s (WPtr off) i b = Some s' \<Longrightarrow> vm_ok s \<Longrightarrow> vm_ok s'"
  by (auto simp: vm_ok_def intro: wf_region_wr)

lemma wr8_frame:
  "wr8 s (WPtr off) i b = Some s' \<Longrightarrow>
     readonly s' = readonly s \<and> regs s' = regs s \<and> pc s' = pc s \<and> inst s' = inst s
     \<and> world s' = world s"
  by auto

lemma mem_xlate_wr8: "wr8 s (WPtr off) i b = Some s' \<Longrightarrow> mem_xlate s' a n w = mem_xlate s a n w"
  by (auto simp: mem_xlate_def region_at_wr split: option.splits)

section \<open>Initialisation\<close>

text \<open>
  \<open>default_callback\<close> delivers zero; \<open>RiscvEmulatorInit\<close> zeroes the state, installs the regions
  and the default callback, and sets \<open>sp\<close> (\<open>x2\<close>) to \<open>RISCV_HALF\<close>. The host's own globals are
  not part of the C struct and are passed through.
\<close>

definition default_callback :: "'w mem_fn" where
  "default_callback s op addr value = (0, s)"

definition riscv_init :: "region \<Rightarrow> region \<Rightarrow> 'w \<Rightarrow> 'w vm" where
  "riscv_init ro rw w =
     \<lparr>pc = 0, inst = 0, regs = (\<lambda>_. 0)(2 := RISCV_HALF), readonly = ro, writable = rw, world = w\<rparr>"

definition init_hooks :: "'w hooks" where
  "init_hooks =
     \<lparr>h_ecall = None, h_ebreak = None, h_illegal = None, h_callback = Some default_callback\<rparr>"

lemma vm_ok_init [wf_intros]: "wf_region ro \<Longrightarrow> wf_region rw \<Longrightarrow> vm_ok (riscv_init ro rw w)"
  by (simp add: vm_ok_def riscv_init_def)

end
