(* ===== verification/Alu.thy ===== *)
theory Alu
  imports Prelude
begin

text \<open>
  The arithmetic of RV32IM as the engines write it in C: the shared action bodies \<open>alu:\<close> and
  \<open>mul:\<close> of \<open>RiscvEmulatorLoop\<close> in \<open>emu/purv.c\<close>, and the M extension as the RISC-V manual
  defines it on integers, against which the C expressions are proved.
\<close>

section \<open>The C bodies\<close>

definition alu :: "u32 \<Rightarrow> u32 \<Rightarrow> u32 \<Rightarrow> u32 \<Rightarrow> u32" where
  "alu f3 f7 a b =
     (if f3 = 0 then (if f7 = 0x20 then a - b else a + b)
      else if f3 = 1 then push_bit (unat (b AND 31)) a
      else if f3 = 2 then (if sint a < sint b then 1 else 0)
      else if f3 = 3 then (if a < b then 1 else 0)
      else if f3 = 4 then a XOR b
      else if f3 = 5 then
        (if f7 = 0x20 then signed_drop_bit (unat (b AND 31)) a else drop_bit (unat (b AND 31)) a)
      else if f3 = 6 then a OR b
      else a AND b)"

text \<open>
  The 64-bit products: \<open>((int64_t)(int32_t)a * (int32_t)b) >> 32\<close>,
  \<open>((int64_t)((uint64_t)(int32_t)a * b)) >> 32\<close> and \<open>((uint64_t)a * b) >> 32\<close>, each cast back to
  \<open>uint32_t\<close>.
\<close>

definition c_mulh :: "u32 \<Rightarrow> u32 \<Rightarrow> u32" where
  "c_mulh a b = ucast (signed_drop_bit 32 (scast a * scast b :: u64))"

definition c_mulhsu :: "u32 \<Rightarrow> u32 \<Rightarrow> u32" where
  "c_mulhsu a b = ucast (signed_drop_bit 32 (scast a * ucast b :: u64))"

definition c_mulhu :: "u32 \<Rightarrow> u32 \<Rightarrow> u32" where
  "c_mulhu a b = ucast (drop_bit 32 (ucast a * ucast b :: u64))"

text \<open>
  C's signed \<open>/\<close> and \<open>%\<close> truncate towards zero (\<open>sdiv\<close> and \<open>smod\<close>); the guards keep them away
  from a zero divisor and from the one overflowing quotient.
\<close>

definition c_div :: "u32 \<Rightarrow> u32 \<Rightarrow> u32" where
  "c_div a b =
     (if b = 0 then 0xffffffff
      else if a = 0x80000000 \<and> sint b = -1 then a
      else word_of_int (sint a sdiv sint b))"

definition c_divu :: "u32 \<Rightarrow> u32 \<Rightarrow> u32" where
  "c_divu a b = (if b = 0 then 0xffffffff else a div b)"

definition c_rem :: "u32 \<Rightarrow> u32 \<Rightarrow> u32" where
  "c_rem a b =
     (if b = 0 then a
      else if a = 0x80000000 \<and> sint b = -1 then 0
      else word_of_int (sint a smod sint b))"

definition c_remu :: "u32 \<Rightarrow> u32 \<Rightarrow> u32" where
  "c_remu a b = (if b = 0 then a else a mod b)"

definition mul_op :: "u32 \<Rightarrow> u32 \<Rightarrow> u32 \<Rightarrow> u32" where
  "mul_op f3 a b =
     (if f3 = 0 then a * b
      else if f3 = 1 then c_mulh a b
      else if f3 = 2 then c_mulhsu a b
      else if f3 = 3 then c_mulhu a b
      else if f3 = 4 then c_div a b
      else if f3 = 5 then c_divu a b
      else if f3 = 6 then c_rem a b
      else c_remu a b)"

section \<open>The M extension on integers\<close>

text \<open>
  The RISC-V manual: the upper products are bits 63..32 of the infinitely precise product of the
  operands read as signed or unsigned; division truncates towards zero, a zero divisor gives
  all ones (quotient) or the dividend (remainder), and the overflowing signed division gives
  the dividend and remainder zero.
\<close>

definition rv32m :: "u32 \<Rightarrow> u32 \<Rightarrow> u32 \<Rightarrow> u32" where
  "rv32m f3 a b =
     (if f3 = 0 then word_of_int (sint a * sint b)
      else if f3 = 1 then word_of_int (sint a * sint b div 2 ^ 32)
      else if f3 = 2 then word_of_int (sint a * uint b div 2 ^ 32)
      else if f3 = 3 then word_of_int (uint a * uint b div 2 ^ 32)
      else if f3 = 4 then (if b = 0 then -1 else word_of_int (sint a sdiv sint b))
      else if f3 = 5 then (if b = 0 then -1 else word_of_int (uint a div uint b))
      else if f3 = 6 then (if b = 0 then a else word_of_int (sint a smod sint b))
      else (if b = 0 then a else word_of_int (uint a mod uint b)))"

lemma upper_half:
  "ucast (signed_drop_bit 32 (word_of_int i :: u64)) = (word_of_int (i div 2 ^ 32) :: u32)"
proof -
  have "i div 2 ^ 32 = drop_bit 32 i" by (simp add: drop_bit_eq_div)
  then show ?thesis
    by (simp only:) (rule bit_word_eqI, auto simp: bit_simps)
qed

lemma upper_half_u:
  "ucast (drop_bit 32 (word_of_int i :: u64)) = (word_of_int (i div 2 ^ 32) :: u32)"
proof -
  have "i div 2 ^ 32 = drop_bit 32 i" by (simp add: drop_bit_eq_div)
  then show ?thesis
    by (simp only:) (rule bit_word_eqI, auto simp: bit_simps)
qed

lemma scast_64: "(scast (a :: u32) :: u64) = word_of_int (sint a)"
  by simp

lemma ucast_64: "(ucast (a :: u32) :: u64) = word_of_int (uint a)"
  by simp

lemma c_mulh_spec: "c_mulh a b = word_of_int (sint a * sint b div 2 ^ 32)"
  unfolding c_mulh_def scast_64 wi_hom_mult upper_half ..

lemma c_mulhsu_spec: "c_mulhsu a b = word_of_int (sint a * uint b div 2 ^ 32)"
  unfolding c_mulhsu_def scast_64 ucast_64 wi_hom_mult upper_half ..

lemma c_mulhu_spec: "c_mulhu a b = word_of_int (uint a * uint b div 2 ^ 32)"
  unfolding c_mulhu_def ucast_64 wi_hom_mult upper_half_u ..

lemma sint_min: "sint (0x80000000 :: u32) = - 2147483648"
  by simp

lemma c_div_spec: "b \<noteq> 0 \<Longrightarrow> c_div a b = word_of_int (sint a sdiv sint b)"
  by (auto simp: c_div_def signed_divide_int_def)

lemma c_rem_spec: "b \<noteq> 0 \<Longrightarrow> c_rem a b = word_of_int (sint a smod sint b)"
  by (auto simp: c_rem_def signed_modulo_int_def signed_divide_int_def)

lemma c_div_0 [simp]: "c_div a 0 = -1" "c_rem a 0 = a"
  by (simp_all add: c_div_def c_rem_def)

lemma mul_op_rv32m: "mul_op f3 a b = rv32m f3 a b"
proof -
  have m: "a * b = word_of_int (sint a * sint b)"
    by (simp flip: wi_hom_mult)
  show ?thesis
    unfolding mul_op_def rv32m_def m c_mulh_spec c_mulhsu_spec c_mulhu_spec
    by (cases "b = 0")
      (simp_all add: c_div_spec c_rem_spec c_divu_def c_remu_def word_div_def word_mod_def)
qed

text \<open>Quotient and remainder belong together, at a zero divisor and on overflow too.\<close>

lemma c_div_rem: "c_div a b * b + c_rem a b = a"
proof (cases "b = 0")
  case True
  then show ?thesis by (simp add: c_rem_def)
next
  case False
  have "word_of_int (sint a sdiv sint b * sint b + sint a smod sint b) = a"
    by (simp add: sdiv_mult_smod_eq)
  then have "word_of_int (sint a sdiv sint b) * b + word_of_int (sint a smod sint b) = a"
    by (simp add: wi_hom_mult [symmetric] wi_hom_add [symmetric])
  with False show ?thesis by (simp add: c_div_spec c_rem_spec)
qed

lemma c_divu_remu: "c_divu a b * b + c_remu a b = a"
  by (cases "b = 0") (simp_all add: c_divu_def c_remu_def div_mult_mod_eq)

section \<open>Properties\<close>

text \<open>
  C36: the M extension is the RISC-V one. The eight \<open>mul:\<close> cases, written in C with 64-bit
  products and guarded truncating division, compute what the manual defines on integers: upper
  halves of the exact products, quotients rounded towards zero, all ones for a zero divisor and
  no trap on the one overflowing quotient.
\<close>

theorem mul_op_is_rv32m: "mul_op f3 a b = rv32m f3 a b"
  by (rule mul_op_rv32m)

text \<open>
  Quotient and remainder belong together for every pair of operands, signed and unsigned, at
  a zero divisor and at \<open>-2^31 / -1\<close> too: \<open>(a / b) * b + a % b = a\<close> in 32-bit arithmetic.
\<close>

theorem division_identity:
  "mul_op 4 a b * b + mul_op 6 a b = a \<and> mul_op 5 a b * b + mul_op 7 a b = a"
  using c_div_rem c_divu_remu by (simp add: mul_op_def)

end
