(* ===== verification/Purv_Decode.thy ===== *)
theory Purv_Decode
  imports Vm Alu
begin

text \<open>
  Fetch and decode of \<open>emu/purv.c\<close>. Each opcode arm of \<open>RiscvEmulatorLoop\<close> reads its operands
  into locals and jumps to a shared action body; here it returns an \<open>action\<close>, whose
  constructor is the label of the body and whose arguments are the locals that body reads.
\<close>

section \<open>Instruction fetch\<close>

text \<open>
  A read of \<open>code[i]\<close>; \<open>None\<close> is a read outside the fetch buffer. The index is a \<open>uint32_t\<close>
  expression and wraps as one.
\<close>

definition code_at :: "u8 list \<Rightarrow> u32 \<Rightarrow> u8 option" where
  "code_at code i = (if unat i < length code then Some (code ! unat i) else None)"

text \<open>The raw instruction at \<open>off\<close> and its width: low bits 11 mark a 32-bit encoding.\<close>

definition fetch :: "u8 list \<Rightarrow> u32 \<Rightarrow> (u32 \<times> u32) option" where
  "fetch code off = do {
     b0 \<leftarrow> code_at code off;
     b1 \<leftarrow> code_at code (off + 1);
     let lo = le16 b0 b1;
     if lo AND 3 = 3 then do {
       b2 \<leftarrow> code_at code (off + 2);
       b3 \<leftarrow> code_at code (off + 3);
       Some (lo OR push_bit 16 (le16 b2 b3), 4)
     } else Some (lo, 2)
   }"

section \<open>Fields and immediates\<close>

text \<open>A 5-bit register field at bit \<open>n\<close>: \<open>(w >> n) & 31\<close>.\<close>

definition rfield :: "nat \<Rightarrow> u32 \<Rightarrow> reg" where
  "rfield n w = ucast (drop_bit n w)"

text \<open>A 3-bit compressed register field: \<open>((c >> n) & 7) + 8\<close>.\<close>

definition rfieldc :: "nat \<Rightarrow> u32 \<Rightarrow> reg" where
  "rfieldc n c = ucast (drop_bit n c AND 7) + 8"

definition f3_of :: "u32 \<Rightarrow> u32" where
  "f3_of w = drop_bit 12 w AND 7"

lemma f3_cases:
  "f3_of w = 0 \<or> f3_of w = 1 \<or> f3_of w = 2 \<or> f3_of w = 3 \<or>
   f3_of w = 4 \<or> f3_of w = 5 \<or> f3_of w = 6 \<or> f3_of w = 7"
proof -
  have "f3_of w \<le> 7" unfolding f3_of_def by (rule word_and_le1)
  then have "unat (f3_of w) \<le> 7" by (simp add: word_le_nat_alt)
  then have "unat (f3_of w) \<in> {0, 1, 2, 3, 4, 5, 6, 7}" by auto
  then show ?thesis by (auto dest!: arg_cong [where f = "of_nat :: nat \<Rightarrow> u32"])
qed

definition f7_of :: "u32 \<Rightarrow> u32" where
  "f7_of w = drop_bit 25 w"

definition imm_I :: "u32 \<Rightarrow> u32" where
  "imm_I w = signed_drop_bit 20 w"

definition imm_S :: "u32 \<Rightarrow> u32" where
  "imm_S w = push_bit 5 (signed_drop_bit 25 w) OR (drop_bit 7 w AND 0x1f)"

definition imm_B :: "u32 \<Rightarrow> u32" where
  "imm_B w = sext (push_bit 12 (drop_bit 31 w AND 1) OR push_bit 11 (drop_bit 7 w AND 1) OR
                   push_bit 5 (drop_bit 25 w AND 0x3f) OR push_bit 1 (drop_bit 8 w AND 0xf)) 13"

definition imm_J :: "u32 \<Rightarrow> u32" where
  "imm_J w = sext (push_bit 20 (drop_bit 31 w AND 1) OR push_bit 12 (drop_bit 12 w AND 0xff) OR
                   push_bit 11 (drop_bit 20 w AND 1) OR push_bit 1 (drop_bit 21 w AND 0x3ff)) 21"

definition imm_U :: "u32 \<Rightarrow> u32" where
  "imm_U w = w AND 0xfffff000"

definition imm_sys :: "u32 \<Rightarrow> u32" where
  "imm_sys w = drop_bit 20 w AND 0xfff"

text \<open>The compressed immediates, in the order of the arms that use them.\<close>

definition c_shamt :: "u32 \<Rightarrow> u32" where
  "c_shamt c = (drop_bit 2 c AND 0x1f) OR push_bit 5 (drop_bit 12 c AND 1)"

definition c_ci :: "u32 \<Rightarrow> u32" where
  "c_ci c = sext (c_shamt c) 6"

definition c_addi4spn :: "u32 \<Rightarrow> u32" where
  "c_addi4spn c = push_bit 4 (drop_bit 11 c AND 3) OR push_bit 6 (drop_bit 7 c AND 0xf) OR
                  push_bit 2 (drop_bit 6 c AND 1) OR push_bit 3 (drop_bit 5 c AND 1)"

definition c_lw_imm :: "u32 \<Rightarrow> u32" where
  "c_lw_imm c = push_bit 3 (drop_bit 10 c AND 7) OR push_bit 2 (drop_bit 6 c AND 1) OR
                push_bit 6 (drop_bit 5 c AND 1)"

definition c_cj :: "u32 \<Rightarrow> u32" where
  "c_cj c = sext (push_bit 11 (drop_bit 12 c AND 1) OR push_bit 4 (drop_bit 11 c AND 1) OR
                  push_bit 8 (drop_bit 9 c AND 3) OR push_bit 10 (drop_bit 8 c AND 1) OR
                  push_bit 6 (drop_bit 7 c AND 1) OR push_bit 7 (drop_bit 6 c AND 1) OR
                  push_bit 1 (drop_bit 3 c AND 7) OR push_bit 5 (drop_bit 2 c AND 1)) 12"

definition c_addi16sp :: "u32 \<Rightarrow> u32" where
  "c_addi16sp c = sext (push_bit 4 (drop_bit 6 c AND 1) OR push_bit 5 (drop_bit 2 c AND 1) OR
                        push_bit 6 (drop_bit 5 c AND 1) OR push_bit 7 (drop_bit 3 c AND 3) OR
                        push_bit 9 (drop_bit 12 c AND 1)) 10"

definition c_lui_imm :: "u32 \<Rightarrow> u32" where
  "c_lui_imm c = sext (push_bit 12 (drop_bit 2 c AND 0x1f) OR push_bit 17 (drop_bit 12 c AND 1)) 18"

definition c_cb :: "u32 \<Rightarrow> u32" where
  "c_cb c = sext (push_bit 8 (drop_bit 12 c AND 1) OR push_bit 3 (drop_bit 10 c AND 3) OR
                  push_bit 6 (drop_bit 5 c AND 3) OR push_bit 1 (drop_bit 3 c AND 3) OR
                  push_bit 5 (drop_bit 2 c AND 1)) 9"

definition c_lwsp_imm :: "u32 \<Rightarrow> u32" where
  "c_lwsp_imm c = push_bit 2 (drop_bit 4 c AND 7) OR push_bit 6 (drop_bit 2 c AND 3) OR
                  push_bit 5 (drop_bit 12 c AND 1)"

definition c_swsp_imm :: "u32 \<Rightarrow> u32" where
  "c_swsp_imm c = push_bit 2 (drop_bit 9 c AND 0xf) OR push_bit 6 (drop_bit 7 c AND 3)"

section \<open>Decode\<close>

datatype action =
    A_alu u32 u32 u32 u32 reg       \<comment> \<open>f3 f7 a b rd\<close>
  | A_mul u32 u32 u32 reg           \<comment> \<open>f3 a b rd\<close>
  | A_load u32 u32 u32 reg          \<comment> \<open>f3 a imm rd\<close>
  | A_store u32 u32 u32 u32         \<comment> \<open>f3 a b imm\<close>
  | A_branch u32 u32 u32 u32        \<comment> \<open>f3 a b imm\<close>
  | A_jal u32 reg                   \<comment> \<open>imm rd\<close>
  | A_jalr u32 u32 reg              \<comment> \<open>a imm rd\<close>
  | A_lui u32 reg                   \<comment> \<open>imm rd\<close>
  | A_auipc u32 reg                 \<comment> \<open>imm rd\<close>
  | A_ebreak
  | A_system u32 reg reg u32        \<comment> \<open>f3 rd rs1 imm\<close>
  | A_illegal
  | A_done

text \<open>The 32-bit encodings: \<open>switch (w & 0x7f)\<close>.\<close>

definition decode32 :: "(reg \<Rightarrow> u32) \<Rightarrow> u32 \<Rightarrow> action" where
  "decode32 x w =
     (let rd = rfield 7 w; rs1 = rfield 15 w; rs2 = rfield 20 w;
          f3 = f3_of w; f7 = f7_of w; opc = w AND 0x7f
      in if opc = 0x13 then
           (if f3 = 1 \<or> f3 = 5 then A_alu f3 f7 (x rs1) (drop_bit 20 w AND 31) rd
            else A_alu f3 0 (x rs1) (imm_I w) rd)
         else if opc = 0x33 then
           (if f7 = 1 then A_mul f3 (x rs1) (x rs2) rd else A_alu f3 f7 (x rs1) (x rs2) rd)
         else if opc = 0x03 then A_load f3 (x rs1) (imm_I w) rd
         else if opc = 0x23 then A_store f3 (x rs1) (x rs2) (imm_S w)
         else if opc = 0x63 then A_branch f3 (x rs1) (x rs2) (imm_B w)
         else if opc = 0x6f then A_jal (imm_J w) rd
         else if opc = 0x67 then A_jalr (x rs1) (imm_I w) rd
         else if opc = 0x37 then A_lui (imm_U w) rd
         else if opc = 0x17 then A_auipc (imm_U w) rd
         else if opc = 0x0f then
           (if rd \<noteq> 0 \<or> rs1 \<noteq> 0 \<or> (f3 \<noteq> 0 \<and> f3 \<noteq> 1) then A_illegal else A_done)
         else if opc = 0x73 then A_system f3 rd rs1 (imm_sys w)
         else A_illegal)"

text \<open>
  The compressed encodings: \<open>switch (((c >> 13) & 7) << 2 | (c & 3))\<close>. An operand local the arm
  does not set keeps its initial 0.
\<close>

definition c_sel :: "u32 \<Rightarrow> u32" where
  "c_sel c = push_bit 2 (drop_bit 13 c AND 7) OR (c AND 3)"

definition decode16_misc_alu :: "(reg \<Rightarrow> u32) \<Rightarrow> u32 \<Rightarrow> action" where
  "decode16_misc_alu x c =
     (let rdp = rfieldc 2 c; rsp = rfieldc 7 c; a = x rsp; k = drop_bit 10 c AND 3
      in if k = 0 then A_alu 5 0 a (c_shamt c) rsp
         else if k = 1 then A_alu 5 0x20 a (c_shamt c) rsp
         else if k = 2 then A_alu 7 0 a (c_ci c) rsp
         else if drop_bit 12 c AND 1 \<noteq> 0 then A_illegal
         else (let b = x rdp; j = drop_bit 5 c AND 3
               in if j = 0 then A_alu 0 0x20 a b rsp
                  else if j = 1 then A_alu 4 0 a b rsp
                  else if j = 2 then A_alu 6 0 a b rsp
                  else A_alu 7 0 a b rsp))"

definition decode16_cr :: "(reg \<Rightarrow> u32) \<Rightarrow> u32 \<Rightarrow> action" where
  "decode16_cr x c =
     (let rd = rfield 7 c; rs2 = rfield 2 c
      in if drop_bit 12 c AND 1 = 0 then
           (if rs2 = 0 then A_jalr (x rd) 0 0 else A_alu 0 0 0 (x rs2) rd)
         else if rd = 0 \<and> rs2 = 0 then A_ebreak
         else if rs2 = 0 then A_jalr (x rd) 0 1
         else A_alu 0 0 (x rd) (x rs2) rd)"

definition decode16 :: "(reg \<Rightarrow> u32) \<Rightarrow> u32 \<Rightarrow> action" where
  "decode16 x c =
     (let rd = rfield 7 c; rdp = rfieldc 2 c; rsp = rfieldc 7 c; sel = c_sel c
      in if sel = 0 then
           (if c_addi4spn c = 0 then A_illegal else A_alu 0 0 (x 2) (c_addi4spn c) rdp)
         else if sel = 8 then A_load 2 (x rsp) (c_lw_imm c) rdp
         else if sel = 24 then A_store 2 (x rsp) (x rdp) (c_lw_imm c)
         else if sel = 1 then A_alu 0 0 (x rd) (c_ci c) rd
         else if sel = 5 then A_jal (c_cj c) 1
         else if sel = 21 then A_jal (c_cj c) 0
         else if sel = 9 then A_alu 0 0 0 (c_ci c) rd
         else if sel = 13 then
           (if rd = 2 then
              (if c_addi16sp c = 0 then A_illegal else A_alu 0 0 (x 2) (c_addi16sp c) rd)
            else if c_lui_imm c = 0 then A_illegal else A_lui (c_lui_imm c) rd)
         else if sel = 17 then decode16_misc_alu x c
         else if sel = 25 then A_branch 0 (x rsp) 0 (c_cb c)
         else if sel = 29 then A_branch 1 (x rsp) 0 (c_cb c)
         else if sel = 2 then A_alu 1 0 (x rd) (c_shamt c) rd
         else if sel = 10 then A_load 2 (x 2) (c_lwsp_imm c) rd
         else if sel = 18 then decode16_cr x c
         else if sel = 26 then A_store 2 (x 2) (x (rfield 2 c)) (c_swsp_imm c)
         else A_illegal)"

text \<open>Decode by width, as the \<open>(lo & 3) == 3\<close> test of the loop body selects.\<close>

definition decode :: "(reg \<Rightarrow> u32) \<Rightarrow> u32 \<Rightarrow> u32 \<Rightarrow> action" where
  "decode x w width = (if width = 4 then decode32 x w else decode16 x w)"

section \<open>Facts about fetch\<close>

lemma code_at_Some: "unat i < length code \<Longrightarrow> code_at code i = Some (code ! unat i)"
  by (simp add: code_at_def)

lemma fetch_width: "fetch code off = Some (w, width) \<Longrightarrow> width = 2 \<or> width = 4"
  by (auto simp: fetch_def Let_def bind_eq_Some_conv split: if_splits)

lemma unat_add_small:
  "unat (off :: u32) + k < 4294967296 \<Longrightarrow> unat (off + of_nat k) = unat off + k"
  by (simp add: unat_word_ariths unat_of_nat)

lemma code_at_next:
  assumes "unat off + k < length code" "length code \<le> 4294967295"
  shows "code_at code (off + of_nat k) = Some (code ! (unat off + k))"
  using assms unat_add_small [of off k] by (simp add: code_at_def)

text \<open>
  A fetch stays inside the buffer when four bytes are left, or when two are left and the low
  half word is a compressed encoding.
\<close>

lemma fetch_some_compressed:
  assumes "unat off + 1 < length code" "length code \<le> 4294967295"
    and "le16 (code ! unat off) (code ! (unat off + 1)) AND 3 \<noteq> 3"
  shows "fetch code off = Some (le16 (code ! unat off) (code ! (unat off + 1)), 2)"
  using assms code_at_next [of off 0 code] code_at_next [of off 1 code]
  by (simp add: fetch_def Let_def)

lemma fetch_some_wide:
  assumes "unat off + 3 < length code" "length code \<le> 4294967295"
    and "le16 (code ! unat off) (code ! (unat off + 1)) AND 3 = 3"
  shows "fetch code off =
     Some (le16 (code ! unat off) (code ! (unat off + 1)) OR
           push_bit 16 (le16 (code ! (unat off + 2)) (code ! (unat off + 3))), 4)"
  using assms code_at_next [of off 0 code] code_at_next [of off 1 code]
    code_at_next [of off 2 code] code_at_next [of off 3 code]
  by (simp add: fetch_def Let_def)

lemma fetch_some:
  assumes "unat off + 3 < length code" "length code \<le> 4294967295"
  shows "\<exists>w width. fetch code off = Some (w, width)"
  using assms fetch_some_wide [of off code] fetch_some_compressed [of off code]
  by (cases "le16 (code ! unat off) (code ! (unat off + 1)) AND 3 = 3") auto

lemma fetch_in_bounds:
  assumes "fetch code off = Some (w, width)"
  shows "unat off < length code"
  using assms by (auto simp: fetch_def code_at_def bind_eq_Some_conv split: if_splits)

end
