(* ===== verification/Purv.thy ===== *)
theory Purv
  imports Purv_Decode
begin

text \<open>
  The fused interpreter of \<open>emu/purv.c\<close>: the shared action bodies and the two nested loops of
  \<open>RiscvEmulatorLoop\<close>. An access outside a host buffer is the result \<open>None\<close>.
\<close>

section \<open>Action bodies\<close>

text \<open>
  Where an action body goes next: \<open>done:\<close> (advance past the instruction and stay in the
  window), a taken transfer (assign pc and leave the window), or \<open>out:\<close>.
\<close>

datatype ctl = C_done | C_goto u32 | C_out

text \<open>The trap paths write \<open>pc\<close> and \<open>inst\<close> to the state, then call the handler.\<close>

definition exec_illegal :: "'w hooks \<Rightarrow> u32 \<Rightarrow> u32 \<Rightarrow> 'w vm \<Rightarrow> 'w vm \<times> ctl" where
  "exec_illegal hk p w s =
     (let s1 = s\<lparr>pc := p, inst := w\<rparr>
      in case h_illegal hk of
           None \<Rightarrow> (s1, C_out)
         | Some f \<Rightarrow> (case f s1 of (stop, s2) \<Rightarrow> (s2, if stop then C_out else C_done)))"

definition exec_ebreak :: "'w hooks \<Rightarrow> u32 \<Rightarrow> u32 \<Rightarrow> 'w vm \<Rightarrow> 'w vm \<times> ctl" where
  "exec_ebreak hk p w s =
     (let s1 = s\<lparr>pc := p, inst := w\<rparr>
      in case h_ebreak hk of
           None \<Rightarrow> (s1, C_out)
         | Some f \<Rightarrow> (case f s1 of (stop, s2) \<Rightarrow> (s2, if stop then C_out else C_done)))"

definition exec_ecall :: "'w hooks \<Rightarrow> u32 \<Rightarrow> u32 \<Rightarrow> 'w vm \<Rightarrow> 'w vm \<times> ctl" where
  "exec_ecall hk p w s =
     (let s1 = s\<lparr>pc := p, inst := w\<rparr>
      in case h_ecall hk of
           None \<Rightarrow> (s1, C_done)
         | Some f \<Rightarrow> (case f s1 of (stop, s2) \<Rightarrow> (s2, if stop then C_out else C_done)))"

definition exec_system ::
  "'w hooks \<Rightarrow> u32 \<Rightarrow> reg \<Rightarrow> reg \<Rightarrow> u32 \<Rightarrow> u32 \<Rightarrow> u32 \<Rightarrow> 'w vm \<Rightarrow> 'w vm \<times> ctl" where
  "exec_system hk f3 rd rs1 imm p w s =
     (if f3 = 0 \<and> rd = 0 \<and> rs1 = 0 then
        (if imm = 0 then exec_ecall hk p w s
         else if imm = 1 then exec_ebreak hk p w s
         else exec_illegal hk p w s)
      else exec_illegal hk p w s)"

text \<open>A load that hit a region: the bytes read per width, extended per \<open>funct3\<close>.\<close>

definition load_hit :: "'w vm \<Rightarrow> hptr \<Rightarrow> u32 \<Rightarrow> u32 option" where
  "load_hit s p f3 =
     (if f3 = 0 then do { b0 \<leftarrow> rd8 s p 0; Some (scast b0) }
      else if f3 = 1 then do {
        b0 \<leftarrow> rd8 s p 0; b1 \<leftarrow> rd8 s p 1; Some (scast (ucast (le16 b0 b1) :: u16)) }
      else if f3 = 2 then do {
        b0 \<leftarrow> rd8 s p 0; b1 \<leftarrow> rd8 s p 1; b2 \<leftarrow> rd8 s p 2; b3 \<leftarrow> rd8 s p 3;
        Some (le32 b0 b1 b2 b3) }
      else if f3 = 4 then do { b0 \<leftarrow> rd8 s p 0; Some (ucast b0) }
      else do { b0 \<leftarrow> rd8 s p 0; b1 \<leftarrow> rd8 s p 1; Some (le16 b0 b1) })"

text \<open>A load that missed: the callback's word, narrowed and extended (0 without a callback).\<close>

definition load_miss :: "'w hooks \<Rightarrow> 'w vm \<Rightarrow> u32 \<Rightarrow> u32 \<Rightarrow> nat \<Rightarrow> u32 \<times> 'w vm" where
  "load_miss hk s f3 addr n =
     (let (v, s') = (case h_callback hk of
                       None \<Rightarrow> (0, s) | Some cb \<Rightarrow> cb s RISCV_MEM_LOAD addr 0)
      in (if f3 AND 4 \<noteq> 0 then (if n = 4 then v else v AND (push_bit (8 * n) 1 - 1))
          else sext v (8 * n), s'))"

definition exec_load ::
  "'w hooks \<Rightarrow> u32 \<Rightarrow> u32 \<Rightarrow> u32 \<Rightarrow> reg \<Rightarrow> u32 \<Rightarrow> u32 \<Rightarrow> 'w vm \<Rightarrow> ('w vm \<times> ctl) option" where
  "exec_load hk f3 a imm rd p w s =
     (if f3 = 3 \<or> f3 > 5 then Some (exec_illegal hk p w s)
      else let addr = a + imm; n = push_bit (unat (f3 AND 3)) 1
        in if rd \<noteq> 0 then
             (case mem_xlate s addr n False of
                Some q \<Rightarrow> do { v \<leftarrow> load_hit s q f3; Some (wr s rd v, C_done) }
              | None \<Rightarrow> (case load_miss hk s f3 addr (unat n) of
                           (v, s') \<Rightarrow> Some (wr s' rd v, C_done)))
           else Some (s, C_done))"

definition store_hit :: "'w vm \<Rightarrow> hptr \<Rightarrow> u32 \<Rightarrow> u32 \<Rightarrow> 'w vm option" where
  "store_hit s p f3 b =
     (if f3 = 0 then wr8 s p 0 (byte_of 0 b)
      else if f3 = 1 then do { s1 \<leftarrow> wr8 s p 0 (byte_of 0 b); wr8 s1 p 1 (byte_of 1 b) }
      else do {
        s1 \<leftarrow> wr8 s p 0 (byte_of 0 b); s2 \<leftarrow> wr8 s1 p 1 (byte_of 1 b);
        s3 \<leftarrow> wr8 s2 p 2 (byte_of 2 b); wr8 s3 p 3 (byte_of 3 b) })"

definition store_miss :: "'w hooks \<Rightarrow> 'w vm \<Rightarrow> u32 \<Rightarrow> u32 \<Rightarrow> 'w vm" where
  "store_miss hk s addr b =
     (case h_callback hk of
        None \<Rightarrow> s | Some cb \<Rightarrow> snd (cb s RISCV_MEM_STORE addr b))"

definition exec_store ::
  "'w hooks \<Rightarrow> u32 \<Rightarrow> u32 \<Rightarrow> u32 \<Rightarrow> u32 \<Rightarrow> u32 \<Rightarrow> u32 \<Rightarrow> 'w vm \<Rightarrow> ('w vm \<times> ctl) option" where
  "exec_store hk f3 a b imm p w s =
     (if f3 > 2 then Some (exec_illegal hk p w s)
      else let addr = a + imm; n = push_bit (unat f3) 1
        in case mem_xlate s addr n True of
             Some q \<Rightarrow> do { s' \<leftarrow> store_hit s q f3 b; Some (s', C_done) }
           | None \<Rightarrow> Some (store_miss hk s addr b, C_done))"

text \<open>The branch conditions; \<open>None\<close> for the two reserved \<open>funct3\<close> values (\<open>goto illegal\<close>).\<close>

definition branch_take :: "u32 \<Rightarrow> u32 \<Rightarrow> u32 \<Rightarrow> bool option" where
  "branch_take f3 a b =
     (if f3 = 0 then Some (a = b)
      else if f3 = 1 then Some (a \<noteq> b)
      else if f3 = 4 then Some (sint a < sint b)
      else if f3 = 5 then Some (sint a \<ge> sint b)
      else if f3 = 6 then Some (a < b)
      else if f3 = 7 then Some (a \<ge> b)
      else None)"

text \<open>
  One instruction: \<open>p\<close> is its address (the local \<open>pc\<close>), \<open>w\<close> its raw word and \<open>width\<close> its length.
\<close>

fun exec_action ::
  "'w hooks \<Rightarrow> action \<Rightarrow> u32 \<Rightarrow> u32 \<Rightarrow> u32 \<Rightarrow> 'w vm \<Rightarrow> ('w vm \<times> ctl) option" where
  "exec_action hk (A_alu f3 f7 a b rd) p w width s = Some (wr s rd (alu f3 f7 a b), C_done)"
| "exec_action hk (A_mul f3 a b rd) p w width s = Some (wr s rd (mul_op f3 a b), C_done)"
| "exec_action hk (A_load f3 a imm rd) p w width s = exec_load hk f3 a imm rd p w s"
| "exec_action hk (A_store f3 a b imm) p w width s = exec_store hk f3 a b imm p w s"
| "exec_action hk (A_branch f3 a b imm) p w width s =
     (case branch_take f3 a b of
        None \<Rightarrow> Some (exec_illegal hk p w s)
      | Some tk \<Rightarrow> Some (s, if tk then C_goto (p + imm) else C_done))"
| "exec_action hk (A_jal imm rd) p w width s = Some (wr s rd (p + width), C_goto (p + imm))"
| "exec_action hk (A_jalr a imm rd) p w width s =
     Some (wr s rd (p + width), C_goto ((a + imm) AND NOT 1))"
| "exec_action hk (A_lui imm rd) p w width s = Some (wr s rd imm, C_done)"
| "exec_action hk (A_auipc imm rd) p w width s = Some (wr s rd (p + imm), C_done)"
| "exec_action hk A_ebreak p w width s = Some (exec_ebreak hk p w s)"
| "exec_action hk (A_system f3 rd rs1 imm) p w width s = Some (exec_system hk f3 rd rs1 imm p w s)"
| "exec_action hk A_illegal p w width s = Some (exec_illegal hk p w s)"
| "exec_action hk A_done p w width s = Some (s, C_done)"

section \<open>The run loop\<close>

text \<open>
  The inner loop, \<open>for (i = 0; i < safe && k < max; i++)\<close>: \<open>left\<close> is \<open>safe - i\<close>. The result is the
  state, the instruction count, the local pc, and whether \<open>out:\<close> was reached.
\<close>

fun window ::
  "'w hooks \<Rightarrow> u8 list \<Rightarrow> nat \<Rightarrow> nat \<Rightarrow> nat \<Rightarrow> u32 \<Rightarrow> 'w vm
     \<Rightarrow> ('w vm \<times> nat \<times> u32 \<times> bool) option" where
  "window hk code mx 0 k p s = Some (s, k, p, False)"
| "window hk code mx (Suc left) k p s =
     (if k < mx then
        (case fetch code p of
           None \<Rightarrow> None
         | Some (w, width) \<Rightarrow>
             (case exec_action hk (decode (regs s) w width) p w width s of
                None \<Rightarrow> None
              | Some (s', C_done) \<Rightarrow> window hk code mx left (Suc k) (p + width) s'
              | Some (s', C_goto t) \<Rightarrow> Some (s', Suc k, t, False)
              | Some (s', C_out) \<Rightarrow> Some (s', Suc k, p, True)))
      else Some (s, k, p, False))"

text \<open>
  The head of the outer loop: \<open>Some None\<close> is its \<open>break\<close>, \<open>Some (Some safe)\<close> the size of the next
  window, and \<open>None\<close> a read outside the buffer by the tail test.
\<close>

definition window_safe :: "u8 list option \<Rightarrow> u32 \<Rightarrow> u32 \<Rightarrow> nat option option" where
  "window_safe code clen p =
     (case code of
        None \<Rightarrow> Some None
      | Some bs \<Rightarrow>
          if p \<ge> clen \<or> clen - p < 2 then Some None
          else if clen - p < 4 then
            (case code_at bs p of None \<Rightarrow> None
             | Some b0 \<Rightarrow> (case code_at bs (p + 1) of None \<Rightarrow> None
                | Some b1 \<Rightarrow> if le16 b0 b1 AND 3 = 3 then Some None else Some (Some 1)))
          else Some (Some (unat ((clen - p) div 4))))"

lemma window_progress:
  "window hk code mx left k p s = Some (s', k', p', out) \<Longrightarrow> k \<le> k'"
  by (induction hk code mx left k p s rule: window.induct)
    (force split: if_splits option.splits prod.splits ctl.splits)+

lemma window_strict:
  assumes "window hk code mx left k p s = Some (s', k', p', out)" "0 < left" "k < mx"
  shows "k < k'"
  using assms
  by (cases left)
    (auto split: if_splits option.splits prod.splits ctl.splits dest!: window_progress)

lemma window_safe_pos: "window_safe code clen p = Some (Some safe) \<Longrightarrow> 0 < safe"
  by (auto simp: window_safe_def word_le_nat_alt not_less unat_div
      split: option.splits if_splits)

function outer ::
  "'w hooks \<Rightarrow> u8 list option \<Rightarrow> u32 \<Rightarrow> nat \<Rightarrow> nat \<Rightarrow> u32 \<Rightarrow> 'w vm
     \<Rightarrow> ('w vm \<times> nat \<times> u32) option" where
  "outer hk code clen mx k p s =
     (if k < mx then
        (case window_safe code clen p of
           None \<Rightarrow> None
         | Some None \<Rightarrow> Some (s, k, p)
         | Some (Some safe) \<Rightarrow>
             (case window hk (the code) mx safe k p s of
                None \<Rightarrow> None
              | Some (s', k', p', out) \<Rightarrow>
                  if out then Some (s', k', p') else outer hk code clen mx k' p' s'))
      else Some (s, k, p))"
  by pat_completeness auto
termination
  by (relation "measure (\<lambda>(hk, code, clen, mx, k, p, s). mx - k)")
    (auto dest!: window_strict window_safe_pos intro: diff_less_mono2)

declare outer.simps [simp del]

text \<open>\<open>RiscvEmulatorLoop\<close>: the returned count and the state, with the resume pc stored at \<open>out:\<close>.\<close>

definition riscv_loop :: "'w hooks \<Rightarrow> 'w vm \<Rightarrow> nat \<Rightarrow> ('w vm \<times> nat) option" where
  "riscv_loop hk s mx =
     (case outer hk (rg_ptr (readonly s)) (rg_len (readonly s)) mx 0 (pc s) s of
        None \<Rightarrow> None
      | Some (s', k, p) \<Rightarrow> Some (s'\<lparr>pc := p\<rparr>, k))"

end
