(* ===== verification/Purv_Loop.thy ===== *)
theory Purv_Loop
  imports Purv
begin

text \<open>
  What the run loop of \<open>emu/purv.c\<close> guarantees. The contract a host's handlers have to meet is
  the locale \<open>trap_hooks\<close>; inside it every action body, the window and the whole loop are shown
  to keep the state invariant, to leave the code alone and never to touch memory outside the
  host buffers. The windowed loop is then shown equal to a loop that checks every fetch.
\<close>

section \<open>The contract of the handlers\<close>

text \<open>\<open>keeps s s'\<close>: the invariant survives and the read-only region is the same.\<close>

definition keeps :: "'w vm \<Rightarrow> 'w vm \<Rightarrow> bool" where
  "keeps s s' = (vm_ok s \<longrightarrow> vm_ok s' \<and> readonly s' = readonly s)"

lemma keeps_refl [simp, intro]: "keeps s s"
  by (simp add: keeps_def)

lemma keeps_trans [trans]: "keeps a b \<Longrightarrow> keeps b c \<Longrightarrow> keeps a c"
  by (simp add: keeps_def)

lemma keeps_pc_inst [simp]: "keeps s (s\<lparr>pc := p, inst := w\<rparr>)" "keeps s (s\<lparr>pc := p\<rparr>)"
  by (simp_all add: keeps_def)

lemma keeps_wr [simp]: "keeps s (wr s i v)"
  by (simp add: keeps_def vm_ok_wr)

lemma keeps_wr8: "wr8 s (WPtr off) i b = Some s' \<Longrightarrow> keeps s s'"
  unfolding keeps_def using vm_ok_wr8 wr8_frame by blast

text \<open>The widths a load and a store accept.\<close>

lemma load_width:
  assumes "f3 \<noteq> 3" "\<not> (f3 :: u32) > 5"
  shows "f3 = 0 \<or> f3 = 1 \<or> f3 = 2 \<or> f3 = 4 \<or> f3 = 5"
proof -
  have "unat f3 \<le> 5" using assms(2) by (simp add: word_le_nat_alt not_less)
  then have "unat f3 \<in> {0, 1, 2, 3, 4, 5}" by auto
  then show ?thesis
    using assms(1) by (auto dest!: arg_cong [where f = "of_nat :: nat \<Rightarrow> u32"])
qed

lemma store_width:
  assumes "\<not> (f3 :: u32) > 2"
  shows "f3 = 0 \<or> f3 = 1 \<or> f3 = 2"
proof -
  have "unat f3 \<le> 2" using assms by (simp add: word_le_nat_alt not_less)
  then have "unat f3 \<in> {0, 1, 2}" by auto
  then show ?thesis
    by (auto dest!: arg_cong [where f = "of_nat :: nat \<Rightarrow> u32"])
qed

locale trap_hooks =
  fixes hk :: "'w hooks"
  assumes ecall_keeps: "h_ecall hk = Some f \<Longrightarrow> f s = (b, s') \<Longrightarrow> keeps s s'"
    and ebreak_keeps: "h_ebreak hk = Some f \<Longrightarrow> f s = (b, s') \<Longrightarrow> keeps s s'"
    and illegal_keeps: "h_illegal hk = Some f \<Longrightarrow> f s = (b, s') \<Longrightarrow> keeps s s'"
    and callback_keeps: "h_callback hk = Some cb \<Longrightarrow> cb s op a v = (r, s') \<Longrightarrow> keeps s s'"
begin

lemma exec_illegal_keeps: "exec_illegal hk p w s = (s', c) \<Longrightarrow> keeps s s'"
  by (auto simp: exec_illegal_def Let_def split: option.splits prod.splits
      dest!: illegal_keeps intro: keeps_trans [OF keeps_pc_inst(1)])

lemma exec_ebreak_keeps: "exec_ebreak hk p w s = (s', c) \<Longrightarrow> keeps s s'"
  by (auto simp: exec_ebreak_def Let_def split: option.splits prod.splits
      dest!: ebreak_keeps intro: keeps_trans [OF keeps_pc_inst(1)])

lemma exec_ecall_keeps: "exec_ecall hk p w s = (s', c) \<Longrightarrow> keeps s s'"
  by (auto simp: exec_ecall_def Let_def split: option.splits prod.splits
      dest!: ecall_keeps intro: keeps_trans [OF keeps_pc_inst(1)])

lemma exec_system_keeps: "exec_system hk f3 rd rs1 imm p w s = (s', c) \<Longrightarrow> keeps s s'"
  by (auto simp: exec_system_def split: if_splits
      dest: exec_illegal_keeps exec_ebreak_keeps exec_ecall_keeps)

lemma load_miss_keeps: "load_miss hk s f3 addr n = (v, s') \<Longrightarrow> keeps s s'"
  by (auto simp: load_miss_def split: option.splits prod.splits dest!: callback_keeps)

lemma store_miss_keeps: "keeps s (store_miss hk s addr b)"
  by (simp add: store_miss_def split: option.split) (metis callback_keeps prod.collapse)

lemma store_hit_keeps:
  assumes "store_hit s (WPtr off) f3 b = Some s'"
  shows "keeps s s'"
proof -
  note step = keeps_wr8 [of _ off]
  show ?thesis
    using assms
    by (simp add: store_hit_def bind_eq_Some_conv del: wr8.simps split: if_splits)
      (meson step keeps_trans)+
qed

lemma load_hit_total:
  assumes "vm_ok s" "mem_xlate s addr (push_bit (unat (f3 AND 3)) 1) False = Some q"
    and "f3 \<noteq> 3" "\<not> f3 > 5"
  shows "\<exists>v. load_hit s q f3 = Some v"
proof -
  note rd = mem_xlate_rd [OF assms(1,2)]
  from load_width [OF assms(3,4)] show ?thesis
    using rd [of 0] rd [of 1] rd [of 2] rd [of 3]
    by (elim disjE) (auto simp: load_hit_def)
qed

lemma exec_load_ok:
  assumes "vm_ok s"
  shows "\<exists>s' c. exec_load hk f3 a imm rd p w s = Some (s', c) \<and> keeps s s'"
proof (cases "f3 = 3 \<or> f3 > 5")
  case True
  then show ?thesis
    using exec_illegal_keeps [of p w s] by (cases "exec_illegal hk p w s") (auto simp: exec_load_def)
next
  case False
  let ?n = "push_bit (unat (f3 AND 3)) 1 :: u32"
  consider "rd = 0" | q where "rd \<noteq> 0" "mem_xlate s (a + imm) ?n False = Some q"
    | "rd \<noteq> 0" "mem_xlate s (a + imm) ?n False = None"
    by blast
  then show ?thesis
  proof cases
    case 1
    with False show ?thesis by (auto simp: exec_load_def Let_def)
  next
    case 2
    then obtain v where "load_hit s q f3 = Some v"
      using load_hit_total [OF assms] False by blast
    with 2 False show ?thesis by (auto simp: exec_load_def Let_def)
  next
    case 3
    obtain v s' where m: "load_miss hk s f3 (a + imm) (unat ?n) = (v, s')"
      by fastforce
    from m 3 False show ?thesis
      by (auto simp: exec_load_def Let_def intro: keeps_trans [OF load_miss_keeps [OF m]])
  qed
qed

lemma wr8_chain:
  assumes "vm_ok s" "mem_xlate s a n True = Some q" "i < unat n"
  obtains s' where "wr8 s q i b = Some s'" "vm_ok s'" "mem_xlate s' a n True = Some q" "keeps s s'"
proof -
  obtain off where q: "q = WPtr off" using mem_xlate_write assms(2) by blast
  obtain s' where s': "wr8 s q i b = Some s'" using mem_xlate_wr [OF assms] by blast
  show ?thesis
    using s' assms that vm_ok_wr8 mem_xlate_wr8 keeps_wr8 unfolding q by metis
qed

lemma store_hit_total:
  assumes "vm_ok s" "mem_xlate s addr (push_bit (unat f3) 1) True = Some q" "\<not> f3 > 2"
  shows "\<exists>s'. store_hit s q f3 b = Some s' \<and> keeps s s'"
proof -
  let ?n = "push_bit (unat f3) 1 :: u32"
  consider "f3 = 0" | "f3 = 1" | "f3 = 2" using store_width [OF assms(3)] by blast
  then show ?thesis
  proof cases
    case 1
    obtain s1 where "wr8 s q 0 (byte_of 0 b) = Some s1" "keeps s s1"
      using wr8_chain [OF assms(1,2), of 0 "byte_of 0 b"] 1 by auto
    with 1 show ?thesis by (simp add: store_hit_def)
  next
    case 2
    obtain s1 where 1: "wr8 s q 0 (byte_of 0 b) = Some s1" "keeps s s1"
      and ok: "vm_ok s1" "mem_xlate s1 addr ?n True = Some q"
      using wr8_chain [OF assms(1,2), of 0 "byte_of 0 b"] 2 by auto
    obtain s2 where "wr8 s1 q 1 (byte_of 1 b) = Some s2" "keeps s1 s2"
      using wr8_chain [OF ok, of 1 "byte_of 1 b"] 2 by auto
    with 1 2 show ?thesis by (auto simp: store_hit_def intro: keeps_trans)
  next
    case 3
    obtain s1 where 1: "wr8 s q 0 (byte_of 0 b) = Some s1" "keeps s s1"
      and ok1: "vm_ok s1" "mem_xlate s1 addr ?n True = Some q"
      using wr8_chain [OF assms(1,2), of 0 "byte_of 0 b"] 3 by auto
    obtain s2 where 2: "wr8 s1 q 1 (byte_of 1 b) = Some s2" "keeps s1 s2"
      and ok2: "vm_ok s2" "mem_xlate s2 addr ?n True = Some q"
      using wr8_chain [OF ok1, of 1 "byte_of 1 b"] 3 by auto
    obtain s3 where 4: "wr8 s2 q 2 (byte_of 2 b) = Some s3" "keeps s2 s3"
      and ok3: "vm_ok s3" "mem_xlate s3 addr ?n True = Some q"
      using wr8_chain [OF ok2, of 2 "byte_of 2 b"] 3 by auto
    obtain s4 where 5: "wr8 s3 q 3 (byte_of 3 b) = Some s4" "keeps s3 s4"
      using wr8_chain [OF ok3, of 3 "byte_of 3 b"] 3 by auto
    have "keeps s s4" using 1(2) 2(2) 4(2) 5(2) by (blast intro: keeps_trans)
    with 1 2 3 4 5 show ?thesis by (simp add: store_hit_def)
  qed
qed

lemma exec_store_ok:
  assumes "vm_ok s"
  shows "\<exists>s' c. exec_store hk f3 a b imm p w s = Some (s', c) \<and> keeps s s'"
proof (cases "f3 > 2")
  case True
  then show ?thesis
    using exec_illegal_keeps [of p w s] by (cases "exec_illegal hk p w s") (auto simp: exec_store_def)
next
  case False
  show ?thesis
  proof (cases "mem_xlate s (a + imm) (push_bit (unat f3) 1) True")
    case None
    with False store_miss_keeps [of s "a + imm" b] show ?thesis
      by (auto simp: exec_store_def Let_def)
  next
    case (Some q)
    then obtain s' where "store_hit s q f3 b = Some s'" "keeps s s'"
      using store_hit_total [OF assms Some False] by blast
    with Some False show ?thesis by (auto simp: exec_store_def Let_def)
  qed
qed

lemma trap_ok:
  "\<exists>s' c. Some (exec_illegal hk p w s) = Some (s', c) \<and> keeps s s'"
  "\<exists>s' c. Some (exec_ebreak hk p w s) = Some (s', c) \<and> keeps s s'"
  "\<exists>s' c. Some (exec_system hk f3 rd rs1 imm p w s) = Some (s', c) \<and> keeps s s'"
  using exec_illegal_keeps exec_ebreak_keeps exec_system_keeps by (metis surj_pair)+

text \<open>Every instruction executes, keeps the invariant and leaves the read-only region alone.\<close>

lemma exec_action_ok:
  "vm_ok s \<Longrightarrow> \<exists>s' c. exec_action hk act p w width s = Some (s', c) \<and> keeps s s'"
  using trap_ok exec_load_ok exec_store_ok
  by (cases act) (auto split: option.split)

lemma exec_action_keeps:
  assumes "vm_ok s" "exec_action hk act p w width s = Some (s', c)"
  shows "vm_ok s' \<and> readonly s' = readonly s"
  using exec_action_ok [OF assms(1), of act p w width] assms by (auto simp: keeps_def)

end

section \<open>The reference loop\<close>

text \<open>
  The loop a reader would write first: every instruction is fetched with a check that all of
  its bytes are inside the code, and the run ends where that check fails. The result ends with
  a flag: whether a trap stopped the run.
\<close>

fun ref_run ::
  "'w hooks \<Rightarrow> u8 list \<Rightarrow> nat \<Rightarrow> nat \<Rightarrow> u32 \<Rightarrow> 'w vm \<Rightarrow> ('w vm \<times> nat \<times> u32 \<times> bool) option" where
  "ref_run hk code 0 k p s = Some (s, k, p, False)"
| "ref_run hk code (Suc n) k p s =
     (case fetch code p of
        None \<Rightarrow> Some (s, k, p, False)
      | Some (w, width) \<Rightarrow>
          (case exec_action hk (decode (regs s) w width) p w width s of
             None \<Rightarrow> None
           | Some (s', C_done) \<Rightarrow> ref_run hk code n (Suc k) (p + width) s'
           | Some (s', C_goto t) \<Rightarrow> ref_run hk code n (Suc k) t s'
           | Some (s', C_out) \<Rightarrow> Some (s', Suc k, p, True)))"

definition ref_loop :: "'w hooks \<Rightarrow> 'w vm \<Rightarrow> nat \<Rightarrow> ('w vm \<times> nat \<times> bool) option" where
  "ref_loop hk s n =
     (case ref_run hk (case rg_ptr (readonly s) of None \<Rightarrow> [] | Some bs \<Rightarrow> bs) n 0 (pc s) s of
        None \<Rightarrow> None
      | Some (s', k, p, out) \<Rightarrow> Some (s'\<lparr>pc := p\<rparr>, k, out))"

text \<open>After a window, the reference loop continues where the window ended.\<close>

definition then_ref ::
  "'w hooks \<Rightarrow> u8 list \<Rightarrow> nat \<Rightarrow> ('w vm \<times> nat \<times> u32 \<times> bool) option
     \<Rightarrow> ('w vm \<times> nat \<times> u32 \<times> bool) option" where
  "then_ref hk code mx r =
     (case r of None \<Rightarrow> None
      | Some (s, k, p, out) \<Rightarrow>
          if out then Some (s, k, p, out) else ref_run hk code (mx - k) k p s)"

lemma then_ref_simps [simp]:
  "then_ref hk code mx None = None"
  "then_ref hk code mx (Some (s, k, p, True)) = Some (s, k, p, True)"
  "then_ref hk code mx (Some (s, k, p, False)) = ref_run hk code (mx - k) k p s"
  by (simp_all add: then_ref_def)

lemma window_advance:
  assumes "unat p + 4 * Suc left \<le> length code" "length code \<le> 4294967295"
    and "fetch code p = Some (w, width)"
  shows "unat (p + width) + 4 * left \<le> length code"
proof -
  have "unat (p + width) \<le> unat p + unat width"
    by (simp add: unat_word_ariths)
  moreover have "unat width \<le> 4"
    using fetch_width [OF assms(3)] by auto
  ultimately show ?thesis using assms(1) by simp
qed

lemma window_ref:
  assumes "length code \<le> 4294967295"
    and "unat p + 4 * left \<le> length code \<or> left = 1 \<and> fetch code p \<noteq> None"
  shows "then_ref hk code mx (window hk code mx left k p s) = ref_run hk code (mx - k) k p s"
  using assms(2)
proof (induction left arbitrary: k p s)
  case 0
  then show ?case by simp
next
  case (Suc left)
  show ?case
  proof (cases "k < mx")
    case False
    then show ?thesis by simp
  next
    case True
    then obtain n where n: "mx - k = Suc n" "mx - Suc k = n"
      by (metis Suc_diff_Suc)
    obtain w width where f: "fetch code p = Some (w, width)"
      using Suc.prems fetch_some [of p code] assms(1) by fastforce
    have next_win: "unat (p + width) + 4 * left \<le> length code \<or> left = 0"
      using Suc.prems window_advance [OF _ assms(1) f] by auto
    then have IH: "then_ref hk code mx (window hk code mx left (Suc k) (p + width) s')
        = ref_run hk code n (Suc k) (p + width) s'" for s'
      using Suc.IH [of "p + width" "Suc k" s'] n by (cases left) auto
    show ?thesis
      using True f n IH by (auto split: option.split ctl.split)
  qed
qed

lemma unat_sub_u32: "p < (clen :: u32) \<Longrightarrow> unat (clen - p) = unat clen - unat p"
  by (simp add: unat_sub)

lemma code_at_off:
  assumes "length bs = unat clen" "unat p + k \<le> unat (clen :: u32)"
  shows "code_at bs (p + of_nat k) =
     (if unat p + k < unat clen then Some (bs ! (unat p + k)) else None)"
  using assms unat_add_small [of p k] unat_lt_32 [of clen]
  by (simp add: code_at_def)

text \<open>The window head agrees with the check of the fetch.\<close>

lemma window_safe_break:
  assumes "length bs = unat clen" "window_safe (Some bs) clen p = Some None"
  shows "fetch bs p = None"
proof (cases "p < clen")
  case False
  then show ?thesis
    using assms(1) by (simp add: fetch_def code_at_def word_less_nat_alt)
next
  case True
  note sub = unat_sub_u32 [OF True] and at = code_at_off [OF assms(1)]
  from True have lt: "unat p < unat clen" by (simp add: word_less_nat_alt)
  show ?thesis
  proof (cases "unat clen = unat p + 1")
    case True
    then show ?thesis using at [of p 1] by (simp add: fetch_def)
  next
    case False
    with lt have two: "unat p + 2 \<le> unat clen" by simp
    then have b: "code_at bs p = Some (bs ! unat p)" "code_at bs (p + 1) = Some (bs ! (unat p + 1))"
      using at [of p 0] at [of p 1] by simp_all
    have wide: "clen - p < 4" "le16 (bs ! unat p) (bs ! (unat p + 1)) AND 3 = 3"
      using assms(2) two b \<open>p < clen\<close> sub
      by (auto simp: window_safe_def word_less_nat_alt word_le_nat_alt split: if_splits)
    from wide(1) sub have "unat clen = unat p + 2 \<or> unat clen = unat p + 3"
      using two by (auto simp: word_less_nat_alt)
    then have "code_at bs (p + 2) = None \<or> code_at bs (p + 3) = None"
      using at [of p 2] at [of p 3] by auto
    with b wide(2) show ?thesis
      by (auto simp: fetch_def Let_def bind_eq_None_conv)
  qed
qed

lemma window_safe_run:
  assumes "length bs = unat clen" "window_safe (Some bs) clen p = Some (Some safe)"
  shows "unat p + 4 * safe \<le> length bs \<or> safe = 1 \<and> fetch bs p \<noteq> None"
proof (cases "clen - p < 4")
  case True
  with assms show ?thesis
    by (auto simp: window_safe_def fetch_def Let_def split: if_splits option.splits)
next
  case False
  with assms(2) have lt: "p < clen" and "safe = unat ((clen - p) div 4)"
    by (auto simp: window_safe_def split: if_splits)
  then have "4 * safe \<le> unat clen - unat p"
    using unat_sub_u32 [OF lt] by (simp add: unat_div)
  moreover have "unat p < unat clen" using lt by (simp add: word_less_nat_alt)
  ultimately have "unat p + 4 * safe \<le> unat clen" by linarith
  with assms(1) show ?thesis by simp
qed

lemma window_safe_total:
  assumes "length bs = unat clen"
  shows "window_safe (Some bs) clen p \<noteq> None"
proof (cases "p < clen \<and> \<not> clen - p < 2")
  case False
  then show ?thesis by (auto simp: window_safe_def)
next
  case True
  then have "unat p + 2 \<le> unat clen"
    using unat_sub_u32 [of p clen] by (auto simp: word_less_nat_alt not_less)
  then show ?thesis
    using code_at_off [OF assms, of p 0] code_at_off [OF assms, of p 1]
    by (simp add: window_safe_def)
qed

text \<open>The windowed loop is the reference loop.\<close>

lemma outer_ref:
  assumes "length bs = unat clen"
  shows "outer hk (Some bs) clen mx k p s =
     map_option (\<lambda>(s', k', p', out). (s', k', p')) (ref_run hk bs (mx - k) k p s)"
proof (induction "mx - k" arbitrary: k p s rule: less_induct)
  case less
  have len: "length bs \<le> 4294967295"
    using assms unat_lt_32 [of clen] by linarith
  show ?case
  proof (cases "k < mx")
    case False
    then show ?thesis by (simp add: outer.simps)
  next
    case True
    then obtain n where n: "mx - k = Suc n" by (metis Suc_diff_Suc)
    obtain r where r: "window_safe (Some bs) clen p = Some r"
      using window_safe_total [OF assms] by blast
    show ?thesis
    proof (cases r)
      case None
      with r window_safe_break [OF assms] True n show ?thesis
        by (simp add: outer.simps)
    next
      case (Some safe)
      note pos = window_safe_pos [OF r [unfolded Some]]
      note ref = window_ref [OF len window_safe_run [OF assms r [unfolded Some]], of hk mx k s]
      have "outer hk (Some bs) clen mx k p s =
          map_option (\<lambda>(s', k', p', out). (s', k', p'))
            (then_ref hk bs mx (window hk bs mx safe k p s))"
      proof (cases "window hk bs mx safe k p s")
        case None
        with r Some True show ?thesis by (simp add: outer.simps [of _ _ _ _ k])
      next
        case w: (Some res)
        obtain s' k' p' out where res: "res = (s', k', p', out)" by (cases res)
        have "k < k'" using window_strict [OF w [unfolded res] pos True] .
        with less [of k' p' s'] True have
          "outer hk (Some bs) clen mx k' p' s' =
             map_option (\<lambda>(s', k', p', out). (s', k', p')) (ref_run hk bs (mx - k') k' p' s')"
          by simp
        with r Some True w res show ?thesis
          by (cases out) (simp_all add: outer.simps [of _ _ _ _ k])
      qed
      with ref show ?thesis by simp
    qed
  qed
qed

lemma riscv_loop_ref:
  assumes "wf_region (readonly s)"
  shows "riscv_loop hk s mx = map_option (\<lambda>(s', k, out). (s', k)) (ref_loop hk s mx)"
proof (cases "rg_ptr (readonly s)")
  case None
  then show ?thesis
    by (cases mx)
      (simp_all add: riscv_loop_def ref_loop_def outer.simps window_safe_def fetch_def code_at_def)
next
  case (Some bs)
  with assms have "length bs = unat (rg_len (readonly s))"
    by (simp add: wf_region_def)
  from outer_ref [OF this, of hk mx 0 "pc s" s] Some show ?thesis
    by (auto simp: riscv_loop_def ref_loop_def split: option.split)
qed

section \<open>Totality, safety and short returns\<close>

lemma ref_run_count: "ref_run hk code n k p s = Some (s', k', p', out) \<Longrightarrow> k \<le> k' \<and> k' \<le> k + n"
  by (induction hk code n k p s rule: ref_run.induct)
    (force split: option.splits prod.splits ctl.splits)+

text \<open>A run that ends early was stopped by a trap or stands at an address it cannot fetch.\<close>

lemma ref_run_short:
  "ref_run hk code n k p s = Some (s', k', p', out) \<Longrightarrow> \<not> out \<Longrightarrow> k' < k + n \<Longrightarrow>
     fetch code p' = None"
  by (induction hk code n k p s rule: ref_run.induct)
    (force split: option.splits prod.splits ctl.splits)+

lemma ref_run_split:
  "ref_run hk code (m + n) k p s =
     (case ref_run hk code m k p s of
        None \<Rightarrow> None
      | Some (s', k', p', out) \<Rightarrow>
          if out \<or> k' < k + m then Some (s', k', p', out) else ref_run hk code n k' p' s')"
proof (induction hk code m k p s rule: ref_run.induct)
  case (1 hk code k p s)
  then show ?case by simp
next
  case (2 hk code m k p s)
  then show ?case by (auto split: option.split ctl.split prod.split)
qed

context trap_hooks
begin

lemma ref_run_ok:
  "vm_ok s \<Longrightarrow> \<exists>s' k' p' out. ref_run hk code n k p s = Some (s', k', p', out)
      \<and> vm_ok s' \<and> readonly s' = readonly s"
proof (induction n arbitrary: k p s)
  case 0
  then show ?case by auto
next
  case (Suc n)
  show ?case
  proof (cases "fetch code p")
    case None
    with Suc.prems show ?thesis by auto
  next
    case (Some f)
    obtain w width where f: "f = (w, width)" by (cases f)
    obtain s' c where e: "exec_action hk (decode (regs s) w width) p w width s = Some (s', c)"
      using exec_action_ok [OF Suc.prems] by blast
    from exec_action_keeps [OF Suc.prems e] Suc.IH [of s'] Some f e show ?thesis
      by (cases c) (simp_all, metis+)
  qed
qed

lemma riscv_loop_ok:
  assumes "vm_ok s"
  shows "\<exists>s' k. riscv_loop hk s n = Some (s', k) \<and> vm_ok s' \<and> readonly s' = readonly s \<and> k \<le> n"
proof -
  let ?code = "case rg_ptr (readonly s) of None \<Rightarrow> [] | Some bs \<Rightarrow> bs"
  obtain s' k p out where r: "ref_run hk ?code n 0 (pc s) s = Some (s', k, p, out)"
    and ok: "vm_ok s'" "readonly s' = readonly s"
    using ref_run_ok [OF assms] by blast
  from ref_run_count [OF r] ok r riscv_loop_ref [of s hk n] assms show ?thesis
    by (auto simp: ref_loop_def vm_ok_def)
qed

end

section \<open>Resuming a run\<close>

text \<open>
  The state's \<open>pc\<close> is stale while the loop runs: it is written at a trap and at the end. A host
  whose memory callback does not look at it cannot tell one long run from several short ones.
\<close>

definition pc_blind_mem :: "'w mem_fn \<Rightarrow> bool" where
  "pc_blind_mem cb = (\<forall>s q op a v. cb (s\<lparr>pc := q\<rparr>) op a v = map_prod id (\<lambda>s'. s'\<lparr>pc := q\<rparr>) (cb s op a v))"

definition callback_blind :: "'w hooks \<Rightarrow> bool" where
  "callback_blind hk = (case h_callback hk of None \<Rightarrow> True | Some cb \<Rightarrow> pc_blind_mem cb)"

lemma region_pc [simp]: "mem_xlate (s\<lparr>pc := q\<rparr>) a n w = mem_xlate s a n w"
  by (simp add: mem_xlate_def split: option.split)

lemma rd8_pc [simp]: "rd8 (s\<lparr>pc := q\<rparr>) p i = rd8 s p i"
  by (cases p) simp_all

lemma wr8_pc: "wr8 (s\<lparr>pc := q\<rparr>) p i b = map_option (\<lambda>s'. s'\<lparr>pc := q\<rparr>) (wr8 s p i b)"
  by (cases p; cases s) (simp_all add: option.map_comp comp_def)

lemma wr_pc [simp]: "wr (s\<lparr>pc := q\<rparr>) i v = (wr s i v)\<lparr>pc := q\<rparr>"
  by (simp add: wr_def)

lemma load_hit_pc [simp]: "load_hit (s\<lparr>pc := q\<rparr>) p f3 = load_hit s p f3"
  by (simp add: load_hit_def)

lemma store_hit_pc:
  "store_hit (s\<lparr>pc := q\<rparr>) p f3 b = map_option (\<lambda>s'. s'\<lparr>pc := q\<rparr>) (store_hit s p f3 b)"
  by (auto simp: store_hit_def wr8_pc map_option_case split: option.splits)

lemma load_miss_pc:
  "callback_blind hk \<Longrightarrow>
     load_miss hk (s\<lparr>pc := q\<rparr>) f3 a n = map_prod id (\<lambda>s'. s'\<lparr>pc := q\<rparr>) (load_miss hk s f3 a n)"
  by (auto simp: load_miss_def callback_blind_def pc_blind_mem_def split: option.splits prod.splits)

lemma store_miss_pc:
  "callback_blind hk \<Longrightarrow> store_miss hk (s\<lparr>pc := q\<rparr>) a b = (store_miss hk s a b)\<lparr>pc := q\<rparr>"
  by (auto simp: store_miss_def callback_blind_def pc_blind_mem_def split: option.splits)

lemma exec_trap_pc [simp]:
  "exec_illegal hk p w (s\<lparr>pc := q\<rparr>) = exec_illegal hk p w s"
  "exec_ebreak hk p w (s\<lparr>pc := q\<rparr>) = exec_ebreak hk p w s"
  "exec_ecall hk p w (s\<lparr>pc := q\<rparr>) = exec_ecall hk p w s"
  "exec_system hk f3 rd rs1 imm p w (s\<lparr>pc := q\<rparr>) = exec_system hk f3 rd rs1 imm p w s"
  by (simp_all add: exec_illegal_def exec_ebreak_def exec_ecall_def exec_system_def)

text \<open>Equality of two states up to their \<open>pc\<close> fields.\<close>

definition same_but_pc :: "'w vm \<Rightarrow> 'w vm \<Rightarrow> bool" where
  "same_but_pc s t = (s\<lparr>pc := 0\<rparr> = t\<lparr>pc := 0\<rparr>)"

lemma same_but_pc_refl [simp]: "same_but_pc s s" "same_but_pc s (s\<lparr>pc := q\<rparr>)"
  by (simp_all add: same_but_pc_def)

lemma same_but_pcE: "same_but_pc s t \<Longrightarrow> t = s\<lparr>pc := pc t\<rparr>"
  by (cases s; cases t) (simp add: same_but_pc_def)

lemma same_but_pc_update: "same_but_pc s t \<Longrightarrow> s\<lparr>pc := q\<rparr> = t\<lparr>pc := q\<rparr>"
  by (cases s; cases t) (simp add: same_but_pc_def)

lemma same_but_pc_regs: "same_but_pc s t \<Longrightarrow> regs t = regs s"
  by (cases s; cases t) (simp add: same_but_pc_def)

lemma exec_action_pc:
  assumes "callback_blind hk" "exec_action hk act p w width s = Some (s', c)" "same_but_pc s t"
  shows "\<exists>t'. exec_action hk act p w width t = Some (t', c) \<and> same_but_pc s' t'"
proof -
  obtain q where t: "t = s\<lparr>pc := q\<rparr>" using same_but_pcE [OF assms(3)] by blast
  have load: "exec_load hk f3 a imm rd p w s = Some (s', c) \<Longrightarrow>
      \<exists>t'. exec_load hk f3 a imm rd p w t = Some (t', c) \<and> same_but_pc s' t'" for f3 a imm rd
    using load_miss_pc [OF assms(1), where s = s and q = q] unfolding t
    by (auto simp: exec_load_def Let_def split: if_splits option.splits prod.splits
        Option.bind_splits)
  have store: "exec_store hk f3 a b imm p w s = Some (s', c) \<Longrightarrow>
      \<exists>t'. exec_store hk f3 a b imm p w t = Some (t', c) \<and> same_but_pc s' t'" for f3 a b imm
    using store_miss_pc [OF assms(1), where s = s and q = q] unfolding t
    by (auto simp: exec_store_def Let_def store_hit_pc split: if_splits option.splits Option.bind_splits)
  show ?thesis
    using assms(2) load store unfolding t
    by (cases act) (auto split: option.splits)
qed

lemma ref_run_pc:
  assumes "callback_blind hk" "ref_run hk code n k p s = Some (s', k', p', out)" "same_but_pc s t"
  shows "\<exists>t'. ref_run hk code n k p t = Some (t', k', p', out) \<and> same_but_pc s' t'"
  using assms(2,3)
proof (induction n arbitrary: k p s t)
  case 0
  then show ?case by simp
next
  case (Suc n)
  show ?case
  proof (cases "fetch code p")
    case None
    with Suc.prems show ?thesis by simp
  next
    case (Some f)
    obtain w width where f: "f = (w, width)" by (cases f)
    let ?act = "decode (regs s) w width"
    obtain s1 c where e: "exec_action hk ?act p w width s = Some (s1, c)"
      using Suc.prems(1) Some f by (auto split: option.splits)
    obtain t1 where t1: "exec_action hk ?act p w width t = Some (t1, c)" "same_but_pc s1 t1"
      using exec_action_pc [OF assms(1) e Suc.prems(2)] by blast
    show ?thesis
      using Suc.prems(1) Suc.IH [OF _ t1(2)] Some f e t1 same_but_pc_regs [OF Suc.prems(2)]
      by (cases c) auto
  qed
qed

lemma ref_run_shift:
  "ref_run hk code n (j + k) p s =
     map_option (\<lambda>(s', k', p', out). (s', j + k', p', out)) (ref_run hk code n k p s)"
proof (induction n arbitrary: k p s)
  case 0
  then show ?case by simp
next
  case (Suc n)
  from Suc [of "Suc k"] show ?case
    by (simp split: option.split prod.split ctl.split)
qed

context trap_hooks
begin

text \<open>
  A run of more than \<open>m\<close> instructions is a run of exactly \<open>m\<close> of them, resumed from the state it
  left.
\<close>

lemma riscv_loop_resume:
  assumes "vm_ok s" "callback_blind hk"
    and run: "riscv_loop hk s (m + n) = Some (s', k)" and long: "m < k"
  shows "\<exists>s1. riscv_loop hk s m = Some (s1, m) \<and> riscv_loop hk s1 n = Some (s', k - m)"
proof -
  let ?code = "case rg_ptr (readonly s) of None \<Rightarrow> [] | Some bs \<Rightarrow> bs"
  have wf: "wf_region (readonly s)" using assms(1) by (simp add: vm_ok_def)
  obtain s1 k1 p1 out1 where r1: "ref_run hk ?code m 0 (pc s) s = Some (s1, k1, p1, out1)"
    and ro: "readonly s1 = readonly s"
    using ref_run_ok [OF assms(1)] by blast
  have "ref_run hk ?code (m + n) 0 (pc s) s =
      (if out1 \<or> k1 < m then Some (s1, k1, p1, out1) else ref_run hk ?code n k1 p1 s1)"
    using ref_run_split [of hk ?code m n 0 "pc s" s] r1 by simp
  moreover from run obtain s2 p' out where
    r: "ref_run hk ?code (m + n) 0 (pc s) s = Some (s2, k, p', out)" "s' = s2\<lparr>pc := p'\<rparr>"
    by (auto simp: riscv_loop_ref [OF wf] ref_loop_def split: option.splits)
  moreover have "k1 \<le> m" using ref_run_count [OF r1] by simp
  ultimately have k1: "\<not> out1" "k1 = m" and r2: "ref_run hk ?code n m p1 s1 = Some (s2, k, p', out)"
    using long by (auto split: if_splits)
  from r2 obtain k2 where
    k2: "ref_run hk ?code n 0 p1 s1 = Some (s2, k2, p', out)" "k = m + k2"
    using ref_run_shift [of hk ?code n m 0 p1 s1]
    by (cases "ref_run hk ?code n 0 p1 s1") (auto split: prod.splits)
  obtain t2 where "ref_run hk ?code n 0 p1 (s1\<lparr>pc := p1\<rparr>) = Some (t2, k2, p', out)"
    and "same_but_pc s2 t2"
    using ref_run_pc [OF assms(2) k2(1), of "s1\<lparr>pc := p1\<rparr>"] by auto
  then have "riscv_loop hk (s1\<lparr>pc := p1\<rparr>) n = Some (s', k - m)"
    using r(2) k2(2) wf ro same_but_pc_update [of s2 t2 p']
    by (simp add: riscv_loop_ref ref_loop_def)
  moreover have "riscv_loop hk s m = Some (s1\<lparr>pc := p1\<rparr>, m)"
    using r1 k1 by (simp add: riscv_loop_ref [OF wf] ref_loop_def)
  ultimately show ?thesis by blast
qed

end

text \<open>The handlers \<open>RiscvEmulatorInit\<close> leaves installed meet the contract.\<close>

interpretation default_host: trap_hooks "init_hooks :: 'w hooks"
  by unfold_locales (auto simp: init_hooks_def default_callback_def)

section \<open>Properties\<close>

text \<open>
  C1: running the engine is safe and total. From a state with its storage mapped and \<open>x0\<close> zero,
  under handlers that keep that invariant, every run of at most \<open>n\<close> instructions returns without
  one access outside a host buffer, counts at most \<open>n\<close>, keeps the invariant and leaves the
  read-only region, the code included, exactly as it was.
\<close>

theorem riscv_loop_safe:
  assumes "trap_hooks hk" "vm_ok s"
  shows "\<exists>s' k. riscv_loop hk s n = Some (s', k) \<and> k \<le> n \<and> vm_ok s' \<and> readonly s' = readonly s"
  using trap_hooks.riscv_loop_ok [OF assms, of n] by blast

definition loop_demo :: "unit vm" where
  "loop_demo = riscv_init \<lparr>rg_ptr = Some [0x01, 0xa0], rg_len = 2, rg_base = 0\<rparr>
                          \<lparr>rg_ptr = None, rg_len = 0, rg_base = 0\<rparr> ()"

lemma loop_demo_ok: "vm_ok loop_demo"
  unfolding loop_demo_def by (rule vm_ok_init) (simp_all add: wf_region_def)

lemma riscv_loop_safe_witness:
  "\<exists>s' k. riscv_loop init_hooks loop_demo 7 = Some (s', k) \<and> k \<le> 7 \<and> vm_ok s' \<and>
     readonly s' = readonly loop_demo"
  by (rule riscv_loop_safe [OF default_host.trap_hooks_axioms loop_demo_ok])

text \<open>
  C3: the windowed loop is the naive one. \<open>RiscvEmulatorLoop\<close> fetches without bounds checks inside
  windows sized from the distance to the end of the code; its result is that of the reference
  loop, which checks every byte of every fetch and stops where a fetch is not inside the code.
\<close>

theorem windowed_loop_is_reference:
  assumes "wf_region (readonly s)"
  shows "riscv_loop hk s mx = map_option (\<lambda>(s', k, stopped). (s', k)) (ref_loop hk s mx)"
  by (rule riscv_loop_ref [OF assms])

lemma windowed_loop_is_reference_witness:
  "riscv_loop init_hooks loop_demo 7 =
     map_option (\<lambda>(s', k, stopped). (s', k)) (ref_loop init_hooks loop_demo 7)"
  by (rule windowed_loop_is_reference) (simp add: loop_demo_def riscv_init_def wf_region_def)

text \<open>
  A short return means what purv.h says. If the loop executes fewer instructions than asked
  and no trap stopped it, the pc left in the state is one at which no whole instruction can be
  fetched from the code region.
\<close>

theorem short_return_is_fetch_outside:
  assumes "ref_loop hk s mx = Some (s', k, False)" "k < mx"
    and "code = (case rg_ptr (readonly s) of None \<Rightarrow> [] | Some bs \<Rightarrow> bs)"
  shows "fetch code (pc s') = None"
  using assms ref_run_short [of hk code mx 0 "pc s" s _ k _ False]
  by (auto simp: ref_loop_def split: option.splits)

lemma short_return_is_fetch_outside_witness:
  "fetch [0x01 :: u8] (pc ((riscv_init \<lparr>rg_ptr = Some [1], rg_len = 1, rg_base = 0\<rparr>
     \<lparr>rg_ptr = None, rg_len = 0, rg_base = 0\<rparr> ())\<lparr>pc := 0\<rparr>)) = None"
  by (rule short_return_is_fetch_outside [of init_hooks "riscv_init
      \<lparr>rg_ptr = Some [1], rg_len = 1, rg_base = 0\<rparr> \<lparr>rg_ptr = None, rg_len = 0, rg_base = 0\<rparr> ()"
      "Suc 0" _ 0])
    (simp_all add: ref_loop_def riscv_init_def fetch_def code_at_def)

text \<open>
  Running in slices is running at once. If a run of at most \<open>m + n\<close> instructions executes \<open>k\<close>
  of them and \<open>k\<close> exceeds \<open>m\<close>, a run of \<open>m\<close> executes exactly \<open>m\<close> and resuming from the state it
  leaves executes the remaining \<open>k - m\<close> and ends in the same state.
\<close>

theorem loop_resumes:
  assumes "trap_hooks hk" "vm_ok s" "callback_blind hk"
    and "riscv_loop hk s (m + n) = Some (s', k)" "m < k"
  shows "\<exists>s1. riscv_loop hk s m = Some (s1, m) \<and> riscv_loop hk s1 n = Some (s', k - m)"
  by (rule trap_hooks.riscv_loop_resume [OF assms])

text \<open>The demo program is one instruction, \<open>c.j 0\<close>, which jumps to itself.\<close>

lemma loop_demo_run: "ref_run init_hooks [0x01, 0xa0] n k 0 loop_demo = Some (loop_demo, k + n, 0, False)"
proof (induction n arbitrary: k)
  case 0
  then show ?case by simp
next
  case (Suc n)
  have "fetch [0x01, 0xa0] 0 = Some (0xa001, 2)"
    by (simp add: fetch_def code_at_def le16_def)
  moreover have "decode x 0xa001 2 = A_jal 0 0" for x
    by (simp add: decode_def decode16_def c_sel_def c_cj_def sext_def Let_def)
  ultimately show ?case using Suc.IH [of "Suc k"] by (simp add: wr_def)
qed

lemma loop_demo_loop: "riscv_loop init_hooks loop_demo n = Some (loop_demo, n)"
proof -
  have "wf_region (readonly loop_demo)" "rg_ptr (readonly loop_demo) = Some [0x01, 0xa0]"
    "pc loop_demo = 0" "loop_demo\<lparr>pc := 0\<rparr> = loop_demo"
    by (simp_all add: loop_demo_def riscv_init_def wf_region_def)
  then show ?thesis using loop_demo_run [of n 0] by (simp add: riscv_loop_ref ref_loop_def)
qed

lemma init_hooks_blind: "callback_blind init_hooks"
  by (simp add: callback_blind_def pc_blind_mem_def init_hooks_def default_callback_def)

lemma loop_resumes_witness:
  "\<exists>s1. riscv_loop init_hooks loop_demo 3 = Some (s1, 3) \<and>
     riscv_loop init_hooks s1 4 = Some (loop_demo, 7 - 3)"
  by (rule loop_resumes [OF default_host.trap_hooks_axioms loop_demo_ok init_hooks_blind])
    (simp_all add: loop_demo_loop)

end
