(* ===== verification/Guest_Mem.thy ===== *)
theory Guest_Mem
  imports Purv_Loop
begin

text \<open>
  Guest memory as a host sees it through \<open>purvhost_guest_byte\<close> of \<open>emu/purvhost.h\<close>, a map from
  guest addresses to bytes, and the loads and stores of the engines against it: a store changes
  exactly the bytes it names, a load assembles them.
\<close>

text \<open>
  \<open>purvhost_guest_byte\<close> (\<open>emu/purvhost.h\<close>): one guest byte, the writable region first, 0 outside
  both. \<open>None\<close> is an access outside a host buffer.
\<close>

definition guest_byte :: "'w vm \<Rightarrow> u32 \<Rightarrow> u8 option" where
  "guest_byte s a =
     (if a - rg_base (writable s) < rg_len (writable s)
      then region_rd (writable s) (unat (a - rg_base (writable s)))
      else if a - rg_base (readonly s) < rg_len (readonly s)
      then region_rd (readonly s) (unat (a - rg_base (readonly s)))
      else Some 0)"

lemma guest_byte_total: "vm_ok s \<Longrightarrow> \<exists>b. guest_byte s a = Some b"
  by (auto simp: guest_byte_def vm_ok_def wf_region_def region_rd_def word_less_nat_alt
      split: option.splits)

section \<open>Translated accesses are guest bytes\<close>

text \<open>No guest address is in both regions.\<close>

definition regions_disjoint :: "'w vm \<Rightarrow> bool" where
  "regions_disjoint s =
     (\<forall>x. \<not> (x - rg_base (writable s) < rg_len (writable s) \<and>
             x - rg_base (readonly s) < rg_len (readonly s)))"

lemma region_at_byte:
  assumes "region_at r a n = Some off" "i < unat n"
  shows "a + of_nat i - rg_base r < rg_len r" "unat (a + of_nat i - rg_base r) = off + i"
proof -
  let ?rel = "a - rg_base r"
  have rel: "?rel < rg_len r" "n \<le> rg_len r - ?rel" "off = unat ?rel"
    using assms(1) by (auto simp: region_at_def Let_def split: if_splits)
  have le: "off + unat n \<le> unat (rg_len r)"
    using word_rel_bound [OF rel(1,2)] rel(3) by simp
  have eq: "a + of_nat i - rg_base r = ?rel + of_nat i" by simp
  show u: "unat (a + of_nat i - rg_base r) = off + i"
    unfolding eq using unat_add_small [of ?rel i] le rel(3) assms(2) unat_lt_32 [of "rg_len r"]
    by simp
  show "a + of_nat i - rg_base r < rg_len r"
    using u le assms(2) by (simp add: word_less_nat_alt)
qed

lemma rd8_guest_byte:
  assumes "mem_xlate s a n False = Some q" "i < unat n" "regions_disjoint s"
  shows "rd8 s q i = guest_byte s (a + of_nat i)"
proof (cases "region_at (writable s) a n")
  case (Some off)
  with assms(1) have "q = WPtr off" by (simp add: mem_xlate_def)
  with region_at_byte [OF Some assms(2)] show ?thesis by (simp add: guest_byte_def)
next
  case None
  with assms(1) obtain off where ro: "region_at (readonly s) a n = Some off" "q = RPtr off"
    by (auto simp: mem_xlate_def split: option.splits)
  with region_at_byte [OF ro(1) assms(2)] assms(3) show ?thesis
    by (auto simp: guest_byte_def regions_disjoint_def)
qed

lemma guest_byte_wr8:
  assumes "mem_xlate s a n True = Some q" "i < unat n" "wr8 s q i b = Some s'"
  shows "guest_byte s' x = (if x = a + of_nat i then Some b else guest_byte s x)"
proof -
  obtain off where off: "region_at (writable s) a n = Some off" "q = WPtr off"
    using assms(1) by (auto simp: mem_xlate_def split: option.splits)
  obtain r where r: "region_wr (writable s) (off + i) b = Some r" "s' = s\<lparr>writable := r\<rparr>"
    using assms(3) off(2) by auto
  note at = region_at_byte [OF off(1) assms(2)]
  have "x = a + of_nat i" if "off + i = unat (x - rg_base (writable s))"
  proof -
    have "x - rg_base (writable s) = a + of_nat i - rg_base (writable s)"
      using that at(2) by (metis word_unat_eq_iff)
    then show ?thesis by simp
  qed
  then have other: "off + i \<noteq> unat (x - rg_base (writable s))" if "x \<noteq> a + of_nat i"
    using that by blast
  note facts = guest_byte_def r(2) region_wr_shape [OF r(1)] region_rd_wr [OF r(1)] at
  show ?thesis
  proof (cases "x = a + of_nat i")
    case True
    show ?thesis unfolding True by (simp add: facts)
  next
    case False
    with other show ?thesis by (simp add: facts)
  qed
qed

lemma regions_disjoint_wr8:
  "wr8 s (WPtr off) i b = Some s' \<Longrightarrow> regions_disjoint s' = regions_disjoint s"
  by (auto simp: regions_disjoint_def dest!: region_wr_shape)

section \<open>Whole accesses\<close>

text \<open>What a load of width and sign \<open>funct3\<close> makes of the guest bytes at \<open>a\<close>.\<close>

definition guest_load :: "'w vm \<Rightarrow> u32 \<Rightarrow> u32 \<Rightarrow> u32" where
  "guest_load s f3 a =
     (let g = (\<lambda>i. the (guest_byte s (a + of_nat i)))
      in if f3 = 0 then sext (ucast (g 0)) 8
         else if f3 = 1 then sext (le16 (g 0) (g 1)) 16
         else if f3 = 2 then le32 (g 0) (g 1) (g 2) (g 3)
         else if f3 = 4 then ucast (g 0)
         else le16 (g 0) (g 1))"

lemma scast_u8: "(scast (b :: u8) :: u32) = sext (ucast b) 8"
  by (rule bit_word_eqI) (auto simp: bit_sext bit_simps min_def)

lemma scast_u16: "(scast (ucast (le16 b0 b1) :: u16) :: u32) = sext (le16 b0 b1) 16"
  by (rule bit_word_eqI) (auto simp: bit_sext bit_simps min_def)

lemma load_hit_guest:
  assumes "vm_ok s" "mem_xlate s a (push_bit (unat (f3 AND 3)) 1) False = Some q"
    and "regions_disjoint s" "f3 \<noteq> 3" "\<not> f3 > 5"
  shows "load_hit s q f3 = Some (guest_load s f3 a)"
proof -
  have rd: "rd8 s q i = Some (the (guest_byte s (a + of_nat i)))"
    if "i < unat (push_bit (unat (f3 AND 3)) 1 :: u32)" for i
    using rd8_guest_byte [OF assms(2) that assms(3)] guest_byte_total [OF assms(1)]
    by (metis option.sel)
  from load_width [OF assms(4,5)] show ?thesis
    using rd [of 0] rd [of 1] rd [of 2] rd [of 3]
    by (elim disjE) (simp_all add: load_hit_def guest_load_def Let_def scast_u8 scast_u16)
qed

text \<open>A store of width \<open>n\<close> in the guest's memory.\<close>

definition guest_store :: "(u32 \<Rightarrow> u8 option) \<Rightarrow> u32 \<Rightarrow> nat \<Rightarrow> u32 \<Rightarrow> u32 \<Rightarrow> u8 option" where
  "guest_store m a n b = (\<lambda>x. if unat (x - a) < n then Some (byte_of (unat (x - a)) b) else m x)"

lemma guest_store_Suc:
  assumes "n < 4294967296"
  shows "guest_store m a (Suc n) b = (guest_store m a n b)(a + of_nat n \<mapsto> byte_of n b)"
proof
  fix x
  have "unat (x - a) = n \<longleftrightarrow> x = a + of_nat n"
  proof -
    have "unat (of_nat n :: u32) = n" using assms by (simp add: unat_of_nat)
    then have "unat (x - a) = n \<longleftrightarrow> x - a = of_nat n" by (metis word_unat_eq_iff)
    then show ?thesis by (metis add_diff_cancel_left' add.commute diff_add_cancel)
  qed
  moreover have "unat (x - a) < Suc n \<longleftrightarrow> unat (x - a) < n \<or> unat (x - a) = n" by auto
  ultimately show "guest_store m a (Suc n) b x = ((guest_store m a n b)(a + of_nat n \<mapsto> byte_of n b)) x"
    by (auto simp: guest_store_def)
qed

lemma guest_store_0 [simp]: "guest_store m a 0 b = m"
  by (simp add: guest_store_def)

text \<open>The fields a store leaves alone.\<close>

definition store_frame :: "'w vm \<Rightarrow> 'w vm \<Rightarrow> bool" where
  "store_frame s s' =
     (regs s' = regs s \<and> pc s' = pc s \<and> inst s' = inst s \<and> readonly s' = readonly s \<and>
      world s' = world s \<and> regions_disjoint s' = regions_disjoint s)"

lemma store_frame_trans: "store_frame s s1 \<Longrightarrow> store_frame s1 s2 \<Longrightarrow> store_frame s s2"
  by (simp add: store_frame_def)

lemma store_byte:
  assumes "vm_ok s" "mem_xlate s a n True = Some q" "i < unat n"
    and "guest_byte s = guest_store m a i b"
  obtains s' where "wr8 s q i (byte_of i b) = Some s'" "vm_ok s'" "mem_xlate s' a n True = Some q"
    "guest_byte s' = guest_store m a (Suc i) b" "store_frame s s'"
proof -
  obtain off where q: "q = WPtr off" using mem_xlate_write assms(2) by blast
  obtain s' where s': "wr8 s q i (byte_of i b) = Some s'" using mem_xlate_wr [OF assms(1-3)] by blast
  have "i < 4294967296" using assms(3) unat_lt_32 [of n] by linarith
  then have "guest_byte s' = guest_store m a (Suc i) b"
    using guest_byte_wr8 [OF assms(2,3) s'] assms(4) by (auto simp: guest_store_Suc)
  moreover have "store_frame s s'"
    using wr8_frame [OF s' [unfolded q]] regions_disjoint_wr8 [OF s' [unfolded q]]
    by (simp add: store_frame_def)
  moreover have "vm_ok s'" "mem_xlate s' a n True = Some q"
    using vm_ok_wr8 mem_xlate_wr8 s' assms(1,2) unfolding q by metis+
  ultimately show ?thesis using s' that by blast
qed

lemma store_hit_guest:
  assumes "vm_ok s" "mem_xlate s a (push_bit (unat f3) 1) True = Some q" "\<not> f3 > 2"
  shows "\<exists>s'. store_hit s q f3 b = Some s' \<and> vm_ok s' \<and> store_frame s s' \<and>
    mem_xlate s' a (push_bit (unat f3) 1) True = Some q \<and>
    guest_byte s' = guest_store (guest_byte s) a (2 ^ unat f3) b"
proof -
  let ?n = "push_bit (unat f3) 1 :: u32" and ?m = "guest_byte s"
  note trans = store_frame_trans
  have n: "f3 = 0 \<Longrightarrow> unat ?n = 1" "f3 = 1 \<Longrightarrow> unat ?n = 2" "f3 = 2 \<Longrightarrow> unat ?n = 4" by auto
  have pos: "0 < unat ?n" using store_width [OF assms(3)] n by auto
  obtain s1 where s1: "wr8 s q 0 (byte_of 0 b) = Some s1" "vm_ok s1"
      "mem_xlate s1 a ?n True = Some q" "guest_byte s1 = guest_store ?m a (Suc 0) b" "store_frame s s1"
    using store_byte [OF assms(1,2) pos, of ?m b] by auto
  show ?thesis
  proof (cases "f3 = 0")
    case True
    with s1 show ?thesis by (simp add: store_hit_def)
  next
    case f0: False
    have lt: "1 < unat ?n" using store_width [OF assms(3)] n f0 by auto
    obtain s2 where s2: "wr8 s1 q 1 (byte_of 1 b) = Some s2" "vm_ok s2"
      "mem_xlate s2 a ?n True = Some q" "guest_byte s2 = guest_store ?m a 2 b" "store_frame s1 s2"
      using store_byte [OF s1(2,3) lt, of ?m b] s1(4) by (auto simp: numeral_2_eq_2)
    show ?thesis
    proof (cases "f3 = 1")
      case True
      with s1 s2 show ?thesis by (simp add: store_hit_def) (metis trans)
    next
      case False
      then have f2: "f3 = 2" using store_width [OF assms(3)] f0 by blast
      obtain s3 where s3: "wr8 s2 q 2 (byte_of 2 b) = Some s3" "vm_ok s3"
        "mem_xlate s3 a ?n True = Some q" "guest_byte s3 = guest_store ?m a 3 b" "store_frame s2 s3"
        using store_byte [OF s2(2,3), of 2 ?m b] s2(4) n(3) f2 by auto
      obtain s4 where s4: "wr8 s3 q 3 (byte_of 3 b) = Some s4" "vm_ok s4"
        "mem_xlate s4 a ?n True = Some q" "guest_byte s4 = guest_store ?m a 4 b" "store_frame s3 s4"
        using store_byte [OF s3(2,3), of 3 ?m b] s3(4) n(3) f2 by auto
      have "store_frame s s4" using s1 s2 s3 s4 trans by metis
      with s1 s2 s3 s4 f2 show ?thesis by (simp add: store_hit_def)
    qed
  qed
qed

text \<open>A small layout: four bytes of code at 0, eight writable bytes from \<open>RISCV_HALF\<close>.\<close>

definition mem_demo :: "unit vm" where
  "mem_demo = riscv_init \<lparr>rg_ptr = Some [1, 2, 3, 4], rg_len = 4, rg_base = 0\<rparr>
                         \<lparr>rg_ptr = Some [0, 0, 0, 0, 0, 0, 0, 0], rg_len = 8, rg_base = RISCV_HALF\<rparr> ()"

lemma mem_demo_ok: "vm_ok mem_demo"
  unfolding mem_demo_def by (rule vm_ok_init) (simp_all add: wf_region_def)

lemma mem_demo_disjoint: "regions_disjoint mem_demo"
  unfolding regions_disjoint_def
proof (intro allI notI, elim conjE)
  fix x assume "x - rg_base (writable mem_demo) < rg_len (writable mem_demo)"
    and "x - rg_base (readonly mem_demo) < rg_len (readonly mem_demo)"
  then have x: "unat (x - 0x80000000) < 8" "unat x < 4"
    by (simp_all add: mem_demo_def riscv_init_def RISCV_HALF_def word_less_nat_alt)
  then have "unat x \<in> {0, 1, 2, 3}" by auto
  then have "x \<in> {0, 1, 2, 3}" by (auto dest!: arg_cong [where f = "of_nat :: nat \<Rightarrow> u32"])
  with x(1) show False by auto
qed

lemma mem_demo_xlate:
  "mem_xlate mem_demo 0x80000004 4 True = Some (WPtr 4)"
  "mem_xlate mem_demo 0x80000004 4 False = Some (WPtr 4)"
  by (simp_all add: mem_xlate_def region_at_def mem_demo_def riscv_init_def RISCV_HALF_def)

lemma low_bytes:
  "(ucast (byte_of 0 b) :: u32) = take_bit 8 b"
  "sext (take_bit 8 b) 8 = sext b 8" "sext (take_bit 16 b) 16 = sext b 16"
  by (rule bit_word_eqI, auto simp: byte_of_def bit_sext bit_simps min_def)+

section \<open>Properties\<close>

text \<open>
  C21: a store refines the guest's byte map. When \<open>SB\<close>, \<open>SH\<close> or \<open>SW\<close> translates, the instruction
  completes and the memory a host reads afterwards is the old one with exactly the \<open>2 ^ funct3\<close>
  bytes at the address replaced, little-endian; registers, pc, code and host state are as before.
\<close>

theorem store_refines:
  assumes "vm_ok s" "f3 \<le> 2" "mem_xlate s (a + imm) (push_bit (unat f3) 1) True \<noteq> None"
  shows "\<exists>s'. exec_store hk f3 a b imm p w s = Some (s', C_done) \<and> vm_ok s' \<and> store_frame s s' \<and>
    guest_byte s' = guest_store (guest_byte s) (a + imm) (2 ^ unat f3) b"
proof -
  obtain q where q: "mem_xlate s (a + imm) (push_bit (unat f3) 1) True = Some q" using assms(3) by auto
  from store_hit_guest [OF assms(1) q, of b] assms(2) q show ?thesis
    by (auto simp: exec_store_def not_less)
qed

lemma store_refines_witness:
  "\<exists>s'. exec_store init_hooks 2 0x80000000 7 4 0 0 mem_demo = Some (s', C_done) \<and> vm_ok s' \<and>
    store_frame mem_demo s' \<and>
    guest_byte s' = guest_store (guest_byte mem_demo) (0x80000000 + 4) (2 ^ unat (2 :: u32)) 7"
  by (rule store_refines [OF mem_demo_ok]) (simp_all add: mem_demo_xlate)

text \<open>
  A load refines the guest's byte map. When the regions do not overlap and the access
  translates, \<open>LB\<close>, \<open>LH\<close>, \<open>LW\<close>, \<open>LBU\<close> and \<open>LHU\<close> write the little-endian value of the guest bytes
  at the address, sign- or zero-extended as the width asks, to \<open>rd\<close> and change nothing else.
\<close>

theorem load_refines:
  assumes "vm_ok s" "regions_disjoint s" "f3 \<noteq> 3" "f3 \<le> 5" "rd \<noteq> 0"
    and "mem_xlate s (a + imm) (push_bit (unat (f3 AND 3)) 1) False \<noteq> None"
  shows "exec_load hk f3 a imm rd p w s = Some (wr s rd (guest_load s f3 (a + imm)), C_done)"
proof -
  obtain q where q: "mem_xlate s (a + imm) (push_bit (unat (f3 AND 3)) 1) False = Some q"
    using assms(6) by auto
  have "\<not> f3 > 5" using assms(4) by simp
  with load_hit_guest [OF assms(1) q assms(2,3)] assms(3,5) q show ?thesis
    by (simp add: exec_load_def)
qed

lemma load_refines_witness:
  "exec_load init_hooks 2 0x80000000 4 5 0 0 mem_demo =
     Some (wr mem_demo 5 (guest_load mem_demo 2 (0x80000000 + 4)), C_done)"
  by (rule load_refines [OF mem_demo_ok mem_demo_disjoint]) (simp_all add: mem_demo_xlate)

text \<open>
  What was stored is what is loaded. A store of width \<open>funct3\<close> that translates, followed by
  loads from the same address, gives back the low bytes of the stored register: sign-extended
  by the load of the same \<open>funct3\<close>, zero-extended by its unsigned variant.
\<close>

theorem store_then_load:
  assumes "vm_ok s" "f3 \<le> 2" "mem_xlate s (a + imm) (push_bit (unat f3) 1) True \<noteq> None" "rd \<noteq> 0"
    and "regions_disjoint s"
  shows "\<exists>s'. exec_store hk f3 a b imm p w s = Some (s', C_done) \<and>
    exec_load hk f3 a imm rd p' w' s' = Some (wr s' rd (sext b (8 * 2 ^ unat f3)), C_done) \<and>
    (f3 < 2 \<longrightarrow> exec_load hk (f3 + 4) a imm rd p' w' s' =
       Some (wr s' rd (take_bit (8 * 2 ^ unat f3) b), C_done))"
proof -
  let ?a = "a + imm"
  obtain q where q: "mem_xlate s ?a (push_bit (unat f3) 1) True = Some q" using assms(3) by auto
  have "\<not> f3 > 2" using assms(2) by simp
  note w = store_width [OF this]
  obtain s' where s': "store_hit s q f3 b = Some s'" "vm_ok s'" "store_frame s s'"
    "mem_xlate s' ?a (push_bit (unat f3) 1) True = Some q"
    "guest_byte s' = guest_store (guest_byte s) ?a (2 ^ unat f3) b"
    using store_hit_guest [OF assms(1) q \<open>\<not> f3 > 2\<close>] by blast
  have st: "exec_store hk f3 a b imm p w s = Some (s', C_done)"
    using s'(1) q \<open>\<not> f3 > 2\<close> by (auto simp: exec_store_def)
  have dis: "regions_disjoint s'" using s'(3) assms(5) by (simp add: store_frame_def)
  have x: "mem_xlate s' ?a (push_bit (unat f3) 1) False = Some q"
    using s'(4) by (auto simp: mem_xlate_def split: option.splits)
  have load: "exec_load hk g a imm rd p' w' s' = Some (wr s' rd (guest_load s' g ?a), C_done)"
    if "g \<noteq> 3" "g \<le> 5" "g AND 3 = f3" for g
    by (rule load_refines [OF s'(2) dis that(1,2) assms(4)]) (use x that(3) in simp)
  have g: "guest_byte s' (?a + of_nat i) = Some (byte_of i b)" if "i < 2 ^ unat f3" for i
  proof -
    have "unat (of_nat i :: u32) = i" using that w by (auto simp: unat_of_nat)
    then show ?thesis using that by (simp add: s'(5) guest_store_def)
  qed
  show ?thesis
    using w st load [of f3] load [of "f3 + 4"] g [of 0] g [of 1] g [of 2] g [of 3]
    by (elim disjE)
      (auto simp: guest_load_def le16_bytes [simplified] le32_bytes [simplified] low_bytes)
qed

lemma store_then_load_witness:
  "\<exists>s'. exec_store init_hooks 1 0x80000000 0x1ff80 4 0 0 mem_demo = Some (s', C_done) \<and>
    exec_load init_hooks 1 0x80000000 4 5 0 0 s' =
      Some (wr s' 5 (sext 0x1ff80 (8 * 2 ^ unat (1 :: u32))), C_done) \<and>
    ((1 :: u32) < 2 \<longrightarrow> exec_load init_hooks (1 + 4) 0x80000000 4 5 0 0 s' =
       Some (wr s' 5 (take_bit (8 * 2 ^ unat (1 :: u32)) 0x1ff80), C_done))"
  by (rule store_then_load [OF mem_demo_ok _ _ _ mem_demo_disjoint])
    (simp_all add: mem_xlate_def region_at_def mem_demo_def riscv_init_def RISCV_HALF_def)

end
