(* ===== verification/Host_Main.thy ===== *)
theory Host_Main
  imports Guest_Mem
begin

text \<open>
  The reference host \<open>emu/main.c\<close> (the same text drives purvs): its globals, the handlers it
  installs in the VM state, and the loop that runs the engine in slices. The handlers are the
  ones the contract \<open>trap_hooks\<close> is interpreted on. What the host prints is kept as data: the
  bytes of stdout and the diagnostics of stderr.
\<close>

section \<open>Globals\<close>

datatype diag =
    D_illegal u32 u32            \<comment> \<open>instruction, pc\<close>
  | D_fault mem_op u32 u32       \<comment> \<open>operation, address, pc\<close>
  | D_fetch_outside u32          \<comment> \<open>pc\<close>

record host =
  g_halt :: bool
  g_exit :: u32
  g_user_mode :: bool
  g_brk :: u32
  g_faulted :: bool
  g_heap_size :: u32
  g_stdout :: "u8 list"
  g_stderr :: "diag list"

type_synonym hvm = "host vm"

definition upd_world :: "(host \<Rightarrow> host) \<Rightarrow> hvm \<Rightarrow> hvm" where
  "upd_world f s = s\<lparr>world := f (world s)\<rparr>"

text \<open>\<open>in_heap\<close>: the range lies in the upper half's buffer, in 64-bit arithmetic.\<close>

definition in_heap :: "host \<Rightarrow> u32 \<Rightarrow> u32 \<Rightarrow> bool" where
  "in_heap h addr n =
     (addr \<ge> RISCV_HALF \<and> (ucast addr + ucast n :: u64) \<le> ucast RISCV_HALF + ucast (g_heap_size h))"

section \<open>Handlers\<close>

definition on_illegal :: "host trap_fn" where
  "on_illegal s =
     (True, upd_world (\<lambda>h. h\<lparr>g_halt := True, g_exit := 1,
                              g_stderr := g_stderr h @ [D_illegal (inst s) (pc s)]\<rparr>) s)"

definition on_oob :: "host mem_fn" where
  "on_oob s op addr value =
     (0, if g_faulted (world s) then s
         else upd_world (\<lambda>h. h\<lparr>g_faulted := True, g_halt := True, g_exit := 1,
                                g_stderr := g_stderr h @ [D_fault op addr (pc s)]\<rparr>) s)"

text \<open>
  \<open>on_ecall\<close>: \<open>a7\<close> is the call number, \<open>a0\<close> to \<open>a2\<close> the arguments, the result goes to \<open>a0\<close>. The
  bytes \<open>write\<close> prints are read with \<open>guest_byte\<close>, which is defined on every state the engine
  can be in (\<open>guest_byte_total\<close>).
\<close>

definition sys_write :: "hvm \<Rightarrow> u32 \<Rightarrow> u32 \<Rightarrow> u8 list" where
  "sys_write s a1 a2 = map (\<lambda>i. the (guest_byte s (a1 + of_nat i))) [0..<unat a2]"

definition on_ecall :: "host trap_fn" where
  "on_ecall s =
     (if \<not> g_user_mode (world s) then (False, s)
      else
        let num = regs s 17; a0 = regs s 10; a1 = regs s 11; a2 = regs s 12;
            (ret, s') =
              (if num = 64 then
                 (a2, upd_world (\<lambda>h. h\<lparr>g_stdout := g_stdout h @ sys_write s a1 a2\<rparr>) s)
               else if num = 93 \<or> num = 94 then
                 (0, upd_world (\<lambda>h. h\<lparr>g_exit := a0, g_halt := True\<rparr>) s)
               else if num = 214 then
                 (let s1 = (if a0 \<ge> g_brk (world s) \<and> a0 < RISCV_HALF + g_heap_size (world s)
                            then upd_world (\<lambda>h. h\<lparr>g_brk := a0\<rparr>) s else s)
                  in (g_brk (world s1), s1))
               else (- 38, s));
            s2 = s'\<lparr>regs := (regs s')(10 := ret)\<rparr>
        in (g_halt (world s2), s2))"

definition on_ebreak :: "host trap_fn" where
  "on_ebreak s = (True, s)"

definition main_hooks :: "host hooks" where
  "main_hooks =
     \<lparr>h_ecall = Some on_ecall, h_ebreak = Some on_ebreak, h_illegal = Some on_illegal,
      h_callback = Some on_oob\<rparr>"

lemma keeps_upd_world [simp]: "keeps s (upd_world f s)"
  by (simp add: keeps_def upd_world_def vm_ok_def)

lemma keeps_set_reg: "i \<noteq> 0 \<Longrightarrow> keeps s (s\<lparr>regs := (regs s)(i := v)\<rparr>)"
  by (simp add: keeps_def vm_ok_def)

lemma on_ecall_keeps: "on_ecall s = (b, s') \<Longrightarrow> keeps s s'"
  by (auto simp: on_ecall_def Let_def keeps_def vm_ok_def upd_world_def split: if_splits)

interpretation main_host: trap_hooks main_hooks
  by unfold_locales
    (auto simp: main_hooks_def on_illegal_def on_ebreak_def on_oob_def dest: on_ecall_keeps)

section \<open>Running in slices\<close>

text \<open>
  The run loop of \<open>main\<close>. A slice is at most 65536 instructions; between slices the host polls
  its halt flag and the \<open>tohost\<close> word (if the program has one), and a slice that ends early
  is reported as a fetch outside the code. \<open>invoke\<close> is whether a function is being called.
\<close>

definition MAGIC_RET :: u32 where
  "MAGIC_RET = 0xdeadbee0"

definition SLICE :: nat where
  "SLICE = 65536"

text \<open>
  \<open>g_heap\<close> is the view of the writable buffer from \<open>RISCV_HALF\<close> on, so \<open>g_heap[a - RISCV_HALF]\<close> is
  the writable region's byte at guest address \<open>a\<close>. The \<open>tohost\<close> word is read there; it counts as
  0 when it lies outside.
\<close>

definition heap_byte :: "hvm \<Rightarrow> u32 \<Rightarrow> u8" where
  "heap_byte s a = the (region_rd (writable s) (unat (a - rg_base (writable s))))"

definition tohost_word :: "hvm \<Rightarrow> u32 \<Rightarrow> u32" where
  "tohost_word s a =
     (if in_heap (world s) a 4
      then le32 (heap_byte s a) (heap_byte s (a + 1)) (heap_byte s (a + 2)) (heap_byte s (a + 3))
      else 0)"

definition fetch_outside :: "hvm \<Rightarrow> hvm" where
  "fetch_outside s =
     upd_world (\<lambda>h. h\<lparr>g_halt := True, g_exit := 1,
                       g_stderr := g_stderr h @ [D_fetch_outside (pc s)]\<rparr>) s"

function run_slices ::
  "(hvm \<Rightarrow> nat \<Rightarrow> (hvm \<times> nat) option) \<Rightarrow> u32 option \<Rightarrow> bool \<Rightarrow> nat \<Rightarrow> nat \<Rightarrow> hvm
     \<Rightarrow> (hvm \<times> nat) option" where
  "run_slices loop tohost invoke max_insns i s =
     (if i < max_insns \<and> \<not> g_halt (world s) then
        (let budget = min (max_insns - i) SLICE
         in case loop s budget of
              None \<Rightarrow> None
            | Some (s', rn) \<Rightarrow>
                if g_halt (world s') then Some (s', i + rn)
                else
                  (let v = (case tohost of None \<Rightarrow> 0 | Some a \<Rightarrow> tohost_word s' a)
                   in if v \<noteq> 0 then
                        Some (upd_world (\<lambda>h. h\<lparr>g_exit := (if v = 1 then 0 else 1),
                                               g_halt := True\<rparr>) s', i + rn)
                      else if rn < budget then
                        (if invoke \<and> pc s' = MAGIC_RET then Some (s', i + rn)
                         else Some (fetch_outside s', i + rn))
                      else run_slices loop tohost invoke max_insns (i + rn) s'))
      else Some (s, i))"
  by pat_completeness auto
termination
  by (relation "measure (\<lambda>(loop, tohost, invoke, max_insns, i, s). max_insns - i)")
    (auto simp: SLICE_def)

declare run_slices.simps [simp del]

section \<open>The contract of an engine\<close>

text \<open>
  What the run loop relies on: a slice returns, executes no more instructions than its budget and
  keeps the state invariant. Both engines and any host handlers that meet \<open>trap_hooks\<close> give it.
\<close>

locale engine =
  fixes loop :: "hvm \<Rightarrow> nat \<Rightarrow> (hvm \<times> nat) option"
  assumes slice: "vm_ok s \<Longrightarrow> \<exists>s' k. loop s n = Some (s', k) \<and> k \<le> n \<and> vm_ok s'"
begin

lemma run_slices_ends:
  "vm_ok s \<Longrightarrow> i \<le> mx \<Longrightarrow>
     \<exists>s' j. run_slices loop tohost invoke mx i s = Some (s', j) \<and> i \<le> j \<and> j \<le> mx \<and> vm_ok s' \<and>
       (g_halt (world s') \<or> j = mx \<or> invoke \<and> pc s' = MAGIC_RET)"
proof (induction "mx - i" arbitrary: i s rule: less_induct)
  case less
  note unfold = run_slices.simps [of loop tohost invoke mx i s]
  show ?case
  proof (cases "i < mx \<and> \<not> g_halt (world s)")
    case False
    with less.prems unfold show ?thesis by auto
  next
    case True
    let ?b = "min (mx - i) SLICE"
    obtain s1 k where run: "loop s ?b = Some (s1, k)" "k \<le> ?b" "vm_ok s1"
      using slice [OF less.prems(1)] by blast
    have ok: "vm_ok (upd_world f s1)" for f using run(3) by (simp add: vm_ok_def upd_world_def)
    let ?v = "case tohost of None \<Rightarrow> 0 | Some a \<Rightarrow> tohost_word s1 a"
    have le: "i + k \<le> mx" using run(2) True by linarith
    consider "g_halt (world s1)" | "\<not> g_halt (world s1)" "?v \<noteq> 0 \<or> k < ?b"
      | "\<not> g_halt (world s1)" "?v = 0" "\<not> k < ?b" by blast
    then show ?thesis
    proof cases
      case 1
      with unfold True run le show ?thesis by (simp add: Let_def)
    next
      case 2
      with unfold True run le ok show ?thesis
        by (auto simp: Let_def fetch_outside_def upd_world_def)
    next
      case 3
      then have "0 < k" using True by (cases "mx - i \<le> SLICE") (auto simp: SLICE_def min_def)
      with True have "mx - (i + k) < mx - i" by linarith
      from less.hyps [OF this run(3) le] 3 unfold True run show ?thesis
        by (auto simp: Let_def)
    qed
  qed
qed

end

lemma engine_riscv_loop: "trap_hooks hk \<Longrightarrow> engine (riscv_loop hk)"
  by (simp add: engine_def) (metis trap_hooks.riscv_loop_ok)

interpretation main_engine: engine "riscv_loop main_hooks"
  by (rule engine_riscv_loop) (rule main_host.trap_hooks_axioms)

section \<open>Properties\<close>

text \<open>
  The host's run loop ends, for a reason. Driving the engine with \<open>main.c\<close>'s handlers in
  slices, from any state that satisfies the invariant, it returns without an access outside a
  buffer, executes at most \<open>max_insns\<close> instructions, and stops because the host halted, the budget
  is used up, or an invoked function returned to the magic address.
\<close>

theorem main_run_ends:
  assumes "vm_ok s"
  shows "\<exists>s' j. run_slices (riscv_loop main_hooks) tohost invoke mx 0 s = Some (s', j) \<and>
    j \<le> mx \<and> vm_ok s' \<and>
    (g_halt (world s') \<or> j = mx \<or> invoke \<and> pc s' = MAGIC_RET)"
  using main_engine.run_slices_ends [OF assms, of 0 mx tohost invoke] by blast

definition host_demo :: hvm where
  "host_demo = riscv_init \<lparr>rg_ptr = Some [0x73, 0, 0, 0], rg_len = 4, rg_base = 0\<rparr>
     \<lparr>rg_ptr = Some [0, 0, 0, 0], rg_len = 4, rg_base = RISCV_HALF\<rparr>
     \<lparr>g_halt = False, g_exit = 0, g_user_mode = True, g_brk = 0, g_faulted = False,
      g_heap_size = 4, g_stdout = [], g_stderr = []\<rparr>"

lemma host_demo_ok: "vm_ok host_demo"
  unfolding host_demo_def by (rule vm_ok_init) (simp_all add: wf_region_def)

lemma main_run_ends_witness:
  "\<exists>s' j. run_slices (riscv_loop main_hooks) None False 3 0 host_demo = Some (s', j) \<and> j \<le> 3 \<and>
     vm_ok s' \<and> (g_halt (world s') \<or> j = 3 \<or> False \<and> pc s' = MAGIC_RET)"
  by (rule main_run_ends [OF host_demo_ok])

text \<open>
  The system calls. In user mode \<open>on_ecall\<close> with \<open>exit\<close> or \<open>exit_group\<close> halts with the code in
  \<open>a0\<close>; \<open>write\<close> appends the guest bytes from \<open>a1\<close> and answers the length; \<open>brk\<close> only ever moves up
  and below the end of the heap, and answers where it stands; any other number answers \<open>-ENOSYS\<close>
  and changes nothing else. The run loop goes on exactly while the host has not halted, and only
  \<open>a0\<close> and the host's globals can have changed.
\<close>

theorem on_ecall_calls:
  assumes "g_user_mode (world s)" "\<not> g_halt (world s)"
  shows "case on_ecall s of (stop, s') \<Rightarrow>
    stop = g_halt (world s') \<and>
    s' = s\<lparr>regs := (regs s)(10 := regs s' 10), world := world s'\<rparr> \<and>
    (regs s 17 \<in> {93, 94} \<longrightarrow>
       world s' = (world s)\<lparr>g_exit := regs s 10, g_halt := True\<rparr> \<and> regs s' 10 = 0) \<and>
    (regs s 17 = 64 \<longrightarrow>
       world s' = (world s)\<lparr>g_stdout := g_stdout (world s) @ sys_write s (regs s 11) (regs s 12)\<rparr> \<and>
       regs s' 10 = regs s 12) \<and>
    (regs s 17 = 214 \<longrightarrow>
       world s' = (world s)\<lparr>g_brk := regs s' 10\<rparr> \<and> g_brk (world s) \<le> regs s' 10 \<and>
       (regs s' 10 = g_brk (world s) \<or>
        regs s' 10 = regs s 10 \<and> regs s 10 < RISCV_HALF + g_heap_size (world s))) \<and>
    (regs s 17 \<notin> {64, 93, 94, 214} \<longrightarrow> world s' = world s \<and> regs s' 10 = - 38)"
proof -
  obtain w where w: "world s = w" by blast
  consider "regs s 17 = 64" | "regs s 17 = 93 \<or> regs s 17 = 94" | "regs s 17 = 214"
    | "regs s 17 \<notin> {64, 93, 94, 214}" by blast
  then show ?thesis
    using assms by cases (cases s, cases w, auto simp: on_ecall_def upd_world_def Let_def)+
qed

lemma on_ecall_calls_witness:
  "case on_ecall host_demo of (stop, s') \<Rightarrow>
    stop = g_halt (world s') \<and>
    s' = host_demo\<lparr>regs := (regs host_demo)(10 := regs s' 10), world := world s'\<rparr> \<and>
    (regs host_demo 17 \<in> {93, 94} \<longrightarrow>
       world s' = (world host_demo)\<lparr>g_exit := regs host_demo 10, g_halt := True\<rparr> \<and> regs s' 10 = 0) \<and>
    (regs host_demo 17 = 64 \<longrightarrow>
       world s' = (world host_demo)\<lparr>g_stdout := g_stdout (world host_demo) @
         sys_write host_demo (regs host_demo 11) (regs host_demo 12)\<rparr> \<and>
       regs s' 10 = regs host_demo 12) \<and>
    (regs host_demo 17 = 214 \<longrightarrow>
       world s' = (world host_demo)\<lparr>g_brk := regs s' 10\<rparr> \<and> g_brk (world host_demo) \<le> regs s' 10 \<and>
       (regs s' 10 = g_brk (world host_demo) \<or> regs s' 10 = regs host_demo 10 \<and>
        regs host_demo 10 < RISCV_HALF + g_heap_size (world host_demo))) \<and>
    (regs host_demo 17 \<notin> {64, 93, 94, 214} \<longrightarrow>
       world s' = world host_demo \<and> regs s' 10 = - 38)"
  by (rule on_ecall_calls) (simp_all add: host_demo_def riscv_init_def)

end
