(* ===== verification/Elf32.thy ===== *)
theory Elf32
  imports Prelude
begin

text \<open>
  What the readers of ELF files share, \<open>emu/purvhost.h\<close> and \<open>emu/purva/tctool.c\<close>: a file is its
  bytes, a field is read where the layout puts it, and \<open>memcpy\<close> moves bytes between buffers. \<open>None\<close>
  is an access outside a buffer.
\<close>

definition elf16 :: "u8 list \<Rightarrow> nat \<Rightarrow> u32 option" where
  "elf16 e i = (if i + 2 \<le> length e then Some (le16 (e ! i) (e ! (i + 1))) else None)"

definition elf32 :: "u8 list \<Rightarrow> nat \<Rightarrow> u32 option" where
  "elf32 e i = (if i + 4 \<le> length e then Some (le32 (e ! i) (e ! (i + 1)) (e ! (i + 2)) (e ! (i + 3))) else None)"

text \<open>\<open>memcpy(dst + d, src + o, n)\<close>.\<close>

definition copy_in :: "u8 list \<Rightarrow> nat \<Rightarrow> nat \<Rightarrow> u8 list \<Rightarrow> nat \<Rightarrow> u8 list option" where
  "copy_in src off n dst d =
     (if off + n \<le> length src \<and> d + n \<le> length dst
      then Some (take d dst @ take n (drop off src) @ drop (d + n) dst) else None)"

lemma copy_in_length: "copy_in src off n dst d = Some dst' \<Longrightarrow> length dst' = length dst"
  by (auto simp: copy_in_def split: if_split_asm)

lemma copy_in_nth:
  assumes "copy_in src off n dst d = Some dst'"
  shows "dst' ! j = (if d \<le> j \<and> j < d + n then src ! (off + (j - d)) else dst ! j)"
proof -
  have b: "off + n \<le> length src" "d + n \<le> length dst" "dst' = take d dst @ take n (drop off src) @ drop (d + n) dst"
    using assms by (auto simp: copy_in_def split: if_split_asm)
  consider "j < d" | "d \<le> j" "j < d + n" | "d + n \<le> j" by linarith
  then show ?thesis
    using b by cases (auto simp: nth_append)
qed

lemma copy_in_ok:
  "off + n \<le> length src \<Longrightarrow> d + n \<le> length dst \<Longrightarrow> \<exists>dst'. copy_in src off n dst d = Some dst'"
  by (simp add: copy_in_def)

end
