(* ===== verification/Host_Setup.thy ===== *)
theory Host_Setup
  imports Host_Main Elf32
begin

text \<open>
  How a program comes into the engine: the buffers and the ELF loader of \<open>emu/purvhost.h\<close>, the
  initial stack, the signature dump and the whole of \<open>main\<close> after option parsing of \<open>emu/main.c\<close>
  (\<open>emu/purvs/main.c\<close> has the same text). Files are their bytes; whether an allocation succeeds is
  an argument. \<open>None\<close> is an access outside a buffer or a loop that does not end.
\<close>

section \<open>Buffers\<close>

definition PURVHOST_CODE_BYTES :: u32 where "PURVHOST_CODE_BYTES = 64 * 1024 * 1024"
definition PURVHOST_HEAP_BYTES :: u32 where "PURVHOST_HEAP_BYTES = 256 * 1024 * 1024"
definition PURVHOST_STACK_BYTES :: u32 where "PURVHOST_STACK_BYTES = 16 * 1024 * 1024"

text \<open>
  \<open>PurvHost\<close>. \<open>stack\<close> and \<open>heap\<close> are two views into one allocation, \<open>ph_mem\<close>: \<open>stack\<close> is its start,
  \<open>heap\<close> is \<open>stack_len\<close> bytes in.
\<close>

record purvhost =
  ph_code :: "u8 list"
  ph_mem :: "u8 list"
  ph_code_len :: u32
  ph_heap_len :: u32
  ph_stack_len :: u32
  ph_entry :: u32
  ph_data_end :: u32
  ph_elf :: "u8 list option"

definition purvhost_alloc :: "(nat \<Rightarrow> bool) \<Rightarrow> u32 \<Rightarrow> u32 \<Rightarrow> u32 \<Rightarrow> purvhost option" where
  "purvhost_alloc alloc code_len heap_len stack_len =
     (let c = (if code_len \<noteq> 0 then code_len else PURVHOST_CODE_BYTES);
          h = (if heap_len \<noteq> 0 then heap_len else PURVHOST_HEAP_BYTES);
          t = (if stack_len \<noteq> 0 then stack_len else PURVHOST_STACK_BYTES)
      in if alloc (unat c) \<and> alloc (unat t + unat h)
         then Some \<lparr>ph_code = replicate (unat c) 0, ph_mem = replicate (unat t + unat h) 0,
           ph_code_len = c, ph_heap_len = h, ph_stack_len = t, ph_entry = 0, ph_data_end = RISCV_HALF,
           ph_elf = None\<rparr>
         else None)"

text \<open>The length of the writable region is added up in 32 bits.\<close>

definition purvhost_init :: "purvhost \<Rightarrow> 'w \<Rightarrow> 'w vm" where
  "purvhost_init h w =
     riscv_init \<lparr>rg_ptr = Some (ph_code h), rg_len = ph_code_len h, rg_base = 0\<rparr>
       \<lparr>rg_ptr = Some (ph_mem h), rg_len = ph_stack_len h + ph_heap_len h, rg_base = RISCV_HALF - ph_stack_len h\<rparr> w"

section \<open>The loader\<close>

datatype load_exit = No_memory | Not_elf | Not_riscv32 | Code_too_big | Data_outside | Flat_too_big

record phdr =
  p_type :: u32
  p_offset :: u32
  p_vaddr :: u32
  p_filesz :: u32
  p_memsz :: u32

text \<open>\<open>memcpy(&ph, h->elf + eh.e_phoff + i * eh.e_phentsize, sizeof ph)\<close>.\<close>

definition phdr_at :: "u8 list \<Rightarrow> nat \<Rightarrow> nat \<Rightarrow> nat \<Rightarrow> phdr option" where
  "phdr_at e off ent i =
     (let q = off + i * ent
      in if q + 32 \<le> length e
         then do {
           t \<leftarrow> elf32 e q; f \<leftarrow> elf32 e (q + 4); v \<leftarrow> elf32 e (q + 8);
           z \<leftarrow> elf32 e (q + 16); m \<leftarrow> elf32 e (q + 20);
           Some \<lparr>p_type = t, p_offset = f, p_vaddr = v, p_filesz = z, p_memsz = m\<rparr> }
         else None)"

text \<open>The body of the loop. The bounds are 64-bit sums of \<open>p_memsz\<close>, what is copied is \<open>p_filesz\<close>.\<close>

definition load_segment :: "u8 list \<Rightarrow> phdr \<Rightarrow> purvhost \<Rightarrow> (load_exit + purvhost) option" where
  "load_segment e p h =
     (let hi = ucast (p_vaddr p) + ucast (p_memsz p) :: u64
      in if p_type p \<noteq> 1 \<or> p_memsz p = 0 then Some (Inr h)
         else if p_vaddr p < RISCV_HALF then
           if hi > ucast (ph_code_len h) then Some (Inl Code_too_big)
           else if p_filesz p = 0 then Some (Inr h)
           else map_option (\<lambda>c. Inr (h\<lparr>ph_code := c\<rparr>))
             (copy_in e (unat (p_offset p)) (unat (p_filesz p)) (ph_code h) (unat (p_vaddr p)))
         else if hi > ucast RISCV_HALF + ucast (ph_heap_len h) then Some (Inl Data_outside)
         else
           let en = p_vaddr p + p_memsz p;
               h1 = h\<lparr>ph_data_end := (if en > ph_data_end h then en else ph_data_end h)\<rparr>
           in if p_filesz p = 0 then Some (Inr h1)
              else map_option (\<lambda>m. Inr (h1\<lparr>ph_mem := m\<rparr>))
                (copy_in e (unat (p_offset p)) (unat (p_filesz p)) (ph_mem h)
                  (unat (ph_stack_len h) + unat (p_vaddr p - RISCV_HALF))))"

fun load_segments :: "u8 list \<Rightarrow> nat \<Rightarrow> nat \<Rightarrow> nat \<Rightarrow> nat \<Rightarrow> purvhost \<Rightarrow> (load_exit + purvhost) option" where
  "load_segments e off ent i 0 h = Some (Inr h)"
| "load_segments e off ent i (Suc n) h =
     (case phdr_at e off ent i of
        None \<Rightarrow> None
      | Some p \<Rightarrow>
          (case load_segment e p h of
             None \<Rightarrow> None
           | Some (Inl x) \<Rightarrow> Some (Inl x)
           | Some (Inr h1) \<Rightarrow> load_segments e off ent (Suc i) n h1))"

definition purvhost_load_elf :: "purvhost \<Rightarrow> u8 list \<Rightarrow> (load_exit + purvhost) option" where
  "purvhost_load_elf h e =
     (if length e < 52 \<or> take 4 e \<noteq> [0x7f, 0x45, 0x4c, 0x46] then Some (Inl Not_elf)
      else do {
        machine \<leftarrow> elf16 e 18; en \<leftarrow> elf32 e 24; off \<leftarrow> elf32 e 28; ent \<leftarrow> elf16 e 42; n \<leftarrow> elf16 e 44;
        if e ! 4 \<noteq> 1 \<or> machine \<noteq> 243 then Some (Inl Not_riscv32)
        else map_option (\<lambda>r. case r of Inl x \<Rightarrow> Inl x | Inr h1 \<Rightarrow> Inr (h1\<lparr>ph_entry := en\<rparr>))
          (load_segments e (unat off) (unat ent) 0 (unat n) (h\<lparr>ph_elf := Some e\<rparr>)) })"

definition purvhost_load_flat :: "purvhost \<Rightarrow> u8 list \<Rightarrow> (load_exit + purvhost) option" where
  "purvhost_load_flat h buf =
     (if length buf > unat (ph_code_len h) then Some (Inl Flat_too_big)
      else map_option (\<lambda>c. Inr (h\<lparr>ph_code := c, ph_entry := 0\<rparr>)) (copy_in buf 0 (length buf) (ph_code h) 0))"

text \<open>The wrapper pair: default sizes, the image, a state at its entry point.\<close>

definition purvhost_setup ::
  "(purvhost \<Rightarrow> u8 list \<Rightarrow> (load_exit + purvhost) option) \<Rightarrow> (nat \<Rightarrow> bool) \<Rightarrow> u8 list \<Rightarrow> 'w \<Rightarrow>
     (load_exit + purvhost \<times> 'w vm) option" where
  "purvhost_setup load alloc file w =
     (case purvhost_alloc alloc 0 0 0 of
        None \<Rightarrow> Some (Inl No_memory)
      | Some h \<Rightarrow>
          map_option (\<lambda>r. case r of Inl x \<Rightarrow> Inl x | Inr h1 \<Rightarrow> Inr (h1, (purvhost_init h1 w)\<lparr>pc := ph_entry h1\<rparr>))
            (load h file))"

definition purvhost_setup_elf :: "(nat \<Rightarrow> bool) \<Rightarrow> u8 list \<Rightarrow> 'w \<Rightarrow> (load_exit + purvhost \<times> 'w vm) option" where
  "purvhost_setup_elf = purvhost_setup purvhost_load_elf"

definition purvhost_setup_flat :: "(nat \<Rightarrow> bool) \<Rightarrow> u8 list \<Rightarrow> 'w \<Rightarrow> (load_exit + purvhost \<times> 'w vm) option" where
  "purvhost_setup_flat = purvhost_setup purvhost_load_flat"

section \<open>Symbols\<close>

text \<open>\<open>strcmp(strs + st_name, name) == 0\<close>; \<open>name\<close> has no NUL of its own.\<close>

fun str_is :: "u8 list \<Rightarrow> nat \<Rightarrow> u8 list \<Rightarrow> bool option" where
  "str_is e q [] = (if q < length e then Some (e ! q = 0) else None)"
| "str_is e q (c # cs) =
     (if q < length e then (if e ! q = c then str_is e (Suc q) cs else Some False) else None)"

text \<open>The symbols of one table from \<open>s\<close> on; the inner \<open>None\<close> is "not found here".\<close>

fun sym_in_table :: "u8 list \<Rightarrow> nat \<Rightarrow> nat \<Rightarrow> nat \<Rightarrow> u8 list \<Rightarrow> nat \<Rightarrow> nat \<Rightarrow> u32 option option" where
  "sym_in_table e strs tab ent name s 0 = Some None"
| "sym_in_table e strs tab ent name s (Suc n) =
     (let q = tab + s * ent
      in if q + 16 \<le> length e
         then do {
           nm \<leftarrow> elf32 e q; v \<leftarrow> elf32 e (q + 4);
           hit \<leftarrow> (if nm = 0 then Some False else str_is e (strs + unat nm) name);
           if hit then Some (Some v) else sym_in_table e strs tab ent name (Suc s) n }
         else None)"

text \<open>The sections from \<open>i\<close> on; the header of each is read whole.\<close>

fun sym_sections :: "u8 list \<Rightarrow> nat \<Rightarrow> nat \<Rightarrow> u8 list \<Rightarrow> nat \<Rightarrow> nat \<Rightarrow> u32 option option" where
  "sym_sections e off ent name i 0 = Some None"
| "sym_sections e off ent name i (Suc n) =
     (let q = off + i * ent
      in if q + 40 \<le> length e
         then do {
           ty \<leftarrow> elf32 e (q + 4); so \<leftarrow> elf32 e (q + 16); sz \<leftarrow> elf32 e (q + 20);
           link \<leftarrow> elf32 e (q + 24); es \<leftarrow> elf32 e (q + 36);
           if ty \<noteq> 2 \<or> es = 0 then sym_sections e off ent name (Suc i) n
           else
             let sq = off + unat link * ent
             in if sq + 40 \<le> length e
                then do {
                  sto \<leftarrow> elf32 e (sq + 16);
                  r \<leftarrow> sym_in_table e (unat sto) (unat so) (unat es) name 0 (unat (sz div es));
                  case r of Some v \<Rightarrow> Some (Some v) | None \<Rightarrow> sym_sections e off ent name (Suc i) n }
                else None }
         else None)"

definition elf_sym :: "u8 list \<Rightarrow> u8 list \<Rightarrow> u32 option option" where
  "elf_sym e name = do {
     off \<leftarrow> elf32 e 32; ent \<leftarrow> elf16 e 46; n \<leftarrow> elf16 e 48;
     sym_sections e (unat off) (unat ent) name 0 (unat n) }"

definition purvhost_sym :: "purvhost \<Rightarrow> u8 list \<Rightarrow> u32 option option" where
  "purvhost_sym h name = (case ph_elf h of None \<Rightarrow> Some None | Some e \<Rightarrow> elf_sym e name)"

section \<open>The initial stack\<close>

text \<open>
  \<open>setup_user_stack\<close>: strings, then \<open>argc\<close>, the argument pointers and four zero words, all below
  \<open>RISCV_HALF\<close>. \<open>base\<close> is \<open>STACK_MEM_BASE\<close>, the guest address of the buffer's first byte; the last
  argument is pushed first. A string is its bytes before the NUL.
\<close>

fun push_args :: "u32 \<Rightarrow> u8 list list \<Rightarrow> u32 \<Rightarrow> u8 list \<Rightarrow> (u32 \<times> u32 list \<times> u8 list) option" where
  "push_args base [] sp mem = Some (sp, [], mem)"
| "push_args base (a # as) sp mem = do {
     (sp1, ps, mem1) \<leftarrow> push_args base as sp mem;
     let n = of_nat (length a) + 1; let sp2 = sp1 - n;
     mem2 \<leftarrow> copy_in (a @ [0]) 0 (unat n) mem1 (unat (sp2 - base));
     Some (sp2, sp2 # ps, mem2) }"

definition gpoke :: "u32 \<Rightarrow> u32 \<Rightarrow> u32 \<Rightarrow> u8 list \<Rightarrow> u8 list option" where
  "gpoke base addr v mem = copy_in [byte_of 0 v, byte_of 1 v, byte_of 2 v, byte_of 3 v] 0 4 mem (unat (addr - base))"

fun poke_words :: "u32 \<Rightarrow> u32 \<Rightarrow> u32 list \<Rightarrow> u8 list \<Rightarrow> u8 list option" where
  "poke_words base p [] mem = Some mem"
| "poke_words base p (v # vs) mem = do { m \<leftarrow> gpoke base p v mem; poke_words base (p + 4) vs m }"

definition setup_user_stack :: "u32 \<Rightarrow> u8 list list \<Rightarrow> u8 list \<Rightarrow> (u32 \<times> u8 list) option" where
  "setup_user_stack base argv mem =
     (let av = take 64 argv; argc = of_nat (length av)
      in do {
        (sp0, ps, mem1) \<leftarrow> push_args base av RISCV_HALF mem;
        let sp1 = sp0 AND NOT 15; let words = 1 + argc + 1 + 1 + 2; let sp2 = (sp1 - words * 4) AND NOT 15;
        mem2 \<leftarrow> poke_words base sp2 (argc # ps @ [0, 0, 0, 0]) mem1;
        Some (sp2, mem2) })"

section \<open>The signature\<close>

text \<open>\<open>fprintf(f, "%02x", byte)\<close>.\<close>

definition hex_digit :: "u32 \<Rightarrow> u8" where
  "hex_digit v = (if v < 10 then 0x30 + ucast v else 0x57 + ucast v)"

definition hex_byte :: "u8 \<Rightarrow> u8 list" where
  "hex_byte b = [hex_digit (drop_bit 4 (ucast b)), hex_digit (ucast b AND 15)]"

text \<open>The inner loop, \<open>for (uint32_t b = gran; b-- > 0; )\<close>: the most significant byte first.\<close>

fun sig_word :: "hvm \<Rightarrow> u32 \<Rightarrow> nat \<Rightarrow> u8 list" where
  "sig_word s a 0 = []"
| "sig_word s a (Suc b) =
     hex_byte (if in_heap (world s) (a + of_nat b) 1 then heap_byte s (a + of_nat b) else 0) @ sig_word s a b"

text \<open>The outer loop, on 32-bit addresses; it may wrap around and not end.\<close>

partial_function (option) sig_lines :: "hvm \<Rightarrow> u32 \<Rightarrow> u32 \<Rightarrow> u32 \<Rightarrow> u8 list \<Rightarrow> u8 list option" where
  "sig_lines s gran a last_a txt =
     (if a < last_a then sig_lines s gran (a + gran) last_a (txt @ sig_word s a (unat gran) @ [0x0a]) else Some txt)"

definition dump_signature :: "hvm \<Rightarrow> u32 \<Rightarrow> u32 \<Rightarrow> u32 \<Rightarrow> u8 list option" where
  "dump_signature s gran begin_sig end_sig =
     sig_lines s (if gran = 0 then 4 else gran) begin_sig end_sig []"

section \<open>The driver\<close>

text \<open>
  The options after parsing: \<open>--signature=\<close> with its granularity, \<open>--invoke=\<close> and its arguments,
  \<open>--user\<close>, \<open>--ram=\<close>, \<open>--max-insns=\<close>, and the positional arguments, the ELF file first.
\<close>

record options =
  o_sig :: bool
  o_gran :: u32
  o_invoke :: "u8 list option"
  o_args :: "u32 list"
  o_user :: bool
  o_ram :: u32
  o_max :: nat
  o_argv :: "u8 list list"

definition CODE_BYTES :: u32 where "CODE_BYTES = 64 * 1024 * 1024"
definition STACK_BYTES :: u32 where "STACK_BYTES = 16 * 1024 * 1024"
definition STACK_MEM_BASE :: u32 where "STACK_MEM_BASE = RISCV_HALF - STACK_BYTES"

text \<open>The host's globals when the program starts.\<close>

definition host_start :: "options \<Rightarrow> purvhost \<Rightarrow> host" where
  "host_start opts h =
     \<lparr>g_halt = False, g_exit = 1, g_user_mode = o_user opts, g_brk = (ph_data_end h + 0xFFF) AND NOT 0xFFF,
      g_faulted = False, g_heap_size = o_ram opts, g_stdout = [], g_stderr = []\<rparr>"

text \<open>The names \<open>tohost\<close>, \<open>begin_signature\<close>, \<open>end_signature\<close>.\<close>

definition sym_tohost :: "u8 list" where
  "sym_tohost = [0x74, 0x6f, 0x68, 0x6f, 0x73, 0x74]"

definition sym_begin :: "u8 list" where
  "sym_begin = [0x62, 0x65, 0x67, 0x69, 0x6e, 0x5f, 0x73, 0x69, 0x67, 0x6e, 0x61, 0x74, 0x75, 0x72, 0x65]"

definition sym_end :: "u8 list" where
  "sym_end = [0x65, 0x6e, 0x64, 0x5f, 0x73, 0x69, 0x67, 0x6e, 0x61, 0x74, 0x75, 0x72, 0x65]"

fun set_args :: "u32 list \<Rightarrow> reg \<Rightarrow> hvm \<Rightarrow> hvm" where
  "set_args [] i s = s"
| "set_args (v # vs) i s = set_args vs (i + 1) (s\<lparr>regs := (regs s)(i := v)\<rparr>)"

text \<open>
  Where the program starts and with which registers; the symbols found are those of \<open>tohost\<close> and of
  the two ends of the signature. The inner \<open>None\<close> is the exit for an unknown \<open>--invoke\<close>.
\<close>

definition main_start ::
  "options \<Rightarrow> purvhost \<Rightarrow> hvm \<Rightarrow> (hvm \<times> u32 option \<times> (u32 \<times> u32) option) option option" where
  "main_start opts h s =
     (case o_invoke opts of
        Some name \<Rightarrow> do {
          r \<leftarrow> purvhost_sym h name;
          Some (case r of
                  None \<Rightarrow> None
                | Some v \<Rightarrow> Some ((set_args (o_args opts) 10 (s\<lparr>regs := (regs s)(1 := MAGIC_RET)\<rparr>))\<lparr>pc := v\<rparr>, None, None)) }
      | None \<Rightarrow>
          if o_user opts then do {
            (sp, mem) \<leftarrow> setup_user_stack STACK_MEM_BASE (o_argv opts) (ph_mem h);
            Some (Some (s\<lparr>writable := (writable s)\<lparr>rg_ptr := Some mem\<rparr>, regs := (regs s)(2 := sp), pc := ph_entry h\<rparr>,
              None, None)) }
          else do {
            t \<leftarrow> purvhost_sym h sym_tohost; b \<leftarrow> purvhost_sym h sym_begin; e \<leftarrow> purvhost_sym h sym_end;
            Some (Some (s\<lparr>pc := ph_entry h\<rparr>, t,
              (case (b, e) of (Some x, Some y) \<Rightarrow> Some (x, y) | _ \<Rightarrow> None))) })"

text \<open>How \<open>main\<close> ends: the exit code, the value printed for \<open>--invoke\<close>, the signature file's text.\<close>

record main_end =
  me_code :: u32
  me_value :: "u32 option"
  me_sig :: "u8 list option"

definition exit_with :: "u32 \<Rightarrow> main_end" where
  "exit_with c = \<lparr>me_code = c, me_value = None, me_sig = None\<rparr>"

definition main_finish ::
  "bool \<Rightarrow> options \<Rightarrow> (u32 \<times> u32) option \<Rightarrow> hvm \<Rightarrow> nat \<Rightarrow> main_end option" where
  "main_finish opens opts sg s i =
     (if o_invoke opts \<noteq> None then
        Some (if i \<ge> o_max opts then exit_with 2 else (exit_with 0)\<lparr>me_value := Some (regs s 10)\<rparr>)
      else if \<not> g_halt (world s) then Some (exit_with 2)
      else if \<not> o_sig opts then Some (exit_with (g_exit (world s)))
      else (case sg of
              None \<Rightarrow> Some (exit_with 2)
            | Some (b, e) \<Rightarrow>
                if \<not> opens then Some (exit_with 1)
                else map_option (\<lambda>txt. (exit_with (g_exit (world s)))\<lparr>me_sig := Some txt\<rparr>)
                  (dump_signature s (o_gran opts) b e)))"

text \<open>
  \<open>main\<close> up to the end of its loop: the state, the instructions executed and the ends of the
  signature. The inner \<open>None\<close> is an exit with code 2 before the program starts.
\<close>

definition main_run ::
  "(nat \<Rightarrow> bool) \<Rightarrow> (hvm \<Rightarrow> nat \<Rightarrow> (hvm \<times> nat) option) \<Rightarrow> options \<Rightarrow> u8 list
     \<Rightarrow> (hvm \<times> nat \<times> (u32 \<times> u32) option) option option" where
  "main_run alloc loop opts elf =
     (case purvhost_alloc alloc CODE_BYTES (o_ram opts) STACK_BYTES of
        None \<Rightarrow> Some None
      | Some h0 \<Rightarrow>
          (case purvhost_load_elf h0 elf of
             None \<Rightarrow> None
           | Some (Inl x) \<Rightarrow> Some None
           | Some (Inr h) \<Rightarrow>
               (case main_start opts h (purvhost_init h (host_start opts h)) of
                  None \<Rightarrow> None
                | Some None \<Rightarrow> Some None
                | Some (Some (s, tohost, sg)) \<Rightarrow>
                    (case run_slices loop tohost (o_invoke opts \<noteq> None) (o_max opts) 0 s of
                       None \<Rightarrow> None
                     | Some (s', i) \<Rightarrow> Some (Some (s', i, sg))))))"

definition purv_main ::
  "(nat \<Rightarrow> bool) \<Rightarrow> bool \<Rightarrow> (hvm \<Rightarrow> nat \<Rightarrow> (hvm \<times> nat) option) \<Rightarrow> options \<Rightarrow> u8 list \<Rightarrow> main_end option" where
  "purv_main alloc opens loop opts elf =
     (case main_run alloc loop opts elf of
        None \<Rightarrow> None
      | Some None \<Rightarrow> Some (exit_with 2)
      | Some (Some (s, i, sg)) \<Rightarrow> main_finish opens opts sg s i)"

end
