(* ===== verification/Host_Run.thy ===== *)
theory Host_Run
  imports Host_Setup
begin

text \<open>
  What the loader and the driver of \<open>emu/purvhost.h\<close> and \<open>emu/main.c\<close> give the guest: the segments
  at their addresses, the initial stack the ABI asks for, the text of a signature, and a run that
  comes back with an exit code whatever the program does.
\<close>

section \<open>What the loader needs of a file\<close>

fun phdrs_from :: "u8 list \<Rightarrow> nat \<Rightarrow> nat \<Rightarrow> nat \<Rightarrow> nat \<Rightarrow> phdr list option" where
  "phdrs_from e off ent i 0 = Some []"
| "phdrs_from e off ent i (Suc n) =
     (case phdr_at e off ent i of None \<Rightarrow> None | Some p \<Rightarrow> map_option (Cons p) (phdrs_from e off ent (Suc i) n))"

definition elf_phdrs :: "u8 list \<Rightarrow> phdr list option" where
  "elf_phdrs e = do {
     off \<leftarrow> elf32 e 28; ent \<leftarrow> elf16 e 42; n \<leftarrow> elf16 e 44;
     phdrs_from e (unat off) (unat ent) 0 (unat n) }"

text \<open>The bytes a program header puts into memory.\<close>

definition seg_len :: "phdr \<Rightarrow> nat" where
  "seg_len p = (if p_type p \<noteq> 1 \<or> p_memsz p = 0 then 0 else unat (p_filesz p))"

definition seg_ok :: "u32 \<Rightarrow> u32 \<Rightarrow> u8 list \<Rightarrow> phdr \<Rightarrow> bool" where
  "seg_ok clen hlen e p =
     (p_type p = 1 \<and> p_memsz p \<noteq> 0 \<longrightarrow>
        unat (p_offset p) + unat (p_filesz p) \<le> length e \<and> p_filesz p \<le> p_memsz p \<and>
        unat (p_vaddr p) + unat (p_memsz p) \<le>
          (if p_vaddr p < RISCV_HALF then unat clen else unat RISCV_HALF + unat hlen))"

text \<open>A 32-bit RISC-V file whose loadable segments lie in the file and in the buffers.\<close>

definition elf_ok :: "u32 \<Rightarrow> u32 \<Rightarrow> u8 list \<Rightarrow> bool" where
  "elf_ok clen hlen e =
     (52 \<le> length e \<and> take 4 e = [0x7f, 0x45, 0x4c, 0x46] \<and> e ! 4 = 1 \<and> elf16 e 18 = Some 243 \<and>
      (case elf_phdrs e of None \<Rightarrow> False | Some ps \<Rightarrow> list_all (seg_ok clen hlen e) ps))"

definition segs_apart :: "phdr \<Rightarrow> phdr \<Rightarrow> bool" where
  "segs_apart p q = (unat (p_vaddr p) + seg_len p \<le> unat (p_vaddr q) \<or> unat (p_vaddr q) + seg_len q \<le> unat (p_vaddr p) \<or>
     seg_len p = 0 \<or> seg_len q = 0)"

section \<open>The guest's bytes in the host's buffers\<close>

definition host_ok :: "purvhost \<Rightarrow> bool" where
  "host_ok h = (length (ph_code h) = unat (ph_code_len h) \<and>
     length (ph_mem h) = unat (ph_stack_len h) + unat (ph_heap_len h) \<and>
     unat (ph_code_len h) + unat (ph_stack_len h) \<le> unat RISCV_HALF \<and>
     unat (ph_stack_len h) + unat (ph_heap_len h) < 4294967296 \<and> unat (ph_heap_len h) < unat RISCV_HALF \<and>
     RISCV_HALF \<le> ph_data_end h)"

definition stack_base :: "purvhost \<Rightarrow> nat" where
  "stack_base h = unat RISCV_HALF - unat (ph_stack_len h)"

definition host_byte :: "purvhost \<Rightarrow> u32 \<Rightarrow> u8" where
  "host_byte h a =
     (if unat a < unat (ph_code_len h) then ph_code h ! unat a
      else if stack_base h \<le> unat a \<and> unat a < unat RISCV_HALF + unat (ph_heap_len h)
      then ph_mem h ! (unat a - stack_base h) else 0)"

lemma half_nat: "unat RISCV_HALF = 2147483648"
  by (simp add: RISCV_HALF_def)

lemma host_ok_region:
  assumes "host_ok h"
  shows "unat (ph_stack_len h + ph_heap_len h) = unat (ph_stack_len h) + unat (ph_heap_len h)"
    "unat (RISCV_HALF - ph_stack_len h) = stack_base h"
proof -
  have b: "unat (ph_stack_len h) + unat (ph_heap_len h) < 4294967296" "unat (ph_stack_len h) \<le> unat RISCV_HALF"
    using assms by (simp_all add: host_ok_def)
  show "unat (ph_stack_len h + ph_heap_len h) = unat (ph_stack_len h) + unat (ph_heap_len h)"
    using b(1) by (simp add: unat_word_ariths)
  show "unat (RISCV_HALF - ph_stack_len h) = stack_base h"
    using b(2) by (simp add: stack_base_def unat_sub word_le_nat_alt)
qed

lemma vm_ok_host: "host_ok h \<Longrightarrow> vm_ok (purvhost_init h w)"
  using host_ok_region(1) [of h]
  by (auto simp: purvhost_init_def host_ok_def wf_region_def intro!: vm_ok_init)

lemma unat_u64: "unat (ucast (w :: u32) :: u64) = unat w"
proof -
  have "unat w < 2 ^ 64" by (rule order.strict_trans [OF unat_lt_32]) simp
  then show ?thesis by (simp add: unsigned_ucast_eq take_bit_nat_eq_self)
qed

text \<open>A 32-bit distance below a bound that does not wrap.\<close>

lemma dist_in:
  fixes a b :: u32
  assumes "unat b + n \<le> 4294967296"
  shows "unat (a - b) < n \<longleftrightarrow> unat b \<le> unat a \<and> unat a < unat b + n"
proof (cases "b \<le> a")
  case True
  then show ?thesis by (auto simp: unat_sub word_le_nat_alt)
next
  case False
  then have "unat (a - b) = 4294967296 + unat a - unat b"
    using unat_sub_if' [of a b] by (simp add: word_le_nat_alt)
  moreover have "\<not> unat b \<le> unat a" using False by (simp add: word_le_nat_alt)
  ultimately show ?thesis using assms by auto
qed

lemma dist_eq: "unat b \<le> unat a \<Longrightarrow> unat (a - b) = unat a - unat b" for a b :: u32
  by (simp add: unat_sub word_le_nat_alt)

lemma guest_byte_host:
  assumes "host_ok h"
  shows "guest_byte (purvhost_init h w) a = Some (host_byte h a)"
proof -
  let ?b = "RISCV_HALF - ph_stack_len h" and ?n = "unat (ph_stack_len h) + unat (ph_heap_len h)"
  note r = host_ok_region [OF assms]
  have o: "length (ph_code h) = unat (ph_code_len h)" "length (ph_mem h) = ?n"
    "unat (ph_code_len h) + unat (ph_stack_len h) \<le> unat RISCV_HALF" "unat (ph_heap_len h) < unat RISCV_HALF"
    using assms by (simp_all add: host_ok_def)
  have top: "stack_base h + ?n = unat RISCV_HALF + unat (ph_heap_len h)"
    using o(3) by (simp add: stack_base_def)
  have fit: "unat ?b + ?n \<le> 4294967296" unfolding r(2) top using o(4) by (simp add: half_nat)
  have inw: "a - ?b < ph_stack_len h + ph_heap_len h \<longleftrightarrow>
      stack_base h \<le> unat a \<and> unat a < unat RISCV_HALF + unat (ph_heap_len h)"
    unfolding word_less_nat_alt r(1) dist_in [OF fit] r(2) top ..
  have ind: "unat (a - ?b) = unat a - stack_base h" if "stack_base h \<le> unat a"
    using that r(2) dist_eq [of ?b a] by simp
  have low: "unat (ph_code_len h) \<le> stack_base h" using o(3) by (simp add: stack_base_def)
  show ?thesis
  proof (cases "stack_base h \<le> unat a \<and> unat a < unat RISCV_HALF + unat (ph_heap_len h)")
    case True
    then have "unat a - stack_base h < length (ph_mem h)" using top o(2) by linarith
    then show ?thesis
      using True inw ind low
      by (simp add: guest_byte_def purvhost_init_def riscv_init_def host_byte_def region_rd_def)
  next
    case False
    then show ?thesis
      using inw o(1)
      by (auto simp: guest_byte_def purvhost_init_def riscv_init_def host_byte_def region_rd_def word_less_nat_alt)
  qed
qed

section \<open>Loading\<close>

definition same_layout :: "purvhost \<Rightarrow> purvhost \<Rightarrow> bool" where
  "same_layout h h' = (ph_code_len h' = ph_code_len h \<and> ph_heap_len h' = ph_heap_len h \<and>
     ph_stack_len h' = ph_stack_len h \<and> ph_elf h' = ph_elf h \<and> ph_data_end h \<le> ph_data_end h')"

definition put_seg :: "u8 list \<Rightarrow> phdr \<Rightarrow> (u32 \<Rightarrow> u8) \<Rightarrow> u32 \<Rightarrow> u8" where
  "put_seg e p m a = (if unat (a - p_vaddr p) < seg_len p then e ! (unat (p_offset p) + unat (a - p_vaddr p)) else m a)"

definition data_seg :: "phdr \<Rightarrow> bool" where
  "data_seg p = (p_type p = 1 \<and> p_memsz p \<noteq> 0 \<and> \<not> p_vaddr p < RISCV_HALF)"

lemma copy_exists:
  "off + n \<le> length src \<Longrightarrow> d + n \<le> length dst \<Longrightarrow>
     \<exists>dst'. copy_in src off n dst d = Some dst' \<and> length dst' = length dst \<and>
       (\<forall>j. dst' ! j = (if d \<le> j \<and> j < d + n then src ! (off + (j - d)) else dst ! j))"
  using copy_in_ok [of off n src d dst] copy_in_length copy_in_nth by metis

lemma load_segment_ok:
  assumes "host_ok h" "seg_ok (ph_code_len h) (ph_heap_len h) e p"
  shows "\<exists>h'. load_segment e p h = Some (Inr h') \<and> host_ok h' \<and> same_layout h h' \<and>
    host_byte h' = put_seg e p (host_byte h) \<and>
    (data_seg p \<longrightarrow> p_vaddr p + p_memsz p \<le> ph_data_end h')"
proof (cases "p_type p = 1 \<and> p_memsz p \<noteq> 0")
  case False
  then have "seg_len p = 0" "load_segment e p h = Some (Inr h)" by (auto simp: seg_len_def load_segment_def)
  with assms(1) False show ?thesis by (auto simp: same_layout_def put_seg_def data_seg_def fun_eq_iff)
next
  case True
  let ?v = "unat (p_vaddr p)" and ?n = "unat (p_filesz p)"
  have sl: "seg_len p = ?n" using True by (simp add: seg_len_def)
  have o: "length (ph_code h) = unat (ph_code_len h)"
    "length (ph_mem h) = unat (ph_stack_len h) + unat (ph_heap_len h)"
    "unat (ph_code_len h) + unat (ph_stack_len h) \<le> 2147483648" "unat (ph_heap_len h) < 2147483648"
    "RISCV_HALF \<le> ph_data_end h"
    using assms(1) by (simp_all add: host_ok_def half_nat)
  have s: "unat (p_offset p) + ?n \<le> length e" "?n \<le> unat (p_memsz p)"
    "?v + unat (p_memsz p) \<le> (if p_vaddr p < RISCV_HALF then unat (ph_code_len h) else 2147483648 + unat (ph_heap_len h))"
    using assms(2) True by (auto simp: seg_ok_def word_le_nat_alt half_nat split: if_splits)
  have hi: "unat (ucast (p_vaddr p) + ucast (p_memsz p) :: u64) = ?v + unat (p_memsz p)"
  proof -
    have "?v + unat (p_memsz p) < 4294967296 + 4294967296" by (rule add_strict_mono) (rule unat_lt_32)+
    then show ?thesis by (simp add: unat_word_ariths unat_u64)
  qed
  show ?thesis
  proof (cases "p_vaddr p < RISCV_HALF")
    case code: True
    have fit: "?v + unat (p_memsz p) \<le> unat (ph_code_len h)" using s(3) code by simp
    then have le: "\<not> (ucast (p_vaddr p) + ucast (p_memsz p) :: u64) > ucast (ph_code_len h)"
      by (simp add: word_less_nat_alt hi unat_u64 not_less)
    obtain c where c: "copy_in e (unat (p_offset p)) ?n (ph_code h) ?v = Some c" "length c = length (ph_code h)"
      "\<forall>j. c ! j = (if ?v \<le> j \<and> j < ?v + ?n then e ! (unat (p_offset p) + (j - ?v)) else ph_code h ! j)"
      using copy_exists [of "unat (p_offset p)" ?n e ?v "ph_code h"] s(1,2) fit o(1) by force
    have z: "c = ph_code h" if "p_filesz p = 0" using c(1) that by (auto simp: copy_in_def split: if_splits)
    have run: "load_segment e p h = Some (Inr (h\<lparr>ph_code := c\<rparr>))"
      using True code le c(1) z by (auto simp: load_segment_def Let_def)
    have "host_byte (h\<lparr>ph_code := c\<rparr>) a = put_seg e p (host_byte h) a" for a
    proof -
      have "unat (a - p_vaddr p) < ?n \<longleftrightarrow> ?v \<le> unat a \<and> unat a < ?v + ?n"
        using fit s(2) unat_lt_32 [of "ph_code_len h"] by (intro dist_in) linarith
      moreover have "unat a < ?v + ?n \<Longrightarrow> unat a < unat (ph_code_len h)" using fit s(2) by linarith
      ultimately show ?thesis
        using dist_eq [of "p_vaddr p" a] c(3) by (auto simp: host_byte_def put_seg_def sl stack_base_def)
    qed
    then show ?thesis
      using assms(1) run c(2) code by (auto simp: host_ok_def same_layout_def data_seg_def fun_eq_iff)
  next
    case data: False
    have hv: "2147483648 \<le> ?v" using data by (simp add: word_less_nat_alt half_nat)
    have fit: "?v + unat (p_memsz p) \<le> 2147483648 + unat (ph_heap_len h)" using s(3) data by simp
    have "unat (ucast RISCV_HALF + ucast (ph_heap_len h) :: u64) = 2147483648 + unat (ph_heap_len h)"
    proof -
      have "2147483648 + unat (ph_heap_len h) < 4294967296" using o(4) by simp
      then show ?thesis by (simp add: unat_word_ariths unat_u64 RISCV_HALF_def)
    qed
    then have le: "\<not> (ucast (p_vaddr p) + ucast (p_memsz p) :: u64) > ucast RISCV_HALF + ucast (ph_heap_len h)"
      using fit by (simp add: word_less_nat_alt hi not_less)
    let ?d = "unat (ph_stack_len h) + unat (p_vaddr p - RISCV_HALF)"
    have dv: "unat (p_vaddr p - RISCV_HALF) = ?v - 2147483648" using dist_eq [of RISCV_HALF "p_vaddr p"] hv by (simp add: half_nat)
    have sb: "stack_base h + unat (ph_stack_len h) = 2147483648" using o(3) by (simp add: stack_base_def half_nat)
    have d: "stack_base h + ?d = ?v" using sb dv hv by simp
    obtain m where m: "copy_in e (unat (p_offset p)) ?n (ph_mem h) ?d = Some m" "length m = length (ph_mem h)"
      "\<forall>j. m ! j = (if ?d \<le> j \<and> j < ?d + ?n then e ! (unat (p_offset p) + (j - ?d)) else ph_mem h ! j)"
      using copy_exists [of "unat (p_offset p)" ?n e ?d "ph_mem h"] s(1,2) fit o(2) dv hv by force
    have z: "m = ph_mem h" if "p_filesz p = 0" using m(1) that by (auto simp: copy_in_def split: if_splits)
    let ?en = "p_vaddr p + p_memsz p"
    let ?h = "h\<lparr>ph_data_end := (if ?en > ph_data_end h then ?en else ph_data_end h), ph_mem := m\<rparr>"
    have run: "load_segment e p h = Some (Inr ?h)"
      using True data le m(1) z by (auto simp: load_segment_def Let_def)
    have "host_byte ?h a = put_seg e p (host_byte h) a" for a
    proof -
      have w: "unat (a - p_vaddr p) < ?n \<longleftrightarrow> ?v \<le> unat a \<and> unat a < ?v + ?n"
        using fit s(2) o(4) by (intro dist_in) linarith
      have i: "?d \<le> unat a - stack_base h \<and> unat a - stack_base h < ?d + ?n \<longleftrightarrow> ?v \<le> unat a \<and> unat a < ?v + ?n"
        if "stack_base h \<le> unat a" using that d by linarith
      have j: "unat a - stack_base h - ?d = unat a - ?v" using d by linarith
      have k: "?v \<le> unat a \<Longrightarrow> unat a < ?v + ?n \<Longrightarrow>
          stack_base h \<le> unat a \<and> unat a < 2147483648 + unat (ph_heap_len h) \<and> \<not> unat a < unat (ph_code_len h)"
        using fit s(2) d hv o(3) by linarith
      have "stack_base ?h = stack_base h" by (simp add: stack_base_def)
      then show ?thesis
        using w i j k dist_eq [of "p_vaddr p" a] m(3)
        by (auto simp: host_byte_def put_seg_def sl half_nat)
    qed
    then show ?thesis
      using assms(1) run m(2) data by (auto simp: host_ok_def same_layout_def data_seg_def fun_eq_iff)
  qed
qed

lemma load_segments_ok:
  assumes "phdrs_from e off ent i n = Some ps" "host_ok h"
    and "\<And>p. p \<in> set ps \<Longrightarrow> seg_ok (ph_code_len h) (ph_heap_len h) e p"
  shows "\<exists>h'. load_segments e off ent i n h = Some (Inr h') \<and> host_ok h' \<and> same_layout h h' \<and>
    host_byte h' = fold (put_seg e) ps (host_byte h) \<and>
    (\<forall>p \<in> set ps. data_seg p \<longrightarrow> p_vaddr p + p_memsz p \<le> ph_data_end h')"
  using assms
proof (induction n arbitrary: i ps h)
  case (Suc n)
  obtain p qs where p: "phdr_at e off ent i = Some p" "phdrs_from e off ent (Suc i) n = Some qs" "ps = p # qs"
    using Suc.prems(1) by (auto split: option.splits)
  obtain h1 where h1: "load_segment e p h = Some (Inr h1)" "host_ok h1" "same_layout h h1"
    "host_byte h1 = put_seg e p (host_byte h)" "data_seg p \<longrightarrow> p_vaddr p + p_memsz p \<le> ph_data_end h1"
    using load_segment_ok [OF Suc.prems(2), of e p] Suc.prems(3) p(3) by auto
  have "seg_ok (ph_code_len h1) (ph_heap_len h1) e q" if "q \<in> set qs" for q
    using Suc.prems(3) that p(3) h1(3) by (simp add: same_layout_def)
  from Suc.IH [OF p(2) h1(2) this] obtain h2 where h2: "load_segments e off ent (Suc i) n h1 = Some (Inr h2)"
    "host_ok h2" "same_layout h1 h2" "host_byte h2 = fold (put_seg e) qs (host_byte h1)"
    "\<forall>p \<in> set qs. data_seg p \<longrightarrow> p_vaddr p + p_memsz p \<le> ph_data_end h2" by blast
  show ?case
    using p h1 h2 by (auto simp: same_layout_def intro: order_trans)
qed (simp add: same_layout_def)

lemma put_segs_at:
  assumes "\<And>p q. p \<in> set ps \<Longrightarrow> q \<in> set ps \<Longrightarrow> p \<noteq> q \<Longrightarrow> segs_apart p q"
    and "\<And>p. p \<in> set ps \<Longrightarrow> unat (p_vaddr p) + seg_len p \<le> 4294967296"
    and "p \<in> set ps" "unat (a - p_vaddr p) < seg_len p"
  shows "fold (put_seg e) ps m a = e ! (unat (p_offset p) + unat (a - p_vaddr p))"
  using assms
proof (induction ps rule: rev_induct)
  case (snoc q ps)
  show ?case
  proof (cases "q = p")
    case True
    then show ?thesis using snoc.prems(4) by (simp add: put_seg_def)
  next
    case False
    have "segs_apart p q" using snoc.prems(1) [of p q] snoc.prems(3) False by auto
    then have "\<not> unat (a - p_vaddr q) < seg_len q"
      using snoc.prems(4) dist_in [OF snoc.prems(2), of p a] dist_in [OF snoc.prems(2), of q a] snoc.prems(3)
      by (auto simp: segs_apart_def)
    then have "put_seg e q (fold (put_seg e) ps m) a = fold (put_seg e) ps m a" by (simp add: put_seg_def)
    then show ?thesis using snoc.IH snoc.prems False by simp
  qed
qed simp

lemma put_segs_outside:
  "(\<And>p. p \<in> set ps \<Longrightarrow> seg_len p \<le> unat (a - p_vaddr p)) \<Longrightarrow> fold (put_seg e) ps m a = m a"
proof (induction ps arbitrary: m)
  case (Cons p ps)
  have "\<not> unat (a - p_vaddr p) < seg_len p" using Cons.prems [of p] by simp
  then show ?case using Cons.IH [of "put_seg e p m"] Cons.prems by (simp add: put_seg_def)
qed simp

lemma alloc_ok:
  assumes "purvhost_alloc alloc cl hl sl = Some h"
    and "unat (ph_code_len h) + unat (ph_stack_len h) \<le> unat RISCV_HALF" "unat (ph_heap_len h) < unat RISCV_HALF"
  shows "host_ok h" "host_byte h a = 0" "ph_elf h = None"
proof -
  let ?c = "ph_code_len h" and ?t = "ph_stack_len h" and ?l = "ph_heap_len h"
  have h: "ph_code h = replicate (unat ?c) 0" "ph_mem h = replicate (unat ?t + unat ?l) 0" "ph_data_end h = RISCV_HALF"
    "ph_elf h = None"
    using assms(1) by (auto simp: purvhost_alloc_def Let_def split: if_splits)
  have "unat ?t + unat ?l < 4294967296" using assms(2,3) by (simp add: half_nat)
  then show "host_ok h" using assms(2,3) h by (simp add: host_ok_def)
  have "unat a - stack_base h < unat ?t + unat ?l" if "unat a < unat RISCV_HALF + unat ?l" "stack_base h \<le> unat a"
    using that assms(2) by (simp add: stack_base_def half_nat)
  then show "host_byte h a = 0" by (simp add: host_byte_def h)
  show "ph_elf h = None" by (rule h(4))
qed

lemma elf_head_fields:
  assumes "52 \<le> length e" "i \<le> 48"
  shows "\<exists>v. elf16 e i = Some v" "\<exists>v. elf32 e i = Some v"
  using assms by (simp_all add: elf16_def elf32_def)

lemma load_elf_ok:
  assumes "host_ok h" "elf_ok (ph_code_len h) (ph_heap_len h) e"
  shows "\<exists>h' ps. purvhost_load_elf h e = Some (Inr h') \<and> elf_phdrs e = Some ps \<and> host_ok h' \<and>
    ph_code_len h' = ph_code_len h \<and> ph_heap_len h' = ph_heap_len h \<and> ph_stack_len h' = ph_stack_len h \<and>
    ph_elf h' = Some e \<and> Some (ph_entry h') = elf32 e 24 \<and>
    host_byte h' = fold (put_seg e) ps (host_byte h) \<and>
    (\<forall>p \<in> set ps. data_seg p \<longrightarrow> p_vaddr p + p_memsz p \<le> ph_data_end h')"
proof -
  have e: "52 \<le> length e" "take 4 e = [0x7f, 0x45, 0x4c, 0x46]" "e ! 4 = 1" "elf16 e 18 = Some 243"
    using assms(2) by (simp_all add: elf_ok_def)
  obtain ps where ps: "elf_phdrs e = Some ps" "list_all (seg_ok (ph_code_len h) (ph_heap_len h) e) ps"
    using assms(2) by (auto simp: elf_ok_def split: option.splits)
  obtain off ent n where f: "elf32 e 28 = Some off" "elf16 e 42 = Some ent" "elf16 e 44 = Some n"
    "phdrs_from e (unat off) (unat ent) 0 (unat n) = Some ps"
    using ps(1) by (auto simp: elf_phdrs_def bind_eq_Some_conv)
  obtain en where en: "elf32 e 24 = Some en" using elf_head_fields(2) [OF e(1), of 24] by auto
  let ?h = "h\<lparr>ph_elf := Some e\<rparr>"
  have hb: "host_byte ?h = host_byte h" by (simp add: host_byte_def stack_base_def fun_eq_iff)
  have "host_ok ?h" using assms(1) by (simp add: host_ok_def)
  moreover have "seg_ok (ph_code_len ?h) (ph_heap_len ?h) e p" if "p \<in> set ps" for p
    using ps(2) that by (simp add: list_all_iff)
  ultimately obtain h1 where h1: "load_segments e (unat off) (unat ent) 0 (unat n) ?h = Some (Inr h1)" "host_ok h1"
    "same_layout ?h h1" "host_byte h1 = fold (put_seg e) ps (host_byte ?h)"
    "\<forall>p \<in> set ps. data_seg p \<longrightarrow> p_vaddr p + p_memsz p \<le> ph_data_end h1"
    using load_segments_ok [OF f(4), of ?h] by blast
  let ?h' = "h1\<lparr>ph_entry := en\<rparr>"
  have "purvhost_load_elf h e = Some (Inr ?h')"
    using e f en h1(1) by (simp add: purvhost_load_elf_def not_less)
  moreover have "host_byte ?h' = host_byte h1" by (simp add: host_byte_def stack_base_def fun_eq_iff)
  moreover have "host_ok ?h'" using h1(2) by (simp add: host_ok_def)
  ultimately show ?thesis
    using ps(1) h1(3-5) en hb by (intro exI [of _ ?h'] exI [of _ ps]) (simp add: same_layout_def)
qed

text \<open>
  C20: loading a program. With buffers that fit the two halves of the address space, a file whose
  loadable segments lie in the file and in the buffers is loaded without an access outside any of
  them; if the segments do not overlap, the guest then reads every byte of every segment at its
  virtual address and zero everywhere else, the state is well formed, and the program break starts
  at or above the end of every data segment.
\<close>
theorem elf_loaded:
  assumes "purvhost_alloc alloc cl hl sl = Some h"
    and room: "unat (ph_code_len h) + unat (ph_stack_len h) \<le> unat RISCV_HALF" "unat (ph_heap_len h) < unat RISCV_HALF"
    and elf: "elf_ok (ph_code_len h) (ph_heap_len h) e" "elf_phdrs e = Some ps"
    and apart: "\<And>p q. p \<in> set ps \<Longrightarrow> q \<in> set ps \<Longrightarrow> p \<noteq> q \<Longrightarrow> segs_apart p q"
  shows "\<exists>h'. purvhost_load_elf h e = Some (Inr h') \<and> vm_ok (purvhost_init h' w) \<and> Some (ph_entry h') = elf32 e 24 \<and>
    (\<forall>p \<in> set ps. \<forall>i < seg_len p.
       guest_byte (purvhost_init h' w) (p_vaddr p + of_nat i) = Some (e ! (unat (p_offset p) + i))) \<and>
    (\<forall>a. (\<forall>p \<in> set ps. seg_len p \<le> unat (a - p_vaddr p)) \<longrightarrow> guest_byte (purvhost_init h' w) a = Some 0) \<and>
    (\<forall>p \<in> set ps. data_seg p \<longrightarrow> p_vaddr p + p_memsz p \<le> ph_data_end h')"
proof -
  note a = alloc_ok [OF assms(1) room]
  obtain h' where h': "purvhost_load_elf h e = Some (Inr h')" "host_ok h'" "Some (ph_entry h') = elf32 e 24"
    "host_byte h' = fold (put_seg e) ps (host_byte h)"
    "\<forall>p \<in> set ps. data_seg p \<longrightarrow> p_vaddr p + p_memsz p \<le> ph_data_end h'"
    using load_elf_ok [OF a(1) elf(1)] elf(2) by auto
  have fit: "unat (p_vaddr p) + seg_len p \<le> 4294967296" if "p \<in> set ps" for p
  proof -
    have "seg_ok (ph_code_len h) (ph_heap_len h) e p" using elf that by (simp add: elf_ok_def list_all_iff)
    moreover have "unat (ph_code_len h) \<le> 2147483648" "unat (ph_heap_len h) < 2147483648" using room by (simp_all add: half_nat)
    moreover have "unat (p_vaddr p) \<le> 4294967296" by (rule order.strict_implies_order [OF unat_lt_32])
    ultimately show ?thesis by (auto simp: seg_ok_def seg_len_def half_nat word_le_nat_alt split: if_splits)
  qed
  have "guest_byte (purvhost_init h' w) (p_vaddr p + of_nat i) = Some (e ! (unat (p_offset p) + i))"
    if p: "p \<in> set ps" and i: "i < seg_len p" for p i
  proof -
    have "seg_len p < 4294967296" using unat_lt_32 by (auto simp: seg_len_def)
    then have "i < 4294967296" using i by linarith
    then have u: "unat ((p_vaddr p + of_nat i) - p_vaddr p) = i" by (simp add: unat_of_nat take_bit_nat_eq_self)
    have "fold (put_seg e) ps (host_byte h) (p_vaddr p + of_nat i) = e ! (unat (p_offset p) + i)"
      using put_segs_at [OF apart fit p, of "p_vaddr p + of_nat i" e "host_byte h", unfolded u] i by blast
    then show ?thesis using guest_byte_host [OF h'(2), of w "p_vaddr p + of_nat i"] by (simp only: h'(4))
  qed
  moreover have "guest_byte (purvhost_init h' w) x = Some 0" if "\<forall>p \<in> set ps. seg_len p \<le> unat (x - p_vaddr p)" for x
    using guest_byte_host [OF h'(2), of w x] put_segs_outside [of ps x e "host_byte h"] that a(2) h'(4) by simp
  ultimately show ?thesis
    by (intro exI [of _ h'] conjI allI ballI impI h'(1,3) vm_ok_host h'(2) h'(5) [rule_format]) assumption+
qed

text \<open>A file with four bytes of code and two bytes of data.\<close>

definition tiny_program :: "u8 list" where
  "tiny_program = [0x7f, 0x45, 0x4c, 0x46, 1] @ replicate 13 0 @ [243, 0, 0, 0, 0, 0] @ [0, 0, 0, 0, 52, 0, 0, 0] @
     replicate 10 0 @ [32, 0, 2, 0] @ replicate 6 0 @
     [1, 0, 0, 0, 116, 0, 0, 0, 0, 0, 0, 0, 0, 0, 0, 0, 4, 0, 0, 0, 4, 0, 0, 0, 0, 0, 0, 0, 0, 0, 0, 0] @
     [1, 0, 0, 0, 120, 0, 0, 0, 0, 0, 0, 0x80, 0, 0, 0, 0, 2, 0, 0, 0, 6, 0, 0, 0, 0, 0, 0, 0, 0, 0, 0, 0] @
     [0x73, 0, 0, 0, 7, 9]"

definition tiny_code :: phdr where
  "tiny_code = \<lparr>p_type = 1, p_offset = 116, p_vaddr = 0, p_filesz = 4, p_memsz = 4\<rparr>"

definition tiny_data :: phdr where
  "tiny_data = \<lparr>p_type = 1, p_offset = 120, p_vaddr = 0x80000000, p_filesz = 2, p_memsz = 6\<rparr>"

lemma tiny_phdrs: "elf_phdrs tiny_program = Some [tiny_code, tiny_data]"
  by code_simp

lemma tiny_elf_ok: "16 \<le> unat clen \<Longrightarrow> 16 \<le> unat hlen \<Longrightarrow> elf_ok clen hlen tiny_program"
proof -
  assume b: "16 \<le> unat clen" "16 \<le> unat hlen"
  have l: "length tiny_program = 122" by code_simp
  have "take 4 tiny_program = [0x7f, 0x45, 0x4c, 0x46]" "tiny_program ! 4 = 1" "elf16 tiny_program 18 = Some 243" by code_simp+
  then show ?thesis
    using b by (simp add: elf_ok_def l tiny_phdrs seg_ok_def tiny_code_def tiny_data_def RISCV_HALF_def)
qed

lemma elf_loaded_witness:
  "\<exists>h h'. purvhost_alloc (\<lambda>_. True) 16 32 64 = Some h \<and> purvhost_load_elf h tiny_program = Some (Inr h') \<and>
     vm_ok (purvhost_init h' ()) \<and> guest_byte (purvhost_init h' ()) 0 = Some 0x73 \<and>
     guest_byte (purvhost_init h' ()) 0x80000001 = Some 9 \<and> 0x80000006 \<le> ph_data_end h'"
proof -
  obtain h where h: "purvhost_alloc (\<lambda>_. True) 16 32 64 = Some h" "ph_code_len h = 16" "ph_heap_len h = 32" "ph_stack_len h = 64"
    by (simp add: purvhost_alloc_def)
  have ap: "segs_apart p q" if "p \<in> set [tiny_code, tiny_data]" "q \<in> set [tiny_code, tiny_data]" "p \<noteq> q" for p q
    using that by (auto simp: segs_apart_def seg_len_def tiny_code_def tiny_data_def)
  have room: "unat (ph_code_len h) + unat (ph_stack_len h) \<le> unat RISCV_HALF" "unat (ph_heap_len h) < unat RISCV_HALF"
    by (simp_all add: h half_nat)
  have ok: "elf_ok (ph_code_len h) (ph_heap_len h) tiny_program" by (rule tiny_elf_ok) (simp_all add: h)
  obtain h' where h': "purvhost_load_elf h tiny_program = Some (Inr h')" "vm_ok (purvhost_init h' ())"
    "\<forall>p \<in> set [tiny_code, tiny_data]. \<forall>i < seg_len p.
       guest_byte (purvhost_init h' ()) (p_vaddr p + of_nat i) = Some (tiny_program ! (unat (p_offset p) + i))"
    "\<forall>p \<in> set [tiny_code, tiny_data]. data_seg p \<longrightarrow> p_vaddr p + p_memsz p \<le> ph_data_end h'"
    using elf_loaded [OF h(1) room ok tiny_phdrs ap, of "()"] by blast
  have "tiny_program ! 116 = 0x73" "tiny_program ! 121 = 9" by code_simp+
  then have "guest_byte (purvhost_init h' ()) 0 = Some 0x73" "guest_byte (purvhost_init h' ()) 0x80000001 = Some 9"
    using h'(3) [rule_format, of tiny_code 0] h'(3) [rule_format, of tiny_data 1]
    by (simp_all add: tiny_code_def tiny_data_def seg_len_def)
  moreover have "0x80000006 \<le> ph_data_end h'"
    using h'(4) by (simp add: data_seg_def tiny_data_def RISCV_HALF_def)
  ultimately show ?thesis using h(1) h'(1,2) by blast
qed

end
