(* ===== verification/Host_Stack.thy ===== *)
theory Host_Stack
  imports Host_Run
begin

text \<open>
  \<open>setup_user_stack\<close> of \<open>emu/main.c\<close>: what the guest reads at the \<open>sp\<close> it starts with.
\<close>

section \<open>The initial stack\<close>

text \<open>The bytes the strings take, with their NULs.\<close>

definition args_size :: "u8 list list \<Rightarrow> nat" where
  "args_size as = sum_list (map (\<lambda>a. length a + 1) as)"

text \<open>A string and its NUL at a guest address, in a buffer that starts at \<open>base\<close>.\<close>

definition string_at :: "u32 \<Rightarrow> u8 list \<Rightarrow> u32 \<Rightarrow> u8 list \<Rightarrow> bool" where
  "string_at base mem p a = (\<forall>j \<le> length a. mem ! (unat p - unat base + j) = (a @ [0]) ! j)"

lemma push_args_ok:
  assumes "unat base + args_size as \<le> unat RISCV_HALF" "unat RISCV_HALF - unat base \<le> length mem"
  shows "\<exists>sp ps mem'. push_args base as RISCV_HALF mem = Some (sp, ps, mem') \<and> length mem' = length mem \<and>
    unat sp = unat RISCV_HALF - args_size as \<and> length ps = length as \<and>
    (\<forall>i < length as. string_at base mem' (ps ! i) (as ! i) \<and> unat sp \<le> unat (ps ! i) \<and>
       unat (ps ! i) + length (as ! i) < unat RISCV_HALF) \<and>
    (\<forall>j. j < unat sp - unat base \<or> unat RISCV_HALF - unat base \<le> j \<longrightarrow> mem' ! j = mem ! j)"
  using assms
proof (induction as)
  case Nil
  then show ?case by (simp add: args_size_def)
next
  case (Cons a as)
  let ?n = "length a + 1"
  have size: "args_size (a # as) = ?n + args_size as" by (simp add: args_size_def)
  obtain sp1 ps mem1 where r: "push_args base as RISCV_HALF mem = Some (sp1, ps, mem1)" "length mem1 = length mem"
    "unat sp1 = unat RISCV_HALF - args_size as" "length ps = length as"
    "\<forall>i < length as. string_at base mem1 (ps ! i) (as ! i) \<and> unat sp1 \<le> unat (ps ! i) \<and>
       unat (ps ! i) + length (as ! i) < unat RISCV_HALF"
    "\<forall>j. j < unat sp1 - unat base \<or> unat RISCV_HALF - unat base \<le> j \<longrightarrow> mem1 ! j = mem ! j"
    using Cons.IH Cons.prems size by auto
  have small: "?n < 4294967296" using Cons.prems(1) size by (simp add: half_nat)
  define sp2 where "sp2 = sp1 - (of_nat (length a) + 1)"
  have n: "unat (of_nat (length a) + 1 :: u32) = ?n"
  proof -
    have "unat (of_nat ?n :: u32) = ?n" using small by (simp only: unat_of_nat) (simp add: take_bit_nat_eq_self)
    then show ?thesis by (simp add: add.commute)
  qed
  have sp2: "unat sp2 = unat RISCV_HALF - args_size (a # as)"
  proof -
    have "of_nat (length a) + 1 \<le> sp1" using Cons.prems(1) size r(3) n by (simp add: word_le_nat_alt)
    then show ?thesis using unat_sub [of "of_nat (length a) + 1" sp1] n r(3) size by (simp add: sp2_def)
  qed
  have b2: "unat base \<le> unat sp2" "unat sp2 + ?n = unat sp1" using sp2 Cons.prems(1) size r(3) by simp_all
  have d: "unat (sp2 - base) = unat sp2 - unat base" using dist_eq [OF b2(1)] .
  obtain mem2 where m: "copy_in (a @ [0]) 0 ?n mem1 (unat sp2 - unat base) = Some mem2" "length mem2 = length mem1"
    "\<forall>j. mem2 ! j = (if unat sp2 - unat base \<le> j \<and> j < unat sp2 - unat base + ?n
       then (a @ [0]) ! (0 + (j - (unat sp2 - unat base))) else mem1 ! j)"
    using copy_exists [of 0 ?n "a @ [0]" "unat sp2 - unat base" mem1] Cons.prems(2) b2 r(2,3) by force
  have run: "push_args base (a # as) RISCV_HALF mem = Some (sp2, sp2 # ps, mem2)"
    using r(1) m(1) n d by (simp add: Let_def sp2_def [symmetric])
  have "string_at base mem2 ((sp2 # ps) ! i) ((a # as) ! i) \<and> unat sp2 \<le> unat ((sp2 # ps) ! i) \<and>
      unat ((sp2 # ps) ! i) + length ((a # as) ! i) < unat RISCV_HALF" if i: "i < length (a # as)" for i
  proof (cases i)
    case 0
    then show ?thesis using m(3) b2 r(3) by (auto simp: string_at_def)
  next
    case (Suc k)
    then have k: "string_at base mem1 (ps ! k) (as ! k)" "unat sp1 \<le> unat (ps ! k)"
      "unat (ps ! k) + length (as ! k) < unat RISCV_HALF" using r(5) i by auto
    have "string_at base mem2 (ps ! k) (as ! k)"
      using k(1,2) m(3) b2 by (auto simp: string_at_def)
    then show ?thesis using k b2 Suc by simp
  qed
  moreover have "mem2 ! j = mem ! j" if "j < unat sp2 - unat base \<or> unat RISCV_HALF - unat base \<le> j" for j
    using that m(3) r(3,6) b2 by auto
  ultimately show ?case using run m(2) r(2,4) sp2 by (intro exI [of _ sp2] exI [of _ "sp2 # ps"] exI [of _ mem2]) simp
qed

definition word_at :: "u8 list \<Rightarrow> nat \<Rightarrow> u32" where
  "word_at mem j = le32 (mem ! j) (mem ! (j + 1)) (mem ! (j + 2)) (mem ! (j + 3))"

lemma poke_words_ok:
  assumes "unat base \<le> unat p" "unat p - unat base + 4 * length vs \<le> length mem" "unat p + 4 * length vs < 4294967296"
  shows "\<exists>mem'. poke_words base p vs mem = Some mem' \<and> length mem' = length mem \<and>
    (\<forall>k < length vs. word_at mem' (unat p - unat base + 4 * k) = vs ! k) \<and>
    (\<forall>j. j < unat p - unat base \<or> unat p - unat base + 4 * length vs \<le> j \<longrightarrow> mem' ! j = mem ! j)"
  using assms
proof (induction vs arbitrary: p mem)
  case (Cons v vs)
  let ?b = "[byte_of 0 v, byte_of 1 v, byte_of 2 v, byte_of 3 v]" and ?d = "unat p - unat base"
  have d: "unat (p - base) = ?d" using dist_eq [OF Cons.prems(1)] .
  obtain m where m: "copy_in ?b 0 4 mem ?d = Some m" "length m = length mem"
    "\<forall>j. m ! j = (if ?d \<le> j \<and> j < ?d + 4 then ?b ! (0 + (j - ?d)) else mem ! j)"
    using copy_exists [of 0 4 ?b ?d mem] Cons.prems(2) by force
  have p4: "unat (p + 4) = unat p + 4" using Cons.prems(3) by (simp add: unat_word_ariths)
  obtain m' where m': "poke_words base (p + 4) vs m = Some m'" "length m' = length m"
    "\<forall>k < length vs. word_at m' (unat (p + 4) - unat base + 4 * k) = vs ! k"
    "\<forall>j. j < unat (p + 4) - unat base \<or> unat (p + 4) - unat base + 4 * length vs \<le> j \<longrightarrow> m' ! j = m ! j"
    using Cons.IH [of "p + 4" m] Cons.prems m(2) p4 by force
  have run: "poke_words base p (v # vs) mem = Some m'" using m(1) m'(1) d by (simp add: gpoke_def)
  have "word_at m' (?d + 4 * k) = (v # vs) ! k" if k: "k < length (v # vs)" for k
  proof (cases k)
    case 0
    have "m' ! (?d + i) = ?b ! i" if "i < 4" for i
      using m'(4) m(3) that Cons.prems(1) p4 by auto
    from this [of 0] this [of 1] this [of 2] this [of 3] show ?thesis
      using 0 by (simp add: word_at_def le32_bytes [simplified])
  next
    case (Suc i)
    then have "word_at m' (unat (p + 4) - unat base + 4 * i) = vs ! i" using m'(3) k by simp
    moreover have "unat (p + 4) - unat base + 4 * i = ?d + 4 * k" using p4 Cons.prems(1) Suc by simp
    ultimately show ?thesis using Suc by simp
  qed
  moreover have "m' ! j = mem ! j" if "j < ?d \<or> ?d + 4 * length (v # vs) \<le> j" for j
  proof -
    have j: "j < unat (p + 4) - unat base \<or> unat (p + 4) - unat base + 4 * length vs \<le> j" "\<not> (?d \<le> j \<and> j < ?d + 4)"
      using that p4 Cons.prems(1) by auto
    from m'(4) [rule_format, OF j(1)] m(3) [rule_format, of j] j(2) show ?thesis by metis
  qed
  ultimately show ?case using run m(2) m'(2) by (intro exI [of _ m']) simp
qed simp

lemma stack_pointer:
  fixes sp0 base :: u32 and n :: nat
  defines "sp1 \<equiv> sp0 AND NOT 15"
  defines "sp \<equiv> (sp1 - (1 + of_nat n + 1 + 1 + 2) * 4) AND NOT 15"
  assumes "n \<le> 64" "unat base + 4 * n + 64 \<le> unat sp0"
  shows "sp AND 15 = 0" "unat base \<le> unat sp" "unat sp + 4 * n + 20 \<le> unat sp0"
proof -
  let ?x = "(1 + of_nat n + 1 + 1 + 2) * 4 :: u32"
  have w: "unat ?x = 4 * n + 20"
  proof -
    have "?x = of_nat (4 * n + 20)" by simp
    moreover have "unat (of_nat (4 * n + 20) :: u32) = 4 * n + 20"
      using assms(3) by (simp only: unat_of_nat) (simp add: take_bit_nat_eq_self)
    ultimately show ?thesis by (simp only:)
  qed
  note r1 = round_down(1,2) [of sp0, folded sp1_def]
  have le: "4 * n + 20 \<le> unat sp1" using r1 assms(4) by linarith
  then have "unat (sp1 - ?x) + (4 * n + 20) = unat sp1"
    using unat_sub [of ?x sp1] unfolding word_le_nat_alt w by simp
  then show "unat base \<le> unat sp" "unat sp + 4 * n + 20 \<le> unat sp0"
    using r1 assms(4) round_down(1,2) [of "sp1 - ?x", folded sp_def] by linarith+
  show "sp AND 15 = 0" unfolding sp_def by (rule round_down(3))
qed

lemma setup_user_stack_ok:
  assumes "unat RISCV_HALF - unat base \<le> length mem" "length argv \<le> 64"
    and "unat base + args_size argv + 4 * length argv + 64 \<le> unat RISCV_HALF"
  shows "\<exists>sp ps mem'. setup_user_stack base argv mem = Some (sp, mem') \<and> length mem' = length mem \<and> length ps = length argv \<and>
    sp AND 15 = 0 \<and> unat base \<le> unat sp \<and> unat sp + 4 * length argv + 20 \<le> unat RISCV_HALF \<and>
    (\<forall>k < length argv + 5. word_at mem' (unat sp - unat base + 4 * k) = (of_nat (length argv) # ps @ [0, 0, 0, 0]) ! k) \<and>
    (\<forall>i < length argv. string_at base mem' (ps ! i) (argv ! i) \<and> unat sp \<le> unat (ps ! i) \<and>
       unat (ps ! i) + length (argv ! i) < unat RISCV_HALF) \<and>
    (\<forall>j. j < unat sp - unat base \<or> unat RISCV_HALF - unat base \<le> j \<longrightarrow> mem' ! j = mem ! j)"
proof -
  let ?n = "length argv" and ?b = "unat base"
  obtain sp0 ps mem1 where p: "push_args base argv RISCV_HALF mem = Some (sp0, ps, mem1)" "length mem1 = length mem"
    "unat sp0 = unat RISCV_HALF - args_size argv" "length ps = ?n"
    "\<forall>i < ?n. string_at base mem1 (ps ! i) (argv ! i) \<and> unat sp0 \<le> unat (ps ! i) \<and>
       unat (ps ! i) + length (argv ! i) < unat RISCV_HALF"
    "\<forall>j. j < unat sp0 - ?b \<or> unat RISCV_HALF - ?b \<le> j \<longrightarrow> mem1 ! j = mem ! j"
    using push_args_ok [of base argv mem] assms by auto
  have sp0: "?b + 4 * ?n + 64 \<le> unat sp0" "unat sp0 \<le> unat RISCV_HALF" using p(3) assms(3) by simp_all
  define sp where "sp = ((sp0 AND NOT 15) - (1 + of_nat ?n + 1 + 1 + 2) * 4) AND NOT 15"
  note sp = sp_def stack_pointer [OF assms(2) sp0(1), folded sp_def]
  let ?vs = "of_nat ?n # ps @ [0, 0, 0, 0]"
  have vs: "length ?vs = ?n + 5" "4 * (?n + 5) = 4 * ?n + 20" using p(4) by simp_all
  have fit: "unat sp - ?b + (4 * ?n + 20) \<le> length mem1" "unat sp + (4 * ?n + 20) < 4294967296"
    using sp(3,4) sp0 assms(1) p(2) by (simp_all add: half_nat)
  obtain mem' where m: "poke_words base sp ?vs mem1 = Some mem'" "length mem' = length mem1"
    "\<forall>k < ?n + 5. word_at mem' (unat sp - ?b + 4 * k) = ?vs ! k"
    "\<forall>j. j < unat sp - ?b \<or> unat sp - ?b + (4 * ?n + 20) \<le> j \<longrightarrow> mem' ! j = mem1 ! j"
    using poke_words_ok [of base sp ?vs mem1, unfolded vs, OF sp(3) fit] by blast
  have run: "setup_user_stack base argv mem = Some (sp, mem')"
    using assms(2)
    by (simp only: setup_user_stack_def take_all Let_def p(1) m(1) Option.bind.simps prod.case sp_def [symmetric])
  have str: "string_at base mem' (ps ! i) (argv ! i)" if "i < ?n" for i
    unfolding string_at_def
  proof (intro allI impI)
    fix j assume "j \<le> length (argv ! i)"
    moreover have "unat sp - ?b + (4 * ?n + 20) \<le> unat (ps ! i) - ?b + j" using p(5) that sp(3,4) by force
    ultimately show "mem' ! (unat (ps ! i) - ?b + j) = (argv ! i @ [0]) ! j"
      using m(4) p(5) that by (simp add: string_at_def)
  qed
  have "mem' ! j = mem ! j" if "j < unat sp - ?b \<or> unat RISCV_HALF - ?b \<le> j" for j
  proof -
    have "j < unat sp - ?b \<or> unat sp - ?b + (4 * ?n + 20) \<le> j" "j < unat sp0 - ?b \<or> unat RISCV_HALF - ?b \<le> j"
      using that sp(3,4) sp0(2) by linarith+
    then show ?thesis using m(4) [rule_format, of j] p(6) [rule_format, of j] by simp
  qed
  moreover have "unat sp \<le> unat (ps ! i) \<and> unat (ps ! i) + length (argv ! i) < unat RISCV_HALF" if "i < ?n" for i
    using p(5) that sp(4) by force
  ultimately show ?thesis
    using run m(2,3) p(2,4) sp sp0(2) str by (intro exI [of _ sp] exI [of _ ps] exI [of _ mem']) simp
qed

text \<open>A state whose writable storage has been replaced, seen from the guest below \<open>RISCV_HALF\<close>.\<close>

definition guest_string :: "'w vm \<Rightarrow> u32 \<Rightarrow> u8 list \<Rightarrow> bool" where
  "guest_string s p a = (\<forall>j \<le> length a. guest_byte s (p + of_nat j) = Some ((a @ [0]) ! j))"

definition with_stack :: "'w vm \<Rightarrow> u8 list \<Rightarrow> u32 \<Rightarrow> 'w vm" where
  "with_stack s mem sp = s\<lparr>writable := (writable s)\<lparr>rg_ptr := Some mem\<rparr>, regs := (regs s)(2 := sp)\<rparr>"

lemma stack_byte:
  assumes "rg_base (writable s) = base" "vm_ok s" "rg_ptr (writable s) = Some mem" "length mem' = length mem"
    and "unat RISCV_HALF - unat base \<le> length mem" "unat base \<le> unat a" "unat a < unat RISCV_HALF"
  shows "guest_byte (with_stack s mem' sp) a = Some (mem' ! (unat a - unat base))"
proof -
  have d: "unat (a - base) = unat a - unat base" by (rule dist_eq [OF assms(6)])
  have "length mem = unat (rg_len (writable s))" using assms(2,3) by (simp add: vm_ok_def wf_region_def)
  moreover have "unat a - unat base < length mem" using assms(5-7) by linarith
  ultimately show ?thesis
    using assms(1,4) d by (simp add: guest_byte_def with_stack_def region_rd_def word_less_nat_alt)
qed

lemma stack_word:
  assumes "rg_base (writable s) = base" "vm_ok s" "rg_ptr (writable s) = Some mem" "length mem' = length mem"
    and "unat RISCV_HALF - unat base \<le> length mem" "unat base \<le> unat a" "unat a + 3 < unat RISCV_HALF"
  shows "guest_load (with_stack s mem' sp) 2 a = word_at mem' (unat a - unat base)"
proof -
  have "the (guest_byte (with_stack s mem' sp) (a + of_nat i)) = mem' ! (unat a - unat base + i)" if "i < 4" for i
  proof -
    have "unat (a + of_nat i) = unat a + i"
      using that assms(7) by (intro unat_add_small) (simp add: half_nat)
    then show ?thesis
      using stack_byte [OF assms(1-5), of "a + of_nat i" sp] assms(6,7) that by simp
  qed
  from this [of 0] this [of 1] this [of 2] this [of 3] show ?thesis
    by (simp add: guest_load_def word_at_def)
qed

lemma stack_string:
  assumes "rg_base (writable s) = base" "vm_ok s" "rg_ptr (writable s) = Some mem" "length mem' = length mem"
    and "unat RISCV_HALF - unat base \<le> length mem" "unat base \<le> unat p" "unat p + length a < unat RISCV_HALF"
    and "string_at base mem' p a"
  shows "guest_string (with_stack s mem' sp) p a"
  unfolding guest_string_def
proof (intro allI impI)
  fix j assume j: "j \<le> length a"
  have u: "unat (p + of_nat j) = unat p + j"
    using assms(7) j by (intro unat_add_small) (simp add: half_nat)
  have "unat p + j - unat base = unat p - unat base + j" using assms(6) by simp
  then show "guest_byte (with_stack s mem' sp) (p + of_nat j) = Some ((a @ [0]) ! j)"
    using stack_byte [OF assms(1-5), of "p + of_nat j" sp] u assms(6-8) j by (simp add: string_at_def)
qed

lemma stack_frame:
  assumes "rg_base (writable s) = base" "rg_ptr (writable s) = Some mem" "length mem' = length mem"
    and "\<forall>j. j < unat sp - unat base \<or> unat RISCV_HALF - unat base \<le> j \<longrightarrow> mem' ! j = mem ! j"
    and "unat base \<le> unat sp" "unat sp \<le> unat RISCV_HALF" "\<not> (sp \<le> a \<and> a < RISCV_HALF)"
  shows "guest_byte (with_stack s mem' sp) a = guest_byte s a"
proof -
  have "unat (a - base) < unat sp - unat base \<or> unat RISCV_HALF - unat base \<le> unat (a - base)"
    using dist_in [of base "unat sp - unat base" a] dist_in [of base "unat RISCV_HALF - unat base" a] assms(5-7)
    by (auto simp: word_le_nat_alt word_less_nat_alt half_nat)
  then have "mem' ! unat (a - base) = mem ! unat (a - base)" using assms(4) by blast
  then show ?thesis
    using assms(1-3) by (simp add: guest_byte_def with_stack_def region_rd_def)
qed

text \<open>
  C25: the initial process stack. When strings, pointers and padding fit below \<open>RISCV_HALF\<close>,
  \<open>setup_user_stack\<close> returns a 16-byte aligned \<open>sp\<close> inside the stack at which the guest reads \<open>argc\<close>,
  then \<open>argc\<close> pointers to the argument strings with their NULs, then the four zero words that end
  \<open>argv\<close>, the environment and the auxiliary vector; nothing outside \<open>[sp, RISCV_HALF)\<close> changes.
\<close>
theorem user_stack_ready:
  assumes "rg_base (writable s) = base" "vm_ok s" "rg_ptr (writable s) = Some mem"
    and "unat RISCV_HALF - unat base \<le> length mem" "length argv \<le> 64"
    and room: "unat base + args_size argv + 4 * length argv + 64 \<le> unat RISCV_HALF"
  shows "\<exists>sp mem'. setup_user_stack base argv mem = Some (sp, mem') \<and>
    sp AND 15 = 0 \<and> base \<le> sp \<and> sp < RISCV_HALF \<and> vm_ok (with_stack s mem' sp) \<and>
    guest_load (with_stack s mem' sp) 2 sp = of_nat (length argv) \<and>
    (\<forall>i < length argv. guest_string (with_stack s mem' sp)
       (guest_load (with_stack s mem' sp) 2 (sp + 4 * of_nat (i + 1))) (argv ! i)) \<and>
    (\<forall>k < 4. guest_load (with_stack s mem' sp) 2 (sp + 4 * of_nat (length argv + k + 1)) = 0) \<and>
    (\<forall>a. \<not> (sp \<le> a \<and> a < RISCV_HALF) \<longrightarrow> guest_byte (with_stack s mem' sp) a = guest_byte s a)"
proof -
  let ?n = "length argv"
  obtain sp ps mem' where p: "setup_user_stack base argv mem = Some (sp, mem')" "length mem' = length mem" "length ps = ?n"
    "sp AND 15 = 0" "unat base \<le> unat sp" "unat sp + 4 * ?n + 20 \<le> unat RISCV_HALF"
    "\<forall>k < ?n + 5. word_at mem' (unat sp - unat base + 4 * k) = (of_nat ?n # ps @ [0, 0, 0, 0]) ! k"
    "\<forall>i < ?n. string_at base mem' (ps ! i) (argv ! i) \<and> unat sp \<le> unat (ps ! i) \<and>
       unat (ps ! i) + length (argv ! i) < unat RISCV_HALF"
    "\<forall>j. j < unat sp - unat base \<or> unat RISCV_HALF - unat base \<le> j \<longrightarrow> mem' ! j = mem ! j"
    using setup_user_stack_ok [OF assms(4-6)] by (elim exE conjE) (rule that; assumption)
  let ?s = "with_stack s mem' sp" and ?vs = "of_nat ?n # ps @ [0, 0, 0, 0]"
  note ctx = assms(1-3) p(2) assms(4)
  have word: "guest_load ?s 2 (sp + 4 * of_nat k) = ?vs ! k" if k: "k < ?n + 5" for k
  proof -
    have "sp + 4 * of_nat k = sp + of_nat (4 * k)" by simp
    moreover have "unat (sp + of_nat (4 * k)) = unat sp + 4 * k"
      using k p(6) by (intro unat_add_small) (simp add: half_nat)
    ultimately have u: "unat (sp + 4 * of_nat k) = unat sp + 4 * k" by simp
    have "unat (sp + 4 * of_nat k) + 3 < unat RISCV_HALF" unfolding u using k p(6) by linarith
    from stack_word [OF ctx _ this, of sp] show ?thesis using u p(5,7) k by simp
  qed
  have argv: "guest_string ?s (guest_load ?s 2 (sp + 4 * of_nat (i + 1))) (argv ! i)" if i: "i < ?n" for i
  proof -
    have "guest_load ?s 2 (sp + 4 * of_nat (i + 1)) = ps ! i" using word [of "i + 1"] i p(3) by (simp add: nth_append)
    moreover have "guest_string ?s (ps ! i) (argv ! i)"
      using p(8) i p(5) by (intro stack_string [OF ctx]) force+
    ultimately show ?thesis by (simp only:)
  qed
  have zeros: "guest_load ?s 2 (sp + 4 * of_nat (?n + k + 1)) = 0" if k: "k < 4" for k
  proof -
    have "?vs ! (?n + k + 1) = [0, 0, 0, 0] ! k" using p(3) by (simp add: nth_append)
    also have "\<dots> = 0" using k by (auto simp: less_Suc_eq numeral_eq_Suc)
    finally show ?thesis using word [of "?n + k + 1"] k by (simp only:)
  qed
  have ok: "vm_ok ?s" using assms(2,3) p(2) by (simp add: vm_ok_def wf_region_def with_stack_def)
  have sp: "base \<le> sp" "sp < RISCV_HALF" using p(5,6) by (simp_all add: word_le_nat_alt word_less_nat_alt)
  have argc: "guest_load ?s 2 sp = of_nat ?n" using word [of 0] by simp
  have rest: "guest_byte ?s a = guest_byte s a" if "\<not> (sp \<le> a \<and> a < RISCV_HALF)" for a
    using stack_frame [OF assms(1,3) p(2,9,5) _ that] p(6) by simp
  show ?thesis
    by (intro exI [of _ sp] exI [of _ mem'] conjI allI impI p(1,4) sp ok argc argv zeros rest) assumption+
qed

text \<open>Two arguments on a stack of 256 bytes.\<close>

definition stack_demo :: "unit vm" where
  "stack_demo = riscv_init \<lparr>rg_ptr = Some [], rg_len = 0, rg_base = 0\<rparr>
     \<lparr>rg_ptr = Some (replicate 256 0), rg_len = 256, rg_base = 0x7fffff00\<rparr> ()"

lemma user_stack_ready_witness:
  "\<exists>sp mem'. setup_user_stack 0x7fffff00 [[0x61], [0x62, 0x63]] (replicate 256 0) = Some (sp, mem') \<and> sp AND 15 = 0 \<and>
    guest_load (with_stack stack_demo mem' sp) 2 sp = 2 \<and>
    guest_string (with_stack stack_demo mem' sp) (guest_load (with_stack stack_demo mem' sp) 2 (sp + 8)) [0x62, 0x63]"
proof -
  have ok: "vm_ok stack_demo" unfolding stack_demo_def by (rule vm_ok_init) (simp_all add: wf_region_def)
  have d: "rg_base (writable stack_demo) = 0x7fffff00" "rg_ptr (writable stack_demo) = Some (replicate 256 0)"
    by (simp_all add: stack_demo_def riscv_init_def)
  have s: "unat RISCV_HALF - unat (0x7fffff00 :: u32) \<le> length (replicate 256 (0 :: u8))" by (simp add: half_nat)
  have r: "unat (0x7fffff00 :: u32) + args_size [[0x61], [0x62, 0x63]] + 4 * length [[0x61], [0x62, 0x63 :: u8]] + 64 \<le> unat RISCV_HALF"
    by (simp add: half_nat args_size_def)
  obtain sp mem' where m: "setup_user_stack 0x7fffff00 [[0x61], [0x62, 0x63]] (replicate 256 0) = Some (sp, mem')" "sp AND 15 = 0"
    "guest_load (with_stack stack_demo mem' sp) 2 sp = of_nat (length [[0x61], [0x62, 0x63 :: u8]])"
    "\<forall>i < length [[0x61], [0x62, 0x63 :: u8]]. guest_string (with_stack stack_demo mem' sp)
       (guest_load (with_stack stack_demo mem' sp) 2 (sp + 4 * of_nat (i + 1))) ([[0x61], [0x62, 0x63]] ! i)"
    using user_stack_ready [OF d(1) ok d(2) s _ r] by auto
  from m(4) [rule_format, of 1] m(1-3) show ?thesis by auto
qed

end
