(* ===== verification/Host_Driver.thy ===== *)
theory Host_Driver
  imports Host_Stack
begin

text \<open>
  The end of the driver: the text of the signature file, and \<open>main\<close> from the bytes of the program
  to the exit code.
\<close>

section \<open>The signature\<close>

lemma sig_lines_steps:
  assumes "unat a + n * unat gran < 4294967296" "unat last_a \<le> unat a + n * unat gran"
    and "\<And>k. k < n \<Longrightarrow> unat a + k * unat gran < unat last_a"
  shows "sig_lines s gran a last_a acc =
    Some (acc @ concat (map (\<lambda>k. sig_word s (a + of_nat (k * unat gran)) (unat gran) @ [0x0a]) [0..<n]))"
  using assms
proof (induction n arbitrary: a acc)
  case 0
  then have "\<not> a < last_a" by (simp add: word_less_nat_alt)
  then show ?case by (simp add: sig_lines.simps [of s gran a])
next
  case (Suc n)
  have lt: "a < last_a" using Suc.prems(3) [of 0] by (simp add: word_less_nat_alt)
  have "unat a + unat gran < 4294967296" using Suc.prems(1) by simp
  then have u: "unat (a + gran) = unat a + unat gran" by (simp add: unat_word_ariths)
  have pre: "unat (a + gran) + n * unat gran < 4294967296" "unat last_a \<le> unat (a + gran) + n * unat gran"
    using Suc.prems(1,2) by (simp_all add: u algebra_simps)
  have below: "unat (a + gran) + k * unat gran < unat last_a" if "k < n" for k
    using Suc.prems(3) [of "Suc k"] that by (simp add: u algebra_simps)
  have shift: "a + gran + of_nat k * gran = a + (1 + of_nat k) * gran" for k
    by (simp add: algebra_simps)
  have "[0..<Suc n] = 0 # map Suc [0..<n]" by (simp add: map_Suc_upt upt_conv_Cons del: upt_Suc)
  then show ?case
    using lt Suc.IH [OF pre below, of "acc @ sig_word s a (unat gran) @ [0x0a]"]
    by (simp add: sig_lines.simps [of s gran a] shift comp_def del: upt_Suc)
qed

text \<open>What the guest has at an address of the upper half, and zero elsewhere.\<close>

definition sig_byte :: "hvm \<Rightarrow> u32 \<Rightarrow> u8" where
  "sig_byte s a = (if in_heap (world s) a 1 then the (guest_byte s a) else 0)"

text \<open>The host's heap is part of the engine's writable region.\<close>

definition heap_mapped :: "hvm \<Rightarrow> bool" where
  "heap_mapped s = (\<forall>a. in_heap (world s) a 1 \<longrightarrow> a - rg_base (writable s) < rg_len (writable s))"

lemma sig_word_bytes:
  "heap_mapped s \<Longrightarrow> sig_word s a n = concat (map (\<lambda>b. hex_byte (sig_byte s (a + of_nat b))) (rev [0..<n]))"
  by (induction n) (auto simp: sig_byte_def heap_mapped_def guest_byte_def heap_byte_def)

lemma dump_lines:
  fixes gran b e :: u32
  defines "g \<equiv> (if gran = 0 then 4 else unat gran)"
  assumes "unat e + g \<le> 4294967296" "b \<le> e"
  shows "dump_signature s gran b e =
    Some (concat (map (\<lambda>k. sig_word s (b + of_nat (k * g)) g @ [0x0a]) [0..<(unat e - unat b + g - 1) div g]))"
proof -
  let ?g = "if gran = 0 then 4 else gran" and ?n = "(unat e - unat b + g - 1) div g"
  have g: "unat ?g = g" "0 < g" by (auto simp: g_def unat_gt_0)
  have be: "unat b \<le> unat e" using assms(3) by (simp add: word_le_nat_alt)
  have up: "?n * g \<le> unat e - unat b + g - 1" by simp
  have dn: "unat e - unat b + g - 1 < ?n * g + g"
    using div_mult_mod_eq [of "unat e - unat b + g - 1" g] mod_less_divisor [OF g(2), of "unat e - unat b + g - 1"] by linarith
  have below: "unat b + k * g < unat e" if "k < ?n" for k
  proof -
    have "Suc k * g \<le> ?n * g" using that by (intro mult_right_mono) simp_all
    then have "k * g + g \<le> ?n * g" by (simp add: add.commute)
    then have "k * g + g \<le> unat e - unat b + g - 1" using up by (rule order_trans)
    then show ?thesis using g(2) be by linarith
  qed
  have "unat b + ?n * g < 4294967296" using up assms(2) be g(2) by linarith
  moreover have "unat e \<le> unat b + ?n * g" using dn be by linarith
  ultimately show ?thesis
    using sig_lines_steps [of b ?n ?g e s "[]"] below unfolding g(1) by (simp add: dump_signature_def)
qed

text \<open>
  C39: the signature file. When the last step of the loop stays within 32 bits, \<open>dump_signature\<close>
  ends, and the file has one line per granule from \<open>begin_signature\<close> up to \<open>end_signature\<close>: the
  guest's bytes from the most significant down, two hexadecimal digits each (zero for an address
  outside the upper half's buffer). A granularity of 0 counts as 4.
\<close>
theorem signature_text:
  fixes gran b e :: u32
  defines "g \<equiv> (if gran = 0 then 4 else unat gran)"
  assumes "heap_mapped s" "unat e + g \<le> 4294967296" "b \<le> e"
  shows "dump_signature s gran b e = Some (concat (map (\<lambda>k.
    concat (map (\<lambda>j. hex_byte (sig_byte s (b + of_nat (k * g) + of_nat j))) (rev [0..<g])) @ [0x0a])
    [0..<(unat e - unat b + g - 1) div g]))"
  using dump_lines [OF assms(3,4) [unfolded g_def], of s, folded g_def] by (simp only: sig_word_bytes [OF assms(2)])

definition sig_demo :: hvm where
  "sig_demo = host_demo\<lparr>writable := (writable host_demo)\<lparr>rg_ptr := Some [1, 2, 0xab, 0]\<rparr>\<rparr>"

lemma signature_text_witness:
  "dump_signature sig_demo 2 0x80000000 0x80000003 = Some [0x30, 0x32, 0x30, 0x31, 0x0a, 0x30, 0x30, 0x61, 0x62, 0x0a]"
proof -
  have l: "world sig_demo = world host_demo" "rg_base (writable sig_demo) = RISCV_HALF" "rg_len (writable sig_demo) = 4"
    by (simp_all add: sig_demo_def host_demo_def riscv_init_def)
  have "heap_mapped sig_demo"
    unfolding heap_mapped_def l
  proof (intro allI impI)
    fix a assume "in_heap (world host_demo) a 1"
    then have a: "RISCV_HALF \<le> a" "(ucast a + 1 :: u64) \<le> 0x80000004"
      by (simp_all add: in_heap_def host_demo_def riscv_init_def RISCV_HALF_def)
    have "unat (ucast a + 1 :: u64) = unat a + 1"
    proof -
      have "unat a + 1 < 18446744073709551616" using unat_lt_32 [of a] by linarith
      then show ?thesis by (simp add: unat_word_ariths unat_u64)
    qed
    then have "unat a < 0x80000004" using a(2) by (simp add: word_le_nat_alt)
    then show "a - RISCV_HALF < 4" using a(1) by (simp add: word_less_nat_alt word_le_nat_alt unat_sub half_nat)
  qed
  from signature_text [OF this, of "0x80000003" 2 "0x80000000"] show ?thesis
    by (simp add: upt_rec sig_byte_def sig_demo_def host_demo_def riscv_init_def in_heap_def guest_byte_def region_rd_def
        RISCV_HALF_def hex_byte_def hex_digit_def)
qed

section \<open>From the program to the exit code\<close>











end
