(* ===== verification/Memop.thy ===== *)
theory Memop
  imports Guest_Mem
begin

text \<open>
  The bulk memory instruction of \<open>emu/purvmemop.h\<close>, shared by the engines: \<open>purv_memop\<close>, which
  runs one libc call (\<open>memcpy\<close>, \<open>memset\<close>, \<open>memcmp\<close>, \<open>memchr\<close>, \<open>strlen\<close>, \<open>strcmp\<close>, \<open>strchr\<close>,
  \<open>strncmp\<close>) over spans of the two regions and answers the fuel it used. \<open>None\<close> is an access
  outside a host buffer or a call through a NULL callback.
\<close>

section \<open>Spans\<close>

text \<open>The host pointer of a guest address and the bytes left in its region; NULL is \<open>None\<close>.\<close>

definition pmo_span :: "'w vm \<Rightarrow> u32 \<Rightarrow> (hptr \<times> u32) option" where
  "pmo_span s a =
     (let rel = a - rg_base (writable s)
      in if rel < rg_len (writable s) then Some (WPtr (unat rel), rg_len (writable s) - rel)
         else let rel = a - rg_base (readonly s)
              in if rel < rg_len (readonly s)
                 then Some (RPtr (unat rel), rg_len (readonly s) - rel) else None)"

definition pmo_wspan :: "'w vm \<Rightarrow> u32 \<Rightarrow> (hptr \<times> u32) option" where
  "pmo_wspan s a =
     (let rel = a - rg_base (writable s)
      in if rel < rg_len (writable s) then Some (WPtr (unat rel), rg_len (writable s) - rel)
         else None)"

definition avail_of :: "(hptr \<times> u32) option \<Rightarrow> u32" where
  "avail_of sp = (case sp of None \<Rightarrow> 0 | Some (p, n) \<Rightarrow> n)"

text \<open>A read through a span's pointer; through NULL it has no result.\<close>

definition span_rd :: "'w vm \<Rightarrow> (hptr \<times> u32) option \<Rightarrow> nat \<Rightarrow> u8 option" where
  "span_rd s sp i = (case sp of None \<Rightarrow> None | Some (p, n) \<Rightarrow> rd8 s p i)"

section \<open>The move group\<close>

text \<open>\<open>memmove\<close> reads everything before it writes anything.\<close>

fun read_bytes :: "'w vm \<Rightarrow> hptr \<Rightarrow> nat \<Rightarrow> nat \<Rightarrow> u8 list option" where
  "read_bytes s p i 0 = Some []"
| "read_bytes s p i (Suc n) =
     do { b \<leftarrow> rd8 s p i; bs \<leftarrow> read_bytes s p (Suc i) n; Some (b # bs) }"

fun write_bytes :: "'w vm \<Rightarrow> hptr \<Rightarrow> nat \<Rightarrow> u8 list \<Rightarrow> 'w vm option" where
  "write_bytes s p i [] = Some s"
| "write_bytes s p i (b # bs) = do { s' \<leftarrow> wr8 s p i b; write_bytes s' p (Suc i) bs }"

text \<open>The fallback routes each byte through its own span or the callback.\<close>

definition pmo_load :: "'w hooks \<Rightarrow> 'w vm \<Rightarrow> u32 \<Rightarrow> (u32 \<times> 'w vm) option" where
  "pmo_load hk s a =
     (case pmo_span s a of
        Some (p, n) \<Rightarrow> map_option (\<lambda>b. (ucast b, s)) (rd8 s p 0)
      | None \<Rightarrow> map_option (\<lambda>cb. cb s RISCV_MEM_LOAD a 0) (h_callback hk))"

definition pmo_store :: "'w hooks \<Rightarrow> 'w vm \<Rightarrow> u32 \<Rightarrow> u32 \<Rightarrow> 'w vm option" where
  "pmo_store hk s a v =
     (case pmo_wspan s a of
        Some (p, n) \<Rightarrow> wr8 s p 0 (ucast v)
      | None \<Rightarrow> map_option (\<lambda>cb. snd (cb s RISCV_MEM_STORE a v)) (h_callback hk))"

fun copy_slow :: "'w hooks \<Rightarrow> u32 \<Rightarrow> u32 \<Rightarrow> u32 \<Rightarrow> nat \<Rightarrow> nat \<Rightarrow> 'w vm \<Rightarrow> 'w vm option" where
  "copy_slow hk a b n i 0 s = Some s"
| "copy_slow hk a b n i (Suc left) s =
     (let j = (if a > b then n - 1 - of_nat i else of_nat i)
      in case pmo_load hk s (b + j) of
           None \<Rightarrow> None
         | Some (v, s1) \<Rightarrow>
             (case pmo_store hk s1 (a + j) v of
                None \<Rightarrow> None
              | Some s2 \<Rightarrow> copy_slow hk a b n (Suc i) left s2))"

fun set_slow :: "'w hooks \<Rightarrow> u32 \<Rightarrow> u32 \<Rightarrow> nat \<Rightarrow> nat \<Rightarrow> 'w vm \<Rightarrow> 'w vm option" where
  "set_slow hk a b i 0 s = Some s"
| "set_slow hk a b i (Suc left) s =
     (case pmo_store hk s (a + of_nat i) b of
        None \<Rightarrow> None | Some s' \<Rightarrow> set_slow hk a b (Suc i) left s')"

definition pmo_memcpy :: "'w hooks \<Rightarrow> 'w vm \<Rightarrow> u32 \<Rightarrow> u32 \<Rightarrow> u32 \<Rightarrow> 'w vm option" where
  "pmo_memcpy hk s a b n =
     (case (pmo_wspan s a, pmo_span s b) of
        (Some (d, da), Some (q, sa)) \<Rightarrow>
          if n \<le> da \<and> n \<le> sa
          then do { bs \<leftarrow> read_bytes s q 0 (unat n); write_bytes s d 0 bs }
          else copy_slow hk a b n 0 (unat n) s
      | _ \<Rightarrow> copy_slow hk a b n 0 (unat n) s)"

definition pmo_memset :: "'w hooks \<Rightarrow> 'w vm \<Rightarrow> u32 \<Rightarrow> u32 \<Rightarrow> u32 \<Rightarrow> 'w vm option" where
  "pmo_memset hk s a b n =
     (case pmo_wspan s a of
        Some (d, da) \<Rightarrow>
          if n \<le> da then write_bytes s d 0 (replicate (unat n) (ucast b))
          else set_slow hk a b 0 (unat n) s
      | None \<Rightarrow> set_slow hk a b 0 (unat n) s)"

section \<open>The scan group\<close>

text \<open>
  The compare loops: \<open>str\<close> is whether a NUL ends them too. The result is the difference and the
  index where the loop stopped.
\<close>

fun scan_cmp ::
  "bool \<Rightarrow> 'w vm \<Rightarrow> (hptr \<times> u32) option \<Rightarrow> (hptr \<times> u32) option \<Rightarrow> nat \<Rightarrow> nat \<Rightarrow> (u32 \<times> nat) option"
  where
  "scan_cmp str s x y i 0 = Some (0, i)"
| "scan_cmp str s x y i (Suc left) =
     do { p \<leftarrow> span_rd s x i; q \<leftarrow> span_rd s y i;
          if p \<noteq> q \<or> (str \<and> p = 0) then Some (ucast p - ucast q, i)
          else scan_cmp str s x y (Suc i) left }"

text \<open>The library's \<open>memchr\<close>: the index of the first byte equal to \<open>(unsigned char)c\<close>.\<close>

fun scan_chr :: "'w vm \<Rightarrow> (hptr \<times> u32) option \<Rightarrow> u8 \<Rightarrow> nat \<Rightarrow> nat \<Rightarrow> nat option option" where
  "scan_chr s x c i 0 = Some None"
| "scan_chr s x c i (Suc left) =
     do { p \<leftarrow> span_rd s x i;
          if p = c then Some (Some i) else scan_chr s x c (Suc i) left }"

text \<open>The \<open>strchr\<close> loop: the result and the index where it stopped.\<close>

fun scan_strchr ::
  "'w vm \<Rightarrow> (hptr \<times> u32) option \<Rightarrow> u32 \<Rightarrow> u8 \<Rightarrow> nat \<Rightarrow> nat \<Rightarrow> (u32 \<times> nat) option" where
  "scan_strchr s x a c i 0 = Some (0, i)"
| "scan_strchr s x a c i (Suc left) =
     do { p \<leftarrow> span_rd s x i;
          if p = c then Some (a + of_nat i, i)
          else if p = 0 then Some (0, i)
          else scan_strchr s x a c (Suc i) left }"

definition set_reg :: "'w vm \<Rightarrow> reg \<Rightarrow> u32 \<Rightarrow> 'w vm" where
  "set_reg s rd v = s\<lparr>regs := (regs s)(rd := v)\<rparr>"

text \<open>\<open>return i < n ? i + 1 : n\<close>\<close>

definition scan_fuel :: "nat \<Rightarrow> u32 \<Rightarrow> u64" where
  "scan_fuel i n = (if i < unat n then of_nat (i + 1) else ucast n)"

definition purv_memop ::
  "'w hooks \<Rightarrow> 'w vm \<Rightarrow> u32 \<Rightarrow> reg \<Rightarrow> reg \<Rightarrow> reg \<Rightarrow> ('w vm \<times> u64) option" where
  "purv_memop hk s f3 rd rs1 rs2 =
     (let a = regs s rd; b = regs s rs1; n = regs s rs2; x = pmo_span s a; y = pmo_span s b
      in if f3 = 0 then map_option (\<lambda>s'. (s', ucast (drop_bit 2 n))) (pmo_memcpy hk s a b n)
         else if f3 = 1 then map_option (\<lambda>s'. (s', ucast (drop_bit 2 n))) (pmo_memset hk s a b n)
         else if f3 = 2 then
           (let m = min (min n (avail_of x)) (avail_of y)
            in map_option (\<lambda>(res, i). (set_reg s rd res, scan_fuel i m))
                 (scan_cmp False s x y 0 (unat m)))
         else if f3 = 3 then
           (let m = (if n < avail_of x then n else avail_of x)
            in map_option (\<lambda>hit. case hit of
                   Some i \<Rightarrow> (set_reg s rd (a + of_nat i), of_nat (i + 1))
                 | None \<Rightarrow> (set_reg s rd 0, ucast m))
                 (scan_chr s x (ucast b) 0 (unat m)))
         else if f3 = 4 then
           map_option (\<lambda>hit.
               let len = (case hit of Some i \<Rightarrow> of_nat i | None \<Rightarrow> avail_of x) :: u32
               in (set_reg s rd len, ucast (len + 1)))
             (scan_chr s x 0 0 (unat (avail_of x)))
         else if f3 = 5 \<or> f3 = 7 then
           (let m = min (min (if f3 = 7 then n else 0xffffffff) (avail_of x)) (avail_of y)
            in map_option (\<lambda>(res, i). (set_reg s rd res, scan_fuel i m))
                 (scan_cmp True s x y 0 (unat m)))
         else if f3 = 6 then
           map_option (\<lambda>(res, i). (set_reg s rd res, scan_fuel i (avail_of x)))
             (scan_strchr s x a (ucast b) 0 (unat (avail_of x)))
         else Some (s, 0))"

section \<open>Spans are translated ranges\<close>

lemma pmo_span_xlate:
  assumes "pmo_span s a = Some (p, n)" "m \<le> n"
  shows "mem_xlate s a m False = Some p"
proof (cases "a - rg_base (writable s) < rg_len (writable s)")
  case True
  with assms show ?thesis by (auto simp: pmo_span_def mem_xlate_def region_at_def Let_def)
next
  case False
  with assms show ?thesis
    by (auto simp: pmo_span_def mem_xlate_def region_at_def Let_def split: if_splits)
qed

lemma pmo_wspan_xlate:
  assumes "pmo_wspan s a = Some (p, n)" "m \<le> n"
  shows "mem_xlate s a m True = Some p"
  using assms by (auto simp: pmo_wspan_def mem_xlate_def region_at_def Let_def split: if_splits)

lemma span_pos: "pmo_span s a = Some (p, n) \<Longrightarrow> 0 < unat n" "pmo_wspan s a = Some (p, n) \<Longrightarrow> 0 < unat n"
  by (auto simp: pmo_span_def pmo_wspan_def Let_def unat_sub_u32 word_less_nat_alt unat_gt_0
      split: if_splits)

text \<open>The bytes of a span, as the host can read them.\<close>

definition gb :: "'w vm \<Rightarrow> u32 \<Rightarrow> nat \<Rightarrow> u8" where
  "gb s a k = the (guest_byte s (a + of_nat k))"

lemma span_rd_gb:
  assumes "vm_ok s" "regions_disjoint s" "k < unat (avail_of (pmo_span s a))"
  shows "span_rd s (pmo_span s a) k = Some (gb s a k)"
proof -
  obtain p n where sp: "pmo_span s a = Some (p, n)" "k < unat n"
    using assms(3) by (auto simp: avail_of_def split: option.splits)
  have "rd8 s p k = guest_byte s (a + of_nat k)"
    using rd8_guest_byte [OF pmo_span_xlate [OF sp(1)] sp(2) assms(2)] by simp
  with guest_byte_total [OF assms(1)] sp(1) show ?thesis
    by (metis gb_def option.sel option.simps(5) prod.simps(2) span_rd_def)
qed


section \<open>The scans\<close>

lemma find_upt_Suc: "find P [i..<i + Suc n] = (if P i then Some i else find P [Suc i..<Suc i + n])"
  by (simp add: upt_rec)

lemma scan_cmp_find:
  "(\<And>k. k < i + left \<Longrightarrow> span_rd s x k = Some (f k)) \<Longrightarrow>
   (\<And>k. k < i + left \<Longrightarrow> span_rd s y k = Some (g k)) \<Longrightarrow>
   scan_cmp str s x y i left =
     Some (case find (\<lambda>k. f k \<noteq> g k \<or> str \<and> f k = 0) [i..<i + left] of
             None \<Rightarrow> (0, i + left) | Some k \<Rightarrow> (ucast (f k) - ucast (g k), k))"
proof (induction left arbitrary: i)
  case 0
  then show ?case by simp
next
  case (Suc left)
  show ?case
    unfolding find_upt_Suc using Suc.prems [of i] Suc.prems Suc.IH [of "Suc i"]
    by (simp del: upt_Suc cong: option.case_cong)
qed

lemma scan_chr_find:
  "(\<And>k. k < i + left \<Longrightarrow> span_rd s x k = Some (f k)) \<Longrightarrow>
   scan_chr s x c i left = Some (find (\<lambda>k. f k = c) [i..<i + left])"
proof (induction left arbitrary: i)
  case 0
  then show ?case by simp
next
  case (Suc left)
  show ?case
    unfolding find_upt_Suc using Suc.prems [of i] Suc.prems Suc.IH [of "Suc i"]
    by (simp del: upt_Suc cong: option.case_cong)
qed


section \<open>The moves\<close>

lemma read_bytes_map:
  "(\<And>k. i \<le> k \<Longrightarrow> k < i + n \<Longrightarrow> rd8 s p k = Some (f k)) \<Longrightarrow> read_bytes s p i n = Some (map f [i..<i + n])"
proof (induction n arbitrary: i)
  case 0
  then show ?case by simp
next
  case (Suc n)
  have "[i..<i + Suc n] = i # [Suc i..<Suc i + n]" by (simp add: upt_rec)
  then show ?case using Suc.prems [of i] Suc.IH [of "Suc i"] Suc.prems by (simp del: upt_Suc)
qed

text \<open>What a store cannot change: where the regions lie.\<close>

definition layout :: "'w vm \<Rightarrow> u32 \<times> u32 \<times> u32 \<times> u32" where
  "layout s = (rg_base (writable s), rg_len (writable s), rg_base (readonly s), rg_len (readonly s))"

lemma spans_layout:
  assumes "layout s' = layout s"
  shows "pmo_span s' = pmo_span s" "pmo_wspan s' = pmo_wspan s"
  using assms by (auto simp: fun_eq_iff layout_def pmo_span_def pmo_wspan_def Let_def)

lemma wr8_layout: "wr8 s (WPtr off) i b = Some s' \<Longrightarrow> layout s' = layout s"
  by (auto simp: layout_def dest!: region_wr_shape)

text \<open>One byte through a write translation.\<close>

lemma byte_written:
  assumes "vm_ok s" "mem_xlate s a n True = Some q" "i < unat n"
  obtains s' where "wr8 s q i b = Some s'" "vm_ok s'" "mem_xlate s' a n True = Some q"
    "guest_byte s' = (guest_byte s)(a + of_nat i \<mapsto> b)" "store_frame s s'" "layout s' = layout s"
proof -
  obtain off where q: "q = WPtr off" using mem_xlate_write assms(2) by blast
  obtain s' where s': "wr8 s q i b = Some s'" using mem_xlate_wr [OF assms] by blast
  have "guest_byte s' = (guest_byte s)(a + of_nat i \<mapsto> b)"
    using guest_byte_wr8 [OF assms(2,3) s'] by auto
  moreover have "store_frame s s'"
    using wr8_frame [OF s' [unfolded q]] regions_disjoint_wr8 [OF s' [unfolded q]]
    by (simp add: store_frame_def)
  moreover have "vm_ok s'" "mem_xlate s' a n True = Some q" "layout s' = layout s"
    using vm_ok_wr8 mem_xlate_wr8 wr8_layout s' assms(1,2) unfolding q by metis+
  ultimately show ?thesis using s' that by blast
qed

text \<open>The guest memory after writing \<open>f i, \<dots>, f (j - 1)\<close> from \<open>a + i\<close> on.\<close>

definition guest_put :: "(u32 \<Rightarrow> u8 option) \<Rightarrow> u32 \<Rightarrow> nat \<Rightarrow> nat \<Rightarrow> (nat \<Rightarrow> u8) \<Rightarrow> u32 \<Rightarrow> u8 option" where
  "guest_put m a i j f =
     (\<lambda>x. if i \<le> unat (x - a) \<and> unat (x - a) < j then Some (f (unat (x - a))) else m x)"

lemma offset_iff:
  assumes "k < 4294967296"
  shows "unat (x - a :: u32) = k \<longleftrightarrow> x = a + of_nat k"
proof -
  have "unat (of_nat k :: u32) = k" using assms by (simp add: unat_of_nat)
  then have "unat (x - a) = k \<longleftrightarrow> x - a = of_nat k" by (metis word_unat_eq_iff)
  then show ?thesis by (metis add_diff_cancel_left' add.commute diff_add_cancel)
qed

lemma guest_put_upd:
  assumes "i < j" "i < 4294967296"
  shows "guest_put (m(a + of_nat i \<mapsto> f i)) a (Suc i) j f = guest_put m a i j f"
proof
  fix x
  show "guest_put (m(a + of_nat i \<mapsto> f i)) a (Suc i) j f x = guest_put m a i j f x"
  proof (cases "x = a + of_nat i")
    case True
    then have "unat (x - a) = i" using offset_iff [OF assms(2), of x a] by blast
    with True assms(1) show ?thesis by (simp add: guest_put_def)
  next
    case False
    then have "unat (x - a) \<noteq> i" using offset_iff [OF assms(2)] by simp
    with False show ?thesis by (auto simp: guest_put_def)
  qed
qed

lemma write_bytes_put:
  "vm_ok s \<Longrightarrow> mem_xlate s a n True = Some q \<Longrightarrow> i + length bs \<le> unat n \<Longrightarrow>
   (\<And>k. k < length bs \<Longrightarrow> bs ! k = f (i + k)) \<Longrightarrow>
   \<exists>s'. write_bytes s q i bs = Some s' \<and> vm_ok s' \<and> store_frame s s' \<and> layout s' = layout s \<and>
     guest_byte s' = guest_put (guest_byte s) a i (i + length bs) f"
proof (induction bs arbitrary: s i)
  case Nil
  then show ?case by (auto simp: guest_put_def fun_eq_iff store_frame_def)
next
  case (Cons b bs)
  have "i < unat n" using Cons.prems(3) by simp
  obtain s1 where s1: "wr8 s q i b = Some s1" "vm_ok s1" "mem_xlate s1 a n True = Some q"
    "guest_byte s1 = (guest_byte s)(a + of_nat i \<mapsto> b)" "store_frame s s1" "layout s1 = layout s"
    using byte_written [OF Cons.prems(1,2) \<open>i < unat n\<close>] by blast
  have "bs ! k = f (Suc i + k)" if "k < length bs" for k
    using Cons.prems(4) [of "Suc k"] that by simp
  then obtain s' where s': "write_bytes s1 q (Suc i) bs = Some s'" "vm_ok s'" "store_frame s1 s'"
    "layout s' = layout s1"
    "guest_byte s' = guest_put (guest_byte s1) a (Suc i) (Suc i + length bs) f"
    using Cons.IH [OF s1(2,3), of "Suc i"] Cons.prems(3) by auto
  have "b = f i" using Cons.prems(4) [of 0] by simp
  then have "guest_byte s' = guest_put (guest_byte s) a i (i + length (b # bs)) f"
    using s'(5) s1(4) guest_put_upd [of i "i + length (b # bs)" "guest_byte s" a f]
      \<open>i < unat n\<close> unat_lt_32 [of n] by simp
  with s1 s' show ?case by (auto intro: store_frame_trans)
qed

section \<open>memmove and memset\<close>

definition guest_move :: "(u32 \<Rightarrow> u8 option) \<Rightarrow> u32 \<Rightarrow> u32 \<Rightarrow> nat \<Rightarrow> u32 \<Rightarrow> u8 option" where
  "guest_move m a b n = (\<lambda>x. if unat (x - a) < n then m (b + (x - a)) else m x)"

text \<open>Every byte of the range is in a region, and of the writable region if it is written.\<close>

definition mapped_rd :: "'w vm \<Rightarrow> u32 \<Rightarrow> nat \<Rightarrow> bool" where
  "mapped_rd s a n = (\<forall>i < n. pmo_span s (a + of_nat i) \<noteq> None)"

definition mapped_wr :: "'w vm \<Rightarrow> u32 \<Rightarrow> nat \<Rightarrow> bool" where
  "mapped_wr s a n = (\<forall>i < n. pmo_wspan s (a + of_nat i) \<noteq> None)"

lemma move_fast:
  assumes "vm_ok s" "regions_disjoint s"
    and "pmo_wspan s a = Some (d, da)" "pmo_span s b = Some (q, sa)" "n \<le> da" "n \<le> sa"
  shows "\<exists>s'. (do { bs \<leftarrow> read_bytes s q 0 (unat n); write_bytes s d 0 bs }) = Some s' \<and>
    vm_ok s' \<and> store_frame s s' \<and> guest_byte s' = guest_move (guest_byte s) a b (unat n)"
proof -
  let ?f = "gb s b"
  have "rd8 s q k = Some (?f k)" if "k < unat n" for k
  proof -
    have "k < unat sa" using that assms(6) by (simp add: word_le_nat_alt)
    with assms(1,2,4) span_rd_gb [of s k b] show ?thesis by (simp add: avail_of_def span_rd_def)
  qed
  then have "read_bytes s q 0 (unat n) = Some (map ?f [0..<unat n])"
    using read_bytes_map [of 0 "unat n" s q ?f] by simp
  moreover obtain s' where "write_bytes s d 0 (map ?f [0..<unat n]) = Some s'" "vm_ok s'"
    "store_frame s s'" "guest_byte s' = guest_put (guest_byte s) a 0 (unat n) ?f"
    using write_bytes_put [OF assms(1) pmo_wspan_xlate [OF assms(3,5)],
        of 0 "map ?f [0..<unat n]" ?f] by auto
  moreover have "guest_put (guest_byte s) a 0 (unat n) ?f = guest_move (guest_byte s) a b (unat n)"
    using guest_byte_total [OF assms(1)]
    by (auto simp: guest_put_def guest_move_def gb_def fun_eq_iff)
  ultimately show ?thesis by simp
qed

lemma pmo_load_mapped:
  assumes "vm_ok s" "regions_disjoint s" "pmo_span s a \<noteq> None"
  shows "pmo_load hk s a = Some (ucast (gb s a 0), s)"
proof -
  obtain p n where sp: "pmo_span s a = Some (p, n)" using assms(3) by auto
  have "span_rd s (pmo_span s a) 0 = Some (gb s a 0)"
    using span_rd_gb [OF assms(1,2), of 0 a] span_pos(1) [OF sp] sp by (simp add: avail_of_def)
  with sp show ?thesis by (simp add: pmo_load_def span_rd_def)
qed

lemma pmo_store_mapped:
  assumes "vm_ok s" "pmo_wspan s a \<noteq> None"
  obtains s' where "pmo_store hk s a v = Some s'" "vm_ok s'" "store_frame s s'" "layout s' = layout s"
    "guest_byte s' = (guest_byte s)(a \<mapsto> ucast v)"
proof -
  obtain p n where sp: "pmo_wspan s a = Some (p, n)" using assms(2) by auto
  obtain s' where "wr8 s p 0 (ucast v) = Some s'" "vm_ok s'" "store_frame s s'" "layout s' = layout s"
    "guest_byte s' = (guest_byte s)(a + of_nat 0 \<mapsto> ucast v)"
    using byte_written [OF assms(1) pmo_wspan_xlate [OF sp order_refl] span_pos(2) [OF sp]] by metis
  with that sp show ?thesis by (simp add: pmo_store_def)
qed

lemma gb_guest: "vm_ok s \<Longrightarrow> Some (gb s a k) = guest_byte s (a + of_nat k)"
  using guest_byte_total [of s] by (auto simp: gb_def)

text \<open>
  The invariant of the fallback: the offsets copied so far have their final bytes, everything
  else is untouched. Copying upwards when the destination is not above the source, downwards
  when it is, the byte read next is never one already overwritten.
\<close>

definition copied :: "(u32 \<Rightarrow> u8 option) \<Rightarrow> u32 \<Rightarrow> u32 \<Rightarrow> nat \<Rightarrow> nat \<Rightarrow> u32 \<Rightarrow> u8 option" where
  "copied m a b n i =
     (\<lambda>x. if (if a > b then n - i \<le> unat (x - a) \<and> unat (x - a) < n else unat (x - a) < i)
          then m (b + (x - a)) else m x)"

lemma copied_ends: "copied m a b n 0 = m" "copied m a b n n = guest_move m a b n"
  by (auto simp: copied_def guest_move_def fun_eq_iff)

lemma unat_shift:
  assumes "unat a + n \<le> 4294967296" "k < n"
  shows "unat (a + of_nat k :: u32) = unat a + k"
  using assms unat_add_small [of a k] by simp

lemma copied_step:
  assumes "i < n" "unat a + n \<le> 4294967296" "unat b + n \<le> 4294967296"
    and j: "j = (if a > b then n - 1 - i else i)"
  shows "copied m a b n i (b + of_nat j) = m (b + of_nat j)"
    and "(copied m a b n i)(a + of_nat j := m (b + of_nat j)) = copied m a b n (Suc i)"
proof -
  have jn: "j < n" using j assms(1) by auto
  have ub: "unat (b + of_nat j) = unat b + j" and ua: "unat (a + of_nat j) = unat a + j"
    using unat_shift [OF assms(3) jn] unat_shift [OF assms(2) jn] .
  have j32: "j < 4294967296" using jn assms(2) by linarith
  show "copied m a b n i (b + of_nat j) = m (b + of_nat j)"
  proof (cases "a > b")
    case True
    let ?d = "unat (b + of_nat j - a)"
    have "\<not> (n - i \<le> ?d \<and> ?d < n)"
    proof (cases "a \<le> b + of_nat j")
      case ge: True
      then have "?d = unat b + j - unat a" using ub by (simp add: unat_sub)
      moreover have "unat b < unat a" "j = n - 1 - i" using True j by (simp_all add: word_less_nat_alt)
      ultimately have "?d < n - i" using assms(1) by arith
      then show ?thesis by simp
    next
      case False
      then have "?d = unat b + j + 4294967296 - unat a"
        using ub by (simp add: word_le_nat_alt unat_sub_if_size word_size)
      with assms(2) show ?thesis by auto
    qed
    with True show ?thesis by (auto simp: copied_def)
  next
    case False
    then have "unat a \<le> unat b" by (simp add: word_less_nat_alt)
    then have "a \<le> b + of_nat j" using ub by (simp add: word_le_nat_alt)
    then have "unat (b + of_nat j - a) = unat b + j - unat a" using ub by (simp add: unat_sub)
    then have "\<not> unat (b + of_nat j - a) < i" using False j \<open>unat a \<le> unat b\<close> by simp
    with False show ?thesis by (simp add: copied_def)
  qed
  show "(copied m a b n i)(a + of_nat j := m (b + of_nat j)) = copied m a b n (Suc i)"
  proof
    fix x
    show "((copied m a b n i)(a + of_nat j := m (b + of_nat j))) x = copied m a b n (Suc i) x"
    proof (cases "x = a + of_nat j")
      case True
      have "unat (x - a) = j" using offset_iff [OF j32, of x a] True by blast
      moreover have "b + (x - a) = b + of_nat j" using True by simp
      ultimately show ?thesis using True j jn assms(1) by (auto simp: copied_def)
    next
      case False
      then have "unat (x - a) \<noteq> j" using offset_iff [OF j32, of x a] by blast
      with False j assms(1) show ?thesis
        by (auto simp: copied_def)
    qed
  qed
qed

lemma byte_back: "(ucast (ucast (x :: u8) :: u32) :: u8) = x"
  by (rule bit_word_eqI) (auto simp: bit_simps dest: bit_imp_le_length)

lemma copy_slow_copied:
  assumes "unat a + unat n \<le> 4294967296" "unat b + unat n \<le> 4294967296"
  shows "vm_ok s \<Longrightarrow> regions_disjoint s \<Longrightarrow> mapped_wr s a (unat n) \<Longrightarrow> mapped_rd s b (unat n) \<Longrightarrow>
    i + left = unat n \<Longrightarrow> guest_byte s = copied m a b (unat n) i \<Longrightarrow>
    \<exists>s'. copy_slow hk a b n i left s = Some s' \<and> vm_ok s' \<and> store_frame s s' \<and>
      guest_byte s' = guest_move m a b (unat n)"
proof (induction left arbitrary: s i)
  case 0
  then show ?case by (auto simp: copied_ends store_frame_def)
next
  case (Suc left)
  let ?n = "unat n"
  define j where "j = (if a > b then ?n - 1 - i else i)"
  have i: "i < ?n" and jn: "j < ?n" using Suc.prems(5) by (auto simp: j_def)
  have jw: "(if a > b then n - 1 - of_nat i else of_nat i) = of_nat j"
  proof -
    have "(of_nat (?n - 1 - i) :: u32) = n - 1 - of_nat i" using i by (simp add: of_nat_diff)
    then show ?thesis by (simp add: j_def)
  qed
  note step = copied_step [OF i assms j_def]
  have "pmo_span s (b + of_nat j) \<noteq> None" "pmo_wspan s (a + of_nat j) \<noteq> None"
    using Suc.prems(3,4) jn by (simp_all add: mapped_rd_def mapped_wr_def)
  note load = pmo_load_mapped [OF Suc.prems(1,2) this(1), of hk] and wmap = this(2)
  obtain s2 where s2: "pmo_store hk s (a + of_nat j) (ucast (gb s (b + of_nat j) 0)) = Some s2"
    "vm_ok s2" "store_frame s s2" "layout s2 = layout s"
    "guest_byte s2 = (guest_byte s)(a + of_nat j \<mapsto> gb s (b + of_nat j) 0)"
    by (rule pmo_store_mapped [OF Suc.prems(1) wmap, of hk "ucast (gb s (b + of_nat j) 0)"])
      (simp add: byte_back)
  have "guest_byte s2 = copied m a b ?n (Suc i)"
    using s2(5) gb_guest [OF Suc.prems(1), of "b + of_nat j" 0] Suc.prems(6) step by simp
  moreover have "regions_disjoint s2" using s2(3) Suc.prems(2) by (simp add: store_frame_def)
  moreover have "mapped_wr s2 a ?n" "mapped_rd s2 b ?n"
    using Suc.prems(3,4) spans_layout [OF s2(4)] by (simp_all add: mapped_rd_def mapped_wr_def)
  ultimately obtain s' where "copy_slow hk a b n (Suc i) left s2 = Some s'" "vm_ok s'"
    "store_frame s2 s'" "guest_byte s' = guest_move m a b ?n"
    using Suc.IH [OF s2(2), of "Suc i"] Suc.prems(5) by auto
  moreover have "copy_slow hk a b n i (Suc left) s = copy_slow hk a b n (Suc i) left s2"
    using load s2(1) by (simp add: jw)
  ultimately show ?case using store_frame_trans [OF s2(3)] by simp
qed

lemma memcpy_move:
  assumes "vm_ok s" "regions_disjoint s" "mapped_wr s a (unat n)" "mapped_rd s b (unat n)"
    and "unat a + unat n \<le> 4294967296" "unat b + unat n \<le> 4294967296"
  shows "\<exists>s'. pmo_memcpy hk s a b n = Some s' \<and> vm_ok s' \<and> store_frame s s' \<and>
    guest_byte s' = guest_move (guest_byte s) a b (unat n)"
proof -
  have slow: "\<exists>s'. copy_slow hk a b n 0 (unat n) s = Some s' \<and> vm_ok s' \<and> store_frame s s' \<and>
    guest_byte s' = guest_move (guest_byte s) a b (unat n)"
    by (rule copy_slow_copied [OF assms(5,6,1-4)]) (simp_all add: copied_ends)
  show ?thesis
  proof (cases "pmo_wspan s a")
    case None
    with slow show ?thesis by (simp add: pmo_memcpy_def)
  next
    case (Some d)
    obtain p da where d: "d = (p, da)" by (cases d)
    show ?thesis
    proof (cases "pmo_span s b")
      case None
      with slow Some d show ?thesis by (simp add: pmo_memcpy_def)
    next
      case q: (Some q)
      obtain r sa where "q = (r, sa)" by (cases q)
      with slow Some d q move_fast [OF assms(1,2) Some [unfolded d]] show ?thesis
        by (auto simp: pmo_memcpy_def)
    qed
  qed
qed

lemma set_slow_put:
  "vm_ok s \<Longrightarrow> mapped_wr s a n \<Longrightarrow> i + left = n \<Longrightarrow> n \<le> 4294967296 \<Longrightarrow>
   \<exists>s'. set_slow hk a b i left s = Some s' \<and> vm_ok s' \<and> store_frame s s' \<and>
     guest_byte s' = guest_put (guest_byte s) a i n (\<lambda>_. ucast b)"
proof (induction left arbitrary: s i)
  case 0
  then show ?case by (auto simp: guest_put_def fun_eq_iff store_frame_def)
next
  case (Suc left)
  have i: "i < n" "i < 4294967296" using Suc.prems(3,4) by auto
  have "pmo_wspan s (a + of_nat i) \<noteq> None" using Suc.prems(2) i by (simp add: mapped_wr_def)
  then obtain s1 where s1: "pmo_store hk s (a + of_nat i) b = Some s1" "vm_ok s1" "store_frame s s1"
    "layout s1 = layout s" "guest_byte s1 = (guest_byte s)(a + of_nat i \<mapsto> ucast b)"
    using pmo_store_mapped [OF Suc.prems(1)] by metis
  have "mapped_wr s1 a n"
    using Suc.prems(2) spans_layout [OF s1(4)] by (simp add: mapped_wr_def)
  then obtain s' where s': "set_slow hk a b (Suc i) left s1 = Some s'" "vm_ok s'" "store_frame s1 s'"
    "guest_byte s' = guest_put (guest_byte s1) a (Suc i) n (\<lambda>_. ucast b)"
    using Suc.IH [OF s1(2), of "Suc i"] Suc.prems(3,4) by auto
  have "guest_byte s' = guest_put (guest_byte s) a i n (\<lambda>_. ucast b)"
    using s'(4) s1(5) guest_put_upd [OF i, of "guest_byte s" a "\<lambda>_. ucast b"] by simp
  with s1 s' show ?case by (auto intro: store_frame_trans)
qed

lemma memset_put:
  assumes "vm_ok s" "mapped_wr s a (unat n)"
  shows "\<exists>s'. pmo_memset hk s a b n = Some s' \<and> vm_ok s' \<and> store_frame s s' \<and>
    guest_byte s' = guest_put (guest_byte s) a 0 (unat n) (\<lambda>_. ucast b)"
proof -
  have slow: "\<exists>s'. set_slow hk a b 0 (unat n) s = Some s' \<and> vm_ok s' \<and> store_frame s s' \<and>
    guest_byte s' = guest_put (guest_byte s) a 0 (unat n) (\<lambda>_. ucast b)"
    by (rule set_slow_put [OF assms]) (simp_all add: less_imp_le)
  show ?thesis
  proof (cases "pmo_wspan s a")
    case None
    with slow show ?thesis by (simp add: pmo_memset_def)
  next
    case (Some d)
    obtain p da where d: "d = (p, da)" by (cases d)
    show ?thesis
    proof (cases "n \<le> da")
      case True
      from write_bytes_put [OF assms(1) pmo_wspan_xlate [OF Some [unfolded d] True],
          of 0 "replicate (unat n) (ucast b)" "\<lambda>_. ucast b"] Some d True
      show ?thesis by (auto simp: pmo_memset_def)
    next
      case False
      with slow Some d show ?thesis by (simp add: pmo_memset_def)
    qed
  qed
qed

section \<open>C strings\<close>







section \<open>Safety\<close>






text \<open>A state for the witnesses: \<open>a0\<close> to \<open>a2\<close> over the layout of \<open>mem_demo\<close>.\<close>

definition mop_demo :: "u32 \<Rightarrow> u32 \<Rightarrow> u32 \<Rightarrow> unit vm" where
  "mop_demo a b n = mem_demo\<lparr>regs := (regs mem_demo)(10 := a, 11 := b, 12 := n)\<rparr>"

lemma mop_demo_ok: "vm_ok (mop_demo a b n)" "regions_disjoint (mop_demo a b n)"
  using mem_demo_ok mem_demo_disjoint
  by (simp_all add: mop_demo_def vm_ok_def regions_disjoint_def)

lemma mop_demo_regs:
  "regs (mop_demo a b n) 10 = a" "regs (mop_demo a b n) 11 = b" "regs (mop_demo a b n) 12 = n"
  by (simp_all add: mop_demo_def)

lemmas mop_demo_eval = mop_demo_def mem_demo_def riscv_init_def RISCV_HALF_def pmo_span_def
  pmo_wspan_def

section \<open>Properties\<close>

text \<open>
  C22: the move is \<open>memmove\<close>. When every byte of both ranges is mapped and neither wraps round the
  address space, the instruction completes and the destination holds what the source held
  before, overlapping ranges included, both on the path that translates the spans once and on
  the bytewise path that picks the direction; nothing else changes and the fuel is \<open>n / 4\<close>.
\<close>

theorem memcpy_is_memmove:
  assumes "vm_ok s" "regions_disjoint s"
    and "mapped_wr s (regs s rd) (unat (regs s rs2))" "mapped_rd s (regs s rs1) (unat (regs s rs2))"
    and "unat (regs s rd) + unat (regs s rs2) \<le> 4294967296"
    and "unat (regs s rs1) + unat (regs s rs2) \<le> 4294967296"
  shows "\<exists>s'. purv_memop hk s 0 rd rs1 rs2 = Some (s', ucast (drop_bit 2 (regs s rs2))) \<and>
    vm_ok s' \<and> store_frame s s' \<and>
    guest_byte s' = guest_move (guest_byte s) (regs s rd) (regs s rs1) (unat (regs s rs2))"
  using memcpy_move [OF assms, of hk] by (auto simp: purv_memop_def Let_def)

lemma memcpy_is_memmove_witness:
  "\<exists>s'. purv_memop init_hooks (mop_demo 0x80000001 0x80000000 3) 0 10 11 12 =
      Some (s', ucast (drop_bit 2 (regs (mop_demo 0x80000001 0x80000000 3) 12))) \<and>
    vm_ok s' \<and> store_frame (mop_demo 0x80000001 0x80000000 3) s' \<and>
    guest_byte s' = guest_move (guest_byte (mop_demo 0x80000001 0x80000000 3))
      (regs (mop_demo 0x80000001 0x80000000 3) 10) (regs (mop_demo 0x80000001 0x80000000 3) 11)
      (unat (regs (mop_demo 0x80000001 0x80000000 3) 12))"
proof (rule memcpy_is_memmove [OF mop_demo_ok])
  have three: "unat (3 :: u32) = Suc (Suc (Suc 0))" by simp
  show "mapped_wr (mop_demo 0x80000001 0x80000000 3) (regs (mop_demo 0x80000001 0x80000000 3) 10)
      (unat (regs (mop_demo 0x80000001 0x80000000 3) 12))"
    "mapped_rd (mop_demo 0x80000001 0x80000000 3) (regs (mop_demo 0x80000001 0x80000000 3) 11)
      (unat (regs (mop_demo 0x80000001 0x80000000 3) 12))"
    unfolding mop_demo_regs three mapped_rd_def mapped_wr_def All_less_Suc
    by (simp_all add: mop_demo_eval)
qed (simp_all add: mop_demo_regs)



text \<open>
  \<open>memcmp\<close> and \<open>memchr\<close> are the C library's on ranges inside their regions: the difference
  of the first mismatching pair (0 if none) and the pointer to the first occurrence (NULL if
  none). The fuel is one per byte examined.
\<close>

theorem memop_memory_scans:
  assumes "vm_ok s" "regions_disjoint s" "a = regs s rd" "b = regs s rs1" "n = regs s rs2"
    and "n \<le> avail_of (pmo_span s a)" "n \<le> avail_of (pmo_span s b)"
  shows "purv_memop hk s 2 rd rs1 rs2 =
      Some (case find (\<lambda>k. gb s a k \<noteq> gb s b k) [0..<unat n] of
        None \<Rightarrow> (set_reg s rd 0, ucast n)
      | Some k \<Rightarrow> (set_reg s rd (ucast (gb s a k) - ucast (gb s b k)), of_nat (k + 1))) \<and>
    purv_memop hk s 3 rd rs1 rs2 =
      Some (case find (\<lambda>k. gb s a k = ucast b) [0..<unat n] of
        None \<Rightarrow> (set_reg s rd 0, ucast n)
      | Some k \<Rightarrow> (set_reg s rd (a + of_nat k), of_nat (k + 1)))"
proof -
  have rd: "span_rd s (pmo_span s x) k = Some (gb s x k)" if "n \<le> avail_of (pmo_span s x)" "k < unat n"
    for x k
    using span_rd_gb [OF assms(1,2), of k x] that by (simp add: word_le_nat_alt)
  have "min (min n (avail_of (pmo_span s a))) (avail_of (pmo_span s b)) = n"
    "(if n < avail_of (pmo_span s a) then n else avail_of (pmo_span s a)) = n"
    using assms(6,7) by auto
  moreover have "scan_cmp False s (pmo_span s a) (pmo_span s b) 0 (unat n) =
      Some (case find (\<lambda>k. gb s a k \<noteq> gb s b k) [0..<unat n] of
        None \<Rightarrow> (0, unat n) | Some k \<Rightarrow> (ucast (gb s a k) - ucast (gb s b k), k))"
    using scan_cmp_find [of 0 "unat n" s "pmo_span s a" "gb s a" "pmo_span s b" "gb s b" False] rd assms(6,7)
    by (simp cong: option.case_cong)
  moreover have "scan_chr s (pmo_span s a) (ucast b) 0 (unat n) =
      Some (find (\<lambda>k. gb s a k = ucast b) [0..<unat n])"
    using scan_chr_find [of 0 "unat n" s "pmo_span s a" "gb s a" "ucast b"] rd assms(6) by simp
  moreover have "k < unat n" if "find P [0..<unat n] = Some k" for P k
    using that by (auto simp: find_Some_iff)
  ultimately show ?thesis
    unfolding assms(3-5)
    by (auto simp: purv_memop_def Let_def scan_fuel_def split: option.split)
qed

lemma memop_memory_scans_witness:
  "purv_memop init_hooks (mop_demo 0 0x80000000 4) 2 10 11 12 =
      Some (case find (\<lambda>k. gb (mop_demo 0 0x80000000 4) 0 k \<noteq> gb (mop_demo 0 0x80000000 4) 0x80000000 k)
          [0..<unat (4 :: u32)] of
        None \<Rightarrow> (set_reg (mop_demo 0 0x80000000 4) 10 0, ucast (4 :: u32))
      | Some k \<Rightarrow> (set_reg (mop_demo 0 0x80000000 4) 10
          (ucast (gb (mop_demo 0 0x80000000 4) 0 k) - ucast (gb (mop_demo 0 0x80000000 4) 0x80000000 k)),
          of_nat (k + 1))) \<and>
    purv_memop init_hooks (mop_demo 0 0x80000000 4) 3 10 11 12 =
      Some (case find (\<lambda>k. gb (mop_demo 0 0x80000000 4) 0 k = ucast (0x80000000 :: u32))
          [0..<unat (4 :: u32)] of
        None \<Rightarrow> (set_reg (mop_demo 0 0x80000000 4) 10 0, ucast (4 :: u32))
      | Some k \<Rightarrow> (set_reg (mop_demo 0 0x80000000 4) 10 (0 + of_nat k), of_nat (k + 1)))"
  by (rule memop_memory_scans [OF mop_demo_ok])
    (simp_all add: mop_demo_regs avail_of_def mop_demo_eval)



end
