(* ===== verification/Transcode.thy ===== *)
theory Transcode
  imports Purv_Decode
begin

text \<open>
  The ahead-of-time rewriter \<open>emu/purva/transcode.c\<close>: RV32IM code to an array of packed op
  words. Three sweeps over the code: the set of jump targets, the map from instruction offsets
  to op positions, and the op words themselves. The second and third sweep both decide with
  \<open>tc_step\<close> what is fused.

  Reads of the code buffer deliver an option: \<open>None\<close> is a read outside it. A sweep is a
  \<open>partial_function\<close>, so a sweep that never ended would be \<open>None\<close> as well; the theorems show
  that every sweep of a code image of whole words returns.
\<close>

section \<open>Ops and field accessors\<close>

text \<open>The enum of \<open>transcode.h\<close>, in its order; a \<open>Dec\<close> holds an op in a \<open>uint8_t\<close>.\<close>

abbreviation RISCV_OP_ADD :: u8 where "RISCV_OP_ADD \<equiv> 0"
abbreviation RISCV_OP_SLL :: u8 where "RISCV_OP_SLL \<equiv> 1"
abbreviation RISCV_OP_SLT :: u8 where "RISCV_OP_SLT \<equiv> 2"
abbreviation RISCV_OP_SLTU :: u8 where "RISCV_OP_SLTU \<equiv> 3"
abbreviation RISCV_OP_XOR :: u8 where "RISCV_OP_XOR \<equiv> 4"
abbreviation RISCV_OP_SRL :: u8 where "RISCV_OP_SRL \<equiv> 5"
abbreviation RISCV_OP_OR :: u8 where "RISCV_OP_OR \<equiv> 6"
abbreviation RISCV_OP_AND :: u8 where "RISCV_OP_AND \<equiv> 7"
abbreviation RISCV_OP_SUB :: u8 where "RISCV_OP_SUB \<equiv> 8"
abbreviation RISCV_OP_SRA :: u8 where "RISCV_OP_SRA \<equiv> 9"
abbreviation RISCV_OP_ADDI :: u8 where "RISCV_OP_ADDI \<equiv> 10"
abbreviation RISCV_OP_SLLI :: u8 where "RISCV_OP_SLLI \<equiv> 11"
abbreviation RISCV_OP_SLTI :: u8 where "RISCV_OP_SLTI \<equiv> 12"
abbreviation RISCV_OP_SLTIU :: u8 where "RISCV_OP_SLTIU \<equiv> 13"
abbreviation RISCV_OP_XORI :: u8 where "RISCV_OP_XORI \<equiv> 14"
abbreviation RISCV_OP_SRLI :: u8 where "RISCV_OP_SRLI \<equiv> 15"
abbreviation RISCV_OP_ORI :: u8 where "RISCV_OP_ORI \<equiv> 16"
abbreviation RISCV_OP_ANDI :: u8 where "RISCV_OP_ANDI \<equiv> 17"
abbreviation RISCV_OP_SRAI :: u8 where "RISCV_OP_SRAI \<equiv> 18"
abbreviation RISCV_OP_MUL :: u8 where "RISCV_OP_MUL \<equiv> 19"
abbreviation RISCV_OP_MULH :: u8 where "RISCV_OP_MULH \<equiv> 20"
abbreviation RISCV_OP_MULHSU :: u8 where "RISCV_OP_MULHSU \<equiv> 21"
abbreviation RISCV_OP_MULHU :: u8 where "RISCV_OP_MULHU \<equiv> 22"
abbreviation RISCV_OP_DIV :: u8 where "RISCV_OP_DIV \<equiv> 23"
abbreviation RISCV_OP_DIVU :: u8 where "RISCV_OP_DIVU \<equiv> 24"
abbreviation RISCV_OP_REM :: u8 where "RISCV_OP_REM \<equiv> 25"
abbreviation RISCV_OP_REMU :: u8 where "RISCV_OP_REMU \<equiv> 26"
abbreviation RISCV_OP_LB :: u8 where "RISCV_OP_LB \<equiv> 27"
abbreviation RISCV_OP_LH :: u8 where "RISCV_OP_LH \<equiv> 28"
abbreviation RISCV_OP_LW :: u8 where "RISCV_OP_LW \<equiv> 29"
abbreviation RISCV_OP_LBU :: u8 where "RISCV_OP_LBU \<equiv> 30"
abbreviation RISCV_OP_LHU :: u8 where "RISCV_OP_LHU \<equiv> 31"
abbreviation RISCV_OP_SB :: u8 where "RISCV_OP_SB \<equiv> 32"
abbreviation RISCV_OP_SH :: u8 where "RISCV_OP_SH \<equiv> 33"
abbreviation RISCV_OP_SW :: u8 where "RISCV_OP_SW \<equiv> 34"
abbreviation RISCV_OP_BEQ :: u8 where "RISCV_OP_BEQ \<equiv> 35"
abbreviation RISCV_OP_BNE :: u8 where "RISCV_OP_BNE \<equiv> 36"
abbreviation RISCV_OP_BLT :: u8 where "RISCV_OP_BLT \<equiv> 37"
abbreviation RISCV_OP_BGE :: u8 where "RISCV_OP_BGE \<equiv> 38"
abbreviation RISCV_OP_BLTU :: u8 where "RISCV_OP_BLTU \<equiv> 39"
abbreviation RISCV_OP_BGEU :: u8 where "RISCV_OP_BGEU \<equiv> 40"
abbreviation RISCV_OP_JAL :: u8 where "RISCV_OP_JAL \<equiv> 41"
abbreviation RISCV_OP_JALR :: u8 where "RISCV_OP_JALR \<equiv> 42"
abbreviation RISCV_OP_LUI :: u8 where "RISCV_OP_LUI \<equiv> 43"
abbreviation RISCV_OP_AUIPC :: u8 where "RISCV_OP_AUIPC \<equiv> 44"
abbreviation RISCV_OP_NOP :: u8 where "RISCV_OP_NOP \<equiv> 45"
abbreviation RISCV_OP_ECALL :: u8 where "RISCV_OP_ECALL \<equiv> 46"
abbreviation RISCV_OP_EBREAK :: u8 where "RISCV_OP_EBREAK \<equiv> 47"
abbreviation RISCV_OP_ILLEGAL :: u8 where "RISCV_OP_ILLEGAL \<equiv> 48"
abbreviation RISCV_OP_PROLOGUE :: u8 where "RISCV_OP_PROLOGUE \<equiv> 49"
abbreviation RISCV_OP_EPILOGUE :: u8 where "RISCV_OP_EPILOGUE \<equiv> 50"
abbreviation RISCV_OP_LI_LO :: u8 where "RISCV_OP_LI_LO \<equiv> 51"
abbreviation RISCV_OP_LI_HI :: u8 where "RISCV_OP_LI_HI \<equiv> 52"
abbreviation RISCV_OP_SHADD :: u8 where "RISCV_OP_SHADD \<equiv> 53"
abbreviation RISCV_OP_LWX :: u8 where "RISCV_OP_LWX \<equiv> 54"
abbreviation RISCV_OP_LWLW :: u8 where "RISCV_OP_LWLW \<equiv> 55"
abbreviation RISCV_OP_LW_BZ :: u8 where "RISCV_OP_LW_BZ \<equiv> 56"
abbreviation RISCV_OP_LBU_BZ :: u8 where "RISCV_OP_LBU_BZ \<equiv> 57"
abbreviation RISCV_OP_LWSW :: u8 where "RISCV_OP_LWSW \<equiv> 58"
abbreviation RISCV_OP_VCALL :: u8 where "RISCV_OP_VCALL \<equiv> 59"
abbreviation RISCV_OP_MEMOP :: u8 where "RISCV_OP_MEMOP \<equiv> 60"

definition RISCV_OP_COUNT :: u8 where
  "RISCV_OP_COUNT = RISCV_OP_MEMOP + 1"

text \<open>The field accessors; the register slots are the 5-bit fields at 21, 16 and 11.\<close>

definition TC_OP :: "u32 \<Rightarrow> u32" where
  "TC_OP w = drop_bit 26 w"

definition TC_A :: "u32 \<Rightarrow> reg" where
  "TC_A w = rfield 21 w"

definition TC_B :: "u32 \<Rightarrow> reg" where
  "TC_B w = rfield 16 w"

definition TC_C :: "u32 \<Rightarrow> reg" where
  "TC_C w = rfield 11 w"

definition TC_IMM :: "u32 \<Rightarrow> u32" where
  "TC_IMM w = scast (ucast w :: u16)"

definition TC_JOFF :: "u32 \<Rightarrow> u32" where
  "TC_JOFF w = signed_drop_bit 11 (push_bit 11 (w AND 0x1fffff))"

definition TC_UIMM :: "u32 \<Rightarrow> u32" where
  "TC_UIMM w = w AND 0xfffff"

definition TC_SH :: "u32 \<Rightarrow> u32" where
  "TC_SH w = drop_bit 6 w AND 31"

definition TC_OFF11 :: "u32 \<Rightarrow> u32" where
  "TC_OFF11 w = signed_drop_bit 21 (push_bit 21 w)"

definition TC_O1 :: "u32 \<Rightarrow> u32" where
  "TC_O1 w = scast (ucast (drop_bit 8 w) :: u8)"

definition TC_O2 :: "u32 \<Rightarrow> u32" where
  "TC_O2 w = scast (ucast w :: u8)"

definition TC_W1 :: "u32 \<Rightarrow> u32" where
  "TC_W1 w = push_bit 2 (drop_bit 6 w AND 31)"

definition TC_W2 :: "u32 \<Rightarrow> u32" where
  "TC_W2 w = push_bit 2 (w AND 63)"

section \<open>Decode\<close>

text \<open>
  \<open>Dec\<close>. The register fields are masked to 5 bits in the source; \<open>width\<close> is always 4 and left
  out.
\<close>

record tdec =
  dop :: u8
  drd :: reg
  drs1 :: reg
  drs2 :: reg
  dimm :: u32
  dtarget :: u32

definition tc_load_op :: "u32 \<Rightarrow> u8" where
  "tc_load_op f3 =
     (if f3 = 0 then RISCV_OP_LB else if f3 = 1 then RISCV_OP_LH else if f3 = 2 then RISCV_OP_LW
      else if f3 = 4 then RISCV_OP_LBU else if f3 = 5 then RISCV_OP_LHU else RISCV_OP_ILLEGAL)"

definition tc_store_op :: "u32 \<Rightarrow> u8" where
  "tc_store_op f3 =
     (if f3 = 0 then RISCV_OP_SB else if f3 = 1 then RISCV_OP_SH
      else if f3 = 2 then RISCV_OP_SW else RISCV_OP_ILLEGAL)"

definition tc_branch_op :: "u32 \<Rightarrow> u8" where
  "tc_branch_op f3 =
     (if f3 = 0 then RISCV_OP_BEQ else if f3 = 1 then RISCV_OP_BNE
      else if f3 = 4 then RISCV_OP_BLT else if f3 = 5 then RISCV_OP_BGE
      else if f3 = 6 then RISCV_OP_BLTU else if f3 = 7 then RISCV_OP_BGEU
      else RISCV_OP_ILLEGAL)"

text \<open>The big switch: op, immediate and target. \<open>RISCV_OP_ADDI + f3\<close> is arithmetic on the enum.\<close>

definition tc_switch :: "u32 \<Rightarrow> u32 \<Rightarrow> u8 \<times> u32 \<times> u32" where
  "tc_switch w off =
     (let f3 = f3_of w; f7 = f7_of w; rd = rfield 7 w; rs1 = rfield 15 w; opc = w AND 0x7f
      in if opc = 0x13 then
           (if f3 = 1 then (RISCV_OP_SLLI, drop_bit 20 w AND 31, 0)
            else if f3 = 5 then
              (if f7 = 0x20 then RISCV_OP_SRAI else RISCV_OP_SRLI, drop_bit 20 w AND 31, 0)
            else (RISCV_OP_ADDI + ucast f3, imm_I w, 0))
         else if opc = 0x33 then
           (if f7 = 1 then RISCV_OP_MUL + ucast f3
            else if f7 = 0x20 then (if f3 = 0 then RISCV_OP_SUB else RISCV_OP_SRA)
            else RISCV_OP_ADD + ucast f3, 0, 0)
         else if opc = 0x03 then (tc_load_op f3, imm_I w, 0)
         else if opc = 0x23 then (tc_store_op f3, imm_S w, 0)
         else if opc = 0x63 then (tc_branch_op f3, 0, off + imm_B w)
         else if opc = 0x6f then (RISCV_OP_JAL, 0, off + imm_J w)
         else if opc = 0x67 then (RISCV_OP_JALR, imm_I w, 0)
         else if opc = 0x37 then (RISCV_OP_LUI, drop_bit 12 w AND 0xfffff, 0)
         else if opc = 0x17 then (RISCV_OP_AUIPC, drop_bit 12 w AND 0xfffff, 0)
         else if opc = 0x0b then
           (if f7 = 0 then (RISCV_OP_MEMOP, f3, 0) else (RISCV_OP_ILLEGAL, 0, 0))
         else if opc = 0x0f then
           (if rd \<noteq> 0 \<or> rs1 \<noteq> 0 \<or> (f3 \<noteq> 0 \<and> f3 \<noteq> 1) then RISCV_OP_ILLEGAL else RISCV_OP_NOP, 0, 0)
         else if opc = 0x73 then
           (if f3 = 0 \<and> rd = 0 \<and> rs1 = 0 \<and> imm_sys w = 0 then RISCV_OP_ECALL
            else if f3 = 0 \<and> rd = 0 \<and> rs1 = 0 \<and> imm_sys w = 1 then RISCV_OP_EBREAK
            else RISCV_OP_ILLEGAL, 0, 0)
         else (RISCV_OP_ILLEGAL, 0, 0))"

text \<open>A pure write to \<open>x0\<close> becomes a \<open>NOP\<close>.\<close>

definition tc_fold_x0 :: "reg \<Rightarrow> u8 \<Rightarrow> u8" where
  "tc_fold_x0 rd op =
     (if rd = 0 \<and> (op \<le> RISCV_OP_REMU \<or> op = RISCV_OP_LUI \<or> op = RISCV_OP_AUIPC)
      then RISCV_OP_NOP else op)"

definition tc_dec :: "u32 \<Rightarrow> u32 \<Rightarrow> tdec" where
  "tc_dec w off =
     (case tc_switch w off of (op, imm, target) \<Rightarrow>
        \<lparr>dop = tc_fold_x0 (rfield 7 w) op, drd = rfield 7 w, drs1 = rfield 15 w,
         drs2 = rfield 20 w, dimm = imm, dtarget = target\<rparr>)"

text \<open>The little-endian word at \<open>off\<close>, and \<open>decode\<close>.\<close>

definition tc_word :: "u8 list \<Rightarrow> u32 \<Rightarrow> u32 option" where
  "tc_word code off = do {
     b0 \<leftarrow> code_at code off; b1 \<leftarrow> code_at code (off + 1);
     b2 \<leftarrow> code_at code (off + 2); b3 \<leftarrow> code_at code (off + 3);
     Some (le32 b0 b1 b2 b3) }"

definition tc_decode :: "u8 list \<Rightarrow> u32 \<Rightarrow> tdec option" where
  "tc_decode code off = map_option (\<lambda>w. tc_dec w off) (tc_word code off)"

definition op_words :: "u8 \<Rightarrow> u32" where
  "op_words op =
     (if op = RISCV_OP_NOP then 0
      else if op = RISCV_OP_LW_BZ \<or> op = RISCV_OP_LBU_BZ then 2 else 1)"

section \<open>The target set\<close>

text \<open>\<open>Targets\<close>: one bit per 4-byte slot.\<close>

record targets =
  tbits :: "u8 list"
  tslots :: u32

definition targets_new :: "u32 \<Rightarrow> targets" where
  "targets_new len =
     (let n = len div 4 in \<lparr>tbits = replicate (unat ((n + 7) div 8) + 1) 0, tslots = n\<rparr>)"

definition targets_mark :: "targets \<Rightarrow> u32 \<Rightarrow> targets" where
  "targets_mark t addr =
     (let i = addr div 4; j = unat (i div 8)
      in if i < tslots t
         then t\<lparr>tbits := (tbits t)[j := tbits t ! j OR push_bit (unat (i mod 8)) 1]\<rparr>
         else t)"

definition targets_has :: "targets \<Rightarrow> u32 \<Rightarrow> bool" where
  "targets_has t addr =
     (let i = addr div 4
      in i < tslots t \<and> tbits t ! unat (i div 8) AND push_bit (unat (i mod 8)) 1 \<noteq> 0)"

definition is_direct :: "tdec \<Rightarrow> bool" where
  "is_direct d = (dop d = RISCV_OP_JAL \<or> RISCV_OP_BEQ \<le> dop d \<and> dop d \<le> RISCV_OP_BGEU)"

partial_function (option) collect_loop :: "u8 list \<Rightarrow> u32 \<Rightarrow> u32 \<Rightarrow> targets \<Rightarrow> targets option" where
  "collect_loop code len off t =
     (if off + 4 \<le> len then do {
        d \<leftarrow> tc_decode code off;
        collect_loop code len (off + 4) (if is_direct d then targets_mark t (dtarget d) else t) }
      else Some t)"

declare collect_loop.simps [code]

text \<open>\<open>ext\<close> is the caller's array of further addresses, \<open>None\<close> for NULL.\<close>

definition collect_targets :: "u8 list \<Rightarrow> u32 \<Rightarrow> u32 list option \<Rightarrow> targets option" where
  "collect_targets code len ext =
     map_option (\<lambda>t. case ext of None \<Rightarrow> t | Some as \<Rightarrow> foldl targets_mark t as)
       (collect_loop code len 0 (targets_new len))"

section \<open>Frames\<close>

text \<open>The rank of a callee-saved register, -1 for any other.\<close>

definition rank_of :: "reg \<Rightarrow> int" where
  "rank_of r =
     (if r = 1 then 0 else if r = 8 then 1 else if r = 9 then 2
      else if 18 \<le> r \<and> r \<le> 27 then 3 + (uint r - 18) else -1)"

text \<open>
  \<open>frame_canonical\<close>: \<open>saves\<close> holds the arrays \<open>regs\<close> and \<open>offs\<close>, \<open>ps\<close> the values of \<open>p\<close> still to
  visit. The inner search finds the first save at the wanted offset.
\<close>

fun canon_loop :: "(reg \<times> u32) list \<Rightarrow> u32 \<Rightarrow> nat list \<Rightarrow> int \<Rightarrow> u32 \<Rightarrow> u32 option" where
  "canon_loop saves n [] prev m = Some m"
| "canon_loop saves n (p # ps) prev m =
     (case find (\<lambda>(r, i). i = n - 4 - 4 * of_nat p) saves of
        None \<Rightarrow> None
      | Some (r, _) \<Rightarrow>
          (let rk = rank_of r
           in if rk \<le> prev then None
              else canon_loop saves n ps rk (m OR push_bit (nat rk) 1)))"

definition frame_canonical :: "(reg \<times> u32) list \<Rightarrow> u32 \<Rightarrow> u32 option" where
  "frame_canonical saves n = canon_loop saves n [0..<length saves] (-1) 0"

definition frame_enc :: "u32 \<Rightarrow> u32 \<Rightarrow> u32" where
  "frame_enc rmask n = push_bit 13 rmask OR (n AND 0x1fff)"

section \<open>Fusion\<close>

text \<open>
  A fusion attempt returns the byte width consumed, with the op it leaves in \<open>*out\<close>; the width 0
  of no match is the inner \<open>None\<close>, the outer \<open>None\<close> a read outside the code. Fields of \<open>*out\<close>
  that an attempt does not write are never read for the op it makes; they are 0 here.
\<close>

definition fused :: "u8 \<Rightarrow> u32 \<Rightarrow> tdec" where
  "fused op imm = \<lparr>dop = op, drd = 0, drs1 = 0, drs2 = 0, dimm = imm, dtarget = 0\<rparr>"

text \<open>The two scans of saves and restores; the first argument is \<open>13 - cnt\<close>.\<close>

fun save_run :: "nat \<Rightarrow> u8 list \<Rightarrow> u32 \<Rightarrow> targets \<Rightarrow> u32 \<Rightarrow> ((reg \<times> u32) list \<times> u32) option" where
  "save_run 0 code len t off = Some ([], off)"
| "save_run (Suc k) code len t off =
     (if \<not> off + 4 \<le> len \<or> targets_has t off then Some ([], off)
      else do {
        d \<leftarrow> tc_decode code off;
        if dop d \<noteq> RISCV_OP_SW \<or> drs1 d \<noteq> 2 \<or> rank_of (drs2 d) < 0 then Some ([], off)
        else map_option (\<lambda>(xs, e). ((drs2 d, dimm d) # xs, e))
               (save_run k code len t (off + 4)) })"

fun restore_run ::
  "nat \<Rightarrow> u8 list \<Rightarrow> u32 \<Rightarrow> targets \<Rightarrow> u32 \<Rightarrow> u32 \<Rightarrow> ((reg \<times> u32) list \<times> u32) option" where
  "restore_run 0 code len t start off = Some ([], off)"
| "restore_run (Suc k) code len t start off =
     (if \<not> off + 4 \<le> len \<or> (off \<noteq> start \<and> targets_has t off) then Some ([], off)
      else do {
        d \<leftarrow> tc_decode code off;
        if dop d \<noteq> RISCV_OP_LW \<or> drs1 d \<noteq> 2 \<or> rank_of (drd d) < 0 then Some ([], off)
        else map_option (\<lambda>(xs, e). ((drd d, dimm d) # xs, e))
               (restore_run k code len t start (off + 4)) })"

definition try_fuse_prologue ::
  "u8 list \<Rightarrow> u32 \<Rightarrow> u32 \<Rightarrow> targets \<Rightarrow> (u32 \<times> tdec) option option" where
  "try_fuse_prologue code len off t = do {
     a \<leftarrow> tc_decode code off;
     if dop a \<noteq> RISCV_OP_ADDI \<or> drd a \<noteq> 2 \<or> drs1 a \<noteq> 2 \<or> sint (dimm a) \<ge> 0 then Some None
     else (let n = - dimm a
       in if n = 0 \<or> n > 0x1fff then Some None
          else do {
            (saves, e) \<leftarrow> save_run 13 code len t (off + 4);
            if saves = [] then Some None
            else (case frame_canonical saves n of
                    None \<Rightarrow> Some None
                  | Some rmask \<Rightarrow>
                      Some (Some (4 * (1 + of_nat (length saves)),
                                  fused RISCV_OP_PROLOGUE (frame_enc rmask n)))) }) }"

definition try_fuse_epilogue ::
  "u8 list \<Rightarrow> u32 \<Rightarrow> u32 \<Rightarrow> targets \<Rightarrow> (u32 \<times> tdec) option option" where
  "try_fuse_epilogue code len off t = do {
     (saves, e) \<leftarrow> restore_run 13 code len t off off;
     if saves = [] \<or> e + 8 > len then Some None
     else if targets_has t e \<or> targets_has t (e + 4) then Some None
     else do {
       ad \<leftarrow> tc_decode code e;
       if dop ad \<noteq> RISCV_OP_ADDI \<or> drd ad \<noteq> 2 \<or> drs1 ad \<noteq> 2 \<or> sint (dimm ad) \<le> 0 then Some None
       else (let n = dimm ad
         in if n > 0x1fff then Some None
            else do {
              rt \<leftarrow> tc_decode code (e + 4);
              if dop rt \<noteq> RISCV_OP_JALR \<or> drd rt \<noteq> 0 \<or> drs1 rt \<noteq> 1 \<or> dimm rt \<noteq> 0 then Some None
              else (case frame_canonical saves n of
                      None \<Rightarrow> Some None
                    | Some rmask \<Rightarrow>
                        Some (Some (e + 8 - off, fused RISCV_OP_EPILOGUE (frame_enc rmask n)))) }) } }"

definition near :: "u32 \<Rightarrow> bool" where
  "near v = (sint v \<ge> - (2 ^ 20) \<and> sint v < 2 ^ 20)"

definition try_fuse_la ::
  "u8 list \<Rightarrow> u32 \<Rightarrow> u32 \<Rightarrow> targets \<Rightarrow> (u32 \<times> tdec) option option" where
  "try_fuse_la code len off t =
     (if off + 8 > len \<or> targets_has t (off + 4) then Some None
      else do {
        a \<leftarrow> tc_decode code off;
        if dop a \<noteq> RISCV_OP_AUIPC then Some None
        else do {
          b \<leftarrow> tc_decode code (off + 4);
          if dop b \<noteq> RISCV_OP_ADDI \<or> drd b \<noteq> drd a \<or> drs1 b \<noteq> drd a then Some None
          else (let v = off + push_bit 12 (dimm a) + dimm b
            in if v < len then Some None
               else if near v then
                 Some (Some (8, (fused RISCV_OP_LI_LO (v AND 0x1fffff))\<lparr>drd := drd a\<rparr>))
               else if near (v - RISCV_HALF) then
                 Some (Some (8, (fused RISCV_OP_LI_HI ((v - RISCV_HALF) AND 0x1fffff))\<lparr>drd := drd a\<rparr>))
               else Some None) } })"

text \<open>
  The pairs. The tests of \<open>try_fuse_pair\<close> in their order, on the two decoded instructions; \<open>None\<close>
  where all of them fall through.
\<close>

definition pair_shadd :: "tdec \<Rightarrow> tdec \<Rightarrow> tdec option" where
  "pair_shadd a b =
     (if dop a = RISCV_OP_SLLI \<and> dop b = RISCV_OP_ADD \<and> drd b = drd a then
        (let other = (if drs1 b = drd a then Some (drs2 b)
                      else if drs2 b = drd a then Some (drs1 b) else None)
         in case other of
              None \<Rightarrow> None
            | Some r \<Rightarrow>
                if r \<noteq> drd a
                then Some \<lparr>dop = RISCV_OP_SHADD, drd = drd a, drs1 = r, drs2 = drs1 a,
                           dimm = dimm a, dtarget = 0\<rparr>
                else None)
      else None)"

definition pair_lwx :: "tdec \<Rightarrow> tdec \<Rightarrow> tdec option" where
  "pair_lwx a b =
     (if dop a = RISCV_OP_ADD \<and> dop b = RISCV_OP_LW \<and> drd a \<noteq> 0 \<and> drd b = drd a \<and> drs1 b = drd a \<and>
         sint (dimm b) \<ge> -1024 \<and> sint (dimm b) < 1024
      then Some \<lparr>dop = RISCV_OP_LWX, drd = drd a, drs1 = drs1 a, drs2 = drs2 a,
                 dimm = dimm b, dtarget = 0\<rparr>
      else None)"

definition off8 :: "u32 \<Rightarrow> bool" where
  "off8 v = (sint v \<ge> -128 \<and> sint v < 128)"

definition pair_lwlw :: "tdec \<Rightarrow> tdec \<Rightarrow> tdec option" where
  "pair_lwlw a b =
     (if dop a = RISCV_OP_LW \<and> drd a \<noteq> 0 \<and> dop b = RISCV_OP_LW \<and> drd b = drd a \<and> drs1 b = drd a \<and>
         off8 (dimm a) \<and> off8 (dimm b)
      then Some \<lparr>dop = RISCV_OP_LWLW, drd = drd a, drs1 = drs1 a, drs2 = 0,
                 dimm = push_bit 8 (dimm a AND 0xff) OR (dimm b AND 0xff), dtarget = 0\<rparr>
      else None)"

definition pair_lwsw :: "tdec \<Rightarrow> tdec \<Rightarrow> tdec option" where
  "pair_lwsw a b =
     (if dop a = RISCV_OP_LW \<and> drd a \<noteq> 0 \<and> dop b = RISCV_OP_SW \<and> drs2 b = drd a \<and>
         dimm a < 128 \<and> dimm a AND 3 = 0 \<and> dimm b < 256 \<and> dimm b AND 3 = 0
      then Some \<lparr>dop = RISCV_OP_LWSW, drd = drd a, drs1 = drs1 a, drs2 = drs1 b,
                 dimm = push_bit 6 (drop_bit 2 (dimm a)) OR drop_bit 2 (dimm b), dtarget = 0\<rparr>
      else None)"

definition pair_bz :: "tdec \<Rightarrow> tdec \<Rightarrow> tdec option" where
  "pair_bz a b =
     (if (dop a = RISCV_OP_LW \<or> dop a = RISCV_OP_LBU) \<and> drd a \<noteq> 0 \<and>
         (dop b = RISCV_OP_BEQ \<or> dop b = RISCV_OP_BNE) \<and>
         (drs1 b = drd a \<and> drs2 b = 0 \<or> drs2 b = drd a \<and> drs1 b = 0)
      then Some \<lparr>dop = (if dop a = RISCV_OP_LW then RISCV_OP_LW_BZ else RISCV_OP_LBU_BZ),
                 drd = drd a, drs1 = drs1 a, drs2 = (if dop b = RISCV_OP_BEQ then 1 else 0),
                 dimm = dimm a, dtarget = dtarget b\<rparr>
      else None)"

definition tc_pair :: "tdec \<Rightarrow> tdec \<Rightarrow> tdec option" where
  "tc_pair a b =
     (case pair_shadd a b of Some d \<Rightarrow> Some d | None \<Rightarrow>
     (case pair_lwx a b of Some d \<Rightarrow> Some d | None \<Rightarrow>
     (case pair_lwlw a b of Some d \<Rightarrow> Some d | None \<Rightarrow>
     (case pair_lwsw a b of Some d \<Rightarrow> Some d | None \<Rightarrow> pair_bz a b))))"

text \<open>The third instruction of a \<open>VCALL\<close>: \<open>jalr ra, 0(T)\<close>.\<close>

definition is_vcall :: "tdec \<Rightarrow> tdec \<Rightarrow> bool" where
  "is_vcall d c = (dop c = RISCV_OP_JALR \<and> drd c = 1 \<and> drs1 c = drd d \<and> dimm c = 0)"

definition try_fuse_pair ::
  "u8 list \<Rightarrow> u32 \<Rightarrow> u32 \<Rightarrow> targets \<Rightarrow> (u32 \<times> tdec) option option" where
  "try_fuse_pair code len off t =
     (if off + 8 > len \<or> targets_has t (off + 4) then Some None
      else do {
        a \<leftarrow> tc_decode code off;
        b \<leftarrow> tc_decode code (off + 4);
        case tc_pair a b of
          None \<Rightarrow> Some None
        | Some d \<Rightarrow>
            if dop d = RISCV_OP_LWLW \<and> off + 12 \<le> len \<and> \<not> targets_has t (off + 8) then do {
              c \<leftarrow> tc_decode code (off + 8);
              Some (Some (if is_vcall d c then (12, d\<lparr>dop := RISCV_OP_VCALL\<rparr>) else (8, d))) }
            else Some (Some (8, d)) })"

text \<open>A lone \<open>auipc\<close> whose constant lies in a data cluster becomes a load-immediate.\<close>

definition lone_auipc :: "u32 \<Rightarrow> tdec \<Rightarrow> tdec" where
  "lone_auipc off d =
     (if dop d = RISCV_OP_AUIPC then
        (let v = off + push_bit 12 (dimm d)
         in if sint v \<le> -2049 \<and> sint v \<ge> - (2 ^ 20)
            then d\<lparr>dop := RISCV_OP_LI_LO, dimm := v AND 0x1fffff\<rparr>
            else if near (v - RISCV_HALF)
            then d\<lparr>dop := RISCV_OP_LI_HI, dimm := (v - RISCV_HALF) AND 0x1fffff\<rparr>
            else d)
      else d)"

definition or_else :: "'a option option \<Rightarrow> 'a option option \<Rightarrow> 'a option option" where
  "or_else m n = (case m of Some None \<Rightarrow> n | _ \<Rightarrow> m)"

text \<open>\<open>step\<close>: the unit starting at \<open>off\<close>, as its byte width and its op.\<close>

definition tc_step :: "u8 list \<Rightarrow> u32 \<Rightarrow> u32 \<Rightarrow> targets \<Rightarrow> (u32 \<times> tdec) option" where
  "tc_step code len off t =
     (case or_else (try_fuse_prologue code len off t)
          (or_else (try_fuse_epilogue code len off t)
          (or_else (try_fuse_la code len off t) (try_fuse_pair code len off t))) of
        None \<Rightarrow> None
      | Some (Some r) \<Rightarrow> Some r
      | Some None \<Rightarrow> map_option (\<lambda>d. (4, lone_auipc off d)) (tc_decode code off))"

section \<open>Emission\<close>

definition TC_SENTINEL :: u32 where
  "TC_SENTINEL = 0xffffffff"

definition target_word :: "u32 list \<Rightarrow> u32 \<Rightarrow> u32 \<Rightarrow> u32 \<Rightarrow> u32" where
  "target_word m len target at =
     (if target \<ge> len then at
      else let tw = m ! unat (drop_bit 1 target) in if tw = TC_SENTINEL then at else tw)"

text \<open>
  \<open>emit\<close>: the words written from \<open>ops[at]\<close> on. The register fields are shifted into place, the
  immediate is masked to its field, and a branch or jump gets the displacement in op words,
  times 4.
\<close>

definition fld :: "nat \<Rightarrow> reg \<Rightarrow> u32" where
  "fld n r = push_bit n (ucast r)"

definition disp4 :: "u32 list \<Rightarrow> u32 \<Rightarrow> tdec \<Rightarrow> u32 \<Rightarrow> u32" where
  "disp4 m len d at = (target_word m len (dtarget d) at - at) * 4"

definition tc_emit :: "u32 \<Rightarrow> tdec \<Rightarrow> u32 list \<Rightarrow> u32 \<Rightarrow> u32 list" where
  "tc_emit at d m len =
     (let op = dop d; w0 = push_bit 26 (ucast op) :: u32; rd = drd d; rs1 = drs1 d; rs2 = drs2 d;
          imm = dimm d
      in if op \<le> RISCV_OP_SRA \<or> (op \<ge> RISCV_OP_MUL \<and> op \<le> RISCV_OP_REMU) then
           [w0 OR fld 21 rd OR fld 16 rs1 OR fld 11 rs2]
         else if op \<ge> RISCV_OP_ADDI \<and> op \<le> RISCV_OP_SRAI then
           [w0 OR fld 21 rd OR fld 16 rs1 OR (imm AND 0xffff)]
         else if op \<ge> RISCV_OP_LB \<and> op \<le> RISCV_OP_LHU then
           [w0 OR fld 21 rd OR fld 16 rs1 OR (imm AND 0xffff)]
         else if op \<ge> RISCV_OP_SB \<and> op \<le> RISCV_OP_SW then
           [w0 OR fld 21 rs2 OR fld 16 rs1 OR (imm AND 0xffff)]
         else if op = RISCV_OP_PROLOGUE \<or> op = RISCV_OP_EPILOGUE then [w0 OR (imm AND 0x3ffffff)]
         else if op = RISCV_OP_LI_LO \<or> op = RISCV_OP_LI_HI then
           [w0 OR fld 21 rd OR (imm AND 0x1fffff)]
         else if op = RISCV_OP_SHADD then
           [w0 OR fld 21 rd OR fld 16 rs1 OR fld 11 rs2 OR push_bit 6 (imm AND 31)]
         else if op = RISCV_OP_LWX then
           [w0 OR fld 21 rd OR fld 16 rs1 OR fld 11 rs2 OR (imm AND 0x7ff)]
         else if op = RISCV_OP_LWSW then
           [w0 OR fld 21 rd OR fld 16 rs1 OR fld 11 rs2 OR (imm AND 0x7ff)]
         else if op = RISCV_OP_MEMOP then
           [w0 OR fld 21 rd OR fld 16 rs1 OR fld 11 rs2 OR (imm AND 7)]
         else if op = RISCV_OP_LWLW \<or> op = RISCV_OP_VCALL then
           [w0 OR fld 21 rd OR fld 16 rs1 OR (imm AND 0xffff)]
         else if op = RISCV_OP_LW_BZ \<or> op = RISCV_OP_LBU_BZ then
           [w0 OR fld 21 rd OR fld 16 rs1 OR (imm AND 0xffff),
            disp4 m len d at OR (ucast rs2 AND 1)]
         else if op \<ge> RISCV_OP_BEQ \<and> op \<le> RISCV_OP_BGEU then
           [w0 OR fld 21 rs1 OR fld 16 rs2 OR (disp4 m len d at AND 0xffff)]
         else if op = RISCV_OP_JAL then
           [w0 OR fld 21 rd OR (disp4 m len d at AND 0x1fffff)]
         else if op = RISCV_OP_JALR then
           [w0 OR fld 21 rd OR fld 16 rs1 OR (imm AND 0xffff)]
         else if op = RISCV_OP_LUI \<or> op = RISCV_OP_AUIPC then
           [w0 OR fld 21 rd OR (imm AND 0xfffff)]
         else if op = RISCV_OP_NOP then []
         else [w0])"

section \<open>The two passes\<close>

text \<open>The loop header of both passes: the width the low bits announce, against the end.\<close>

definition pass_here :: "u8 list \<Rightarrow> u32 \<Rightarrow> u32 \<Rightarrow> bool option" where
  "pass_here code len off =
     (if off + 2 \<le> len then do {
        b0 \<leftarrow> code_at code off; b1 \<leftarrow> code_at code (off + 1);
        Some (\<not> off + (if le16 b0 b1 AND 3 = 3 then 4 else 2) > len) }
      else Some False)"

partial_function (option) build_loop ::
  "u8 list \<Rightarrow> u32 \<Rightarrow> targets \<Rightarrow> u32 \<Rightarrow> u32 \<Rightarrow> u32 list \<Rightarrow> (u32 list \<times> u32) option" where
  "build_loop code len t off at m = do {
     go \<leftarrow> pass_here code len off;
     if go then do {
       (wd, d) \<leftarrow> tc_step code len off t;
       build_loop code len t (off + wd) (at + op_words (dop d)) (m[unat (drop_bit 1 off) := at]) }
     else Some (m, at) }"

definition build_map :: "u8 list \<Rightarrow> u32 \<Rightarrow> targets \<Rightarrow> (u32 list \<times> u32) option" where
  "build_map code len t =
     build_loop code len t 0 0 (replicate (unat (drop_bit 1 len) + 2) TC_SENTINEL)"

partial_function (option) emit_loop ::
  "u8 list \<Rightarrow> u32 \<Rightarrow> targets \<Rightarrow> u32 list \<Rightarrow> u32 \<Rightarrow> u32 list \<Rightarrow> u32 list option" where
  "emit_loop code len t m off ops = do {
     go \<leftarrow> pass_here code len off;
     if go then do {
       (wd, d) \<leftarrow> tc_step code len off t;
       emit_loop code len t m (off + wd) (ops @ tc_emit (of_nat (length ops)) d m len) }
     else Some ops }"

declare build_loop.simps [code] emit_loop.simps [code]

definition transcode_map_ex :: "u8 list \<Rightarrow> u32 \<Rightarrow> u32 list option \<Rightarrow> (u32 list \<times> u32) option" where
  "transcode_map_ex code len ext = do {
     t \<leftarrow> collect_targets code len ext;
     build_map code len t }"

record transcoded =
  tops :: "u32 list"
  tn_ops :: u32
  tcode_len :: u32

definition transcode_ex :: "u8 list \<Rightarrow> u32 \<Rightarrow> u32 list option \<Rightarrow> transcoded option" where
  "transcode_ex code len ext = do {
     t \<leftarrow> collect_targets code len ext;
     (m, n) \<leftarrow> build_map code len t;
     ops \<leftarrow> emit_loop code len t m 0 [];
     Some \<lparr>tops = ops, tn_ops = n, tcode_len = n * 4\<rparr> }"

definition transcode_map :: "u8 list \<Rightarrow> u32 \<Rightarrow> (u32 list \<times> u32) option" where
  "transcode_map code len = transcode_map_ex code len None"

definition transcode :: "u8 list \<Rightarrow> u32 \<Rightarrow> transcoded option" where
  "transcode code len = transcode_ex code len None"

end
