(* ===== verification/Tc_Fields.thy ===== *)
theory Tc_Fields
  imports Transcode
begin

text \<open>
  The packed op word as a code: what the accessors of \<open>transcode.h\<close> read from a word
  \<open>emit\<close> packed, for every layout of the header's table.
\<close>

section \<open>Layouts\<close>

lemma mask_fields:
  "(x :: u32) AND 7 = take_bit 3 x" "x AND 31 = take_bit 5 x" "x AND 63 = take_bit 6 x"
  "x AND 0x7ff = take_bit 11 x" "x AND 0x1fff = take_bit 13 x" "x AND 0xffff = take_bit 16 x"
  "x AND 0xfffff = take_bit 20 x" "x AND 0x1fffff = take_bit 21 x" "x AND 0x3ffffff = take_bit 26 x"
  "x AND 0xff = take_bit 8 x"
  by (simp_all add: take_bit_eq_mask mask_eq_exp_minus_1)

lemma bit_fld: "bit (fld n r) i \<longleftrightarrow> i < 32 \<and> n \<le> i \<and> i - n < 5 \<and> bit r (i - n)"
  by (auto simp: fld_def bit_simps dest: bit_imp_le_length)

lemma bit_small_op:
  assumes "op < 64" "bit (op :: u8) n"
  shows "n < 6"
proof -
  have "unat op < 2 ^ 6" using assms(1) by (simp add: word_less_nat_alt)
  then have "take_bit 6 op = op"
    by (simp add: word_unat_eq_iff unsigned_take_bit_eq take_bit_nat_eq_self)
  with assms(2) show "n < 6" by (metis bit_take_bit_iff)
qed

text \<open>An op number, then three, two, one or no register field, then the low bits of \<open>x\<close>.\<close>

definition pack3 :: "u8 \<Rightarrow> reg \<Rightarrow> reg \<Rightarrow> reg \<Rightarrow> u32 \<Rightarrow> u32" where
  "pack3 op a b c x =
     push_bit 26 (ucast op) OR fld 21 a OR fld 16 b OR fld 11 c OR take_bit 11 x"

definition pack2 :: "u8 \<Rightarrow> reg \<Rightarrow> reg \<Rightarrow> u32 \<Rightarrow> u32" where
  "pack2 op a b x = push_bit 26 (ucast op) OR fld 21 a OR fld 16 b OR take_bit 16 x"

definition pack1 :: "u8 \<Rightarrow> reg \<Rightarrow> u32 \<Rightarrow> u32" where
  "pack1 op a x = push_bit 26 (ucast op) OR fld 21 a OR take_bit 21 x"

definition pack0 :: "u8 \<Rightarrow> u32 \<Rightarrow> u32" where
  "pack0 op x = push_bit 26 (ucast op) OR take_bit 26 x"

lemmas pack_defs = pack3_def pack2_def pack1_def pack0_def

lemma TC_OP_pack:
  assumes "op < 64"
  shows "TC_OP (pack3 op a b c x) = ucast op" "TC_OP (pack2 op a b x) = ucast op"
    "TC_OP (pack1 op a x) = ucast op" "TC_OP (pack0 op x) = ucast op"
  using bit_small_op [OF assms]
  by (intro bit_word_eqI, fastforce simp: TC_OP_def pack_defs bit_simps bit_fld)+

lemma TC_A_pack:
  "TC_A (pack3 op a b c x) = a" "TC_A (pack2 op a b x) = a" "TC_A (pack1 op a x) = a"
  by (rule bit_word_eqI, auto simp: TC_A_def rfield_def pack_defs bit_simps bit_fld)+

lemma TC_B_pack: "TC_B (pack3 op a b c x) = b" "TC_B (pack2 op a b x) = b"
  by (rule bit_word_eqI, auto simp: TC_B_def rfield_def pack_defs bit_simps bit_fld)+

lemma TC_C_pack: "TC_C (pack3 op a b c x) = c"
  by (rule bit_word_eqI) (auto simp: TC_C_def rfield_def pack_defs bit_simps bit_fld)

lemma low_pack:
  "take_bit 11 (pack3 op a b c x) = take_bit 11 x" "take_bit 16 (pack2 op a b x) = take_bit 16 x"
  "take_bit 21 (pack1 op a x) = take_bit 21 x" "take_bit 26 (pack0 op x) = take_bit 26 x"
  by (rule bit_word_eqI, auto simp: pack_defs bit_simps bit_fld)+

text \<open>The immediate accessors read the low bits.\<close>

lemma TC_IMM_sext: "TC_IMM w = sext w 16"
  by (rule bit_word_eqI) (auto simp: TC_IMM_def bit_sext bit_simps min_def)

lemma TC_JOFF_sext: "TC_JOFF w = sext w 21"
  by (rule bit_word_eqI) (auto simp: TC_JOFF_def mask_fields bit_sext bit_simps min_def)

lemma TC_OFF11_sext: "TC_OFF11 w = sext w 11"
  by (rule bit_word_eqI) (auto simp: TC_OFF11_def bit_sext bit_simps min_def)

lemma TC_O_sext: "TC_O1 w = sext (drop_bit 8 w) 8" "TC_O2 w = sext w 8"
  by (rule bit_word_eqI, auto simp: TC_O1_def TC_O2_def bit_sext bit_simps min_def)+

lemma sext_low: "0 < n \<Longrightarrow> n \<le> 32 \<Longrightarrow> n \<le> m \<Longrightarrow> sext (take_bit m v) n = sext v n"
  by (intro bit_word_eqI) (auto simp: bit_sext bit_simps min_def)

lemma sext_cong: "take_bit n v = take_bit n w \<Longrightarrow> 0 < n \<Longrightarrow> n \<le> 32 \<Longrightarrow> sext v n = sext w n"
  by (metis sext_low order_refl)

lemma TC_IMM_pack: "TC_IMM (pack2 op a b x) = sext x 16"
  unfolding TC_IMM_sext by (rule sext_cong) (simp_all add: low_pack)

lemma TC_JOFF_pack: "TC_JOFF (pack1 op a x) = sext x 21"
  unfolding TC_JOFF_sext by (rule sext_cong) (simp_all add: low_pack)

lemma TC_OFF11_pack: "TC_OFF11 (pack3 op a b c x) = sext x 11"
  unfolding TC_OFF11_sext by (rule sext_cong) (simp_all add: low_pack)

lemma TC_UIMM_pack: "TC_UIMM (pack1 op a (take_bit 20 x)) = take_bit 20 x"
  by (rule bit_word_eqI) (auto simp: TC_UIMM_def mask_fields pack_defs bit_simps bit_fld)

lemma TC_SH_pack: "TC_SH (pack3 op a b c (push_bit 6 (take_bit 5 x))) = take_bit 5 x"
  by (rule bit_word_eqI) (auto simp: TC_SH_def mask_fields pack_defs bit_simps bit_fld)

lemma TC_W_pack:
  "TC_W1 (pack3 op a b c (push_bit 6 (take_bit 5 x) OR take_bit 6 y)) = push_bit 2 (take_bit 5 x)"
  "TC_W2 (pack3 op a b c (push_bit 6 (take_bit 5 x) OR take_bit 6 y)) = push_bit 2 (take_bit 6 y)"
  by (rule bit_word_eqI, auto simp: TC_W1_def TC_W2_def mask_fields pack_defs bit_simps bit_fld)+

text \<open>Word-scaled offsets lose nothing.\<close>

lemma word_scaled:
  assumes "unat (x :: u32) < 2 ^ n" "x AND 3 = 0" "2 \<le> n"
  shows "take_bit (n - 2) (drop_bit 2 x) = drop_bit 2 x" "push_bit 2 (drop_bit 2 x) = x"
proof -
  have "take_bit n x = x"
    using assms(1) by (simp add: word_unat_eq_iff unsigned_take_bit_eq take_bit_nat_eq_self)
  then have hi: "bit x i \<Longrightarrow> i < n" for i by (metis bit_take_bit_iff)
  have "take_bit 2 x = 0" using assms(2) by (simp add: take_bit_eq_mask mask_eq_exp_minus_1)
  then have "\<not> bit (take_bit 2 x) i" for i by simp
  then have lo: "bit x i \<Longrightarrow> 2 \<le> i" for i by (metis bit_take_bit_iff not_le)
  show "take_bit (n - 2) (drop_bit 2 x) = drop_bit 2 x"
    by (rule bit_word_eqI) (use hi assms(3) in \<open>fastforce simp: bit_simps\<close>)
  show "push_bit 2 (drop_bit 2 x) = x"
  proof (rule bit_word_eqI)
    fix i assume "i < LENGTH(32)"
    then show "bit (push_bit 2 (drop_bit 2 x)) i = bit x i"
    proof (cases "2 \<le> i")
      case True
      then obtain j where "i = j + 2" by (metis add.commute le_Suc_ex)
      with \<open>i < LENGTH(32)\<close> show ?thesis by (simp add: bit_simps)
    next
      case False
      with lo [of i] show ?thesis by (auto simp: bit_simps)
    qed
  qed
qed

lemma TC_O_pack:
  assumes "i = push_bit 8 (x AND 0xff) OR (y AND 0xff)"
  shows "TC_O1 (pack2 op a b i) = sext x 8" "TC_O2 (pack2 op a b i) = sext y 8"
  unfolding TC_O_sext
  by (rule sext_cong; (intro bit_word_eqI)?,
      auto simp: assms mask_fields pack_defs bit_simps bit_fld)+

section \<open>The words emit writes\<close>

lemmas op_nat = word_le_nat_alt [where 'a = 8] word_unat_eq_iff [where 'a = 8]

text \<open>\<open>emit\<close> uses one of the four layouts for every op but the two-word ones.\<close>

lemma emit_rr:
  "dop d \<le> RISCV_OP_SRA \<or> dop d \<ge> RISCV_OP_MUL \<and> dop d \<le> RISCV_OP_REMU \<Longrightarrow>
     tc_emit at d m len = [pack3 (dop d) (drd d) (drs1 d) (drs2 d) 0]"
  by (simp add: tc_emit_def pack3_def Let_def)

lemma emit_ri:
  "dop d \<ge> RISCV_OP_ADDI \<and> dop d \<le> RISCV_OP_SRAI \<Longrightarrow>
     tc_emit at d m len = [pack2 (dop d) (drd d) (drs1 d) (dimm d)]"
  "dop d \<ge> RISCV_OP_LB \<and> dop d \<le> RISCV_OP_LHU \<Longrightarrow>
     tc_emit at d m len = [pack2 (dop d) (drd d) (drs1 d) (dimm d)]"
  "dop d = RISCV_OP_JALR \<or> dop d = RISCV_OP_LWLW \<or> dop d = RISCV_OP_VCALL \<Longrightarrow>
     tc_emit at d m len = [pack2 (dop d) (drd d) (drs1 d) (dimm d)]"
  by (auto simp: tc_emit_def pack2_def Let_def mask_fields op_nat)

lemma emit_store:
  "dop d \<ge> RISCV_OP_SB \<and> dop d \<le> RISCV_OP_SW \<Longrightarrow>
     tc_emit at d m len = [pack2 (dop d) (drs2 d) (drs1 d) (dimm d)]"
  by (auto simp: tc_emit_def pack2_def Let_def mask_fields op_nat)

lemma emit_branch:
  "dop d \<ge> RISCV_OP_BEQ \<and> dop d \<le> RISCV_OP_BGEU \<Longrightarrow>
     tc_emit at d m len = [pack2 (dop d) (drs1 d) (drs2 d) (disp4 m len d at)]"
  by (auto simp: tc_emit_def pack2_def Let_def mask_fields op_nat)

lemma emit_bz:
  "dop d = RISCV_OP_LW_BZ \<or> dop d = RISCV_OP_LBU_BZ \<Longrightarrow>
     tc_emit at d m len =
       [pack2 (dop d) (drd d) (drs1 d) (dimm d), disp4 m len d at OR (ucast (drs2 d) AND 1)]"
  by (elim disjE) (simp_all add: tc_emit_def pack2_def Let_def mask_fields)

lemma emit_jal:
  "dop d = RISCV_OP_JAL \<Longrightarrow> tc_emit at d m len = [pack1 (dop d) (drd d) (disp4 m len d at)]"
  by (simp add: tc_emit_def pack1_def Let_def mask_fields)

lemma emit_li:
  "dop d = RISCV_OP_LI_LO \<or> dop d = RISCV_OP_LI_HI \<Longrightarrow>
     tc_emit at d m len = [pack1 (dop d) (drd d) (dimm d)]"
  by (elim disjE) (simp_all add: tc_emit_def pack1_def Let_def mask_fields)

lemma emit_upper:
  "dop d = RISCV_OP_LUI \<or> dop d = RISCV_OP_AUIPC \<Longrightarrow>
     tc_emit at d m len = [pack1 (dop d) (drd d) (take_bit 20 (dimm d))]"
  by (elim disjE) (simp_all add: tc_emit_def pack1_def Let_def mask_fields)

lemma emit_fused3:
  "dop d = RISCV_OP_SHADD \<Longrightarrow> tc_emit at d m len =
     [pack3 (dop d) (drd d) (drs1 d) (drs2 d) (push_bit 6 (take_bit 5 (dimm d)))]"
  "dop d = RISCV_OP_LWX \<or> dop d = RISCV_OP_LWSW \<Longrightarrow> tc_emit at d m len =
     [pack3 (dop d) (drd d) (drs1 d) (drs2 d) (dimm d)]"
  "dop d = RISCV_OP_MEMOP \<Longrightarrow> tc_emit at d m len =
     [pack3 (dop d) (drd d) (drs1 d) (drs2 d) (take_bit 3 (dimm d))]"
proof -
  have "push_bit 6 (take_bit 5 x) = take_bit 11 (push_bit 6 (take_bit 5 (x :: u32)))" for x
    by (rule bit_word_eqI) (auto simp: bit_simps)
  then show "dop d = RISCV_OP_SHADD \<Longrightarrow> tc_emit at d m len =
     [pack3 (dop d) (drd d) (drs1 d) (drs2 d) (push_bit 6 (take_bit 5 (dimm d)))]"
    unfolding pack3_def by (simp add: tc_emit_def Let_def mask_fields)
qed ((elim disjE)?, simp_all add: tc_emit_def pack3_def Let_def mask_fields)

lemma emit_frame:
  "dop d = RISCV_OP_PROLOGUE \<or> dop d = RISCV_OP_EPILOGUE \<Longrightarrow>
     tc_emit at d m len = [pack0 (dop d) (dimm d)]"
  by (elim disjE) (simp_all add: tc_emit_def pack0_def Let_def mask_fields)

lemma emit_trap:
  "dop d = RISCV_OP_ECALL \<or> dop d = RISCV_OP_EBREAK \<or> dop d = RISCV_OP_ILLEGAL \<Longrightarrow>
     tc_emit at d m len = [pack0 (dop d) 0]"
  by (elim disjE) (simp_all add: tc_emit_def pack0_def Let_def)

lemmas emit_pack = emit_rr emit_ri emit_store emit_branch emit_bz emit_jal emit_li emit_upper
  emit_fused3 emit_frame emit_trap

end
