(* ===== verification/Purva.thy ===== *)
theory Purva
  imports Memop Tc_Fields
begin

text \<open>
  The evaluator of transcoded programs, \<open>emu/purva/purva.c\<close>: the packed op words are executed by
  threaded handlers, the cursor into the op array being the pc. The state is the one of purv.h.

  A handler that stays inside the host buffers delivers the new state, the instructions it
  counted and where the cursor goes; \<open>None\<close> is an access outside a host buffer or a call of a NULL
  callback. The run loop tells such a fault from a cursor that left the op array, which the C
  code does not check either.
\<close>

section \<open>Guest memory\<close>

text \<open>\<open>mem_w\<close> and \<open>mem_r\<close>: a writable block, or a readable one (writable, then read-only).\<close>

definition mem_w :: "'w vm \<Rightarrow> u32 \<Rightarrow> u32 \<Rightarrow> hptr option" where
  "mem_w s a n = map_option WPtr (region_at (writable s) a n)"

definition mem_r :: "'w vm \<Rightarrow> u32 \<Rightarrow> u32 \<Rightarrow> hptr option" where
  "mem_r s a n =
     (case mem_w s a n of
        Some q \<Rightarrow> Some q
      | None \<Rightarrow> map_option RPtr (region_at (readonly s) a n))"

definition ld_le :: "'w vm \<Rightarrow> hptr \<Rightarrow> u32 \<Rightarrow> u32 option" where
  "ld_le s q n = do {
     b0 \<leftarrow> rd8 s q 0;
     v \<leftarrow> (if n > 1 then do { b1 \<leftarrow> rd8 s q 1; Some (ucast b0 OR push_bit 8 (ucast b1)) }
          else Some (ucast b0));
     if n > 2 then do {
       b2 \<leftarrow> rd8 s q 2; b3 \<leftarrow> rd8 s q 3;
       Some (v OR (push_bit 16 (ucast b2) OR push_bit 24 (ucast b3))) }
     else Some v }"

definition st_le :: "'w vm \<Rightarrow> hptr \<Rightarrow> u32 \<Rightarrow> u32 \<Rightarrow> 'w vm option" where
  "st_le s q n v = do {
     s0 \<leftarrow> wr8 s q 0 (byte_of 0 v);
     s1 \<leftarrow> (if n > 1 then wr8 s0 q 1 (byte_of 1 v) else Some s0);
     if n > 2 then do { s2 \<leftarrow> wr8 s1 q 2 (byte_of 2 v); wr8 s2 q 3 (byte_of 3 v) }
     else Some s1 }"

text \<open>The C types \<open>LOAD\<close> is used at; \<open>(uint32_t)(int32_t)(T)v\<close>.\<close>

datatype cty = Int8 | Int16 | Int32 | Uint8 | Uint16

fun csize :: "cty \<Rightarrow> u32" where
  "csize Int8 = 1" | "csize Int16 = 2" | "csize Int32 = 4" | "csize Uint8 = 1" | "csize Uint16 = 2"

fun ccast :: "cty \<Rightarrow> u32 \<Rightarrow> u32" where
  "ccast Int8 v = scast (ucast v :: u8)"
| "ccast Int16 v = scast (ucast v :: u16)"
| "ccast Int32 v = v"
| "ccast Uint8 v = ucast (ucast v :: u8)"
| "ccast Uint16 v = ucast (ucast v :: u16)"

text \<open>\<open>q_ ? ld_le(q_, n) : s->callback(s, RISCV_MEM_LOAD, a_, 0)\<close>, and the store's counterpart.\<close>

definition ld_mem :: "'w hooks \<Rightarrow> 'w vm \<Rightarrow> u32 \<Rightarrow> u32 \<Rightarrow> (u32 \<times> 'w vm) option" where
  "ld_mem hk s a n =
     (case mem_r s a n of
        Some q \<Rightarrow> map_option (\<lambda>v. (v, s)) (ld_le s q n)
      | None \<Rightarrow> map_option (\<lambda>cb. cb s RISCV_MEM_LOAD a 0) (h_callback hk))"

definition st_mem :: "'w hooks \<Rightarrow> 'w vm \<Rightarrow> u32 \<Rightarrow> u32 \<Rightarrow> u32 \<Rightarrow> 'w vm option" where
  "st_mem hk s a n v =
     (case mem_w s a n of
        Some q \<Rightarrow> st_le s q n v
      | None \<Rightarrow> map_option (\<lambda>cb. snd (cb s RISCV_MEM_STORE a v)) (h_callback hk))"

section \<open>Frames\<close>

definition rank2reg :: "reg list" where
  "rank2reg = [1, 8, 9, 18, 19, 20, 21, 22, 23, 24, 25, 26, 27]"

definition FRAME_SAVE_SPAN :: u32 where
  "FRAME_SAVE_SPAN = 13 * 4"

text \<open>The host pointer to the frame's top as an offset into the writable storage.\<close>

definition frame_top :: "'w vm \<Rightarrow> u32 \<Rightarrow> nat option" where
  "frame_top s tp =
     (let rel = tp - rg_base (writable s)
      in if rel - FRAME_SAVE_SPAN \<le> rg_len (writable s) - FRAME_SAVE_SPAN
         then Some (unat rel) else None)"

text \<open>\<open>__builtin_ctz\<close> on a nonzero word.\<close>

definition ctz :: "u32 \<Rightarrow> nat" where
  "ctz m = length (takeWhile (\<lambda>i. \<not> bit m i) [0..<32])"

lemma clear_lowest_less: "m \<noteq> 0 \<Longrightarrow> unat (m AND (m - 1)) < unat (m :: u32)"
proof -
  assume "m \<noteq> 0"
  then have "unat (m - 1) < unat m" by (simp add: unat_minus_one unat_gt_0)
  moreover have "m AND (m - 1) \<le> m - 1" by (rule word_and_le1)
  ultimately show ?thesis by (simp add: word_le_nat_alt)
qed

function prologue_slow ::
  "'w hooks \<Rightarrow> 'w vm \<Rightarrow> u32 \<Rightarrow> u32 \<Rightarrow> nat \<Rightarrow> ('w vm \<times> nat) option" where
  "prologue_slow hk s m addr cnt =
     (if m = 0 then Some (s, cnt)
      else do {
        s' \<leftarrow> st_mem hk s (addr - 4) 4 (regs s (rank2reg ! ctz m));
        prologue_slow hk s' (m AND (m - 1)) (addr - 4) (cnt + 1) })"
  by pat_completeness auto
termination
  by (relation "measure (\<lambda>(hk, s, m, addr, cnt). unat m)") (auto dest: clear_lowest_less)

function epilogue_slow ::
  "'w hooks \<Rightarrow> 'w vm \<Rightarrow> u32 \<Rightarrow> u32 \<Rightarrow> nat \<Rightarrow> ('w vm \<times> nat) option" where
  "epilogue_slow hk s m addr cnt =
     (if m = 0 then Some (s, cnt)
      else do {
        (v, s') \<leftarrow> ld_mem hk s (addr - 4) 4;
        epilogue_slow hk (set_reg s' (rank2reg ! ctz m) v) (m AND (m - 1)) (addr - 4) (cnt + 1) })"
  by pat_completeness auto
termination
  by (relation "measure (\<lambda>(hk, s, m, addr, cnt). unat m)") (auto dest: clear_lowest_less)

declare prologue_slow.simps [simp del] epilogue_slow.simps [simp del]

text \<open>
  The unrolled fast paths, over the list of ranks left: \<open>q\<close> steps down four bytes at a set bit. A
  pointer below the storage is a fault.
\<close>

fun save_fast :: "nat list \<Rightarrow> u32 \<Rightarrow> nat \<Rightarrow> nat \<Rightarrow> 'w vm \<Rightarrow> ('w vm \<times> nat) option" where
  "save_fast [] m q cnt s = Some (s, cnt)"
| "save_fast (r # rs) m q cnt s =
     (if m AND push_bit r 1 \<noteq> 0 then
        (if q < 4 then None
         else do {
           s' \<leftarrow> st_le s (WPtr (q - 4)) 4 (regs s (rank2reg ! r));
           save_fast rs m (q - 4) (cnt + 1) s' })
      else save_fast rs m q cnt s)"

fun rest_fast :: "nat list \<Rightarrow> u32 \<Rightarrow> nat \<Rightarrow> nat \<Rightarrow> 'w vm \<Rightarrow> ('w vm \<times> nat) option" where
  "rest_fast [] m q cnt s = Some (s, cnt)"
| "rest_fast (r # rs) m q cnt s =
     (if m AND push_bit r 1 \<noteq> 0 then
        (if q < 4 then None
         else do {
           v \<leftarrow> ld_le s (WPtr (q - 4)) 4;
           rest_fast rs m (q - 4) (cnt + 1) (set_reg s (rank2reg ! r) v) })
      else rest_fast rs m q cnt s)"

section \<open>The handlers\<close>

text \<open>
  Where the cursor goes: so many words forward (\<open>NEXT\<close>); to an op index (\<open>RELOC\<close>); to a guest
  address (\<open>jalr\<close> and its kin); nowhere, the run having stopped; past a serviced trap.
\<close>

datatype pctl = P_next nat | P_reloc u32 | P_jump u32 | P_stop | P_trap u32

definition pva_rr :: "u32 \<Rightarrow> (u32 \<Rightarrow> u32 \<Rightarrow> u32) option" where
  "pva_rr op =
     (if op = ucast RISCV_OP_ADD then Some (\<lambda>a b. a + b)
      else if op = ucast RISCV_OP_SUB then Some (\<lambda>a b. a - b)
      else if op = ucast RISCV_OP_SLL then Some (\<lambda>a b. push_bit (unat (b AND 31)) a)
      else if op = ucast RISCV_OP_SLT then Some (\<lambda>a b. if sint a < sint b then 1 else 0)
      else if op = ucast RISCV_OP_SLTU then Some (\<lambda>a b. if a < b then 1 else 0)
      else if op = ucast RISCV_OP_XOR then Some (\<lambda>a b. a XOR b)
      else if op = ucast RISCV_OP_SRL then Some (\<lambda>a b. drop_bit (unat (b AND 31)) a)
      else if op = ucast RISCV_OP_SRA then Some (\<lambda>a b. signed_drop_bit (unat (b AND 31)) a)
      else if op = ucast RISCV_OP_OR then Some (\<lambda>a b. a OR b)
      else if op = ucast RISCV_OP_AND then Some (\<lambda>a b. a AND b)
      else if op = ucast RISCV_OP_MUL then Some (\<lambda>a b. a * b)
      else if op = ucast RISCV_OP_MULH then Some c_mulh
      else if op = ucast RISCV_OP_MULHSU then Some c_mulhsu
      else if op = ucast RISCV_OP_MULHU then Some c_mulhu
      else if op = ucast RISCV_OP_DIV then Some c_div
      else if op = ucast RISCV_OP_DIVU then Some c_divu
      else if op = ucast RISCV_OP_REM then Some c_rem
      else if op = ucast RISCV_OP_REMU then Some c_remu
      else None)"

definition pva_ri :: "u32 \<Rightarrow> (u32 \<Rightarrow> u32 \<Rightarrow> u32) option" where
  "pva_ri op =
     (if op = ucast RISCV_OP_ADDI then Some (\<lambda>a i. a + i)
      else if op = ucast RISCV_OP_SLLI then Some (\<lambda>a i. push_bit (unat (i AND 31)) a)
      else if op = ucast RISCV_OP_SLTI then Some (\<lambda>a i. if sint a < sint i then 1 else 0)
      else if op = ucast RISCV_OP_SLTIU then Some (\<lambda>a i. if a < i then 1 else 0)
      else if op = ucast RISCV_OP_XORI then Some (\<lambda>a i. a XOR i)
      else if op = ucast RISCV_OP_SRLI then Some (\<lambda>a i. drop_bit (unat (i AND 31)) a)
      else if op = ucast RISCV_OP_ORI then Some (\<lambda>a i. a OR i)
      else if op = ucast RISCV_OP_ANDI then Some (\<lambda>a i. a AND i)
      else if op = ucast RISCV_OP_SRAI then Some (\<lambda>a i. signed_drop_bit (unat (i AND 31)) a)
      else None)"

definition pva_load_ty :: "u32 \<Rightarrow> cty option" where
  "pva_load_ty op =
     (if op = ucast RISCV_OP_LB then Some Int8 else if op = ucast RISCV_OP_LH then Some Int16
      else if op = ucast RISCV_OP_LW then Some Int32 else if op = ucast RISCV_OP_LBU then Some Uint8
      else if op = ucast RISCV_OP_LHU then Some Uint16 else None)"

definition pva_store_n :: "u32 \<Rightarrow> u32 option" where
  "pva_store_n op =
     (if op = ucast RISCV_OP_SB then Some 1 else if op = ucast RISCV_OP_SH then Some 2
      else if op = ucast RISCV_OP_SW then Some 4 else None)"

definition pva_br :: "u32 \<Rightarrow> (u32 \<Rightarrow> u32 \<Rightarrow> bool) option" where
  "pva_br op =
     (if op = ucast RISCV_OP_BEQ then Some (\<lambda>a b. a = b)
      else if op = ucast RISCV_OP_BNE then Some (\<lambda>a b. a \<noteq> b)
      else if op = ucast RISCV_OP_BLT then Some (\<lambda>a b. sint a < sint b)
      else if op = ucast RISCV_OP_BGE then Some (\<lambda>a b. sint a \<ge> sint b)
      else if op = ucast RISCV_OP_BLTU then Some (\<lambda>a b. a < b)
      else if op = ucast RISCV_OP_BGEU then Some (\<lambda>a b. a \<ge> b)
      else None)"

type_synonym 'w pres = "('w vm \<times> nat \<times> pctl) option"

text \<open>\<open>LOAD(T)\<close>: nothing at all for \<open>x0\<close>.\<close>

definition LOAD :: "'w hooks \<Rightarrow> cty \<Rightarrow> u32 \<Rightarrow> 'w vm \<Rightarrow> 'w vm option" where
  "LOAD hk T w s =
     (if TC_A w \<noteq> 0
      then map_option (\<lambda>(v, s'). set_reg s' (TC_A w) (ccast T v))
             (ld_mem hk s (regs s (TC_B w) + TC_IMM w) (csize T))
      else Some s)"

definition STORE :: "'w hooks \<Rightarrow> u32 \<Rightarrow> u32 \<Rightarrow> 'w vm \<Rightarrow> 'w vm option" where
  "STORE hk n w s = st_mem hk s (regs s (TC_B w) + TC_IMM w) n (regs s (TC_A w))"

text \<open>\<open>h_jal\<close> and \<open>h_jalr\<close>; the link is an op-space address. \<open>wr\<close> discards a link to \<open>x0\<close>.\<close>

definition h_jal :: "u32 \<Rightarrow> u32 \<Rightarrow> 'w vm \<Rightarrow> 'w pres" where
  "h_jal idx w s =
     Some (wr s (TC_A w) (push_bit 2 idx + 4), 1, P_reloc (idx + signed_drop_bit 2 (TC_JOFF w)))"

definition h_jalr :: "u32 \<Rightarrow> u32 \<Rightarrow> 'w vm \<Rightarrow> 'w pres" where
  "h_jalr idx w s =
     Some (wr s (TC_A w) (push_bit 2 idx + 4), 1, P_jump ((regs s (TC_B w) + TC_IMM w) AND NOT 1))"

section \<open>The fused handlers\<close>

definition h_shadd :: "u32 \<Rightarrow> 'w vm \<Rightarrow> 'w pres" where
  "h_shadd w s =
     Some (set_reg s (TC_A w) (regs s (TC_B w) + push_bit (unat (TC_SH w)) (regs s (TC_C w))), 2,
           P_next 1)"

definition h_lwx :: "'w hooks \<Rightarrow> u32 \<Rightarrow> 'w vm \<Rightarrow> 'w pres" where
  "h_lwx hk w s =
     map_option (\<lambda>(v, s'). (set_reg s' (TC_A w) v, 2, P_next 1))
       (ld_mem hk s (regs s (TC_B w) + regs s (TC_C w) + TC_OFF11 w) 4)"

definition h_lwlw :: "'w hooks \<Rightarrow> u32 \<Rightarrow> 'w vm \<Rightarrow> 'w pres" where
  "h_lwlw hk w s = do {
     (p, s1) \<leftarrow> ld_mem hk s (regs s (TC_B w) + TC_O1 w) 4;
     (v, s2) \<leftarrow> ld_mem hk s1 (p + TC_O2 w) 4;
     Some (set_reg s2 (TC_A w) v, 2, P_next 1) }"

definition h_lwsw :: "'w hooks \<Rightarrow> u32 \<Rightarrow> 'w vm \<Rightarrow> 'w pres" where
  "h_lwsw hk w s = do {
     (v, s1) \<leftarrow> ld_mem hk s (regs s (TC_B w) + TC_W1 w) 4;
     let s2 = set_reg s1 (TC_A w) v;
     s3 \<leftarrow> st_mem hk s2 (regs s2 (TC_C w) + TC_W2 w) 4 v;
     Some (s3, 2, P_next 1) }"

definition h_vcall :: "'w hooks \<Rightarrow> u32 \<Rightarrow> u32 \<Rightarrow> 'w vm \<Rightarrow> 'w pres" where
  "h_vcall hk idx w s = do {
     (p, s1) \<leftarrow> ld_mem hk s (regs s (TC_B w) + TC_O1 w) 4;
     (v, s2) \<leftarrow> ld_mem hk s1 (p + TC_O2 w) 4;
     let t = v AND NOT 1;
     Some (set_reg (set_reg s2 (TC_A w) t) 1 (push_bit 2 idx + 4), 3, P_jump t) }"

text \<open>\<open>LOADBZ(T)\<close>; \<open>w2\<close> is \<open>p[1]\<close>, \<open>None\<close> past the op array.\<close>

definition LOADBZ :: "'w hooks \<Rightarrow> cty \<Rightarrow> u32 \<Rightarrow> u32 \<Rightarrow> u32 \<Rightarrow> 'w vm \<Rightarrow> 'w pres" where
  "LOADBZ hk T idx w w2 s = do {
     (x, s1) \<leftarrow> ld_mem hk s (regs s (TC_B w) + TC_IMM w) (csize T);
     let v = ccast T x;
     Some (set_reg s1 (TC_A w) v, 2,
           if (v = 0) = (w2 AND 1 = 1) then P_reloc (idx + signed_drop_bit 2 w2) else P_next 2) }"

definition h_prologue :: "'w hooks \<Rightarrow> u32 \<Rightarrow> 'w vm \<Rightarrow> 'w pres" where
  "h_prologue hk w s =
     (let rmask = drop_bit 13 w AND 0x1fff; frame = w AND 0x1fff; sp0 = regs s 2
      in map_option (\<lambda>(s', cnt). (set_reg s' 2 (sp0 - frame), cnt + 1, P_next 1))
           (case frame_top s sp0 of
              Some q \<Rightarrow> save_fast [0..<13] rmask q 0 s
            | None \<Rightarrow> prologue_slow hk s rmask sp0 0))"

definition h_epilogue :: "'w hooks \<Rightarrow> u32 \<Rightarrow> 'w vm \<Rightarrow> 'w pres" where
  "h_epilogue hk w s =
     (let rmask = drop_bit 13 w AND 0x1fff; frame = w AND 0x1fff; tp = regs s 2 + frame
      in map_option (\<lambda>(s', cnt).
             (set_reg s' 2 tp, cnt + 2, P_jump (regs (set_reg s' 2 tp) 1 AND NOT 1)))
           (case frame_top s tp of
              Some q \<Rightarrow> rest_fast [0..<13] rmask q 0 s
            | None \<Rightarrow> epilogue_slow hk s rmask tp 0))"

definition h_memop :: "'w hooks \<Rightarrow> u32 \<Rightarrow> 'w vm \<Rightarrow> 'w pres" where
  "h_memop hk w s =
     map_option (\<lambda>(s', fuel). (s', unat fuel + 1, P_next 1))
       (purv_memop hk s (w AND 7) (TC_A w) (TC_B w) (TC_C w))"

text \<open>\<open>h_trap\<close>: \<open>ecall\<close> without a handler continues, the other two stop.\<close>

definition h_trap :: "'w hooks \<Rightarrow> u32 \<Rightarrow> u32 \<Rightarrow> 'w vm \<Rightarrow> 'w pres" where
  "h_trap hk idx w s =
     (let p = push_bit 2 idx; op = TC_OP w; s1 = s\<lparr>pc := p, inst := w\<rparr>;
          (stop, s2) =
            (if op = ucast RISCV_OP_ECALL then (case h_ecall hk of None \<Rightarrow> (False, s1) | Some f \<Rightarrow> f s1)
             else if op = ucast RISCV_OP_EBREAK then
               (case h_ebreak hk of None \<Rightarrow> (True, s1) | Some f \<Rightarrow> f s1)
             else (case h_illegal hk of None \<Rightarrow> (True, s1) | Some f \<Rightarrow> f s1))
      in Some (s2, 1, if stop then P_stop else P_trap (p + 4)))"

section \<open>Dispatch\<close>

text \<open>The jump table: every op number below 64 has a handler, the unused ones \<open>h_trap\<close>.\<close>

definition pva_exec :: "'w hooks \<Rightarrow> u32 \<Rightarrow> u32 \<Rightarrow> u32 \<Rightarrow> 'w vm \<Rightarrow> 'w pres" where
  "pva_exec hk idx w w2 s =
     (let op = TC_OP w; a = regs s (TC_B w); b = regs s (TC_C w)
      in case pva_rr op of
           Some f \<Rightarrow> Some (set_reg s (TC_A w) (f a b), 1, P_next 1)
         | None \<Rightarrow>
        (case pva_ri op of
           Some f \<Rightarrow> Some (set_reg s (TC_A w) (f a (TC_IMM w)), 1, P_next 1)
         | None \<Rightarrow>
        (case pva_load_ty op of
           Some T \<Rightarrow> map_option (\<lambda>s'. (s', 1, P_next 1)) (LOAD hk T w s)
         | None \<Rightarrow>
        (case pva_store_n op of
           Some n \<Rightarrow> map_option (\<lambda>s'. (s', 1, P_next 1)) (STORE hk n w s)
         | None \<Rightarrow>
        (case pva_br op of
           Some t \<Rightarrow>
             Some (s, 1, if t (regs s (TC_A w)) (regs s (TC_B w))
                         then P_reloc (idx + signed_drop_bit 2 (TC_IMM w)) else P_next 1)
         | None \<Rightarrow>
           if op = ucast RISCV_OP_JAL then h_jal idx w s
           else if op = ucast RISCV_OP_JALR then h_jalr idx w s
           else if op = ucast RISCV_OP_LUI then
             Some (set_reg s (TC_A w) (push_bit 12 (TC_UIMM w)), 1, P_next 1)
           else if op = ucast RISCV_OP_AUIPC then
             Some (set_reg s (TC_A w) (push_bit 2 idx + push_bit 12 (TC_UIMM w)), 1, P_next 1)
           else if op = ucast RISCV_OP_NOP then Some (s, 1, P_next 1)
           else if op = ucast RISCV_OP_PROLOGUE then h_prologue hk w s
           else if op = ucast RISCV_OP_EPILOGUE then h_epilogue hk w s
           else if op = ucast RISCV_OP_LI_LO then
             Some (set_reg s (TC_A w) (TC_JOFF w), 1, P_next 1)
           else if op = ucast RISCV_OP_LI_HI then
             Some (set_reg s (TC_A w) (TC_JOFF w + RISCV_HALF), 1, P_next 1)
           else if op = ucast RISCV_OP_SHADD then h_shadd w s
           else if op = ucast RISCV_OP_LWX then h_lwx hk w s
           else if op = ucast RISCV_OP_LWLW then h_lwlw hk w s
           else if op = ucast RISCV_OP_LW_BZ then LOADBZ hk Int32 idx w w2 s
           else if op = ucast RISCV_OP_LBU_BZ then LOADBZ hk Uint8 idx w w2 s
           else if op = ucast RISCV_OP_LWSW then h_lwsw hk w s
           else if op = ucast RISCV_OP_VCALL then h_vcall hk idx w s
           else if op = ucast RISCV_OP_MEMOP then h_memop hk w s
           else h_trap hk idx w s)))))"

section \<open>The run loop\<close>

text \<open>Every handler counts at least one instruction, and \<open>NEXT\<close> moves the cursor.\<close>

lemma LOADBZ_cost: "LOADBZ hk T idx w w2 s = Some (s', n, c) \<Longrightarrow> n = 2 \<and> (\<forall>d. c = P_next d \<longrightarrow> d = 2)"
  by (auto simp: LOADBZ_def Let_def bind_eq_Some_conv split: if_splits prod.splits)

lemma h_trap_cost: "h_trap hk idx w s = Some (s', n, c) \<Longrightarrow> n = 1 \<and> (\<forall>d. c \<noteq> P_next d)"
  by (auto simp: h_trap_def Let_def split: if_splits prod.splits)

lemma fused_cost:
  "h_prologue hk w s = Some (s', n, c) \<Longrightarrow> 0 < n \<and> c = P_next 1"
  "h_epilogue hk w s = Some (s', n, c) \<Longrightarrow> 0 < n \<and> (\<forall>d. c \<noteq> P_next d)"
  "h_shadd w s = Some (s', n, c) \<Longrightarrow> 0 < n \<and> c = P_next 1"
  "h_lwx hk w s = Some (s', n, c) \<Longrightarrow> 0 < n \<and> c = P_next 1"
  "h_lwlw hk w s = Some (s', n, c) \<Longrightarrow> 0 < n \<and> c = P_next 1"
  "h_lwsw hk w s = Some (s', n, c) \<Longrightarrow> 0 < n \<and> c = P_next 1"
  "h_vcall hk idx w s = Some (s', n, c) \<Longrightarrow> 0 < n \<and> (\<forall>d. c \<noteq> P_next d)"
  "h_memop hk w s = Some (s', n, c) \<Longrightarrow> 0 < n \<and> c = P_next 1"
  "h_jal idx w s = Some (s', n, c) \<Longrightarrow> 0 < n \<and> (\<forall>d. c \<noteq> P_next d)"
  "h_jalr idx w s = Some (s', n, c) \<Longrightarrow> 0 < n \<and> (\<forall>d. c \<noteq> P_next d)"
  by (auto simp: h_prologue_def h_epilogue_def h_shadd_def h_lwx_def h_lwlw_def h_lwsw_def h_vcall_def
      h_memop_def h_jal_def h_jalr_def Let_def bind_eq_Some_conv)

definition cost_ok :: "'w pres \<Rightarrow> bool" where
  "cost_ok r = (case r of None \<Rightarrow> True | Some (s', n, c) \<Rightarrow> 0 < n \<and> (\<forall>d. c = P_next d \<longrightarrow> 0 < d))"

lemma cost_okI: "(\<And>s' n c. r = Some (s', n, c) \<Longrightarrow> 0 < n \<and> (\<forall>d. c = P_next d \<longrightarrow> 0 < d)) \<Longrightarrow> cost_ok r"
  by (auto simp: cost_ok_def split: option.split)

lemma cost_ok_handlers:
  "cost_ok (LOADBZ hk T idx w w2 s)" "cost_ok (h_trap hk idx w s)" "cost_ok (h_prologue hk w s)"
  "cost_ok (h_epilogue hk w s)" "cost_ok (h_shadd w s)" "cost_ok (h_lwx hk w s)"
  "cost_ok (h_lwlw hk w s)" "cost_ok (h_lwsw hk w s)" "cost_ok (h_vcall hk idx w s)"
  "cost_ok (h_memop hk w s)" "cost_ok (h_jal idx w s)" "cost_ok (h_jalr idx w s)"
  by (rule cost_okI, drule LOADBZ_cost h_trap_cost fused_cost, force)+

lemma cost_ok_plain:
  "cost_ok (Some (s', 1, P_next 1))" "cost_ok (Some (s', 1, if b then P_reloc i else P_next 1))"
  "cost_ok (map_option (\<lambda>s'. (s', 1, P_next 1)) m)"
  by (auto simp: cost_ok_def split: option.split)

lemma cost_ok_if: "cost_ok a \<Longrightarrow> cost_ok b \<Longrightarrow> cost_ok (if c then a else b)"
  by simp

lemma cost_ok_opt:
  "cost_ok g \<Longrightarrow> (\<And>x. cost_ok (f x)) \<Longrightarrow> cost_ok (case m of None \<Rightarrow> g | Some x \<Rightarrow> f x)"
  by (simp split: option.split)

lemma pva_exec_cost: "cost_ok (pva_exec hk idx w w2 s)"
  unfolding pva_exec_def Let_def
  by (intro cost_ok_if cost_ok_opt cost_ok_handlers cost_ok_plain)

text \<open>A run ends in a state and a count, or in one of the two faults.\<close>

datatype pva_err = Ops_end | Host_fault

definition two_words :: "u32 \<Rightarrow> bool" where
  "two_words w = (TC_OP w = ucast RISCV_OP_LW_BZ \<or> TC_OP w = ucast RISCV_OP_LBU_BZ)"

function pva_run ::
  "'w hooks \<Rightarrow> u32 list \<Rightarrow> u32 \<Rightarrow> nat \<Rightarrow> nat \<Rightarrow> nat \<Rightarrow> 'w vm \<Rightarrow> pva_err + ('w vm \<times> nat)" where
  "pva_run hk ops clen mx k i s =
     (if i \<ge> length ops \<or> (two_words (ops ! i) \<and> i + 1 \<ge> length ops) then Inl Ops_end
      else case pva_exec hk (of_nat i) (ops ! i) (if i + 1 < length ops then ops ! (i + 1) else 0) s of
             None \<Rightarrow> Inl Host_fault
           | Some (s', n, P_next d) \<Rightarrow> pva_run hk ops clen mx (k + n) (i + d) s'
           | Some (s', n, P_reloc j) \<Rightarrow>
               if k + n \<ge> mx then Inr (s'\<lparr>pc := push_bit 2 j\<rparr>, k + n)
               else pva_run hk ops clen mx (k + n) (unat j) s'
           | Some (s', n, P_jump t) \<Rightarrow>
               if t \<ge> clen \<or> k + n \<ge> mx then Inr (s'\<lparr>pc := t\<rparr>, k + n)
               else pva_run hk ops clen mx (k + n) (unat (drop_bit 2 t)) s'
           | Some (s', n, P_stop) \<Rightarrow> Inr (s', k + n)
           | Some (s', n, P_trap p) \<Rightarrow>
               if k + n \<ge> mx then Inr (s'\<lparr>pc := p\<rparr>, k + n)
               else pva_run hk ops clen mx (k + n) (i + 1) s')"
  by pat_completeness auto
termination
proof (relation "measures [\<lambda>(hk, ops, clen, mx, k, i, s). mx - k,
                           \<lambda>(hk, ops, clen, mx, k, i, s). length ops - i]", goal_cases)
  case 1
  then show ?case by simp
qed (use pva_exec_cost in \<open>fastforce simp: cost_ok_def split: option.splits\<close>)+

declare pva_run.simps [simp del]

text \<open>\<open>RiscvEmulatorLoop\<close>; \<open>prog\<close> is \<open>g_prog\<close>, which \<open>RiscvEmulatorSetProgram\<close> installs.\<close>

definition pva_loop ::
  "'w hooks \<Rightarrow> transcoded option \<Rightarrow> 'w vm \<Rightarrow> nat \<Rightarrow> pva_err + ('w vm \<times> nat)" where
  "pva_loop hk prog s mx =
     (case prog of
        None \<Rightarrow> Inr (s, 0)
      | Some p \<Rightarrow>
          if pc s \<ge> tcode_len p then Inr (s, 0)
          else pva_run hk (tops p) (tcode_len p) mx 0 (unat (drop_bit 2 (pc s))) s)"

definition pva_init :: "region \<Rightarrow> region \<Rightarrow> 'w \<Rightarrow> 'w vm" where
  "pva_init ro rw w =
     \<lparr>pc = 0, inst = 0, regs = (\<lambda>_. 0)(2 := RISCV_HALF), readonly = ro, writable = rw, world = w\<rparr>"

end
