(* ===== verification/Purvarun.thy ===== *)
theory Purvarun
  imports Purva
begin

text \<open>
  The embedding interface \<open>emu/purva/purvarun.h\<close>: loading an image (\<open>emu/purva/image.h\<close>), the
  host calls of the guest, the allocator that serves its \<open>malloc\<close> group out of guest memory,
  and the run loop.

  The fields of \<open>PurvaRun\<close> other than the engine's state are the \<open>world\<close> of that state, so that
  the hooks find them there; the \<open>writable\<close> buffer is the storage of the engine's writable
  region, which \<open>purva_run_init\<close> makes one and the same. The embedder's callbacks and what they
  keep (\<open>'u\<close>) are parameters. \<open>None\<close> is a host access outside the buffers or a loop that does not
  end; inside a hook, whose C type has no room for it, it sets \<open>pr_bad\<close> and stops the run.
\<close>

section \<open>State\<close>

definition PURVA_HOSTCALL_EXIT :: u32 where "PURVA_HOSTCALL_EXIT = 0"
definition PURVA_HOSTCALL_WRITE :: u32 where "PURVA_HOSTCALL_WRITE = 1"
definition PURVA_HOSTCALL_MALLOC :: u32 where "PURVA_HOSTCALL_MALLOC = 2"
definition PURVA_HOSTCALL_FREE :: u32 where "PURVA_HOSTCALL_FREE = 3"
definition PURVA_HOSTCALL_REALLOC :: u32 where "PURVA_HOSTCALL_REALLOC = 4"
definition PURVA_HOSTCALL_USER :: u32 where "PURVA_HOSTCALL_USER = 16"

text \<open>\<open>PurvaCallbacks\<close>: the functions get and give back what \<open>user\<close> points to.\<close>

record 'u purva_callbacks =
  cb_write :: "('u \<Rightarrow> u32 \<Rightarrow> u8 list \<Rightarrow> int \<times> 'u) option"
  cb_hostcall :: "('u \<Rightarrow> u32 \<Rightarrow> u32 \<Rightarrow> u32 \<Rightarrow> u32 \<Rightarrow> u32 \<times> bool \<times> 'u) option"

datatype run_status = PURVA_RUN_DONE | PURVA_RUN_FUEL | PURVA_RUN_TRAP

record 'u prun =
  pr_prog :: transcoded
  rodata_len :: u32
  stack_len :: u32
  heap_len :: u32
  pr_status :: run_status
  exit_code :: u32
  heap_brk :: u32
  heap_top :: u32
  freep :: u32
  basep :: u32
  pr_user :: 'u
  pr_bad :: bool

type_synonym 'u rvm = "'u prun vm"

definition upd_run :: "('u prun \<Rightarrow> 'u prun) \<Rightarrow> 'u rvm \<Rightarrow> 'u rvm" where
  "upd_run f s = s\<lparr>world := f (world s)\<rparr>"

section \<open>The guest heap\<close>

definition PURVA_HUNIT :: u32 where
  "PURVA_HUNIT = 8"

text \<open>\<open>purva__arena\<close>: a guest address as an offset into the writable buffer.\<close>

definition arena :: "'u rvm \<Rightarrow> u32 \<Rightarrow> nat" where
  "arena s a = unat (a - (RISCV_HALF - stack_len (world s)))"

definition heap_ld :: "'u rvm \<Rightarrow> u32 \<Rightarrow> u32 option" where
  "heap_ld s a = do {
     b0 \<leftarrow> rd8 s (WPtr (arena s a)) 0; b1 \<leftarrow> rd8 s (WPtr (arena s a)) 1;
     b2 \<leftarrow> rd8 s (WPtr (arena s a)) 2; b3 \<leftarrow> rd8 s (WPtr (arena s a)) 3;
     Some (le32 b0 b1 b2 b3) }"

definition heap_st :: "'u rvm \<Rightarrow> u32 \<Rightarrow> u32 \<Rightarrow> 'u rvm option" where
  "heap_st s a v = do {
     s0 \<leftarrow> wr8 s (WPtr (arena s a)) 0 (byte_of 0 v); s1 \<leftarrow> wr8 s0 (WPtr (arena s a)) 1 (byte_of 1 v);
     s2 \<leftarrow> wr8 s1 (WPtr (arena s a)) 2 (byte_of 2 v); wr8 s2 (WPtr (arena s a)) 3 (byte_of 3 v) }"

abbreviation blk_next :: "'u rvm \<Rightarrow> u32 \<Rightarrow> u32 option" where "blk_next s a \<equiv> heap_ld s a"
abbreviation blk_size :: "'u rvm \<Rightarrow> u32 \<Rightarrow> u32 option" where "blk_size s a \<equiv> heap_ld s (a + 4)"
abbreviation set_next :: "'u rvm \<Rightarrow> u32 \<Rightarrow> u32 \<Rightarrow> 'u rvm option" where "set_next s a v \<equiv> heap_st s a v"
abbreviation set_size :: "'u rvm \<Rightarrow> u32 \<Rightarrow> u32 \<Rightarrow> 'u rvm option" where "set_size s a v \<equiv> heap_st s (a + 4) v"

text \<open>
  The loop of \<open>purva__free\<close>: the free block after which \<open>bp\<close> belongs, starting from \<open>p\<close>.
\<close>

partial_function (option) free_find :: "'u rvm \<Rightarrow> u32 \<Rightarrow> u32 \<Rightarrow> u32 option" where
  "free_find s bp p =
     Option.bind (blk_next s p) (\<lambda>np.
       if bp > p \<and> bp < np then Some p
       else if p \<ge> np \<and> (bp > p \<or> bp < np) then Some p
       else free_find s bp np)"

text \<open>Joining \<open>bp\<close> to the block after it, and the block before it to \<open>bp\<close>, or linking them.\<close>

definition join_upper :: "'u rvm \<Rightarrow> u32 \<Rightarrow> u32 \<Rightarrow> 'u rvm option" where
  "join_upper s bp p = do {
     bsz \<leftarrow> blk_size s bp; np \<leftarrow> blk_next s p;
     if bp + bsz * PURVA_HUNIT = np then do {
       nsz \<leftarrow> blk_size s np;
       s1 \<leftarrow> set_size s bp (bsz + nsz);
       np1 \<leftarrow> blk_next s1 p; nn \<leftarrow> blk_next s1 np1;
       set_next s1 bp nn }
     else set_next s bp np }"

definition join_lower :: "'u rvm \<Rightarrow> u32 \<Rightarrow> u32 \<Rightarrow> 'u rvm option" where
  "join_lower s bp p = do {
     psz \<leftarrow> blk_size s p;
     if p + psz * PURVA_HUNIT = bp then do {
       bsz \<leftarrow> blk_size s bp;
       s1 \<leftarrow> set_size s p (psz + bsz);
       nb \<leftarrow> blk_next s1 bp;
       set_next s1 p nb }
     else set_next s p bp }"

definition purva_free :: "'u rvm \<Rightarrow> u32 \<Rightarrow> 'u rvm option" where
  "purva_free s ap = do {
     let bp = (ap - PURVA_HUNIT);
     p \<leftarrow> free_find s bp (freep (world s));
     s1 \<leftarrow> join_upper s bp p;
     s2 \<leftarrow> join_lower s1 bp p;
     Some (upd_run (\<lambda>r. r\<lparr>freep := p\<rparr>) s2) }"

definition purva_morecore :: "'u rvm \<Rightarrow> u32 \<Rightarrow> (u32 \<times> 'u rvm) option" where
  "purva_morecore s nu0 =
     (let nu = (if nu0 < 4096 then 4096 else nu0); bytes = nu * PURVA_HUNIT; up = heap_brk (world s)
      in if unat up + unat bytes > unat (heap_top (world s)) then Some (0, s)
         else do {
           s1 \<leftarrow> set_size (upd_run (\<lambda>r. r\<lparr>heap_brk := up + bytes\<rparr>) s) up nu;
           s2 \<leftarrow> purva_free s1 (up + PURVA_HUNIT);
           Some (freep (world s2), s2) })"

text \<open>The block found: taken whole, or its upper end cut off.\<close>

definition take_block :: "'u rvm \<Rightarrow> u32 \<Rightarrow> u32 \<Rightarrow> u32 \<Rightarrow> u32 \<Rightarrow> (u32 \<times> 'u rvm) option" where
  "take_block s nunits sz prevp p =
     (if sz = nunits then do {
        np \<leftarrow> blk_next s p;
        s1 \<leftarrow> set_next s prevp np;
        Some (p + PURVA_HUNIT, upd_run (\<lambda>r. r\<lparr>freep := prevp\<rparr>) s1) }
      else do {
        s1 \<leftarrow> set_size s p (sz - nunits);
        sz1 \<leftarrow> blk_size s1 p;
        let p1 = (p + sz1 * PURVA_HUNIT);
        s2 \<leftarrow> set_size s1 p1 nunits;
        Some (p1 + PURVA_HUNIT, upd_run (\<lambda>r. r\<lparr>freep := prevp\<rparr>) s2) })"

partial_function (option) malloc_loop ::
  "'u rvm \<Rightarrow> u32 \<Rightarrow> u32 \<Rightarrow> u32 \<Rightarrow> (u32 \<times> 'u rvm) option" where
  "malloc_loop s nunits prevp p =
     Option.bind (blk_size s p) (\<lambda>sz.
       if sz \<ge> nunits then take_block s nunits sz prevp p
       else if p = freep (world s) then
         Option.bind (purva_morecore s nunits) (\<lambda>m.
           if fst m = 0 then Some (0, snd m)
           else Option.bind (blk_next (snd m) (fst m)) (\<lambda>n. malloc_loop (snd m) nunits (fst m) n))
       else Option.bind (blk_next s p) (\<lambda>n. malloc_loop s nunits p n))"

definition units_for :: "u32 \<Rightarrow> u32" where
  "units_for nbytes = (nbytes + PURVA_HUNIT - 1) div PURVA_HUNIT + 1"

definition purva_malloc :: "'u rvm \<Rightarrow> u32 \<Rightarrow> (u32 \<times> 'u rvm) option" where
  "purva_malloc s nbytes =
     (if nbytes = 0 then Some (0, s)
      else do {
        let prevp = (freep (world s));
        p \<leftarrow> blk_next s prevp;
        malloc_loop s (units_for nbytes) prevp p })"

definition purva_realloc :: "'u rvm \<Rightarrow> u32 \<Rightarrow> u32 \<Rightarrow> (u32 \<times> 'u rvm) option" where
  "purva_realloc s ap n =
     (if ap = 0 then purva_malloc s n
      else if n = 0 then map_option (\<lambda>s'. (0, s')) (purva_free s ap)
      else do {
        osz \<leftarrow> blk_size s (ap - PURVA_HUNIT);
        let oldbytes = ((osz - 1) * PURVA_HUNIT);
        if oldbytes \<ge> n then Some (ap, s)
        else do {
          (np, s1) \<leftarrow> purva_malloc s n;
          if np = 0 then Some (0, s1)
          else do {
            bs \<leftarrow> read_bytes s1 (WPtr (arena s1 ap)) 0 (unat (if oldbytes < n then oldbytes else n));
            s2 \<leftarrow> write_bytes s1 (WPtr (arena s1 np)) 0 bs;
            s3 \<leftarrow> purva_free s2 ap;
            Some (np, s3) } } })"

section \<open>Host calls\<close>

definition purva_gbyte :: "'w vm \<Rightarrow> u32 \<Rightarrow> u8 option" where
  "purva_gbyte s a = guest_byte s a"

fun gbytes :: "'w vm \<Rightarrow> u32 \<Rightarrow> nat \<Rightarrow> u8 list option" where
  "gbytes s a 0 = Some []"
| "gbytes s a (Suc n) = do { b \<leftarrow> purva_gbyte s a; bs \<leftarrow> gbytes s (a + 1) n; Some (b # bs) }"

text \<open>The chunks of at most 512 bytes of a \<open>write\<close>.\<close>

partial_function (option) write_chunks ::
  "('u \<Rightarrow> u32 \<Rightarrow> u8 list \<Rightarrow> int \<times> 'u) \<Rightarrow> u32 \<Rightarrow> 'u rvm \<Rightarrow> u32 \<Rightarrow> u32 \<Rightarrow> int \<Rightarrow> (int \<times> 'u rvm) option" where
  "write_chunks cbw fd s p left written =
     (if left = 0 then Some (written, s)
      else
        Option.bind (gbytes s p (unat (if left > 512 then 512 else left))) (\<lambda>buf.
          let r = cbw (pr_user (world s)) fd buf; s1 = upd_run (\<lambda>x. x\<lparr>pr_user := snd r\<rparr>) s
          in if fst r \<le> 0 then Some (written, s1)
             else write_chunks cbw fd s1 (p + word_of_int (fst r)) (left - word_of_int (fst r)) (written + fst r)))"

definition set_a0 :: "u32 \<Rightarrow> 'u rvm \<Rightarrow> 'u rvm" where
  "set_a0 v s = s\<lparr>regs := (regs s)(10 := v)\<rparr>"

definition ecall_body :: "'u purva_callbacks \<Rightarrow> 'u rvm \<Rightarrow> (bool \<times> 'u rvm) option" where
  "ecall_body cb s =
     (let fn = regs s 17; a0 = regs s 10; a1 = regs s 11; a2 = regs s 12;
          ret = (\<lambda>v s'. (False, set_a0 v s'))
      in if fn = PURVA_HOSTCALL_EXIT then
           Some (True, set_a0 0 (upd_run (\<lambda>r. r\<lparr>exit_code := a0, pr_status := PURVA_RUN_DONE\<rparr>) s))
         else if fn = PURVA_HOSTCALL_WRITE then
           (case cb_write cb of
              None \<Rightarrow> Some (ret a2 s)
            | Some w \<Rightarrow> map_option (\<lambda>(written, s'). ret (word_of_int written) s') (write_chunks w a0 s a1 a2 0))
         else if fn = PURVA_HOSTCALL_MALLOC then map_option (\<lambda>(p, s'). ret p s') (purva_malloc s a0)
         else if fn = PURVA_HOSTCALL_FREE then
           (if a0 = 0 then Some (ret 0 s) else map_option (ret 0) (purva_free s a0))
         else if fn = PURVA_HOSTCALL_REALLOC then map_option (\<lambda>(p, s'). ret p s') (purva_realloc s a0 a1)
         else
           (case cb_hostcall cb of
              None \<Rightarrow> Some (True, upd_run (\<lambda>r. r\<lparr>pr_status := PURVA_RUN_TRAP\<rparr>) s)
            | Some h \<Rightarrow>
                if fn < PURVA_HOSTCALL_USER
                then Some (True, upd_run (\<lambda>r. r\<lparr>pr_status := PURVA_RUN_TRAP\<rparr>) s)
                else (case h (pr_user (world s)) fn a0 a1 a2 of (v, stop, u) \<Rightarrow>
                        let s1 = upd_run (\<lambda>r. r\<lparr>pr_user := u\<rparr>) s
                        in if stop then Some (True, set_a0 v (upd_run (\<lambda>r. r\<lparr>pr_status := PURVA_RUN_TRAP\<rparr>) s1))
                           else Some (ret v s1))))"

definition purva_on_ecall :: "'u purva_callbacks \<Rightarrow> 'u rvm \<Rightarrow> bool \<times> 'u rvm" where
  "purva_on_ecall cb s =
     (case ecall_body cb s of
        Some r \<Rightarrow> r
      | None \<Rightarrow> (True, upd_run (\<lambda>r. r\<lparr>pr_bad := True\<rparr>) s))"

definition purva_on_trap :: "'u rvm \<Rightarrow> bool \<times> 'u rvm" where
  "purva_on_trap s = (True, upd_run (\<lambda>r. r\<lparr>pr_status := PURVA_RUN_TRAP\<rparr>) s)"

definition purva_hooks :: "'u purva_callbacks \<Rightarrow> 'u prun hooks" where
  "purva_hooks cb =
     \<lparr>h_ecall = Some (purva_on_ecall cb), h_ebreak = Some purva_on_trap, h_illegal = Some purva_on_trap,
      h_callback = Some default_callback\<rparr>"

section \<open>Loading and running\<close>

definition img_word :: "u8 list \<Rightarrow> nat \<Rightarrow> u32" where
  "img_word b i = le32 (b ! (4 * i)) (b ! (4 * i + 1)) (b ! (4 * i + 2)) (b ! (4 * i + 3))"

text \<open>The packed op words of the image, read as \<open>(uint32_t *)r->code\<close>.\<close>

definition img_ops :: "u8 list \<Rightarrow> u32 list" where
  "img_ops code = map (img_word code) [0..<length code div 4]"

text \<open>
  \<open>purva_run_init\<close>. \<open>alloc n\<close> is whether the host can allocate \<open>n\<close> bytes. The outer \<open>None\<close> is a host
  access outside a buffer, the inner one the error return. \<open>size_t\<close> has 64 bits.
\<close>

definition purva_run_init ::
  "(nat \<Rightarrow> bool) \<Rightarrow> u8 list \<Rightarrow> u32 \<Rightarrow> u32 \<Rightarrow> 'u \<Rightarrow> 'u rvm option option" where
  "purva_run_init alloc b ram0 stack0 user =
     (if length b < 20 then Some None
      else
        let h = img_word b;
            need = 20 + unat (h 0) + unat (h 1) + unat (h 2)
        in if h 0 mod 4 \<noteq> 0 \<or> need > length b then Some None
           else
             let ram = (if ram0 = 0 then 16 * 1024 * 1024 else ram0);
                 stack1 = (if stack0 = 0 then 1024 * 1024 else stack0);
                 stack = (if stack1 < h 4 then h 4 else stack1);
                 heap = h 2 + h 3 + ram;
                 bytes = unat stack + unat heap;
                 code = take (unat (h 0)) (drop 20 b);
                 rodata = take (unat (h 1)) (drop (20 + unat (h 0)) b);
                 rwdata = take (unat (h 2)) (drop (20 + unat (h 0) + unat (h 1)) b)
             in if \<not> (alloc (max 1 (unat (h 0))) \<and> alloc (max 1 (unat (h 1))) \<and> alloc bytes) then Some None
                else if unat stack + unat (h 2) > bytes then None
                else
                  let wbuf = replicate (unat stack) 0 @ rwdata @ replicate (unat heap - unat (h 2)) 0;
                      base = (RISCV_HALF + h 2 + h 3 + 15) AND NOT 15;
                      r = \<lparr>pr_prog = \<lparr>tops = img_ops code, tn_ops = h 0 div 4, tcode_len = h 0\<rparr>,
                           rodata_len = h 1, stack_len = stack, heap_len = heap,
                           pr_status = PURVA_RUN_FUEL, exit_code = 0, heap_brk = base + PURVA_HUNIT,
                           heap_top = RISCV_HALF + heap, freep = base, basep = base, pr_user = user,
                           pr_bad = False\<rparr>;
                      s = pva_init \<lparr>rg_ptr = Some rodata, rg_len = h 1, rg_base = 0 - h 1\<rparr>
                            \<lparr>rg_ptr = Some wbuf, rg_len = stack + heap, rg_base = RISCV_HALF - stack\<rparr> r
                  in map_option Some (do { s1 \<leftarrow> set_next s base base; set_size s1 base 0 }))"

text \<open>
  \<open>purva_run\<close>: the status, the count and the state; \<open>Inl\<close> is a fault of the engine.
\<close>

function purva_run_loop ::
  "'u purva_callbacks \<Rightarrow> nat \<Rightarrow> nat \<Rightarrow> 'u rvm \<Rightarrow> pva_err + ('u rvm \<times> nat)" where
  "purva_run_loop cb fuel used s =
     (if used \<ge> fuel then Inr (s, used)
      else (case pva_loop (purva_hooks cb) (Some (pr_prog (world s))) s (fuel - used) of
              Inl e \<Rightarrow> Inl e
            | Inr (s1, cnt) \<Rightarrow>
                let used1 = used + cnt; trap = upd_run (\<lambda>r. r\<lparr>pr_status := PURVA_RUN_TRAP\<rparr>) s1
                in if pr_status (world s1) \<noteq> PURVA_RUN_FUEL then Inr (s1, used1)
                   else if pc s1 \<ge> tcode_len (pr_prog (world s1)) then Inr (trap, used1)
                   else if cnt = 0 then Inr (trap, used1)
                   else purva_run_loop cb fuel used1 s1))"
  by pat_completeness auto
termination by (relation "measure (\<lambda>(cb, fuel, used, s). fuel - used)") auto

declare purva_run_loop.simps [simp del]

definition purva_run ::
  "'u purva_callbacks \<Rightarrow> 'u rvm \<Rightarrow> nat \<Rightarrow> pva_err + (run_status \<times> 'u rvm \<times> nat)" where
  "purva_run cb s fuel =
     (if pr_status (world s) \<noteq> PURVA_RUN_FUEL then Inr (pr_status (world s), s, 0)
      else (case purva_run_loop cb fuel 0 s of
              Inl e \<Rightarrow> Inl e
            | Inr (s1, n) \<Rightarrow> Inr (pr_status (world s1), s1, n)))"

end
