(* ===== verification/Purva_Heap.thy ===== *)
theory Purva_Heap
  imports Purvarun
begin

text \<open>
  The allocator of \<open>emu/purva/purvarun.h\<close>. The heap is seen in units of 8 bytes from the base node:
  blocks tile it, each with its size in its header, and the free ones form the ring the allocator
  walks. \<open>malloc\<close> and \<open>free\<close> keep that picture, hand out disjoint blocks, and write nothing but
  headers.
\<close>

section \<open>Header cells\<close>

definition node :: "'u rvm \<Rightarrow> nat \<Rightarrow> u32" where
  "node s k = basep (world s) + of_nat (8 * k)"

abbreviation nx :: "'u rvm \<Rightarrow> nat \<Rightarrow> u32 option" where "nx s k \<equiv> blk_next s (node s k)"
abbreviation sz :: "'u rvm \<Rightarrow> nat \<Rightarrow> u32 option" where "sz s k \<equiv> blk_size s (node s k)"

text \<open>The arena: from the base node to the top, all of it in the writable buffer.\<close>

definition arena_start :: "'u rvm \<Rightarrow> u32" where
  "arena_start s = RISCV_HALF - stack_len (world s)"

definition span_ok :: "'u rvm \<Rightarrow> bool" where
  "span_ok s = (basep (world s) \<noteq> 0 \<and> arena_start s \<le> basep (world s) \<and> basep (world s) \<le> heap_top (world s) \<and>
     (\<exists>bs. rg_ptr (writable s) = Some bs \<and>
       unat (heap_top (world s)) - unat (arena_start s) \<le> length bs))"

definition unit_ok :: "'u rvm \<Rightarrow> nat \<Rightarrow> bool" where
  "unit_ok s k = (unat (basep (world s)) + 8 * k + 8 \<le> unat (heap_top (world s)))"

text \<open>The byte offset of a unit in the buffer.\<close>

definition upos :: "'u rvm \<Rightarrow> nat \<Rightarrow> nat" where
  "upos s k = unat (basep (world s)) - unat (arena_start s) + 8 * k"

definition addr_ok :: "'u rvm \<Rightarrow> nat \<Rightarrow> bool" where
  "addr_ok s k = (unat (basep (world s)) + 8 * k \<le> unat (heap_top (world s)))"

lemma unit_addr: "unit_ok s k \<Longrightarrow> addr_ok s k" "unit_ok s k \<longleftrightarrow> addr_ok s (Suc k)"
  by (auto simp: unit_ok_def addr_ok_def)

lemma unat_node: "addr_ok s k \<Longrightarrow> unat (node s k) = unat (basep (world s)) + 8 * k"
proof -
  assume k: "addr_ok s k"
  then have "unat (basep (world s)) + 8 * k < 4294967296"
    using unat_lt_32 [of "heap_top (world s)"] unfolding addr_ok_def by linarith
  then show ?thesis by (simp add: node_def unat_word_ariths unat_of_nat)
qed

lemma addr_ok_le: "addr_ok s k \<Longrightarrow> j \<le> k \<Longrightarrow> addr_ok s j"
  by (simp add: addr_ok_def)

lemma node_less: "addr_ok s i \<Longrightarrow> addr_ok s j \<Longrightarrow> node s i < node s j \<longleftrightarrow> i < j"
  by (simp add: word_less_nat_alt unat_node)

lemma node_eq: "addr_ok s i \<Longrightarrow> addr_ok s j \<Longrightarrow> node s i = node s j \<longleftrightarrow> i = j"
  by (simp add: word_unat_eq_iff unat_node)

lemma node_add: "node s k + of_nat u * PURVA_HUNIT = node s (k + u)"
  by (simp add: node_def PURVA_HUNIT_def algebra_simps)

lemma arena_node:
  assumes "span_ok s" "unit_ok s k"
  shows "arena s (node s k) = upos s k" "arena s (node s k + 4) = upos s k + 4"
proof -
  have le: "unat (arena_start s) \<le> unat (basep (world s))"
    using assms(1) by (simp add: span_ok_def word_le_nat_alt)
  have n: "unat (node s k) = unat (basep (world s)) + 8 * k" by (rule unat_node [OF unit_addr(1) [OF assms(2)]])
  have "unat (node s k) + 4 < 4294967296"
    using assms(2) unat_lt_32 [of "heap_top (world s)"] unfolding n unit_ok_def by linarith
  then have n4: "unat (node s k + 4) = unat (node s k) + 4" by (simp add: unat_word_ariths)
  have "arena_start s \<le> node s k" "arena_start s \<le> node s k + 4"
    using le by (simp_all add: word_le_nat_alt n n4)
  then show "arena s (node s k) = upos s k" "arena s (node s k + 4) = upos s k + 4"
    using le by (simp_all add: arena_def arena_start_def [symmetric] unat_sub n n4 upos_def)
qed

lemma upos_bound:
  assumes "span_ok s" "unit_ok s k" "rg_ptr (writable s) = Some bs"
  shows "upos s k + 8 \<le> length bs"
  using assms by (auto simp: span_ok_def unit_ok_def upos_def word_le_nat_alt)

text \<open>Four bytes of the buffer as a word.\<close>

definition word_in :: "u8 list \<Rightarrow> nat \<Rightarrow> u32" where
  "word_in bs i = le32 (bs ! i) (bs ! (i + 1)) (bs ! (i + 2)) (bs ! (i + 3))"

definition set_word :: "u8 list \<Rightarrow> nat \<Rightarrow> u32 \<Rightarrow> u8 list" where
  "set_word bs i v = bs[i := byte_of 0 v, i + 1 := byte_of 1 v, i + 2 := byte_of 2 v, i + 3 := byte_of 3 v]"

lemma length_set_word [simp]: "length (set_word bs i v) = length bs"
  by (simp add: set_word_def)

lemma word_in_set:
  "i + 4 \<le> length bs \<Longrightarrow> word_in (set_word bs i v) i = v"
  "j + 4 \<le> i \<or> i + 4 \<le> j \<Longrightarrow> word_in (set_word bs i v) j = word_in bs j"
  by (auto simp: word_in_def set_word_def nth_list_update le32_bytes [simplified])

lemma set_word_other: "j < i \<or> i + 4 \<le> j \<Longrightarrow> set_word bs i v ! j = bs ! j"
  by (auto simp: set_word_def nth_list_update)

lemma heap_ld_word:
  "rg_ptr (writable s) = Some bs \<Longrightarrow> arena s a + 4 \<le> length bs \<Longrightarrow> heap_ld s a = Some (word_in bs (arena s a))"
  by (simp add: heap_ld_def region_rd_def word_in_def)

definition with_bytes :: "'u rvm \<Rightarrow> u8 list \<Rightarrow> 'u rvm" where
  "with_bytes s bs = s\<lparr>writable := (writable s)\<lparr>rg_ptr := Some bs\<rparr>\<rparr>"

lemma with_bytes_simps [simp]:
  "world (with_bytes s bs) = world s" "rg_ptr (writable (with_bytes s bs)) = Some bs"
  "regs (with_bytes s bs) = regs s" "pc (with_bytes s bs) = pc s" "readonly (with_bytes s bs) = readonly s"
  "rg_len (writable (with_bytes s bs)) = rg_len (writable s)"
  "rg_base (writable (with_bytes s bs)) = rg_base (writable s)"
  "inst (with_bytes s bs) = inst s" "with_bytes (with_bytes s bs) bs' = with_bytes s bs'"
  by (simp_all add: with_bytes_def)

lemma heap_st_word:
  "rg_ptr (writable s) = Some bs \<Longrightarrow> arena s a + 4 \<le> length bs \<Longrightarrow>
     heap_st s a v = Some (with_bytes s (set_word bs (arena s a) v))"
  by (simp add: heap_st_def region_wr_def set_word_def with_bytes_def arena_def)

section \<open>One header changed\<close>

text \<open>What the allocator never writes: everything but the writable bytes and its own two fields.\<close>

definition outside ::
  "'u rvm \<Rightarrow> (reg \<Rightarrow> u32) \<times> u32 \<times> u32 \<times> region \<times> u32 \<times> u32 \<times> 'u prun" where
  "outside s = (regs s, pc s, inst s, readonly s, rg_len (writable s), rg_base (writable s),
     (world s)\<lparr>freep := 0, heap_brk := 0\<rparr>)"

text \<open>\<open>touches s s' W\<close>: from \<open>s\<close> to \<open>s'\<close> only bytes of the units in \<open>W\<close> were written.\<close>

definition touches :: "'u rvm \<Rightarrow> 'u rvm \<Rightarrow> nat set \<Rightarrow> bool" where
  "touches s s' W =
     (outside s' = outside s \<and> (\<exists>bs bs'. rg_ptr (writable s) = Some bs \<and> rg_ptr (writable s') = Some bs' \<and>
        length bs' = length bs \<and>
        (\<forall>i. bs' ! i \<noteq> bs ! i \<longrightarrow> (\<exists>k \<in> W. upos s k \<le> i \<and> i < upos s k + 8))))"

lemma outside_same:
  assumes "outside s' = outside s"
  shows "basep (world s') = basep (world s)" "heap_top (world s') = heap_top (world s)"
    "stack_len (world s') = stack_len (world s)"
proof -
  have "(world s')\<lparr>freep := 0, heap_brk := 0\<rparr> = (world s)\<lparr>freep := 0, heap_brk := 0\<rparr>"
    using assms by (simp add: outside_def)
  from arg_cong [OF this, of basep] arg_cong [OF this, of heap_top] arg_cong [OF this, of stack_len]
  show "basep (world s') = basep (world s)" "heap_top (world s') = heap_top (world s)"
    "stack_len (world s') = stack_len (world s)" by simp_all
qed

lemma outside_heap:
  assumes "outside s' = outside s"
  shows "node s' = node s" "unit_ok s' = unit_ok s" "upos s' = upos s" "arena s' = arena s"
    "arena_start s' = arena_start s"
  using outside_same [OF assms] by (simp_all add: node_def unit_ok_def upos_def arena_def arena_start_def fun_eq_iff)

lemma touches_outside: "touches s s' W \<Longrightarrow> outside s' = outside s"
  by (simp add: touches_def)

lemmas touches_heap = outside_heap [OF touches_outside]

lemma touches_refl: "span_ok s \<Longrightarrow> touches s s W"
  by (auto simp: touches_def span_ok_def)

lemma touches_trans:
  assumes "touches s s1 V" "touches s1 s2 W"
  shows "touches s s2 (V \<union> W)"
proof -
  obtain bs bs1 where b1: "rg_ptr (writable s) = Some bs" "rg_ptr (writable s1) = Some bs1"
      "length bs1 = length bs"
      "\<forall>i. bs1 ! i \<noteq> bs ! i \<longrightarrow> (\<exists>k \<in> V. upos s k \<le> i \<and> i < upos s k + 8)"
    using assms(1) unfolding touches_def by blast
  obtain bs1' bs2 where b2: "rg_ptr (writable s1) = Some bs1'" "rg_ptr (writable s2) = Some bs2"
      "length bs2 = length bs1'"
      "\<forall>i. bs2 ! i \<noteq> bs1' ! i \<longrightarrow> (\<exists>k \<in> W. upos s1 k \<le> i \<and> i < upos s1 k + 8)"
    using assms(2) unfolding touches_def by blast
  have e: "bs1' = bs1" using b1(2) b2(1) by simp
  have "\<forall>i. bs2 ! i \<noteq> bs ! i \<longrightarrow> (\<exists>k \<in> V \<union> W. upos s k \<le> i \<and> i < upos s k + 8)"
    using b1(4) b2(4) unfolding e touches_heap(3) [OF assms(1)] by (metis UnCI)
  moreover have "outside s2 = outside s" using assms by (simp add: touches_def)
  ultimately show ?thesis using b1(1,3) b2(2,3) unfolding touches_def e by metis
qed

lemma touches_mono:
  assumes "touches s s' V" "V \<subseteq> W"
  shows "touches s s' W"
  using assms(1) subsetD [OF assms(2)] unfolding touches_def by metis

lemma touches_span:
  assumes "touches s s' W" "span_ok s"
  shows "span_ok s'"
  using assms(2) touches_heap(5) [OF assms(1)] outside_same [OF touches_outside [OF assms(1)]] assms(1)
  unfolding span_ok_def touches_def by auto

lemma touches_set:
  assumes "rg_ptr (writable s) = Some bs" "upos s k \<le> i" "i + 4 \<le> upos s k + 8"
  shows "touches s (with_bytes s (set_word bs i v)) {k}"
proof -
  have "\<forall>j. set_word bs i v ! j \<noteq> bs ! j \<longrightarrow> (\<exists>l \<in> {k}. upos s l \<le> j \<and> j < upos s l + 8)"
  proof (intro allI impI)
    fix j assume "set_word bs i v ! j \<noteq> bs ! j"
    then have "i \<le> j" "j < i + 4" using set_word_other [of j i bs v] by (meson leI)+
    with assms(2,3) show "\<exists>l \<in> {k}. upos s l \<le> j \<and> j < upos s l + 8" by simp
  qed
  then show ?thesis using assms(1) by (simp add: touches_def outside_def)
qed

text \<open>Setting a header field: the field has the value, every other one is as before.\<close>

lemma set_next_node:
  assumes "span_ok s" "unit_ok s k"
  obtains s' where "set_next s (node s k) v = Some s'" "touches s s' {k}" "span_ok s'"
    "world s' = world s"
    "\<And>j. unit_ok s j \<Longrightarrow> nx s' j = (if j = k then Some v else nx s j)"
    "\<And>j. unit_ok s j \<Longrightarrow> sz s' j = sz s j"
proof -
  obtain bs where bs: "rg_ptr (writable s) = Some bs" using assms(1) by (auto simp: span_ok_def)
  let ?s = "with_bytes s (set_word bs (upos s k) v)"
  have pos: "\<And>j. unit_ok s j \<Longrightarrow> upos s j + 8 \<le> length bs" using upos_bound assms(1) bs by blast
  note an = arena_node [OF assms(1)]
  have n: "node ?s = node s" "arena ?s = arena s" by (simp_all add: node_def arena_def fun_eq_iff)
  have st: "set_next s (node s k) v = Some ?s"
    using heap_st_word [OF bs, of "node s k" v] an(1) [OF assms(2)] pos [OF assms(2)] by simp
  have tch: "touches s ?s {k}"
    by (rule touches_set [OF bs]) simp_all
  have ld: "nx ?s j = (if j = k then Some v else nx s j) \<and> sz ?s j = sz s j" if j: "unit_ok s j" for j
  proof -
    have far: "upos s j + 8 \<le> upos s k \<or> upos s k + 8 \<le> upos s j" if "j \<noteq> k"
      using that by (auto simp: upos_def)
    show ?thesis
      using heap_ld_word [of ?s _ "node s j"] heap_ld_word [of ?s _ "node s j + 4"]
        heap_ld_word [OF bs, of "node s j"] heap_ld_word [OF bs, of "node s j + 4"]
        an [OF j] pos [OF j] n far word_in_set(1) [of "upos s k" bs v]
        word_in_set(2) [where i = "upos s k" and bs = bs and v = v]
      by (cases "j = k") auto
  qed
  show ?thesis
    by (rule that [OF st tch touches_span [OF tch assms(1)]]) (use ld in auto)
qed

lemma set_size_node:
  assumes "span_ok s" "unit_ok s k"
  obtains s' where "set_size s (node s k) v = Some s'" "touches s s' {k}" "span_ok s'"
    "world s' = world s"
    "\<And>j. unit_ok s j \<Longrightarrow> sz s' j = (if j = k then Some v else sz s j)"
    "\<And>j. unit_ok s j \<Longrightarrow> nx s' j = nx s j"
proof -
  obtain bs where bs: "rg_ptr (writable s) = Some bs" using assms(1) by (auto simp: span_ok_def)
  let ?s = "with_bytes s (set_word bs (upos s k + 4) v)"
  have pos: "\<And>j. unit_ok s j \<Longrightarrow> upos s j + 8 \<le> length bs" using upos_bound assms(1) bs by blast
  note an = arena_node [OF assms(1)]
  have n: "node ?s = node s" "arena ?s = arena s" by (simp_all add: node_def arena_def fun_eq_iff)
  have st: "set_size s (node s k) v = Some ?s"
    using heap_st_word [OF bs, of "node s k + 4" v] an(2) [OF assms(2)] pos [OF assms(2)] by simp
  have tch: "touches s ?s {k}"
    by (rule touches_set [OF bs]) simp_all
  have ld: "sz ?s j = (if j = k then Some v else sz s j) \<and> nx ?s j = nx s j" if j: "unit_ok s j" for j
  proof -
    have far: "upos s j + 8 \<le> upos s k \<or> upos s k + 8 \<le> upos s j" if "j \<noteq> k"
      using that by (auto simp: upos_def)
    show ?thesis
      using heap_ld_word [of ?s _ "node s j"] heap_ld_word [of ?s _ "node s j + 4"]
        heap_ld_word [OF bs, of "node s j"] heap_ld_word [OF bs, of "node s j + 4"]
        an [OF j] pos [OF j] n far word_in_set(1) [of "upos s k + 4" bs v]
        word_in_set(2) [where i = "upos s k + 4" and bs = bs and v = v]
      by (cases "j = k") auto
  qed
  show ?thesis
    by (rule that [OF st tch touches_span [OF tch assms(1)]]) (use ld in auto)
qed

section \<open>The blocks and the ring\<close>

text \<open>The blocks from the one after the base node on: their units, and whether they are free.\<close>

type_synonym layout = "(nat \<times> bool) list"

definition units :: "layout \<Rightarrow> nat" where
  "units L = sum_list (map fst L)"

lemma units_simps [simp]:
  "units [] = 0" "units (b # L) = fst b + units L" "units (L @ M) = units L + units M"
  by (simp_all add: units_def)

fun place :: "nat \<Rightarrow> layout \<Rightarrow> (nat \<times> nat \<times> bool) list" where
  "place k [] = []"
| "place k ((u, f) # L) = (k, u, f) # place (k + u) L"

fun free_at :: "nat \<Rightarrow> layout \<Rightarrow> nat list" where
  "free_at k [] = []"
| "free_at k ((u, f) # L) = (if f then [k] else []) @ free_at (k + u) L"

definition nodes :: "layout \<Rightarrow> nat list" where
  "nodes L = 0 # free_at 1 L"

lemma place_append [simp]: "place k (L @ M) = place k L @ place (k + units L) M"
  by (induction k L rule: place.induct) (simp_all add: add.assoc)

lemma free_at_append [simp]: "free_at k (L @ M) = free_at k L @ free_at (k + units L) M"
  by (induction k L rule: free_at.induct) (simp_all add: add.assoc)

lemma free_at_range:
  "list_all (\<lambda>(u, f). 0 < u) L \<Longrightarrow> i \<in> set (free_at k L) \<Longrightarrow> k \<le> i \<and> i < k + units L"
  by (induction k L rule: free_at.induct) (force split: if_splits)+

lemma free_at_sorted: "list_all (\<lambda>(u, f). 0 < u) L \<Longrightarrow> sorted_wrt (<) (free_at k L)"
  by (induction k L rule: free_at.induct) (auto dest!: free_at_range)

lemma free_at_place: "i \<in> set (free_at k L) \<longleftrightarrow> (\<exists>u. (i, u, True) \<in> set (place k L))"
  by (induction k L rule: free_at.induct) auto

text \<open>Consecutive nodes linked, the last one to \<open>z\<close>.\<close>

fun links :: "'u rvm \<Rightarrow> nat list \<Rightarrow> nat \<Rightarrow> bool" where
  "links s [] z = True"
| "links s (x # xs) z = (nx s x = Some (node s (hd (xs @ [z]))) \<and> links s xs z)"

lemma links_append: "links s (xs @ ys) z \<longleftrightarrow> links s xs (hd (ys @ [z])) \<and> links s ys z"
  by (induction xs) (auto simp: hd_append)

lemma links_cong:
  "(\<And>x. x \<in> set xs \<Longrightarrow> nx s' x = nx s x) \<Longrightarrow> node s' = node s \<Longrightarrow> links s' xs z = links s xs z"
  by (induction xs) auto

text \<open>The invariant of the allocator.\<close>

definition heap_ok :: "'u rvm \<Rightarrow> layout \<Rightarrow> bool" where
  "heap_ok s L =
     (span_ok s \<and> list_all (\<lambda>(u, f). 0 < u) L \<and>
      unat (heap_brk (world s)) = unat (basep (world s)) + 8 * (1 + units L) \<and>
      heap_brk (world s) \<le> heap_top (world s) \<and>
      sz s 0 = Some 0 \<and> (\<forall>(k, u, f) \<in> set (place 1 L). sz s k = Some (of_nat u)) \<and>
      links s (nodes L) 0 \<and> (\<exists>k \<in> set (nodes L). freep (world s) = node s k))"

lemma heap_addr: "heap_ok s L \<Longrightarrow> k \<le> 1 + units L \<Longrightarrow> addr_ok s k"
  by (auto simp: heap_ok_def addr_ok_def word_le_nat_alt)

lemma heap_unit: "heap_ok s L \<Longrightarrow> k \<le> units L \<Longrightarrow> unit_ok s k"
  using heap_addr [of s L "Suc k"] by (simp add: unit_addr(2))

lemma nodes_unit: "heap_ok s L \<Longrightarrow> k \<in> set (nodes L) \<Longrightarrow> unit_ok s k"
  using free_at_range [of L k 1] by (auto simp: nodes_def heap_ok_def intro!: heap_unit [of s L])

lemma nodes_sorted: "heap_ok s L \<Longrightarrow> sorted_wrt (<) (nodes L)"
  using free_at_sorted [of L 1] by (auto simp: heap_ok_def nodes_def dest: free_at_range)

section \<open>Where a freed block belongs\<close>

lemma free_find_step:
  assumes "nx s x = Some (node s y)" "addr_ok s x" "addr_ok s y" "addr_ok s b"
  shows "free_find s (node s b) (node s x) =
    (if x < b \<and> b < y then Some (node s x)
     else if y \<le> x \<and> (x < b \<or> b < y) then Some (node s x) else free_find s (node s b) (node s y))"
  by (subst free_find.simps) (use assms in \<open>simp add: node_less not_less [symmetric]\<close>)

lemma free_find_low:
  assumes "links s (P1 @ x # P2 @ Q) 0" "sorted_wrt (<) (P1 @ x # P2 @ Q)"
    and "\<forall>k \<in> set (P1 @ x # P2 @ Q). addr_ok s k" "addr_ok s b" "addr_ok s 0"
    and "\<forall>k \<in> set (x # P2). k < b" "\<forall>k \<in> set Q. b < k"
  shows "free_find s (node s b) (node s x) = Some (node s (last (x # P2)))"
  using assms(1-3,6)
proof (induction P2 arbitrary: P1 x)
  case Nil
  have nx: "nx s x = Some (node s (hd (Q @ [0])))" using Nil(1) by (simp add: links_append)
  show ?case
    using free_find_step [OF nx] Nil assms(4,5,7) by (cases Q) auto
next
  case (Cons y P2)
  have nx: "nx s x = Some (node s y)" using Cons.prems(1) by (simp add: links_append)
  have "x < y" "y < b" using Cons.prems(2,4) by (auto simp: sorted_wrt_append)
  then have "free_find s (node s b) (node s x) = free_find s (node s b) (node s y)"
    using free_find_step [OF nx] Cons.prems(3) assms(4) by auto
  with Cons.IH [of "P1 @ [x]" y] Cons.prems show ?case by simp
qed

lemma free_find_high:
  assumes "links s (P @ Q1 @ x # Q2) 0" "sorted_wrt (<) (P @ Q1 @ x # Q2)" "P \<noteq> []" "hd P = 0"
    and "\<forall>k \<in> set (P @ Q1 @ x # Q2). addr_ok s k" "addr_ok s b"
    and "\<forall>k \<in> set P. k < b" "\<forall>k \<in> set (Q1 @ x # Q2). b < k"
  shows "free_find s (node s b) (node s x) = Some (node s (last P))"
  using assms(1,2,5,8)
proof (induction Q2 arbitrary: Q1 x)
  case Nil
  have nx: "nx s x = Some (node s 0)" using Nil(1) by (simp add: links_append)
  have z: "addr_ok s 0" using assms(3-5) by (metis hd_in_set UnCI set_append)
  have "free_find s (node s b) (node s x) = free_find s (node s b) (node s 0)"
    using free_find_step [OF nx _ z assms(6)] Nil(3,4) by auto
  also obtain P2 where P: "P = 0 # P2" using assms(3,4) by (cases P) auto
  have "free_find s (node s b) (node s 0) = Some (node s (last (0 # P2)))"
    by (rule free_find_low [of s "[]" 0 P2 "Q1 @ [x]" b])
      (use Nil assms(6,7) z in \<open>simp_all add: P\<close>)
  finally show ?case by (simp add: P)
next
  case (Cons y Q2)
  have nx: "nx s x = Some (node s y)" using Cons.prems(1) by (simp add: links_append)
  have "x < y" "b < x" using Cons.prems(2,4) by (auto simp: sorted_wrt_append)
  then have "free_find s (node s b) (node s x) = free_find s (node s b) (node s y)"
    using free_find_step [OF nx] Cons.prems(3) assms(6) by auto
  with Cons.IH [of "Q1 @ [x]" y] Cons.prems show ?case by simp
qed

lemma free_find_ring:
  assumes "links s (P @ Q) 0" "sorted_wrt (<) (P @ Q)" "P \<noteq> []" "hd P = 0"
    and "\<forall>k \<in> set (P @ Q). addr_ok s k" "addr_ok s b"
    and "\<forall>k \<in> set P. k < b" "\<forall>k \<in> set Q. b < k" "x \<in> set (P @ Q)"
  shows "free_find s (node s b) (node s x) = Some (node s (last P))"
proof (cases "x \<in> set P")
  case True
  then obtain P1 P2 where P: "P = P1 @ x # P2" by (metis split_list)
  have z: "addr_ok s 0" using assms(3-5) by (metis hd_in_set UnCI set_append)
  show ?thesis
    using free_find_low [of s P1 x P2 Q b] assms z by (simp add: P)
next
  case False
  then obtain Q1 Q2 where "Q = Q1 @ x # Q2" using assms(9) by (auto dest: split_list)
  then show ?thesis using free_find_high [of s P Q1 x Q2 b] assms by simp
qed

section \<open>Joining\<close>

fun join_up :: "nat \<Rightarrow> layout \<Rightarrow> nat \<times> layout" where
  "join_up u ((v, True) # R) = (u + v, R)"
| "join_up u R = (u, R)"

lemma free_at_head:
  assumes "list_all (\<lambda>(u, f). 0 < u) R" "0 < k"
  shows "hd (free_at k R @ [0]) = k \<longleftrightarrow> (\<exists>v R'. R = (v, True) # R')"
proof (cases R)
  case (Cons x R')
  obtain v f where x: "x = (v, f)" by (cases x)
  show ?thesis
  proof (cases f)
    case False
    have "hd (free_at (k + v) R' @ [0]) \<noteq> k"
      using assms free_at_range [of R' "hd (free_at (k + v) R')" "k + v"]
      by (cases "free_at (k + v) R'") (auto simp: Cons x)
    with False show ?thesis by (simp add: Cons x)
  qed (simp add: Cons x)
qed (use assms(2) in simp)

lemma join_upper_ok:
  assumes "span_ok s" "unit_ok s b" "unit_ok s p" "p \<noteq> b" "0 < u" "addr_ok s (b + u + units R)"
    and "list_all (\<lambda>(u, f). 0 < u) R" "sz s b = Some (of_nat u)"
    and "nx s p = Some (node s (hd (free_at (b + u) R @ [0])))" "links s (free_at (b + u) R) 0"
    and "\<forall>(k, v, f) \<in> set (place (b + u) R). sz s k = Some (of_nat v)"
    and "join_up u R = (u', R')"
  obtains s1 where "join_upper s (node s b) (node s p) = Some s1" "touches s s1 {b}" "span_ok s1"
    "world s1 = world s" "sz s1 b = Some (of_nat u')"
    "nx s1 b = Some (node s (hd (free_at (b + u') R' @ [0])))"
    "\<And>j. unit_ok s j \<Longrightarrow> j \<noteq> b \<Longrightarrow> nx s1 j = nx s j \<and> sz s1 j = sz s j"
proof (cases "\<exists>v T. R = (v, True) # T")
  case False
  let ?t = "hd (free_at (b + u) R @ [0])"
  have "?t \<le> b + u + units R"
    using free_at_range [OF assms(7), of _ "b + u"] by (cases "free_at (b + u) R") (auto intro: less_imp_le)
  then have "addr_ok s ?t" "addr_ok s (b + u)" using addr_ok_le [OF assms(6)] by simp_all
  then have "node s (b + u) \<noteq> node s ?t"
    using node_eq [of s "b + u" ?t] free_at_head [OF assms(7), of "b + u"] assms(5) False by auto
  moreover obtain s1 where s1: "set_next s (node s b) (node s ?t) = Some s1" "touches s s1 {b}" "span_ok s1"
      "world s1 = world s" "\<And>j. unit_ok s j \<Longrightarrow> nx s1 j = (if j = b then Some (node s ?t) else nx s j)"
      "\<And>j. unit_ok s j \<Longrightarrow> sz s1 j = sz s j"
    using set_next_node [OF assms(1,2)] by metis
  ultimately have "join_upper s (node s b) (node s p) = Some s1"
    using assms(8,9) by (simp add: join_upper_def node_add)
  moreover have "u' = u" "R' = R" using assms(12) False by (auto elim!: join_up.elims)
  ultimately show ?thesis using s1 assms(2,8) that by simp
next
  case True
  then obtain v T where R: "R = (v, True) # T" by blast
  then have e: "u' = u + v" "R' = T" using assms(12) by auto
  let ?n = "b + u"
  let ?t = "hd (free_at (?n + v) T @ [0])"
  have v: "0 < v" using assms(7) by (simp add: R)
  have n: "unit_ok s ?n" using assms(6) addr_ok_le [of s "b + u + units R" "Suc ?n"] v by (simp add: R unit_addr(2))
  have sn: "sz s ?n = Some (of_nat v)" "nx s ?n = Some (node s ?t)" "nx s p = Some (node s ?n)"
    using assms(9-11) by (simp_all add: R)
  obtain s1 where s1: "set_size s (node s b) (of_nat u + of_nat v) = Some s1" "touches s s1 {b}" "span_ok s1"
      "world s1 = world s" "\<And>j. unit_ok s j \<Longrightarrow> sz s1 j = (if j = b then Some (of_nat u + of_nat v) else sz s j)"
      "\<And>j. unit_ok s j \<Longrightarrow> nx s1 j = nx s j"
    using set_size_node [OF assms(1,2)] by metis
  note h1 = touches_heap [OF s1(2)]
  obtain s2 where s2: "set_next s1 (node s b) (node s ?t) = Some s2" "touches s1 s2 {b}" "span_ok s2"
      "world s2 = world s1" "\<And>j. unit_ok s j \<Longrightarrow> nx s2 j = (if j = b then Some (node s ?t) else nx s1 j)"
      "\<And>j. unit_ok s j \<Longrightarrow> sz s2 j = sz s1 j"
    using set_next_node [OF s1(3), of b] assms(2) unfolding h1(1,2) by metis
  have "nx s1 p = Some (node s ?n)" "nx s1 ?n = Some (node s ?t)"
    using s1(6) [OF assms(3)] s1(6) [OF n] sn by (simp_all add: h1)
  then have "join_upper s (node s b) (node s p) = Some s2"
    using sn assms(8) s1(1) s2(1) by (simp add: join_upper_def node_add h1)
  moreover have "touches s s2 {b}" using touches_trans [OF s1(2) s2(2)] by simp
  moreover have "sz s2 b = Some (of_nat u')" "nx s2 b = Some (node s ?t)"
    using s2(5,6) [OF assms(2)] s1(5) [OF assms(2)] touches_heap(1) [OF s2(2)] by (simp_all add: h1 e)
  moreover have "nx s2 j = nx s j \<and> sz s2 j = sz s j" if "unit_ok s j" "j \<noteq> b" for j
    using s2(5,6) [OF that(1)] s1(5,6) [OF that(1)] that(2) touches_heap(1) [OF s2(2)] by (simp add: h1)
  ultimately show ?thesis using that s2(3,4) s1(4) by (simp add: e add.assoc)
qed

lemma join_lower_ok:
  assumes "span_ok s" "unit_ok s b" "unit_ok s p" "p < b" "p + v \<le> b"
    and "sz s p = Some (of_nat v)" "sz s b = Some (of_nat u)" "nx s b = Some t"
  obtains s1 where "join_lower s (node s b) (node s p) = Some s1" "touches s s1 {p}" "span_ok s1"
    "world s1 = world s"
    "sz s1 p = Some (of_nat (if p + v = b then v + u else v))"
    "nx s1 p = Some (if p + v = b then t else node s b)"
    "\<And>j. unit_ok s j \<Longrightarrow> j \<noteq> p \<Longrightarrow> nx s1 j = nx s j \<and> sz s1 j = sz s j"
proof (cases "p + v = b")
  case False
  have "addr_ok s (p + v)" "addr_ok s b"
    using addr_ok_le [of s b] unit_addr(1) [OF assms(2)] assms(5) by simp_all
  then have "node s (p + v) \<noteq> node s b" using node_eq False by blast
  moreover obtain s1 where s1: "set_next s (node s p) (node s b) = Some s1" "touches s s1 {p}" "span_ok s1"
      "world s1 = world s" "\<And>j. unit_ok s j \<Longrightarrow> nx s1 j = (if j = p then Some (node s b) else nx s j)"
      "\<And>j. unit_ok s j \<Longrightarrow> sz s1 j = sz s j"
    using set_next_node [OF assms(1,3)] by metis
  ultimately have "join_lower s (node s b) (node s p) = Some s1"
    using assms(6) by (simp add: join_lower_def node_add)
  then show ?thesis using s1 assms(3,6) that False by simp
next
  case True
  obtain s1 where s1: "set_size s (node s p) (of_nat v + of_nat u) = Some s1" "touches s s1 {p}" "span_ok s1"
      "world s1 = world s" "\<And>j. unit_ok s j \<Longrightarrow> sz s1 j = (if j = p then Some (of_nat v + of_nat u) else sz s j)"
      "\<And>j. unit_ok s j \<Longrightarrow> nx s1 j = nx s j"
    using set_size_node [OF assms(1,3)] by metis
  note h1 = touches_heap [OF s1(2)]
  obtain s2 where s2: "set_next s1 (node s p) t = Some s2" "touches s1 s2 {p}" "span_ok s2"
      "world s2 = world s1" "\<And>j. unit_ok s j \<Longrightarrow> nx s2 j = (if j = p then Some t else nx s1 j)"
      "\<And>j. unit_ok s j \<Longrightarrow> sz s2 j = sz s1 j"
    using set_next_node [OF s1(3), of p] assms(3) unfolding h1(1,2) by metis
  have "nx s1 b = Some t" using s1(6) [OF assms(2)] assms(8) by simp
  then have "join_lower s (node s b) (node s p) = Some s2"
    using assms(6,7) s1(1) s2(1) True by (simp add: join_lower_def node_add h1)
  moreover have "touches s s2 {p}" using touches_trans [OF s1(2) s2(2)] by simp
  moreover have "sz s2 p = Some (of_nat (v + u))" "nx s2 p = Some t"
    using s2(5,6) [OF assms(3)] s1(5) [OF assms(3)] by simp_all
  moreover have "nx s2 j = nx s j \<and> sz s2 j = sz s j" if "unit_ok s j" "j \<noteq> p" for j
    using s2(5,6) [OF that(1)] s1(5,6) [OF that(1)] that(2) by simp
  ultimately show ?thesis using that s2(3,4) s1(4) True by simp
qed

section \<open>Freeing\<close>

text \<open>What \<open>free\<close> makes of the blocks: the freed one joined to its free neighbours.\<close>

definition freed :: "layout \<Rightarrow> nat \<Rightarrow> layout \<Rightarrow> layout" where
  "freed L u M =
     (case join_up u M of (u', R) \<Rightarrow>
        if L \<noteq> [] \<and> snd (last L) then butlast L @ (fst (last L) + u', True) # R else L @ (u', True) # R)"

lemma join_up_units: "join_up u R = (u', R') \<Longrightarrow> u' + units R' = u + units R"
  by (induction u R rule: join_up.induct) auto

lemma join_up_place:
  assumes "join_up u R = (u', R')"
  shows "set (place (k + u') R') \<subseteq> set (place (k + u) R)" "\<exists>xs. free_at (k + u) R = xs @ free_at (k + u') R'"
    "list_all P R \<Longrightarrow> list_all P R'" "0 < u \<Longrightarrow> 0 < u'"
  using assms by (auto simp: add.assoc elim!: join_up.elims intro: exI [of _ "[]"] exI [of _ "[k + u]"])

lemma units_freed: "units (freed L u M) = units L + u + units M"
proof -
  obtain u' R where j: "join_up u M = (u', R)" by fastforce
  have "L \<noteq> [] \<Longrightarrow> units L = units (butlast L) + fst (last L)"
    by (cases L rule: rev_cases) auto
  then show ?thesis using join_up_units [OF j] by (auto simp: freed_def j)
qed

text \<open>The last free node below a block, and its size.\<close>

lemma place_range:
  "list_all (\<lambda>(u, f). 0 < u) L \<Longrightarrow> (k, v, f) \<in> set (place m L) \<Longrightarrow> m \<le> k \<and> 0 < v \<and> k + v \<le> m + units L"
  by (induction m L rule: place.induct) force+

lemma last_node:
  assumes "list_all (\<lambda>(u, f). 0 < u) L" "p = last (nodes L)"
  shows "p < 1 + units L"
    and "\<not> (L \<noteq> [] \<and> snd (last L)) \<Longrightarrow> p = 0 \<or> (\<exists>v. (p, v, True) \<in> set (place 1 L) \<and> p + v < 1 + units L)"
    and "L \<noteq> [] \<Longrightarrow> snd (last L) \<Longrightarrow> p = 1 + units (butlast L) \<and> nodes L = nodes (butlast L) @ [p]"
proof -
  have p: "p \<in> set (nodes L)" using assms(2) by (simp add: nodes_def)
  then have in_L: "p = 0 \<or> p \<in> set (free_at 1 L)" by (simp add: nodes_def)
  then show "p < 1 + units L" using free_at_range [OF assms(1), of p 1] by auto
  show "p = 1 + units (butlast L) \<and> nodes L = nodes (butlast L) @ [p]" if c: "L \<noteq> []" "snd (last L)"
  proof -
    obtain M v where L: "L = M @ [(v, True)]" using c by (cases L rule: rev_cases) auto
    show ?thesis by (simp add: L nodes_def assms(2))
  qed
  show "p = 0 \<or> (\<exists>v. (p, v, True) \<in> set (place 1 L) \<and> p + v < 1 + units L)" if c: "\<not> (L \<noteq> [] \<and> snd (last L))"
  proof (cases L rule: rev_cases)
    case Nil
    then show ?thesis using assms(2) by (simp add: nodes_def)
  next
    case (snoc M x)
    then obtain v where L: "L = M @ [(v, False)]" "0 < v" using c assms(1) by (cases x) auto
    have M: "list_all (\<lambda>(u, f). 0 < u) M" using assms(1) by (simp add: L)
    show ?thesis
    proof (cases "p = 0")
      case False
      then obtain w where w: "(p, w, True) \<in> set (place 1 M)" using in_L by (auto simp: L free_at_place)
      then have "p + w < 1 + units L" using place_range [OF M w] L by simp
      with w show ?thesis by (auto simp: L)
    qed simp
  qed
qed

lemma freep_upd:
  fixes s :: "'u rvm" and x :: u32
  defines "s' \<equiv> upd_run (\<lambda>r. r\<lparr>freep := x\<rparr>) s"
  shows "node s' = node s" "heap_ld s' = heap_ld s" "span_ok s' = span_ok s" "unit_ok s' = unit_ok s"
    "addr_ok s' = addr_ok s"
    "touches s0 s W \<Longrightarrow> touches s0 s' W" "freep (world s') = x" "heap_brk (world s') = heap_brk (world s)"
    "basep (world s') = basep (world s)" "heap_top (world s') = heap_top (world s)"
  by (simp_all add: s'_def upd_run_def node_def heap_ld_def arena_def span_ok_def unit_ok_def addr_ok_def
      arena_start_def touches_def outside_def fun_eq_iff)

lemma links_upd: "links (upd_run (\<lambda>r. r\<lparr>freep := x\<rparr>) s) xs z = links s xs z"
  by (induction xs) (simp_all add: freep_upd)

text \<open>The ring around a freed block: the nodes below it, the last of them, and those above.\<close>

lemma heap_split:
  assumes "heap_ok s (L @ (u, False) # M)" "b = 1 + units L" "p = last (nodes L)"
  shows "list_all (\<lambda>(u, f). 0 < u) L" "list_all (\<lambda>(u, f). 0 < u) M" "0 < u"
    "nodes (L @ (u, False) # M) = nodes L @ free_at (b + u) M" "nodes L = butlast (nodes L) @ [p]"
    "\<forall>k \<in> set (nodes L). k < b" "\<forall>k \<in> set (free_at (b + u) M). b < k"
    "\<forall>k \<in> set (butlast (nodes L)). k < p"
    "unit_ok s b" "unit_ok s p" "addr_ok s (b + u + units M)" "p < b"
    "sz s b = Some (of_nat u)" "\<forall>(k, v, f) \<in> set (place (b + u) M). sz s k = Some (of_nat v)"
    "\<forall>(k, v, f) \<in> set (place 1 L). sz s k = Some (of_nat v)"
    "links s (nodes L) (hd (free_at (b + u) M @ [0]))" "links s (free_at (b + u) M) 0"
proof -
  note ok = assms(1)
  show pos: "list_all (\<lambda>(u, f). 0 < u) L" "list_all (\<lambda>(u, f). 0 < u) M" "0 < u"
    using ok by (simp_all add: heap_ok_def)
  show n: "nodes (L @ (u, False) # M) = nodes L @ free_at (b + u) M" by (simp add: nodes_def assms(2))
  show pl: "nodes L = butlast (nodes L) @ [p]" by (simp add: assms(3) nodes_def)
  show "p < b" using last_node(1) [OF pos(1) assms(3)] assms(2) by simp
  show "\<forall>k \<in> set (nodes L). k < b" using free_at_range [OF pos(1), of _ 1] assms(2) by (auto simp: nodes_def)
  show "\<forall>k \<in> set (free_at (b + u) M). b < k"
    using pos(3) by (fastforce dest!: free_at_range [OF pos(2)])
  have "sorted_wrt (<) (nodes L)" using nodes_sorted [OF ok] by (simp add: n sorted_wrt_append)
  then have "sorted_wrt (<) (butlast (nodes L) @ [p])" using pl by simp
  then show "\<forall>k \<in> set (butlast (nodes L)). k < p" by (simp add: sorted_wrt_append)
  show "unit_ok s b" using heap_unit [OF ok, of b] pos(3) assms(2) by simp
  have "p \<in> set (nodes L)" using assms(3) by (simp add: nodes_def)
  then show "unit_ok s p" using nodes_unit [OF ok, of p] by (simp add: n)
  show "addr_ok s (b + u + units M)" using heap_addr [OF ok] assms(2) by simp
  show "sz s b = Some (of_nat u)" "\<forall>(k, v, f) \<in> set (place (b + u) M). sz s k = Some (of_nat v)"
    "\<forall>(k, v, f) \<in> set (place 1 L). sz s k = Some (of_nat v)"
    using ok by (simp_all add: heap_ok_def assms(2) ball_Un)
  show "links s (nodes L) (hd (free_at (b + u) M @ [0]))" "links s (free_at (b + u) M) 0"
    using ok n by (simp_all add: heap_ok_def links_append)
qed

lemma last_size:
  assumes "heap_ok s (L @ (u, False) # M)" "b = 1 + units L" "p = last (nodes L)"
  shows "\<exists>v. sz s p = Some (of_nat v) \<and> p + v \<le> b \<and> (p + v = b \<longleftrightarrow> L \<noteq> [] \<and> snd (last L)) \<and>
    (L \<noteq> [] \<and> snd (last L) \<longrightarrow> v = fst (last L))"
proof (cases "L \<noteq> [] \<and> snd (last L)")
  case True
  then obtain K w where L: "L = K @ [(w, True)]" by (cases L rule: rev_cases) auto
  have "p = 1 + units K" by (simp add: assms(3) L nodes_def)
  then show ?thesis
    using heap_split(15) [OF assms] assms(2) by (auto simp: L intro!: exI [of _ w])
next
  case False
  have sz0: "sz s 0 = Some (of_nat 0)" using assms(1) by (simp add: heap_ok_def)
  show ?thesis
  proof (cases "p = 0")
    case True
    then show ?thesis using False sz0 assms(2) by (intro exI [of _ 0]) auto
  next
    case nz: False
    then obtain v where v: "(p, v, True) \<in> set (place 1 L)" "p + v < 1 + units L"
      using last_node(2) [OF heap_split(1) [OF assms] assms(3) False] by auto
    with heap_split(15) [OF assms] False assms(2) show ?thesis
      by (intro exI [of _ v]) auto
  qed
qed

lemma freed_ok:
  fixes s s2 :: "'u rvm"
  assumes "heap_ok s (L @ (u, False) # M)" "b = 1 + units L" "p = last (nodes L)" "join_up u M = (u', R)"
    and "sz s p = Some (of_nat v)" "p + v \<le> b" "p + v = b \<longleftrightarrow> L \<noteq> [] \<and> snd (last L)"
      "L \<noteq> [] \<and> snd (last L) \<Longrightarrow> v = fst (last L)"
    and "node s2 = node s" "world s2 = world s" "span_ok s2"
    and old: "\<And>k. unit_ok s k \<Longrightarrow> k \<noteq> b \<Longrightarrow> k \<noteq> p \<Longrightarrow> nx s2 k = nx s k \<and> sz s2 k = sz s k"
    and "sz s2 p = Some (of_nat (if p + v = b then v + u' else v))"
      "nx s2 p = Some (if p + v = b then node s (hd (free_at (b + u') R @ [0])) else node s b)"
    and new: "sz s2 b = Some (of_nat u')" "nx s2 b = Some (node s (hd (free_at (b + u') R @ [0])))"
  shows "heap_ok (upd_run (\<lambda>r. r\<lparr>freep := node s p\<rparr>) s2) (freed L u M)"
proof -
  let ?T = "L @ (u, False) # M" and ?s = "upd_run (\<lambda>r. r\<lparr>freep := node s p\<rparr>) s2"
  note ok = assms(1)
  note sp = heap_split [OF assms(1-3)]
  have unit: "unit_ok s k" if "k < b + u + units M" for k
    using heap_unit [OF ok, of k] that assms(2) by simp
  have below: "sz s2 k = Some (of_nat w)" if "(k, w, f) \<in> set (place 1 L)" "k \<noteq> p" for k w f
    using old [of k] unit [of k] sp(15) that place_range [OF sp(1) that(1)] assms(2) by auto
  have above: "sz s2 k = Some (of_nat w)" if "(k, w, f) \<in> set (place (b + u') R)" for k w f
  proof -
    have k: "(k, w, f) \<in> set (place (b + u) M)" using join_up_place(1) [OF assms(4)] that by blast
    then have "b < k" "k < b + u + units M" using place_range [OF sp(2) k] sp(3) by auto
    then show ?thesis using old [of k] unit [of k] sp(12,14) k by auto
  qed
  have R: "list_all (\<lambda>(u, f). 0 < u) R" "0 < u'" using join_up_place(3,4) [OF assms(4)] sp(2,3) by auto
  have links_low: "links s2 (butlast (nodes L)) p"
  proof -
    have "links s (butlast (nodes L) @ [p]) (hd (free_at (b + u) M @ [0]))"
      unfolding sp(5) [symmetric] by (rule sp(16))
    moreover have "nx s2 k = nx s k" if "k \<in> set (butlast (nodes L))" for k
      using old [of k] unit [of k] sp(8,12) that by auto
    ultimately show ?thesis using links_cong [of "butlast (nodes L)" s2 s p] assms(9) by (simp add: links_append)
  qed
  have links_high: "links s2 (free_at (b + u') R) 0"
  proof -
    obtain xs where xs: "free_at (b + u) M = xs @ free_at (b + u') R" using join_up_place(2) [OF assms(4)] by blast
    then have "links s (free_at (b + u') R) 0" using sp(17) by (simp add: links_append)
    moreover have "nx s2 k = nx s k" if "k \<in> set (free_at (b + u') R)" for k
    proof -
      have k: "k \<in> set (free_at (b + u) M)" using that xs by simp
      then have "b < k" "k < b + u + units M" using sp(7) free_at_range [OF sp(2) k] by auto
      then show ?thesis using old [of k] unit [of k] sp(12) by auto
    qed
    ultimately show ?thesis using links_cong [of "free_at (b + u') R" s2 s 0] assms(9) by simp
  qed
  have P: "nodes L = butlast (nodes L) @ [p]" by (rule sp(5))
  have sz0: "p \<noteq> 0 \<Longrightarrow> sz s2 0 = Some 0"
    using old [of 0] unit [of 0] ok assms(2) sp(12) by (auto simp: heap_ok_def)
  have final: "heap_ok ?s N"
    if "links s2 (nodes N) 0" "\<forall>(k, w, f) \<in> set (place 1 N). sz s2 k = Some (of_nat w)"
      "sz s2 0 = Some 0" "list_all (\<lambda>(u, f). 0 < u) N" "units N = units L + u + units M" "p \<in> set (nodes N)" for N
    using ok that assms(10,11) by (auto simp: heap_ok_def freep_upd links_upd assms(9))
  show ?thesis
  proof (cases "p + v = b")
    case True
    then have j: "L \<noteq> []" "snd (last L)" "v = fst (last L)" using assms(7,8) by blast+
    obtain K where L: "L = K @ [(v, True)]" using j by (cases L rule: rev_cases) auto
    have pK: "p = 1 + units K" by (simp add: assms(3) L nodes_def)
    have F: "freed L u M = K @ (v + u', True) # R" using assms(4) by (simp add: freed_def L)
    have "butlast (nodes L) = nodes K" by (simp add: L nodes_def)
    then have n: "nodes (freed L u M) = butlast (nodes L) @ p # free_at (b + u') R"
      using True [symmetric] by (simp add: F nodes_def pK add.assoc)
    show ?thesis
    proof (rule final)
      show "links s2 (nodes (freed L u M)) 0"
        unfolding n using links_low links_high assms(14) True by (simp add: links_append assms(9))
      have "sz s2 k = Some (of_nat w)" if "(k, w, f) \<in> set (place 1 K)" for k w f
        using below [of k w f] that place_range [of K k w f 1] sp(1) pK by (auto simp: L)
      then show "\<forall>(k, w, f) \<in> set (place 1 (freed L u M)). sz s2 k = Some (of_nat w)"
        using above assms(13) True pK by (auto simp: F add.assoc)
      show "sz s2 0 = Some 0" by (rule sz0) (simp add: pK)
      show "list_all (\<lambda>(u, f). 0 < u) (freed L u M)" unfolding F using sp(1) R by (simp add: L)
    qed (simp_all add: units_freed n)
  next
    case False
    then have F: "freed L u M = L @ (u', True) # R" using assms(4,7) by (auto simp: freed_def)
    have "nodes (freed L u M) = nodes L @ b # free_at (b + u') R"
      by (simp add: F nodes_def assms(2))
    then have n: "nodes (freed L u M) = butlast (nodes L) @ p # b # free_at (b + u') R"
      by (subst (asm) P) simp
    show ?thesis
    proof (rule final)
      show "links s2 (nodes (freed L u M)) 0"
        unfolding n using links_low links_high assms(14) new(2) False by (simp add: links_append assms(9))
      have "sz s2 k = Some (of_nat w)" if "(k, w, f) \<in> set (place 1 L)" for k w f
        using below [OF that] sp(15) that assms(5,13) False by (cases "k = p") auto
      then show "\<forall>(k, w, f) \<in> set (place 1 (freed L u M)). sz s2 k = Some (of_nat w)"
        using above new(1) by (auto simp: F assms(2))
      show "sz s2 0 = Some 0"
        using sz0 ok assms(5,13) False by (cases "p = 0") (auto simp: heap_ok_def)
      show "list_all (\<lambda>(u, f). 0 < u) (freed L u M)" using sp(1) R by (simp add: F)
    qed (simp_all add: units_freed n)
  qed
qed

lemma purva_free_ok:
  assumes "heap_ok s (L @ (u, False) # M)" "b = 1 + units L"
  shows "\<exists>s'. purva_free s (node s b + PURVA_HUNIT) = Some s' \<and> heap_ok s' (freed L u M) \<and>
    touches s s' (insert b (set (nodes L)))"
proof -
  note ok = assms(1)
  define p where "p = last (nodes L)"
  note sp = heap_split [OF ok assms(2) p_def]
  have span: "span_ok s" using ok by (simp add: heap_ok_def)
  obtain x where x: "x \<in> set (nodes L @ free_at (b + u) M)" "freep (world s) = node s x"
    using ok sp(4) by (auto simp: heap_ok_def)
  have ring: "links s (nodes L @ free_at (b + u) M) 0" "sorted_wrt (<) (nodes L @ free_at (b + u) M)"
    using ok nodes_sorted [OF ok] unfolding sp(4) by (simp_all add: heap_ok_def sp(4))
  have start: "nodes L \<noteq> []" "hd (nodes L) = 0" by (simp_all add: nodes_def)
  have addr: "\<forall>k \<in> set (nodes L @ free_at (b + u) M). addr_ok s k"
    using nodes_unit [OF ok] sp(4) unit_addr(1) by metis
  have "free_find s (node s b) (node s x) = Some (node s p)"
    using free_find_ring [OF ring start addr unit_addr(1) [OF sp(9)] sp(6,7) x(1)] by (simp add: p_def)
  then have find: "free_find s (node s b) (freep (world s)) = Some (node s p)" using x(2) by simp
  obtain u' R where j: "join_up u M = (u', R)" by fastforce
  let ?t = "node s (hd (free_at (b + u') R @ [0]))"
  have "links s (butlast (nodes L) @ [p]) (hd (free_at (b + u) M @ [0]))"
    unfolding sp(5) [symmetric] by (rule sp(16))
  then have low: "links s (butlast (nodes L)) p"
    and nxp: "nx s p = Some (node s (hd (free_at (b + u) M @ [0])))"
    by (simp_all add: links_append)
  obtain s1 where s1: "join_upper s (node s b) (node s p) = Some s1" "touches s s1 {b}" "span_ok s1"
    "world s1 = world s" "sz s1 b = Some (of_nat u')" "nx s1 b = Some ?t"
    "\<And>j. unit_ok s j \<Longrightarrow> j \<noteq> b \<Longrightarrow> nx s1 j = nx s j \<and> sz s1 j = sz s j"
    using join_upper_ok [OF span sp(9,10) less_imp_neq [OF sp(12)] sp(3,11,2,13) nxp sp(17,14) j] by blast
  note h1 = touches_heap [OF s1(2)]
  obtain v where v: "sz s p = Some (of_nat v)" "p + v \<le> b" "p + v = b \<longleftrightarrow> L \<noteq> [] \<and> snd (last L)"
      "L \<noteq> [] \<and> snd (last L) \<Longrightarrow> v = fst (last L)"
    using last_size [OF ok assms(2) p_def] by blast
  have a1: "addr_ok s1 = addr_ok s" using h1 outside_same [OF touches_outside [OF s1(2)]]
    by (simp add: addr_ok_def fun_eq_iff)
  have sp1: "sz s1 p = Some (of_nat v)" using s1(7) [OF sp(10)] sp(12) v(1) by simp
  obtain s2 where s2: "join_lower s1 (node s b) (node s p) = Some s2" "touches s1 s2 {p}" "span_ok s2"
    "world s2 = world s1" "sz s2 p = Some (of_nat (if p + v = b then v + u' else v))"
    "nx s2 p = Some (if p + v = b then ?t else node s b)"
    "\<And>j. unit_ok s j \<Longrightarrow> j \<noteq> p \<Longrightarrow> nx s2 j = nx s1 j \<and> sz s2 j = sz s1 j"
    using join_lower_ok [OF s1(3), of b p v u' ?t] sp(9,10,12) v(2) sp1 s1(5,6) unfolding h1(1,2) by blast
  let ?s = "upd_run (\<lambda>r. r\<lparr>freep := node s p\<rparr>) s2"
  have free: "purva_free s (node s b + PURVA_HUNIT) = Some ?s"
    using find s1(1) s2(1) by (simp add: purva_free_def)
  have t2: "touches s s2 {b, p}" using touches_trans [OF s1(2) s2(2)] by (simp add: insert_commute)
  then have "touches s ?s {b, p}" by (rule freep_upd(6))
  then have tch: "touches s ?s (insert b (set (nodes L)))"
    by (rule touches_mono) (auto simp: p_def nodes_def)
  have n2: "node s2 = node s" by (rule touches_heap(1) [OF t2])
  have old: "nx s2 k = nx s k \<and> sz s2 k = sz s k" if "unit_ok s k" "k \<noteq> b" "k \<noteq> p" for k
    using s1(7) [OF that(1,2)] s2(7) [OF that(1,3)] by simp
  have world: "world s2 = world s" using s1(4) s2(4) by simp
  have "heap_ok ?s (freed L u M)"
    by (rule freed_ok [OF ok assms(2) p_def j v n2 world s2(3) old s2(5,6)]) (use s1 s2(7) sp(9,12) in auto)
  with free tch show ?thesis by blast
qed

end
