(* ===== verification/Purva_Malloc.thy ===== *)
theory Purva_Malloc
  imports Purva_Heap
begin

text \<open>
  \<open>purva__morecore\<close>, \<open>purva__malloc\<close> and \<open>purva__realloc\<close> of \<open>emu/purva/purvarun.h\<close> over the blocks of
  \<open>Purva_Heap\<close>: the walk around the ring finds the first block that is large enough, the heap grows
  when none is, and what the live blocks hold stays. The contract is the locale \<open>block_allocator\<close>,
  interpreted on the model.
\<close>

section \<open>Growing the heap\<close>

lemma heap_node_nonzero:
  assumes "heap_ok s L" "k \<le> 1 + units L"
  shows "node s k \<noteq> 0"
proof -
  have "basep (world s) \<noteq> 0" using assms(1) by (simp add: heap_ok_def span_ok_def)
  then have "0 < unat (basep (world s))" by (simp add: unat_gt_0)
  then show ?thesis using unat_node [OF heap_addr [OF assms]] by auto
qed

lemma heap_freep:
  assumes "heap_ok s L"
  shows "freep (world s) \<noteq> 0"
proof -
  obtain k where k: "k \<in> set (nodes L)" "freep (world s) = node s k" using assms by (auto simp: heap_ok_def)
  have "list_all (\<lambda>(u, f). 0 < u) L" using assms by (simp add: heap_ok_def)
  then have "k \<le> 1 + units L" using k(1) free_at_range [of L k 1] by (auto simp: nodes_def)
  then show ?thesis using heap_node_nonzero [OF assms] k(2) by simp
qed

lemma freed_top: "freed L u [] = (if L \<noteq> [] \<and> snd (last L) then butlast L @ [(fst (last L) + u, True)] else L @ [(u, True)])"
  by (simp add: freed_def)

lemma brk_upd:
  fixes s :: "'u rvm" and x :: u32
  defines "s' \<equiv> upd_run (\<lambda>r. r\<lparr>heap_brk := x\<rparr>) s"
  shows "node s' = node s" "heap_ld s' = heap_ld s" "span_ok s' = span_ok s" "unit_ok s' = unit_ok s"
    "touches s' s1 W \<Longrightarrow> touches s s1 W" "heap_brk (world s') = x" "links s' xs z = links s xs z"
    "basep (world s') = basep (world s)" "heap_top (world s') = heap_top (world s)" "freep (world s') = freep (world s)"
proof -
  show n: "node s' = node s" "heap_ld s' = heap_ld s" "span_ok s' = span_ok s" "unit_ok s' = unit_ok s"
    "heap_brk (world s') = x" "basep (world s') = basep (world s)" "heap_top (world s') = heap_top (world s)"
    "freep (world s') = freep (world s)"
    by (simp_all add: s'_def upd_run_def node_def heap_ld_def arena_def span_ok_def unit_ok_def
      arena_start_def fun_eq_iff)
  show "links s' xs z = links s xs z" by (induction xs) (simp_all add: n)
  have "outside s' = outside s" "upos s' = upos s" "writable s' = writable s"
    by (simp_all add: s'_def upd_run_def outside_def upos_def arena_start_def fun_eq_iff)
  then show "touches s' s1 W \<Longrightarrow> touches s s1 W" by (simp add: touches_def)
qed

lemma heap_brk_node:
  assumes "heap_ok s L"
  shows "heap_brk (world s) = node s (1 + units L)"
  using unat_node [OF heap_addr [OF assms, of "1 + units L"]] assms
  by (simp add: word_unat_eq_iff heap_ok_def)

lemma heap_grow:
  fixes s :: "'u rvm"
  assumes ok: "heap_ok s L" and w: "0 < unat w"
    and room: "unat (basep (world s)) + 8 * (1 + units L + unat w) \<le> unat (heap_top (world s))"
    and s0: "s0 = upd_run (\<lambda>r. r\<lparr>heap_brk := heap_brk (world s) + w * PURVA_HUNIT\<rparr>) s"
  obtains s1 where "set_size s0 (heap_brk (world s)) w = Some s1" "touches s s1 {1 + units L}"
    "heap_ok s1 (L @ [(unat w, False)])" "node s1 = node s"
proof -
  let ?b = "1 + units L"
  note n0 = brk_upd [of "heap_brk (world s) + w * PURVA_HUNIT" s, folded s0]
  have unit: "unit_ok s k" if "k < ?b + unat w" for k using room that by (simp add: unit_ok_def)
  have span: "span_ok s0" using ok by (simp add: heap_ok_def n0)
  have "unit_ok s0 ?b" using unit [of ?b] w by (simp add: n0)
  from set_size_node [OF span this, of w] obtain s1 where
    s1: "set_size s0 (node s0 ?b) w = Some s1" "touches s0 s1 {?b}" "span_ok s1" "world s1 = world s0"
      "\<And>j. unit_ok s0 j \<Longrightarrow> sz s1 j = (if j = ?b then Some w else sz s0 j)"
      "\<And>j. unit_ok s0 j \<Longrightarrow> nx s1 j = nx s0 j" by blast
  have n1: "node s1 = node s" using touches_heap(1) [OF s1(2)] by (simp add: n0)
  have old: "nx s1 k = nx s k" "sz s1 k = sz s k" if "k < ?b" for k
    using s1(5,6) [of k] unit [of k] that by (simp_all add: n0)
  have new: "sz s1 ?b = Some w" using s1(5) [of ?b] unit [of ?b] w by (simp add: n0)
  have node_up: "heap_brk (world s) = node s0 ?b" using heap_brk_node [OF ok] by (simp add: n0)
  have "heap_brk (world s) + w * PURVA_HUNIT = node s (?b + unat w)"
    using node_add [of s ?b "unat w"] heap_brk_node [OF ok] by simp
  then have brk: "unat (heap_brk (world s1)) = unat (basep (world s)) + 8 * (?b + unat w)"
    using unat_node [of s "?b + unat w"] room by (simp add: s1(4) n0 addr_ok_def)
  have "heap_ok s1 (L @ [(unat w, False)])"
    unfolding heap_ok_def
  proof (intro conjI)
    show "unat (heap_brk (world s1)) = unat (basep (world s1)) + 8 * (1 + units (L @ [(unat w, False)]))"
      using brk by (simp add: s1(4) n0)
    show "heap_brk (world s1) \<le> heap_top (world s1)"
      using room brk by (simp add: word_le_nat_alt s1(4) n0)
    show "list_all (\<lambda>(u, f). 0 < u) (L @ [(unat w, False)])" using ok w by (simp add: heap_ok_def)
    show "sz s1 0 = Some 0" using old(2) [of 0] ok by (simp add: heap_ok_def)
    have "sz s1 k = Some (of_nat u)" if "(k, u, f) \<in> set (place 1 L)" for k u f
      using old(2) [of k] that ok place_range [of L k u f 1] by (auto simp: heap_ok_def)
    then show "\<forall>(k, u, f) \<in> set (place 1 (L @ [(unat w, False)])). sz s1 k = Some (of_nat u)"
      using new by auto
    have n: "nodes (L @ [(unat w, False)]) = nodes L" by (simp add: nodes_def)
    have "nx s1 k = nx s k" if "k \<in> set (nodes L)" for k
      using old(1) [of k] that free_at_range [of L k 1] ok by (auto simp: nodes_def heap_ok_def)
    then show "links s1 (nodes (L @ [(unat w, False)])) 0"
      using links_cong [of "nodes L" s1 s 0] n1 ok by (simp add: n heap_ok_def)
    show "\<exists>k \<in> set (nodes (L @ [(unat w, False)])). freep (world s1) = node s1 k"
      using ok by (simp add: n n1 s1(4) n0 heap_ok_def)
  qed (rule s1(3))
  then show ?thesis
    using that s1(1) brk_upd(5) s1(2) n1 node_up unfolding s0 by metis
qed

lemma purva_morecore_ok:
  assumes "heap_ok s L" "unat nu0 < 536870912"
  defines "nu \<equiv> max 4096 (unat nu0)"
  shows "(purva_morecore s nu0 = Some (0, s) \<and> unat (heap_top (world s)) < unat (heap_brk (world s)) + 8 * nu) \<or>
    (\<exists>s'. purva_morecore s nu0 = Some (freep (world s'), s') \<and> freep (world s') \<noteq> 0 \<and>
       heap_ok s' (freed L nu []) \<and> touches s s' (insert (1 + units L) (set (nodes L))))"
proof -
  define w where "w = (if nu0 < 4096 then 4096 else nu0)"
  let ?b = "1 + units L"
  have nu: "unat w = nu" "nu < 536870912" "0 < nu"
    using assms(2) by (auto simp: w_def nu_def word_less_nat_alt max_def not_less)
  then have bytes: "unat (w * PURVA_HUNIT) = 8 * nu"
    by (simp add: PURVA_HUNIT_def unat_word_ariths)
  show ?thesis
  proof (cases "unat (heap_brk (world s)) + unat (w * PURVA_HUNIT) > unat (heap_top (world s))")
    case True
    then show ?thesis using bytes by (simp add: purva_morecore_def Let_def w_def)
  next
    case False
    define s0 where "s0 = upd_run (\<lambda>r. r\<lparr>heap_brk := heap_brk (world s) + w * PURVA_HUNIT\<rparr>) s"
    have room: "unat (basep (world s)) + 8 * (?b + unat w) \<le> unat (heap_top (world s))"
      using False bytes nu(1) assms(1) by (simp add: heap_ok_def)
    obtain s1 where s1: "set_size s0 (heap_brk (world s)) w = Some s1" "touches s s1 {?b}"
        "heap_ok s1 (L @ [(nu, False)])" "node s1 = node s"
      using heap_grow [OF assms(1) _ room s0_def] nu by auto
    obtain s2 where s2: "purva_free s1 (node s1 ?b + PURVA_HUNIT) = Some s2" "heap_ok s2 (freed L nu [])"
        "touches s1 s2 (insert ?b (set (nodes L)))"
      using purva_free_ok [OF s1(3), of ?b] by auto
    have "purva_free s1 (heap_brk (world s) + PURVA_HUNIT) = Some s2"
      using s2(1) heap_brk_node [OF assms(1)] by (simp add: s1(4))
    then have "purva_morecore s nu0 = Some (freep (world s2), s2)"
      unfolding purva_morecore_def Let_def w_def [symmetric] s0_def [symmetric]
      using False s1(1) by simp
    moreover have "freep (world s2) \<noteq> 0" by (rule heap_freep [OF s2(2)])
    moreover have "touches s s2 (insert ?b (set (nodes L)))" using touches_trans [OF s1(2) s2(3)] by simp
    ultimately show ?thesis using s2(2) by blast
  qed
qed

section \<open>Taking a block\<close>

lemma heap_size:
  assumes "heap_ok s L" "(k, w, f) \<in> set (place 1 L)"
  shows "sz s k = Some (of_nat w)" "unit_ok s k" "0 < k" "k \<le> units L"
proof -
  have "\<forall>(k, w, f) \<in> set (place 1 L). sz s k = Some (of_nat w)" "list_all (\<lambda>(u, f). 0 < u) L"
    using assms(1) by (simp_all add: heap_ok_def)
  from bspec [OF this(1) assms(2)] place_range [OF this(2) assms(2)]
  show "sz s k = Some (of_nat w)" "0 < k" "k \<le> units L" by auto
  then show "unit_ok s k" using heap_unit [OF assms(1)] by simp
qed

lemma take_block_exact:
  assumes "heap_ok s (L @ (u, True) # M)" "y = 1 + units L" "p = last (nodes L)"
  shows "\<exists>s'. take_block s (of_nat u) (of_nat u) (node s p) (node s y) = Some (node s y + PURVA_HUNIT, s') \<and>
    heap_ok s' (L @ (u, False) # M) \<and> touches s s' {p}"
proof -
  note ok = assms(1)
  have pos: "list_all (\<lambda>(u, f). 0 < u) L" "list_all (\<lambda>(u, f). 0 < u) M" "0 < u"
    using ok by (simp_all add: heap_ok_def)
  have n: "nodes (L @ (u, True) # M) = nodes L @ y # free_at (y + u) M" by (simp add: nodes_def assms(2))
  have n': "nodes (L @ (u, False) # M) = nodes L @ free_at (y + u) M" by (simp add: nodes_def assms(2))
  have P: "nodes L = butlast (nodes L) @ [p]" by (simp add: assms(3) nodes_def)
  let ?t = "hd (free_at (y + u) M @ [0])"
  have lk: "links s (butlast (nodes L) @ p # y # free_at (y + u) M) 0"
    using ok n P by (metis append.assoc append_Cons append_Nil heap_ok_def)
  then have nxy: "nx s y = Some (node s ?t)" and low: "links s (butlast (nodes L)) p"
    and high: "links s (free_at (y + u) M) 0"
    by (simp_all add: links_append)
  have sorted: "sorted_wrt (<) (butlast (nodes L) @ p # y # free_at (y + u) M)"
    using nodes_sorted [OF ok] n P by (metis append.assoc append_Cons append_Nil)
  have "p \<in> set (nodes L)" by (simp add: assms(3) nodes_def)
  then have up: "unit_ok s p" using nodes_unit [OF ok, of p] by (simp add: n)
  have span: "span_ok s" using ok by (simp add: heap_ok_def)
  from set_next_node [OF span up, of "node s ?t"] obtain s1 where
    s1: "set_next s (node s p) (node s ?t) = Some s1" "touches s s1 {p}" "span_ok s1" "world s1 = world s"
      "\<And>j. unit_ok s j \<Longrightarrow> nx s1 j = (if j = p then Some (node s ?t) else nx s j)"
      "\<And>j. unit_ok s j \<Longrightarrow> sz s1 j = sz s j" by blast
  have n1: "node s1 = node s" by (rule touches_heap(1) [OF s1(2)])
  let ?s = "upd_run (\<lambda>r. r\<lparr>freep := node s p\<rparr>) s1"
  have take: "take_block s (of_nat u) (of_nat u) (node s p) (node s y) = Some (node s y + PURVA_HUNIT, ?s)"
    using nxy s1(1) by (simp add: take_block_def)
  have unit: "unit_ok s k" if "k \<in> set (nodes L) \<union> set (free_at (y + u) M)" for k
    using nodes_unit [OF ok, of k] that by (auto simp: n)
  have cell: "sz s1 k = Some (of_nat w)" if "(k, w, f) \<in> set (place 1 (L @ (u, True) # M))" for k w f
    using heap_size [OF ok that] s1(6) by simp
  have "heap_ok ?s (L @ (u, False) # M)"
    unfolding heap_ok_def
  proof (intro conjI)
    show "span_ok ?s" using s1(3) by (simp add: freep_upd)
    show "list_all (\<lambda>(u, f). 0 < u) (L @ (u, False) # M)" using pos by simp
    show "unat (heap_brk (world ?s)) = unat (basep (world ?s)) + 8 * (1 + units (L @ (u, False) # M))"
      "heap_brk (world ?s) \<le> heap_top (world ?s)"
      using ok by (simp_all add: heap_ok_def freep_upd s1(4))
    show "sz ?s 0 = Some 0" using s1(6) [of 0] heap_unit [OF ok, of 0] ok by (simp add: heap_ok_def freep_upd)
    show "\<forall>(k, w, f) \<in> set (place 1 (L @ (u, False) # M)). sz ?s k = Some (of_nat w)"
      using cell by (auto simp: freep_upd)
    have "nx s1 k = nx s k" if "k \<in> set (butlast (nodes L))" for k
      using s1(5) [of k] unit [of k] sorted in_set_butlastD [OF that] that by (auto simp: sorted_wrt_append)
    then have "links s1 (butlast (nodes L)) p"
      using links_cong [of "butlast (nodes L)" s1 s p] low n1 by simp
    moreover have "nx s1 k = nx s k" if "k \<in> set (free_at (y + u) M)" for k
      using s1(5) [of k] unit [of k] sorted that by (auto simp: sorted_wrt_append)
    then have "links s1 (free_at (y + u) M) 0"
      using links_cong [of "free_at (y + u) M" s1 s 0] high n1 by simp
    ultimately have "links s1 (butlast (nodes L) @ p # free_at (y + u) M) 0"
      using s1(5) [OF up] n1 by (simp add: links_append)
    then show "links ?s (nodes (L @ (u, False) # M)) 0"
      unfolding links_upd n' by (subst P) simp
    show "\<exists>k \<in> set (nodes (L @ (u, False) # M)). freep (world ?s) = node ?s k"
      using \<open>p \<in> set (nodes L)\<close> by (auto simp: n' freep_upd n1)
  qed
  with take freep_upd(6) [OF s1(2)] show ?thesis by blast
qed

lemma take_block_split:
  assumes "heap_ok s (L @ (u, True) # M)" "y = 1 + units L" "p = last (nodes L)" "0 < n" "n < u" "u < 4294967296"
  shows "\<exists>s'. take_block s (of_nat n) (of_nat u) (node s p) (node s y) =
      Some (node s (y + (u - n)) + PURVA_HUNIT, s') \<and>
    heap_ok s' (L @ (u - n, True) # (n, False) # M) \<and> touches s s' {y, y + (u - n)}"
proof -
  note ok = assms(1)
  have pos: "list_all (\<lambda>(u, f). 0 < u) L" "list_all (\<lambda>(u, f). 0 < u) M"
    using ok by (simp_all add: heap_ok_def)
  let ?L = "L @ (u, True) # M" and ?L' = "L @ (u - n, True) # (n, False) # M" and ?z = "y + (u - n)"
  have un: "units ?L' = units ?L" using assms(5) by simp
  have nn: "nodes ?L' = nodes ?L" using assms(5) by (simp add: nodes_def)
  have uy: "unit_ok s y" and uz: "unit_ok s ?z"
    using heap_unit [OF ok, of y] heap_unit [OF ok, of ?z] assms(2,4,5) by simp_all
  have span: "span_ok s" using ok by (simp add: heap_ok_def)
  from set_size_node [OF span uy, of "of_nat u - of_nat n"] obtain s1 where
    s1: "set_size s (node s y) (of_nat u - of_nat n) = Some s1" "touches s s1 {y}" "span_ok s1" "world s1 = world s"
      "\<And>j. unit_ok s j \<Longrightarrow> sz s1 j = (if j = y then Some (of_nat u - of_nat n) else sz s j)"
      "\<And>j. unit_ok s j \<Longrightarrow> nx s1 j = nx s j" by blast
  note h1 = touches_heap [OF s1(2)]
  have diff: "(of_nat u - of_nat n :: u32) = of_nat (u - n)" using assms(5) by (simp add: of_nat_diff)
  have sz1: "sz s1 y = Some (of_nat (u - n))" using s1(5) [OF uy] by (simp add: diff)
  from set_size_node [OF s1(3), of ?z "of_nat n"] uz obtain s2 where
    s2: "set_size s1 (node s ?z) (of_nat n) = Some s2" "touches s1 s2 {?z}" "span_ok s2" "world s2 = world s1"
      "\<And>j. unit_ok s j \<Longrightarrow> sz s2 j = (if j = ?z then Some (of_nat n) else sz s1 j)"
      "\<And>j. unit_ok s j \<Longrightarrow> nx s2 j = nx s1 j" unfolding h1(1,2) by blast
  have n2: "node s2 = node s" using touches_heap(1) [OF s2(2)] by (simp add: h1)
  let ?s = "upd_run (\<lambda>r. r\<lparr>freep := node s p\<rparr>) s2"
  have ne: "(of_nat u :: u32) \<noteq> of_nat n"
  proof
    assume "(of_nat u :: u32) = of_nat n"
    then have "unat (of_nat u :: u32) = unat (of_nat n :: u32)" by simp
    then show False using assms(5,6) by (simp add: unat_of_nat)
  qed
  have "node s y + of_nat (u - n) * PURVA_HUNIT = node s ?z" by (rule node_add)
  then have take: "take_block s (of_nat n) (of_nat u) (node s p) (node s y) = Some (node s ?z + PURVA_HUNIT, ?s)"
    using ne s1(1) sz1 s2(1) by (simp add: take_block_def h1)
  have other: "sz s2 k = sz s k" if "k \<le> units ?L" "k \<noteq> y" "k \<noteq> ?z" for k
    using s1(5) [of k] s2(5) [of k] heap_unit [OF ok that(1)] that(2,3) by simp
  have nxs: "nx s2 k = nx s k" if "k \<in> set (nodes ?L)" for k
    using s1(6) [of k] s2(6) [of k] nodes_unit [OF ok that] by simp
  have p: "p \<in> set (nodes ?L)" by (simp add: assms(3) nodes_def)
  have "heap_ok ?s ?L'"
    unfolding heap_ok_def un nn
  proof (intro conjI)
    show "span_ok ?s" using s2(3) by (simp add: freep_upd)
    show "list_all (\<lambda>(u, f). 0 < u) ?L'" using pos assms(4,5) by simp
    show "unat (heap_brk (world ?s)) = unat (basep (world ?s)) + 8 * (1 + units ?L)"
      "heap_brk (world ?s) \<le> heap_top (world ?s)"
      using ok by (simp_all add: heap_ok_def freep_upd s1(4) s2(4))
    show "sz ?s 0 = Some 0"
      using other [of 0] ok assms(2) by (simp add: heap_ok_def freep_upd)
    have below: "sz s2 k = Some (of_nat w)" if "(k, w, f) \<in> set (place 1 L)" for k w f
      using other [of k] place_range [OF pos(1) that] heap_size(1) [OF ok, of k w f] that assms(2) by simp
    have above: "sz s2 k = Some (of_nat w)" if "(k, w, f) \<in> set (place (y + u) M)" for k w f
    proof -
      have "y + u \<le> k" "k + w \<le> y + u + units M" "0 < w" using place_range [OF pos(2) that] by auto
      then have "k \<noteq> y" "k \<noteq> ?z" "k \<le> units ?L" using assms(2,4,5) by simp_all
      then show ?thesis using other [of k] heap_size(1) [OF ok, of k w f] that assms(2) by (simp add: add.assoc)
    qed
    have "sz s2 y = Some (of_nat (u - n))" "sz s2 ?z = Some (of_nat n)"
      using s2(5) [OF uy] s2(5) [OF uz] sz1 less_imp_neq [of y ?z] assms(5) by auto
    then show "\<forall>(k, w, f) \<in> set (place 1 ?L'). sz ?s k = Some (of_nat w)"
      using below above assms(2,5) by (auto simp: freep_upd add.assoc)
    show "links ?s (nodes ?L) 0"
      using links_cong [of "nodes ?L" s2 s 0] nxs n2 ok by (simp add: links_upd heap_ok_def)
    show "\<exists>k \<in> set (nodes ?L). freep (world ?s) = node ?s k" using p by (auto simp: freep_upd n2)
  qed
  moreover have "touches s s2 {y, ?z}" using touches_trans [OF s1(2) s2(2)] by (simp add: insert_commute)
  ultimately show ?thesis using take freep_upd(6) by blast
qed

section \<open>The walk of malloc\<close>

text \<open>The walk passes blocks that are too small, and stops at the first that is not.\<close>

lemma malloc_loop_pass:
  assumes "sz s x = Some w" "w < n" "node s x \<noteq> freep (world s)" "nx s x = Some (node s y)"
  shows "malloc_loop s n q (node s x) = malloc_loop s n (node s x) (node s y)"
  by (subst malloc_loop.simps) (use assms in \<open>simp add: not_le [symmetric]\<close>)

lemma malloc_loop_hit:
  assumes "links s xs f" "\<forall>x \<in> set xs. node s x \<noteq> freep (world s)" "xs @ [f] = us @ x # vs"
    and "\<forall>u \<in> set us. \<exists>w. sz s u = Some w \<and> w < n" "sz s x = Some w" "n \<le> w"
  shows "malloc_loop s n (node s q) (node s (hd (xs @ [f]))) = take_block s n w (node s (last (q # us))) (node s x)"
  using assms(1-4)
proof (induction us arbitrary: xs q)
  case Nil
  then have "hd (xs @ [f]) = x" by (cases xs) auto
  then show ?case by (subst malloc_loop.simps) (use assms(5,6) in simp)
next
  case (Cons u us)
  then obtain ys where xs: "xs = u # ys" "ys @ [f] = us @ x # vs" by (cases xs) auto
  obtain w' where "sz s u = Some w'" "w' < n" using Cons.prems(4) by auto
  then have "malloc_loop s n (node s q) (node s u) = malloc_loop s n (node s u) (node s (hd (ys @ [f])))"
    using malloc_loop_pass [of s u w' n "hd (ys @ [f])" "node s q"] Cons.prems(1,2) by (simp add: xs(1))
  with Cons.IH [of ys u] Cons.prems xs show ?case by simp
qed

lemma malloc_loop_miss:
  assumes "links s xs f" "\<forall>x \<in> set xs. node s x \<noteq> freep (world s)" "freep (world s) = node s f"
    and "\<forall>x \<in> set (xs @ [f]). \<exists>w. sz s x = Some w \<and> w < n"
  shows "malloc_loop s n q (node s (hd (xs @ [f]))) =
    Option.bind (purva_morecore s n) (\<lambda>m.
      if fst m = 0 then Some (0, snd m)
      else Option.bind (blk_next (snd m) (fst m)) (\<lambda>y. malloc_loop (snd m) n (fst m) y))"
  using assms(1,2,4)
proof (induction xs arbitrary: q)
  case Nil
  then show ?case by (subst malloc_loop.simps) (use assms(3) in \<open>auto simp: not_le [symmetric]\<close>)
next
  case (Cons u ys)
  obtain w' where "sz s u = Some w'" "w' < n" using Cons.prems(3) by auto
  then have "malloc_loop s n q (node s u) = malloc_loop s n (node s u) (node s (hd (ys @ [f])))"
    using malloc_loop_pass [of s u w' n "hd (ys @ [f])" q] Cons.prems(1,2) by simp
  with Cons.IH [of "node s u"] Cons.prems show ?case by simp
qed

text \<open>The node before \<open>x\<close> on the walk around the ring is the one before it in the list.\<close>

lemma ring_pred:
  assumes "distinct (A @ f # B)" "A @ f # B = N1 @ x # N2" "N1 \<noteq> []" "B @ A @ [f] = us @ x # vs"
  shows "last (f # us) = last N1"
proof (cases "x \<in> set B")
  case True
  then obtain B1 B2 where B: "B = B1 @ x # B2" by (metis split_list)
  then have "N1 = A @ f # B1" using assms(1,2) append_Cons_eq_iff [of x "A @ f # B1" B2 N1 N2] by auto
  moreover have "us = B1"
    using assms(1,4) append_Cons_eq_iff [of x B1 "B2 @ A @ [f]" us vs] by (auto simp: B)
  ultimately show ?thesis by simp
next
  case False
  then have "x \<in> set (A @ [f])" using assms(4) by (metis UnE in_set_conv_decomp set_append)
  then obtain A1 A2 where A: "A @ [f] = A1 @ x # A2" by (metis split_list)
  have "distinct (A1 @ x # A2)" using assms(1) unfolding A [symmetric] by auto
  then have d: "x \<notin> set A1" "x \<notin> set A2" by simp_all
  have "N1 @ x # N2 = A1 @ x # A2 @ B" using assms(2) A by (metis append.assoc append_Cons append_Nil)
  then have "N1 = A1" using append_Cons_eq_iff [of x A1 "A2 @ B" N1 N2] d False by auto
  moreover have "us @ x # vs = (B @ A1) @ x # A2" using assms(4) A by simp
  then have "us = B @ A1" using append_Cons_eq_iff [of x "B @ A1" A2 us vs] d False by auto
  ultimately show ?thesis using assms(3) by simp
qed

text \<open>The units blocks cover are fewer than the address space has.\<close>

lemma heap_units: assumes "heap_ok s L" shows "units L < 536870911"
proof -
  have "unat (basep (world s)) + 8 * (1 + units L) < 4294967296"
    using heap_addr [OF assms order_refl] le_less_trans [OF _ unat_lt_32] unfolding addr_ok_def by blast
  then show ?thesis by simp
qed

lemma free_node_split:
  assumes "x \<in> set (free_at k L)"
  obtains L1 u M where "L = L1 @ (u, True) # M" "x = k + units L1"
  using assms
proof (induction k L arbitrary: thesis rule: free_at.induct)
  case (2 k u f L)
  show ?case
  proof (cases "f \<and> x = k")
    case True
    then show ?thesis using "2.prems"(1) [of "[]"] by simp
  next
    case False
    then have "x \<in> set (free_at (k + u) L)" using "2.prems"(2) by (auto split: if_splits)
    then obtain L1 v M where "L = L1 @ (v, True) # M" "x = k + u + units L1" using "2.IH" by blast
    then show ?thesis using "2.prems"(1) [of "(u, f) # L1"] by simp
  qed
qed simp

text \<open>What \<open>malloc\<close> makes of the blocks when one is large enough.\<close>

definition taken :: "layout \<Rightarrow> nat \<Rightarrow> nat \<Rightarrow> layout \<Rightarrow> layout" where
  "taken L u n M = (if u = n then L @ (n, False) # M else L @ (u - n, True) # (n, False) # M)"

lemma take_block_ok:
  assumes "heap_ok s (L @ (u, True) # M)" "y = 1 + units L" "p = last (nodes L)" "0 < n" "n \<le> u"
  shows "\<exists>s'. take_block s (of_nat n) (of_nat u) (node s p) (node s y) =
      Some (node s (y + (u - n)) + PURVA_HUNIT, s') \<and>
    heap_ok s' (taken L u n M) \<and> touches s s' {p, y, y + (u - n)}"
proof (cases "u = n")
  case True
  with take_block_exact [OF assms(1-3)] touches_mono [of s _ "{p}" "{p, y, y + (u - n)}"]
  show ?thesis by (auto simp: taken_def)
next
  case False
  have "u < 4294967296" using heap_units [OF assms(1)] by simp
  with take_block_split [OF assms(1-4)] touches_mono [of s _ "{y, y + (u - n)}" "{p, y, y + (u - n)}"] False assms(5)
  show ?thesis by (auto simp: taken_def)
qed

text \<open>The walk around the ring of a well-formed heap.\<close>

lemma heap_ring:
  assumes "heap_ok s L"
  obtains A f B where "nodes L = A @ f # B" "freep (world s) = node s f"
    "links s (f # B @ A) f" "distinct (A @ f # B)" "\<forall>x \<in> set (B @ A). node s x \<noteq> freep (world s)"
    "nx s f = Some (node s (hd (B @ A @ [f])))"
proof -
  obtain f where f: "f \<in> set (nodes L)" "freep (world s) = node s f" using assms by (auto simp: heap_ok_def)
  then obtain A B where N: "nodes L = A @ f # B" by (metis split_list)
  have lk: "links s (A @ f # B) 0" using assms by (simp add: heap_ok_def N)
  have "hd (A @ [f]) = 0" using N by (cases A) (auto simp: nodes_def)
  then have ring: "links s (f # B @ A) f"
    using lk by (cases A) (auto simp: links_append hd_append split: if_splits)
  have d: "distinct (A @ f # B)"
    using nodes_sorted [OF assms] unfolding N by (simp add: strict_sorted_iff)
  have "node s x \<noteq> freep (world s)" if "x \<in> set (B @ A)" for x
    using that d node_eq [of s x f] nodes_unit [OF assms] unit_addr(1) by (auto simp: f(2) N)
  then show ?thesis using that [of A f B] N f(2) ring d by simp
qed

lemma heap_node_size:
  assumes "heap_ok s L" "x \<in> set (nodes L)"
  obtains (base) "x = 0" "sz s x = Some 0"
  | (block) L1 u M where "L = L1 @ (u, True) # M" "x = 1 + units L1" "sz s x = Some (of_nat u)" "u < 4294967296"
proof (cases "x = 0")
  case True
  then show ?thesis using assms(1) base by (simp add: heap_ok_def)
next
  case False
  then have "x \<in> set (free_at 1 L)" using assms(2) by (simp add: nodes_def)
  then obtain L1 u M where L: "L = L1 @ (u, True) # M" "x = 1 + units L1" by (rule free_node_split)
  have "sz s x = Some (of_nat u)" using heap_size(1) [OF assms(1), of x u True] by (simp add: L)
  moreover have "u < 4294967296" using heap_units [OF assms(1)] by (simp add: L)
  ultimately show ?thesis using block L by blast
qed

definition enough :: "nat \<Rightarrow> layout \<Rightarrow> bool" where
  "enough n L = list_ex (\<lambda>(u, f). f \<and> n \<le> u) L"

lemma enough_place: "enough n L \<longleftrightarrow> (\<exists>x u. (x, u, True) \<in> set (place k L) \<and> n \<le> u)"
  by (induction k L rule: free_at.induct) (auto simp: enough_def)

lemma malloc_hit:
  assumes ok: "heap_ok s L" and enough: "enough n L" and n: "0 < n" "n < 4294967296"
  obtains np L1 u M s' where "blk_next s (freep (world s)) = Some np" "L = L1 @ (u, True) # M" "n \<le> u"
    "malloc_loop s (of_nat n) (freep (world s)) np = Some (node s (1 + units L1 + (u - n)) + PURVA_HUNIT, s')"
    "heap_ok s' (taken L1 u n M)" "touches s s' {last (nodes L1), 1 + units L1, 1 + units L1 + (u - n)}"
proof -
  obtain A f B where N: "nodes L = A @ f # B" "freep (world s) = node s f"
      "links s (f # B @ A) f" "distinct (A @ f # B)" "\<forall>x \<in> set (B @ A). node s x \<noteq> freep (world s)"
      "nx s f = Some (node s (hd (B @ A @ [f])))"
    using heap_ring [OF ok] by blast
  define big where "big x = (\<exists>w. sz s x = Some w \<and> of_nat n \<le> w)" for x
  obtain x0 u0 where x0: "x0 \<in> set (free_at 1 L)" "(x0, u0, True) \<in> set (place 1 L)" "n \<le> u0"
    using enough by (auto simp: enough_place [of _ _ 1] free_at_place)
  have "u0 < 4294967296" using heap_units [OF ok] place_range [OF _ x0(2)] ok by (simp add: heap_ok_def)
  then have "big x0" using heap_size(1) [OF ok x0(2)] x0(3) n by (simp add: big_def word_le_nat_alt unat_of_nat)
  moreover have ring_set: "set (B @ A @ [f]) = set (nodes L)" by (auto simp: N(1))
  have "x0 \<in> set (B @ A @ [f])" using x0(1) unfolding ring_set by (simp add: nodes_def)
  ultimately obtain us x vs where x: "B @ A @ [f] = us @ x # vs" "big x" "\<forall>u \<in> set us. \<not> big u"
    using split_list_first_prop [of "B @ A @ [f]" big] by blast
  have xN: "x \<in> set (nodes L)" unfolding ring_set [symmetric] x(1) by simp
  from ok xN have "\<exists>L1 u M. L = L1 @ (u, True) # M \<and> x = 1 + units L1 \<and> sz s x = Some (of_nat u) \<and> u < 4294967296"
  proof (cases rule: heap_node_size)
    case base
    then show ?thesis using x(2) n by (simp add: big_def word_le_nat_alt unat_of_nat)
  qed blast
  then obtain L1 u M where b: "L = L1 @ (u, True) # M" "x = 1 + units L1" "sz s x = Some (of_nat u)" "u < 4294967296"
    by blast
  have nu: "n \<le> u" using x(2) b(3,4) n by (simp add: big_def word_le_nat_alt unat_of_nat)
  have "nodes L = nodes L1 @ x # free_at (x + u) M" by (simp add: nodes_def b(1,2))
  then have pred: "last (f # us) = last (nodes L1)"
    using ring_pred [OF N(4) _ _ x(1)] N(1) by (metis list.distinct(1) nodes_def)
  have small: "\<forall>u \<in> set us. \<exists>w. sz s u = Some w \<and> w < of_nat n"
  proof
    fix v assume v: "v \<in> set us"
    then have "v \<in> set (nodes L)" unfolding ring_set [symmetric] x(1) by simp
    with ok have "\<exists>w. sz s v = Some w" by (cases rule: heap_node_size) blast+
    then show "\<exists>w. sz s v = Some w \<and> w < of_nat n" using x(3) v by (auto simp: big_def not_le)
  qed
  have "malloc_loop s (of_nat n) (node s f) (node s (hd (B @ A @ [f]))) =
      take_block s (of_nat n) (of_nat u) (node s (last (nodes L1))) (node s x)"
    using malloc_loop_hit [of s "B @ A" f us x vs "of_nat n" "of_nat u" f] N(3,5) x(1) small b(3,4) nu n pred
    by (simp add: word_le_nat_alt unat_of_nat)
  with take_block_ok [OF ok [unfolded b(1)] b(2) refl n(1) nu] that N(2,6) b(1,2) nu
  show ?thesis by metis
qed

text \<open>The units no live block covers, and what live blocks hold.\<close>

definition live :: "layout \<Rightarrow> (nat \<times> nat) set" where
  "live L = {(k, u). (k, u, False) \<in> set (place 1 L)}"

definition spare :: "layout \<Rightarrow> nat set" where
  "spare L = {i. \<forall>(k, u) \<in> live L. \<not> (k \<le> i \<and> i < k + u)}"

definition payload :: "'u rvm \<Rightarrow> nat \<times> nat \<Rightarrow> u8 list" where
  "payload s b =
     (case rg_ptr (writable s) of
        Some bs \<Rightarrow> map (\<lambda>i. bs ! (upos s (fst b) + 8 + i)) [0..<8 * (snd b - 1)]
      | None \<Rightarrow> [])"

lemma place_disjoint:
  assumes "list_all (\<lambda>(u, f). 0 < u) L" "(k, u, f) \<in> set (place m L)" "(k', u', f') \<in> set (place m L)"
    and "i < k + u" "k \<le> i" "i < k' + u'" "k' \<le> i"
  shows "k = k'" "u = u'" "f = f'"
proof -
  have "k = k' \<and> u = u' \<and> f = f'"
    using assms
  proof (induction m L rule: place.induct)
    case (2 m v g L)
    have pos: "list_all (\<lambda>(u, f). 0 < u) L" using "2.prems"(1) by simp
    consider "(k, u, f) = (m, v, g)" "(k', u', f') = (m, v, g)"
      | "(k, u, f) = (m, v, g)" "(k', u', f') \<in> set (place (m + v) L)"
      | "(k, u, f) \<in> set (place (m + v) L)" "(k', u', f') = (m, v, g)"
      | "(k, u, f) \<in> set (place (m + v) L)" "(k', u', f') \<in> set (place (m + v) L)"
      using "2.prems"(2,3) by auto
    then show ?case
    proof cases
      case 2
      then show ?thesis using place_range [OF pos 2(2)] "2.prems"(4-7) by simp
    next
      case 3
      then show ?thesis using place_range [OF pos 3(1)] "2.prems"(4-7) by simp
    next
      case 4
      then show ?thesis using "2.IH" "2.prems" pos by simp
    qed simp
  qed simp
  then show "k = k'" "u = u'" "f = f'" by simp_all
qed

lemma spare_free:
  assumes "list_all (\<lambda>(u, f). 0 < u) L" "(k, u, True) \<in> set (place 1 L)" "k \<le> i" "i < k + u"
  shows "i \<in> spare L"
  using place_disjoint(3) [OF assms(1,2), of _ _ False i] assms(3,4) by (auto simp: spare_def live_def)

lemma spare_ends:
  assumes "list_all (\<lambda>(u, f). 0 < u) L"
  shows "0 \<in> spare L" "1 + units L \<in> spare L"
  using place_range [OF assms, of _ _ False 1] by (fastforce simp: spare_def live_def)+

lemma spare_nodes:
  assumes "list_all (\<lambda>(u, f). 0 < u) L" "x \<in> set (nodes L)"
  shows "x \<in> spare L"
proof (cases "x = 0")
  case False
  then obtain u where u: "(x, u, True) \<in> set (place 1 L)" using assms(2) by (auto simp: nodes_def free_at_place)
  with place_range [OF assms(1) u] show ?thesis by (intro spare_free [OF assms(1) u]) auto
qed (simp add: spare_ends [OF assms(1)])

text \<open>Writes to spare units leave what live blocks hold.\<close>

lemma touches_payload:
  assumes "touches s s' W" "\<And>i. i \<in> W \<Longrightarrow> fst b < i \<Longrightarrow> \<not> i < fst b + snd b"
  shows "payload s' b = payload s b"
proof -
  obtain bs bs' where b: "rg_ptr (writable s) = Some bs" "rg_ptr (writable s') = Some bs'"
      "\<forall>i. bs' ! i \<noteq> bs ! i \<longrightarrow> (\<exists>k \<in> W. upos s k \<le> i \<and> i < upos s k + 8)"
    using assms(1) unfolding touches_def by blast
  have "bs' ! (upos s (fst b) + 8 + i) = bs ! (upos s (fst b) + 8 + i)" if i: "i < 8 * (snd b - 1)" for i
  proof (rule ccontr)
    assume "\<not> ?thesis"
    then obtain k where k: "k \<in> W" "upos s k \<le> upos s (fst b) + 8 + i" "upos s (fst b) + 8 + i < upos s k + 8"
      using b(3) by blast
    then have "fst b < k" "k < fst b + snd b" using i by (auto simp: upos_def)
    then show False using assms(2) k(1) by blast
  qed
  then show ?thesis using touches_heap(3) [OF assms(1)] by (auto simp: payload_def b(1,2))
qed

lemma spare_payload:
  assumes "touches s s' W" "W \<subseteq> spare L"
  shows "\<forall>b \<in> live L. payload s' b = payload s b"
proof
  fix b assume b: "b \<in> live L"
  show "payload s' b = payload s b"
  proof (rule touches_payload [OF assms(1)])
    fix i assume i: "i \<in> W" "fst b < i"
    have "\<forall>(k, u) \<in> live L. \<not> (k \<le> i \<and> i < k + u)" using assms(2) i(1) by (auto simp: spare_def)
    from bspec [OF this b] i(2) show "\<not> i < fst b + snd b" by (auto simp: case_prod_beta)
  qed
qed

text \<open>The blocks of \<open>malloc\<close> and \<open>free\<close>, seen from their callers.\<close>

lemma live_append: "live (L @ M) = live L \<union> {(k, u). (k, u, False) \<in> set (place (1 + units L) M)}"
  by (auto simp: live_def)

lemma live_taken:
  assumes "n \<le> u"
  shows "live (taken L u n M) = insert (1 + units L + (u - n), n) (live (L @ (u, True) # M))"
  using assms by (auto simp: taken_def live_append add.assoc)

lemma live_join_up:
  assumes "join_up u M = (u', R)"
  shows "(k, w, False) \<in> set (place (m + u') R) \<longleftrightarrow> (k, w, False) \<in> set (place (m + u) M)"
  using assms by (auto simp: add.assoc elim!: join_up.elims)

lemma live_freed:
  assumes "list_all (\<lambda>(u, f). 0 < u) (L @ (u, False) # M)"
  shows "live (freed L u M) = live (L @ (u, False) # M) - {(1 + units L, u)}"
proof -
  obtain u' R where j: "join_up u M = (u', R)" by fastforce
  have "(1 + units L, u, False) \<notin> set (place 1 L)" "(1 + units L, u, False) \<notin> set (place (1 + units L + u) M)"
    using assms place_range [of L "1 + units L" u False 1] place_range [of M "1 + units L" u False "1 + units L + u"]
    by auto
  then have whole: "live (L @ (u, False) # M) - {(1 + units L, u)} =
      live L \<union> {(k, w). (k, w, False) \<in> set (place (1 + units L + u) M)}"
    by (auto simp: live_append live_def)
  have "live (freed L u M) = live L \<union> {(k, w). (k, w, False) \<in> set (place (1 + units L + u') R)}"
  proof (cases "L \<noteq> [] \<and> snd (last L)")
    case True
    then obtain K v where L: "L = K @ [(v, True)]" by (cases L rule: rev_cases) auto
    show ?thesis by (simp add: freed_def j L live_append add.assoc)
  next
    case False
    then have "freed L u M = L @ (u', True) # R" by (simp only: freed_def j prod.case if_False)
    then show ?thesis by (simp add: live_append)
  qed
  then show ?thesis using whole live_join_up [OF j, of _ _ "1 + units L"] by simp
qed

lemma live_grown:
  assumes "list_all (\<lambda>(u, f). 0 < u) L" "0 < u"
  shows "live (freed L u []) = live L"
proof -
  have "(1 + units L, u) \<notin> live L"
    using place_range [OF assms(1), of "1 + units L" u False 1] by (auto simp: live_def)
  moreover have "live (L @ [(u, False)]) = insert (1 + units L, u) (live L)" by (auto simp: live_append)
  ultimately show ?thesis using live_freed [of L u "[]"] assms by simp
qed

lemma live_split:
  assumes "(k, u) \<in> live L"
  obtains L1 M where "L = L1 @ (u, False) # M" "k = 1 + units L1"
proof -
  have "(k, u, False) \<in> set (place m L) \<Longrightarrow> \<exists>L1 M. L = L1 @ (u, False) # M \<and> k = m + units L1" for m
  proof (induction m L rule: place.induct)
    case (2 m v g L)
    show ?case
    proof (cases "(k, u, False) = (m, v, g)")
      case True
      then show ?thesis by (intro exI [of _ "[]"] exI [of _ L]) auto
    next
      case False
      then obtain L1 M where "L = L1 @ (u, False) # M" "k = m + v + units L1" using 2 by auto
      then show ?thesis by (intro exI [of _ "(v, g) # L1"] exI [of _ M]) auto
    qed
  qed simp
  then show ?thesis using assms that unfolding live_def by blast
qed

text \<open>Distinct live blocks share no unit, and all lie below the break.\<close>

lemma live_disjoint:
  assumes "heap_ok s L" "(k, u) \<in> live L" "(k', u') \<in> live L" "(k, u) \<noteq> (k', u')"
  shows "k + u \<le> k' \<or> k' + u' \<le> k"
proof (rule ccontr)
  assume c: "\<not> ?thesis"
  have pos: "list_all (\<lambda>(u, f). 0 < u) L" using assms(1) by (simp add: heap_ok_def)
  have m: "(k, u, False) \<in> set (place 1 L)" "(k', u', False) \<in> set (place 1 L)"
    using assms(2,3) by (auto simp: live_def)
  show False
    using place_disjoint [OF pos m, of "max k k'"] place_range [OF pos m(1)] place_range [OF pos m(2)] c assms(4)
    by auto
qed

lemma heap_top_unit:
  assumes "heap_ok s L" "(k, u) \<in> live L"
  shows "0 < k" "0 < u" "k + u \<le> 1 + units L"
  using place_range [of L k u False 1] assms by (auto simp: heap_ok_def live_def)

section \<open>malloc\<close>

definition block_units :: "u32 \<Rightarrow> nat" where
  "block_units nbytes = (unat nbytes + 7) div 8 + 1"

lemma units_for_block:
  assumes "nbytes \<le> 0xFFFFFFF0"
  shows "units_for nbytes = of_nat (block_units nbytes)" "0 < block_units nbytes" "block_units nbytes < 536870912"
proof -
  have b: "unat nbytes \<le> 4294967280" using assms by (simp add: word_le_nat_alt)
  then have n: "unat (nbytes + PURVA_HUNIT - 1) = unat nbytes + 7"
    by (simp add: PURVA_HUNIT_def unat_word_ariths)
  show bl: "block_units nbytes < 536870912" using b by (simp add: block_units_def)
  have "unat (units_for nbytes) = block_units nbytes"
    using bl n by (simp add: units_for_def unat_word_ariths unat_div PURVA_HUNIT_def block_units_def)
  then show "units_for nbytes = of_nat (block_units nbytes)" using bl by (simp add: word_unat_eq_iff unat_of_nat)
qed (simp add: block_units_def)

text \<open>A found block, seen from the caller.\<close>

lemma taken_ok:
  assumes "heap_ok s (L1 @ (u, True) # M)" "n \<le> u" "0 < n" "heap_ok s' (taken L1 u n M)"
    "touches s s' {last (nodes L1), 1 + units L1, 1 + units L1 + (u - n)}"
  defines "k \<equiv> 1 + units L1 + (u - n)" and "L \<equiv> L1 @ (u, True) # M"
  shows "(k, n) \<notin> live L" "live (taken L1 u n M) = insert (k, n) (live L)"
    "\<forall>b \<in> live L. payload s' b = payload s b" "node s k + PURVA_HUNIT \<noteq> 0"
proof -
  have pos: "list_all (\<lambda>(u, f). 0 < u) L" using assms(1) by (simp add: heap_ok_def L_def)
  have blk: "(1 + units L1, u, True) \<in> set (place 1 L)" by (simp add: L_def)
  have k: "k \<in> spare L" "1 + units L1 \<in> spare L"
    using spare_free [OF pos blk] assms(2,3) by (auto simp: k_def)
  then show "(k, n) \<notin> live L" using assms(3) by (auto simp: spare_def)
  show "live (taken L1 u n M) = insert (k, n) (live L)"
    unfolding k_def L_def by (rule live_taken [OF assms(2)])
  have "last (nodes L1) \<in> set (nodes L)" by (auto simp: nodes_def L_def)
  then have "{last (nodes L1), 1 + units L1, k} \<subseteq> spare L" using k spare_nodes [OF pos] by blast
  moreover have "touches s s' {last (nodes L1), 1 + units L1, k}" unfolding k_def by (rule assms(5))
  ultimately show "\<forall>b \<in> live L. payload s' b = payload s b"
    using spare_payload by blast
  have "node s k + PURVA_HUNIT = node s (k + 1)" using node_add [of s k 1] by simp
  then show "node s k + PURVA_HUNIT \<noteq> 0"
    using heap_node_nonzero [OF assms(1), of "k + 1"] assms(2,3) by (simp add: k_def)
qed

lemma malloc_found:
  assumes ok: "heap_ok s L" and "enough n L" and n: "0 < n" "n < 4294967296"
  obtains np k L' s' where "blk_next s (freep (world s)) = Some np"
    "malloc_loop s (of_nat n) (freep (world s)) np = Some (node s k + PURVA_HUNIT, s')"
    "node s k + PURVA_HUNIT \<noteq> 0" "heap_ok s' L'" "(k, n) \<notin> live L" "live L' = insert (k, n) (live L)"
    "\<forall>b \<in> live L. payload s' b = payload s b" "outside s' = outside s"
  using malloc_hit [OF assms] taken_ok [of s _ _ _ n] touches_outside n(1) ok by metis

lemma enough_top: "n \<le> u \<Longrightarrow> enough n (freed L u [])"
  by (auto simp: freed_top enough_def)

lemma list_all_not_enough:
  assumes "heap_ok s L" "\<not> enough n L" "0 < n" "n < 4294967296" "x \<in> set (nodes L)"
  shows "\<exists>w. sz s x = Some w \<and> w < of_nat n"
  using assms(1,5)
proof (cases rule: heap_node_size)
  case base
  then show ?thesis using assms(3,4) by (simp add: word_less_nat_alt unat_of_nat)
next
  case (block L1 u M)
  then have "u < n" using assms(2) by (auto simp: enough_def)
  then show ?thesis using block(3,4) assms(4) by (simp add: word_less_nat_alt unat_of_nat)
qed

lemma malloc_grown:
  assumes ok: "heap_ok s L" and small: "\<not> enough n L" and n: "0 < n" "n < 536870912"
  shows "\<exists>np. blk_next s (freep (world s)) = Some np \<and>
    ((malloc_loop s (of_nat n) (freep (world s)) np = Some (0, s) \<and>
        unat (heap_top (world s)) < unat (heap_brk (world s)) + 8 * max 4096 n) \<or>
     (\<exists>k L' s'. malloc_loop s (of_nat n) (freep (world s)) np = Some (node s k + PURVA_HUNIT, s') \<and>
        node s k + PURVA_HUNIT \<noteq> 0 \<and> heap_ok s' L' \<and> (k, n) \<notin> live L \<and> live L' = insert (k, n) (live L) \<and>
        (\<forall>b \<in> live L. payload s' b = payload s b) \<and> outside s' = outside s))"
proof -
  obtain A f B where N: "nodes L = A @ f # B" "freep (world s) = node s f"
      "links s (f # B @ A) f" "\<forall>x \<in> set (B @ A). node s x \<noteq> freep (world s)"
      "nx s f = Some (node s (hd (B @ A @ [f])))"
    by (rule heap_ring [OF ok])
  let ?np = "node s (hd (B @ A @ [f]))" and ?n = "of_nat n :: u32"
  have un: "unat ?n = n" using n by (simp add: unat_of_nat)
  have "set ((B @ A) @ [f]) = set (nodes L)" by (auto simp: N(1))
  moreover have "\<forall>x \<in> set (nodes L). \<exists>w. sz s x = Some w \<and> w < ?n"
    by (intro ballI list_all_not_enough [OF ok small n(1)]) (use n(2) in simp)
  ultimately have small_ring: "\<forall>x \<in> set ((B @ A) @ [f]). \<exists>w. sz s x = Some w \<and> w < ?n" by simp
  have "links s (B @ A) f" using N(3) by simp
  then have miss: "malloc_loop s ?n (freep (world s)) ?np =
    Option.bind (purva_morecore s ?n) (\<lambda>m.
      if fst m = 0 then Some (0, snd m)
      else Option.bind (blk_next (snd m) (fst m)) (\<lambda>y. malloc_loop (snd m) ?n (fst m) y))"
    using malloc_loop_miss [OF _ N(4,2) small_ring, of "freep (world s)"] by simp
  have pos: "list_all (\<lambda>(u, f). 0 < u) L" using ok by (simp add: heap_ok_def)
  from purva_morecore_ok [OF ok, of ?n] n un consider
    (full) "purva_morecore s ?n = Some (0, s)"
      "unat (heap_top (world s)) < unat (heap_brk (world s)) + 8 * max 4096 n"
    | (grown) s1 where "purva_morecore s ?n = Some (freep (world s1), s1)" "freep (world s1) \<noteq> 0"
      "heap_ok s1 (freed L (max 4096 n) [])" "touches s s1 (insert (1 + units L) (set (nodes L)))"
    unfolding un by blast
  then show ?thesis
  proof cases
    case full
    then show ?thesis using miss N(2,5) by auto
  next
    case grown
    have "enough n (freed L (max 4096 n) [])" by (rule enough_top) simp
    obtain np k L' s' where
      f: "blk_next s1 (freep (world s1)) = Some np"
        "malloc_loop s1 ?n (freep (world s1)) np = Some (node s1 k + PURVA_HUNIT, s')"
        "node s1 k + PURVA_HUNIT \<noteq> 0" "heap_ok s' L'" "(k, n) \<notin> live (freed L (max 4096 n) [])"
        "live L' = insert (k, n) (live (freed L (max 4096 n) []))"
        "\<forall>b \<in> live (freed L (max 4096 n) []). payload s' b = payload s1 b" "outside s' = outside s1"
      by (rule malloc_found [OF grown(3) \<open>enough n _\<close> n(1)]) (use n(2) in simp)
    have live: "live (freed L (max 4096 n) []) = live L" by (rule live_grown [OF pos]) simp
    have "insert (1 + units L) (set (nodes L)) \<subseteq> spare L"
      using spare_ends(2) [OF pos] spare_nodes [OF pos] by blast
    then have "\<forall>b \<in> live L. payload s1 b = payload s b" by (rule spare_payload [OF grown(4)])
    then have "\<forall>b \<in> live L. payload s' b = payload s b" using f(7) unfolding live by simp
    moreover have "outside s' = outside s" using f(8) touches_outside [OF grown(4)] by simp
    moreover have n1: "node s1 = node s" by (rule touches_heap(1) [OF grown(4)])
    have "malloc_loop s ?n (freep (world s)) ?np = malloc_loop s1 ?n (freep (world s1)) np"
      using miss grown(1,2) f(1) by simp
    then have "malloc_loop s ?n (freep (world s)) ?np = Some (node s k + PURVA_HUNIT, s')"
      using f(2) n1 by simp
    moreover have "blk_next s (freep (world s)) = Some ?np" using N(2,5) by simp
    ultimately show ?thesis using f(3-6) unfolding live n1 by blast
  qed
qed

section \<open>Bytes of live blocks\<close>

lemma touches_ld:
  assumes "touches s s' W" "span_ok s" "unit_ok s j" "j \<notin> W"
  shows "nx s' j = nx s j" "sz s' j = sz s j"
proof -
  obtain bs bs' where b: "rg_ptr (writable s) = Some bs" "rg_ptr (writable s') = Some bs'" "length bs' = length bs"
      "\<forall>i. bs' ! i \<noteq> bs ! i \<longrightarrow> (\<exists>k \<in> W. upos s k \<le> i \<and> i < upos s k + 8)"
    using assms(1) unfolding touches_def by blast
  note h = touches_heap [OF assms(1)] and an = arena_node [OF assms(2,3)] and ub = upos_bound [OF assms(2,3) b(1)]
  have same: "bs' ! i = bs ! i" if "upos s j \<le> i" "i < upos s j + 8" for i
  proof (rule ccontr)
    assume "bs' ! i \<noteq> bs ! i"
    then obtain k where k: "k \<in> W" "upos s k \<le> i" "i < upos s k + 8" using b(4) by blast
    then have "j = k" using that by (simp add: upos_def)
    with k(1) assms(4) show False by simp
  qed
  have "word_in bs' (upos s j) = word_in bs (upos s j)" "word_in bs' (upos s j + 4) = word_in bs (upos s j + 4)"
    by (simp_all add: word_in_def same)
  moreover have "arena s' (node s j) = upos s j" "arena s' (node s j + 4) = upos s j + 4" using h(4) an by simp_all
  ultimately show "nx s' j = nx s j" "sz s' j = sz s j"
    using heap_ld_word [OF b(1), of "node s j"] heap_ld_word [OF b(2), of "node s j"]
      heap_ld_word [OF b(1), of "node s j + 4"] heap_ld_word [OF b(2), of "node s j + 4"] an ub b(3) h(1)
    by simp_all
qed

lemma heap_ok_data:
  assumes "touches s s' {k<..<k + u}" "heap_ok s L" "(k, u) \<in> live L" "world s' = world s"
  shows "heap_ok s' L"
proof -
  have pos: "list_all (\<lambda>(u, f). 0 < u) L" and span: "span_ok s" using assms(2) by (simp_all add: heap_ok_def)
  have blk: "(k, u, False) \<in> set (place 1 L)" using assms(3) by (simp add: live_def)
  note h = touches_heap [OF assms(1)]
  have n: "nx s' j = nx s j" if "j \<in> set (nodes L)" for j
  proof -
    have "\<forall>(k, u) \<in> live L. \<not> (k \<le> j \<and> j < k + u)" using spare_nodes [OF pos that] by (simp add: spare_def)
    from bspec [OF this assms(3)] have "j \<notin> {k<..<k + u}" by auto
    then show ?thesis by (rule touches_ld(1) [OF assms(1) span nodes_unit [OF assms(2) that]])
  qed
  have z: "sz s' j = sz s j" if "(j, v, f) \<in> set (place 1 L)" for j v f
  proof -
    have "j \<notin> {k<..<k + u}"
    proof
      assume j: "j \<in> {k<..<k + u}"
      have "0 < v" using place_range [OF pos that] by simp
      then have "j = k" using place_disjoint(1) [OF pos that blk, of j] j by auto
      with j show False by simp
    qed
    then show ?thesis by (rule touches_ld(2) [OF assms(1) span heap_size(2) [OF assms(2) that]])
  qed
  have "links s' (nodes L) 0" using links_cong [of "nodes L" s' s 0] n h(1) assms(2) by (simp add: heap_ok_def)
  moreover have "0 \<notin> {k<..<k + u}" using heap_top_unit [OF assms(2,3)] by simp
  then have "sz s' 0 = Some 0"
    using touches_ld(2) [OF assms(1) span heap_unit [OF assms(2)], of 0] assms(2) by (simp add: heap_ok_def)
  moreover have "\<forall>(j, v, f) \<in> set (place 1 L). sz s' j = Some (of_nat v)"
    using z heap_size(1) [OF assms(2)] by auto
  ultimately show ?thesis
    using assms(2,4) touches_span [OF assms(1) span] h(1) by (simp add: heap_ok_def)
qed

lemma read_bytes_list:
  assumes "rg_ptr (writable s) = Some bs" "off + i + n \<le> length bs"
  shows "read_bytes s (WPtr off) i n = Some (map (\<lambda>j. bs ! (off + i + j)) [0..<n])"
  using assms(2)
proof (induction n arbitrary: i)
  case (Suc n)
  have "map (\<lambda>j. bs ! (off + i + j)) [0..<Suc n] = bs ! (off + i) # map (\<lambda>j. bs ! (off + Suc i + j)) [0..<n]"
    by (simp add: upt_conv_Cons map_Suc_upt [symmetric] del: upt_Suc)
  then show ?case using Suc by (simp add: region_rd_def assms(1) del: upt_Suc)
qed simp

lemma write_bytes_list:
  assumes "rg_ptr (writable s) = Some bs" "off + i + length xs \<le> length bs"
  shows "\<exists>bs'. write_bytes s (WPtr off) i xs = Some (with_bytes s bs') \<and> length bs' = length bs \<and>
    (\<forall>j. bs' ! j = (if off + i \<le> j \<and> j < off + i + length xs then xs ! (j - (off + i)) else bs ! j))"
  using assms
proof (induction xs arbitrary: s bs i)
  case Nil
  then have "s = with_bytes s bs" by (simp add: with_bytes_def)
  then show ?case using Nil by (intro exI [of _ bs]) auto
next
  case (Cons x xs)
  let ?b = "bs[off + i := x]" and ?p = "WPtr off"
  have w: "wr8 s ?p i x = Some (with_bytes s ?b)"
    using Cons.prems by (simp add: region_wr_def with_bytes_def)
  from Cons.IH [of "with_bytes s ?b" ?b "Suc i"] Cons.prems(2) obtain bs' where
    b: "write_bytes (with_bytes s ?b) ?p (Suc i) xs = Some (with_bytes s bs')" "length bs' = length bs"
      "\<forall>j. bs' ! j = (if off + Suc i \<le> j \<and> j < off + Suc i + length xs then xs ! (j - (off + Suc i)) else ?b ! j)"
    by auto
  have "bs' ! j = (if off + i \<le> j \<and> j < off + i + length (x # xs) then (x # xs) ! (j - (off + i)) else bs ! j)" for j
  proof (cases "j = off + i")
    case True
    then show ?thesis using b(3) Cons.prems(2) by simp
  next
    case False
    then show ?thesis using b(3) by (auto simp: nth_Cons')
  qed
  moreover have "write_bytes s ?p i (x # xs) = Some (with_bytes s bs')"
    unfolding write_bytes.simps w using b(1) by simp
  ultimately show ?case using b(2) by blast
qed

text \<open>Filling the first bytes of a live block.\<close>

lemma fill_block:
  assumes ok: "heap_ok s L" and blk: "(k, u) \<in> live L" and xs: "length xs \<le> 8 * (u - 1)"
  shows "\<exists>s'. write_bytes s (WPtr (upos s k + 8)) 0 xs = Some s' \<and> heap_ok s' L \<and> outside s' = outside s \<and>
    payload s' (k, u) = xs @ drop (length xs) (payload s (k, u)) \<and>
    (\<forall>b \<in> live L - {(k, u)}. payload s' b = payload s b)"
proof -
  have span: "span_ok s" using ok by (simp add: heap_ok_def)
  then obtain bs where bs: "rg_ptr (writable s) = Some bs" by (auto simp: span_ok_def)
  note top = heap_top_unit [OF ok blk]
  have "upos s (k + u - 1) + 8 = upos s k + 8 * u" using top(2) by (cases u) (simp_all add: upos_def)
  then have room: "upos s k + 8 * u \<le> length bs"
    using upos_bound [OF span heap_unit [OF ok] bs, of "k + u - 1"] top by simp
  have fits: "upos s k + 8 + 0 + length xs \<le> length bs" using xs room top(2) by (cases u) simp_all
  obtain bs' where b: "write_bytes s (WPtr (upos s k + 8)) 0 xs = Some (with_bytes s bs')" "length bs' = length bs"
      "\<And>j. bs' ! j = (if upos s k + 8 \<le> j \<and> j < upos s k + 8 + length xs then xs ! (j - (upos s k + 8)) else bs ! j)"
    using write_bytes_list [OF bs fits] by auto
  let ?s = "with_bytes s bs'"
  have out: "outside ?s = outside s" by (simp add: outside_def)
  have tch: "touches s ?s {k<..<k + u}"
  proof -
    have "\<exists>i \<in> {k<..<k + u}. upos s i \<le> j \<and> j < upos s i + 8" if "bs' ! j \<noteq> bs ! j" for j
    proof -
      have j: "upos s k + 8 \<le> j" "j < upos s k + 8 + length xs" using that b(3) [of j] by (auto split: if_splits)
      define i where "i = k + 1 + (j - (upos s k + 8)) div 8"
      have "j - (upos s k + 8) < 8 * (u - 1)" using j xs by linarith
      then have "(j - (upos s k + 8)) div 8 < u - 1" by (simp add: less_mult_imp_div_less mult.commute)
      moreover have "upos s i \<le> j" "j < upos s i + 8" using j by (auto simp: i_def upos_def)
      ultimately show ?thesis by (intro bexI [of _ i]) (auto simp: i_def)
    qed
    then show ?thesis using bs b(2) out by (simp add: touches_def)
  qed
  have up: "upos ?s = upos s" by (rule touches_heap(3) [OF tch])
  have "payload ?s (k, u) = xs @ drop (length xs) (payload s (k, u))"
    by (rule nth_equalityI) (use xs in \<open>auto simp: payload_def up bs b(3) nth_append\<close>)
  moreover have "payload ?s c = payload s c" if c: "c \<in> live L - {(k, u)}" for c
  proof (rule touches_payload [OF tch])
    fix i assume "i \<in> {k<..<k + u}" "fst c < i"
    then show "\<not> i < fst c + snd c" using live_disjoint [OF ok _ blk, of "fst c" "snd c"] c by auto
  qed
  ultimately show ?thesis using b(1) heap_ok_data [OF tch ok blk] out by auto
qed

section \<open>The contract of malloc and free\<close>

lemma malloc_contract:
  assumes ok: "heap_ok s L" and n: "nbytes \<noteq> 0" "nbytes \<le> 0xFFFFFFF0"
  defines "u \<equiv> block_units nbytes"
  shows "(purva_malloc s nbytes = Some (0, s) \<and> \<not> enough u L \<and>
      unat (heap_top (world s)) < unat (heap_brk (world s)) + 8 * max 4096 u) \<or>
    (\<exists>k L' s'. purva_malloc s nbytes = Some (node s k + PURVA_HUNIT, s') \<and> node s k + PURVA_HUNIT \<noteq> 0 \<and>
      heap_ok s' L' \<and> (k, u) \<notin> live L \<and> live L' = insert (k, u) (live L) \<and>
      (\<forall>b \<in> live L. payload s' b = payload s b) \<and> outside s' = outside s)"
proof -
  note uf = units_for_block [OF n(2), folded u_def]
  have m: "purva_malloc s nbytes = malloc_loop s (of_nat u) (freep (world s)) np"
    if "blk_next s (freep (world s)) = Some np" for np
    using that n(1) by (simp add: purva_malloc_def uf(1))
  show ?thesis
  proof (cases "enough u L")
    case True
    have "u < 4294967296" using uf(3) by simp
    from malloc_found [OF ok True uf(2) this] m show ?thesis by metis
  next
    case False
    from malloc_grown [OF ok False uf(2,3)] m False show ?thesis by metis
  qed
qed

lemma free_contract:
  assumes ok: "heap_ok s L" and blk: "(k, u) \<in> live L"
  shows "\<exists>s' L'. purva_free s (node s k + PURVA_HUNIT) = Some s' \<and> heap_ok s' L' \<and>
    live L' = live L - {(k, u)} \<and> (\<forall>b \<in> live L'. payload s' b = payload s b) \<and> outside s' = outside s"
proof -
  obtain L1 M where L: "L = L1 @ (u, False) # M" "k = 1 + units L1" using live_split [OF blk] .
  obtain s' where f: "purva_free s (node s k + PURVA_HUNIT) = Some s'" "heap_ok s' (freed L1 u M)"
      "touches s s' (insert k (set (nodes L1)))"
    using purva_free_ok [OF ok [unfolded L(1)] L(2)] by blast
  have pos: "list_all (\<lambda>(u, f). 0 < u) L" using ok by (simp add: heap_ok_def)
  have live: "live (freed L1 u M) = live L - {(k, u)}" using live_freed [of L1 u M] pos L by simp
  have "set (nodes L1) \<subseteq> spare L" using spare_nodes [OF pos] by (auto simp: L(1) nodes_def)
  then have "payload s' b = payload s b" if b: "b \<in> live L - {(k, u)}" for b
  proof (intro touches_payload [OF f(3)])
    fix i assume i: "i \<in> insert k (set (nodes L1))" "fst b < i"
    have "0 < u" using heap_top_unit [OF ok blk] by simp
    then show "\<not> i < fst b + snd b"
      using i b live_disjoint [OF ok _ blk, of "fst b" "snd b"] \<open>set (nodes L1) \<subseteq> spare L\<close>
      by (cases b) (fastforce simp: spare_def)
  qed
  then show ?thesis using f(1,2) live touches_outside [OF f(3)] by auto
qed

text \<open>The contract as an interface: whoever calls \<open>malloc\<close> and \<open>free\<close> needs no more than this.\<close>

locale block_allocator =
  fixes owns :: "'s \<Rightarrow> 'b set \<Rightarrow> bool"
    and alloc :: "'s \<Rightarrow> 'n \<Rightarrow> ('p \<times> 's) option"
    and release :: "'s \<Rightarrow> 'p \<Rightarrow> 's option"
    and address :: "'s \<Rightarrow> 'b \<Rightarrow> 'p"
    and held :: "'s \<Rightarrow> 'b \<Rightarrow> 'd"
    and shape :: "'s \<Rightarrow> 'f"
    and null :: 'p
    and servable :: "'n \<Rightarrow> bool"
  assumes alloc: "owns s B \<Longrightarrow> servable n \<Longrightarrow>
      (\<exists>s'. alloc s n = Some (null, s') \<and> owns s' B \<and> (\<forall>c \<in> B. held s' c = held s c) \<and> shape s' = shape s) \<or>
      (\<exists>b s'. alloc s n = Some (address s b, s') \<and> address s b \<noteq> null \<and> b \<notin> B \<and> owns s' (insert b B) \<and>
         (\<forall>c \<in> B. held s' c = held s c) \<and> shape s' = shape s)"
    and release: "owns s B \<Longrightarrow> b \<in> B \<Longrightarrow>
      \<exists>s'. release s (address s b) = Some s' \<and> owns s' (B - {b}) \<and> (\<forall>c \<in> B - {b}. held s' c = held s c) \<and>
        shape s' = shape s"
    and address: "shape s' = shape s \<Longrightarrow> address s' b = address s b"

text \<open>
  A caller: requests for blocks, and releases of the \<open>i\<close>-th of the pointers it holds.
\<close>

datatype 'n heap_call = Get 'n | Drop nat

fun heap_calls ::
  "('s \<Rightarrow> 'n \<Rightarrow> ('p \<times> 's) option) \<Rightarrow> ('s \<Rightarrow> 'p \<Rightarrow> 's option) \<Rightarrow> 'p \<Rightarrow> 'n heap_call list \<Rightarrow> 'p list \<Rightarrow> 's \<Rightarrow>
     ('p list \<times> 's) option" where
  "heap_calls alloc release null [] ps s = Some (ps, s)"
| "heap_calls alloc release null (Get n # cs) ps s =
     Option.bind (alloc s n) (\<lambda>r.
       heap_calls alloc release null cs (if fst r = null then ps else fst r # ps) (snd r))"
| "heap_calls alloc release null (Drop i # cs) ps s =
     (if i < length ps
      then Option.bind (release s (ps ! i)) (\<lambda>s'.
        heap_calls alloc release null cs (take i ps @ drop (Suc i) ps) s')
      else heap_calls alloc release null cs ps s)"

fun asks :: "('n \<Rightarrow> bool) \<Rightarrow> 'n heap_call \<Rightarrow> bool" where
  "asks ok (Get n) = ok n"
| "asks ok (Drop i) = True"

context block_allocator
begin

lemma calls_run:
  assumes "owns s (set bs)" "distinct bs" "list_all (asks servable) cs"
  shows "\<exists>bs' s'. heap_calls alloc release null cs (map (address s) bs) s = Some (map (address s') bs', s') \<and>
    distinct bs' \<and> owns s' (set bs') \<and> shape s' = shape s"
  using assms
proof (induction cs arbitrary: s bs)
  case (Cons c cs)
  have moved: "map (address s') ds = map (address s) ds" if "shape s' = shape s" for s' ds
    using address [OF that] by simp
  show ?case
  proof (cases c)
    case (Get n)
    then have "servable n" using Cons.prems(3) by simp
    from alloc [OF Cons.prems(1) this] show ?thesis
    proof (elim disjE exE conjE)
      fix s' assume a: "alloc s n = Some (null, s')" "owns s' (set bs)" "shape s' = shape s"
      from Cons.IH [OF a(2) Cons.prems(2)] Cons.prems(3) a show ?thesis
        by (simp add: Get moved [OF a(3)])
    next
      fix b s' assume a: "alloc s n = Some (address s b, s')" "address s b \<noteq> null" "b \<notin> set bs"
        "owns s' (insert b (set bs))" "shape s' = shape s"
      from Cons.IH [of s' "b # bs"] Cons.prems(2,3) a show ?thesis
        by (simp add: Get moved [OF a(5)] address [OF a(5)])
    qed
  next
    case (Drop i)
    show ?thesis
    proof (cases "i < length bs")
      case True
      let ?ds = "take i bs @ drop (Suc i) bs"
      have split: "bs = take i bs @ bs ! i # drop (Suc i) bs" by (rule id_take_nth_drop [OF True])
      then have d: "distinct (take i bs @ bs ! i # drop (Suc i) bs)"
        "set bs = insert (bs ! i) (set ?ds)" using Cons.prems(2) by (metis, metis Un_insert_right list.simps(15) set_append)
      then have ds: "set bs - {bs ! i} = set ?ds" "distinct ?ds" by auto
      have "bs ! i \<in> set bs" using True by simp
      from release [OF Cons.prems(1) this] obtain s' where
        r: "release s (address s (bs ! i)) = Some s'" "owns s' (set ?ds)" "shape s' = shape s"
        unfolding ds by blast
      from Cons.IH [OF r(2) ds(2)] Cons.prems(3) r True show ?thesis
        by (simp add: Drop moved [OF r(3)] take_map drop_map)
    next
      case False
      with Cons.IH [OF Cons.prems(1,2)] Cons.prems(3) show ?thesis by (simp add: Drop)
    qed
  qed
qed auto

end

section \<open>The allocator behind the interface\<close>

definition heap_owns :: "'u rvm \<Rightarrow> (nat \<times> nat) set \<Rightarrow> bool" where
  "heap_owns s B = (\<exists>L. heap_ok s L \<and> live L = B)"

definition block_addr :: "'u rvm \<Rightarrow> nat \<times> nat \<Rightarrow> u32" where
  "block_addr s b = node s (fst b) + PURVA_HUNIT"

lemma heap_ownsI: "heap_ok s L \<Longrightarrow> live L = B \<Longrightarrow> heap_owns s B"
  unfolding heap_owns_def by blast

lemma block_addr_outside: "outside s' = outside s \<Longrightarrow> block_addr s' b = block_addr s b"
  using outside_heap(1) [of s' s] by (simp add: block_addr_def)

lemma malloc_owns:
  assumes "heap_owns s B" "nbytes \<le> 0xFFFFFFF0"
  shows "purva_malloc s nbytes = Some (0, s) \<or>
    (\<exists>k s'. nbytes \<noteq> 0 \<and> purva_malloc s nbytes = Some (block_addr s (k, block_units nbytes), s') \<and>
      block_addr s (k, block_units nbytes) \<noteq> 0 \<and> (k, block_units nbytes) \<notin> B \<and>
      heap_owns s' (insert (k, block_units nbytes) B) \<and>
      (\<forall>b \<in> B. payload s' b = payload s b) \<and> outside s' = outside s)"
proof (cases "nbytes = 0")
  case True
  then show ?thesis by (simp add: purva_malloc_def)
next
  case False
  obtain L where L: "heap_ok s L" "live L = B" using assms(1) by (auto simp: heap_owns_def)
  from malloc_contract [OF L(1) False assms(2)] show ?thesis
  proof (elim disjE exE conjE)
    fix k L' s' assume m: "purva_malloc s nbytes = Some (node s k + PURVA_HUNIT, s')" "node s k + PURVA_HUNIT \<noteq> 0"
      "heap_ok s' L'" "(k, block_units nbytes) \<notin> live L" "live L' = insert (k, block_units nbytes) (live L)"
      "\<forall>b \<in> live L. payload s' b = payload s b" "outside s' = outside s"
    have "heap_owns s' (insert (k, block_units nbytes) B)" using heap_ownsI [OF m(3)] m(5) L(2) by simp
    then show ?thesis using m False unfolding L(2) by (auto simp: block_addr_def)
  qed simp
qed

lemma free_owns:
  assumes "heap_owns s B" "b \<in> B"
  shows "\<exists>s'. purva_free s (block_addr s b) = Some s' \<and> heap_owns s' (B - {b}) \<and>
    (\<forall>c \<in> B - {b}. payload s' c = payload s c) \<and> outside s' = outside s"
proof -
  obtain L where L: "heap_ok s L" "live L = B" using assms(1) by (auto simp: heap_owns_def)
  obtain k u where b: "b = (k, u)" by (cases b)
  from free_contract [OF L(1), of k u] assms(2) L(2) obtain s' L' where
    "purva_free s (node s k + PURVA_HUNIT) = Some s'" "heap_ok s' L'" "live L' = B - {b}"
    "\<forall>c \<in> live L'. payload s' c = payload s c" "outside s' = outside s" unfolding b by blast
  then show ?thesis using heap_ownsI by (auto simp: block_addr_def b)
qed

interpretation pheap: block_allocator heap_owns purva_malloc purva_free block_addr payload outside 0
  "\<lambda>n. n \<le> 0xFFFFFFF0"
proof
  fix s :: "'u rvm" and B and n :: u32
  assume "heap_owns s B" "n \<le> 0xFFFFFFF0"
  from malloc_owns [OF this] this(1) show "(\<exists>s'. purva_malloc s n = Some (0, s') \<and> heap_owns s' B \<and>
      (\<forall>c \<in> B. payload s' c = payload s c) \<and> outside s' = outside s) \<or>
    (\<exists>b s'. purva_malloc s n = Some (block_addr s b, s') \<and> block_addr s b \<noteq> 0 \<and> b \<notin> B \<and>
      heap_owns s' (insert b B) \<and> (\<forall>c \<in> B. payload s' c = payload s c) \<and> outside s' = outside s)"
    by blast
qed (rule free_owns block_addr_outside; assumption)+

section \<open>realloc\<close>

lemma arena_block:
  assumes "heap_ok s L" "(k, u) \<in> live L"
  shows "arena s (block_addr s (k, u)) = upos s k + 8"
proof -
  have span: "span_ok s" using assms(1) by (simp add: heap_ok_def)
  have le: "unat (arena_start s) \<le> unat (basep (world s))" using span by (simp add: span_ok_def word_le_nat_alt)
  have "addr_ok s (k + 1)" using heap_addr [OF assms(1)] heap_top_unit [OF assms] by simp
  then have n: "unat (node s (k + 1)) = unat (basep (world s)) + 8 * (k + 1)" by (rule unat_node)
  then have "arena_start s \<le> node s (k + 1)" using le by (simp add: word_le_nat_alt)
  moreover have "block_addr s (k, u) = node s (k + 1)" using node_add [of s k 1] by (simp add: block_addr_def)
  ultimately show ?thesis using le n by (simp add: arena_def arena_start_def [symmetric] unat_sub upos_def)
qed

lemma read_block:
  assumes "heap_ok s L" "(k, u) \<in> live L"
  shows "read_bytes s (WPtr (arena s (block_addr s (k, u)))) 0 (8 * (u - 1)) = Some (payload s (k, u))"
proof -
  have span: "span_ok s" using assms(1) by (simp add: heap_ok_def)
  then obtain bs where bs: "rg_ptr (writable s) = Some bs" by (auto simp: span_ok_def)
  note top = heap_top_unit [OF assms]
  have "upos s (k + u - 1) + 8 = upos s k + 8 * u" using top(2) by (cases u) (simp_all add: upos_def)
  then have "upos s k + 8 + 8 * (u - 1) \<le> length bs"
    using upos_bound [OF span heap_unit [OF assms(1)] bs, of "k + u - 1"] top by (cases u) simp_all
  then show ?thesis
    using read_bytes_list [OF bs, of "upos s k + 8" 0] by (simp add: arena_block [OF assms] payload_def bs)
qed

text \<open>\<open>realloc\<close> gives the block back as it is, or a larger one that begins with the same bytes.\<close>

lemma fill_owned:
  assumes "heap_owns s B" "b \<in> B" "length xs \<le> 8 * (snd b - 1)"
  shows "\<exists>s'. write_bytes s (WPtr (arena s (block_addr s b))) 0 xs = Some s' \<and> heap_owns s' B \<and>
    payload s' b = xs @ drop (length xs) (payload s b) \<and> (\<forall>c \<in> B - {b}. payload s' c = payload s c) \<and>
    outside s' = outside s"
proof -
  obtain L where L: "heap_ok s L" "live L = B" using assms(1) by (auto simp: heap_owns_def)
  obtain k u where b: "b = (k, u)" by (cases b)
  have blk: "(k, u) \<in> live L" using assms(2) L(2) by (simp add: b)
  have xs: "length xs \<le> 8 * (u - 1)" using assms(3) by (simp add: b)
  from fill_block [OF L(1) blk xs] show ?thesis
    using arena_block [OF L(1) blk] heap_ownsI L(2) unfolding b by metis
qed

lemma owned_block:
  assumes "heap_owns s B" "(k, u) \<in> B"
  shows "read_bytes s (WPtr (arena s (block_addr s (k, u)))) 0 (8 * (u - 1)) = Some (payload s (k, u))"
    "blk_size s (block_addr s (k, u) - PURVA_HUNIT) = Some (of_nat u)" "0 < u" "u < 536870911"
    "block_addr s (k, u) \<noteq> 0" "length (payload s (k, u)) = 8 * (u - 1)"
proof -
  obtain L where L: "heap_ok s L" "live L = B" using assms(1) by (auto simp: heap_owns_def)
  have blk: "(k, u) \<in> live L" using assms(2) L(2) by simp
  show "read_bytes s (WPtr (arena s (block_addr s (k, u)))) 0 (8 * (u - 1)) = Some (payload s (k, u))"
    by (rule read_block [OF L(1) blk])
  have "(k, u, False) \<in> set (place 1 L)" using blk by (simp add: live_def)
  then show "blk_size s (block_addr s (k, u) - PURVA_HUNIT) = Some (of_nat u)"
    using heap_size(1) [OF L(1)] by (simp add: block_addr_def)
  note top = heap_top_unit [OF L(1) blk]
  show "0 < u" "u < 536870911" using top heap_units [OF L(1)] by simp_all
  have "block_addr s (k, u) = node s (k + 1)" using node_add [of s k 1] by (simp add: block_addr_def)
  then show "block_addr s (k, u) \<noteq> 0" using heap_node_nonzero [OF L(1), of "k + 1"] top by simp
  have "span_ok s" using L(1) by (simp add: heap_ok_def)
  then show "length (payload s (k, u)) = 8 * (u - 1)" by (auto simp: payload_def span_ok_def)
qed

lemma old_bytes:
  assumes "0 < u" "u < 536870911"
  shows "unat ((of_nat u - 1) * PURVA_HUNIT) = 8 * (u - 1)"
proof -
  have "(of_nat u - 1) * PURVA_HUNIT = (of_nat (8 * (u - 1)) :: u32)"
    using assms(1) by (simp add: PURVA_HUNIT_def of_nat_diff)
  then show ?thesis by (simp only: unat_of_nat) (use assms(2) in simp)
qed

lemma block_units_room: "unat n \<le> 8 * (block_units n - 1)"
  by (simp add: block_units_def)

lemma realloc_owns:
  fixes s :: "'u rvm"
  assumes own: "heap_owns s B" "(k, u) \<in> B" and n: "n \<noteq> 0" "n \<le> 0xFFFFFFF0"
  defines "ap \<equiv> block_addr s (k, u)"
  shows "(unat n \<le> 8 * (u - 1) \<and> purva_realloc s ap n = Some (ap, s)) \<or>
    (8 * (u - 1) < unat n \<and> purva_realloc s ap n = Some (0, s)) \<or>
    (\<exists>b s'. 8 * (u - 1) < unat n \<and> snd b = block_units n \<and> b \<notin> B \<and>
      purva_realloc s ap n = Some (block_addr s b, s') \<and> heap_owns s' (insert b B - {(k, u)}) \<and>
      take (8 * (u - 1)) (payload s' b) = payload s (k, u) \<and>
      (\<forall>c \<in> B - {(k, u)}. payload s' c = payload s c) \<and> outside s' = outside s)"
proof -
  note blk = owned_block [OF own]
  have old: "unat ((of_nat u - 1) * PURVA_HUNIT) = 8 * (u - 1)" by (rule old_bytes [OF blk(3,4)])
  define ob where "ob = (of_nat u - 1) * PURVA_HUNIT"
  note start = blk(2,5) [folded ap_def]
  show ?thesis
  proof (cases "n \<le> ob")
    case True
    then have "purva_realloc s ap n = Some (ap, s)"
      using start n(1) by (simp add: purva_realloc_def ob_def [symmetric])
    moreover have "unat n \<le> 8 * (u - 1)" using True old by (simp add: word_le_nat_alt ob_def)
    ultimately show ?thesis by blast
  next
    case False
    then have lt: "8 * (u - 1) < unat n" and min: "(if ob < n then ob else n) = ob"
      using old by (simp_all add: word_le_nat_alt word_less_nat_alt ob_def)
    from malloc_owns [OF own(1) n(2)] show ?thesis
    proof (elim disjE exE conjE)
      assume "purva_malloc s n = Some (0, s)"
      then have "purva_realloc s ap n = Some (0, s)"
        using start n(1) False by (simp add: purva_realloc_def ob_def [symmetric])
      with lt show ?thesis by blast
    next
      fix k1 :: nat and s1 :: "'u rvm"
      define b where "b = (k1, block_units n)"
      assume "purva_malloc s n = Some (block_addr s (k1, block_units n), s1)"
        "block_addr s (k1, block_units n) \<noteq> 0" "(k1, block_units n) \<notin> B"
        "heap_owns s1 (insert (k1, block_units n) B)" "\<forall>c \<in> B. payload s1 c = payload s c" "outside s1 = outside s"
      note m = this [folded b_def]
      have same: "block_addr s1 = block_addr s" "arena s1 = arena s"
        using block_addr_outside [OF m(6)] outside_heap(4) [OF m(6)] by (simp_all add: fun_eq_iff)
      have own1: "(k, u) \<in> insert b B" "b \<in> insert b B" using own(2) by simp_all
      have read: "read_bytes s1 (WPtr (arena s1 ap)) 0 (unat ob) = Some (payload s (k, u))"
        using owned_block(1) [OF m(4) own1(1)] m(5) own(2) old by (simp add: same ap_def ob_def)
      have len: "length (payload s (k, u)) \<le> 8 * (snd b - 1)"
        using blk(6) lt block_units_room [of n] by (simp add: b_def)
      obtain s2 where w: "write_bytes s1 (WPtr (arena s1 (block_addr s b))) 0 (payload s (k, u)) = Some s2"
        "heap_owns s2 (insert b B)" "payload s2 b = payload s (k, u) @ drop (length (payload s (k, u))) (payload s1 b)"
        "\<forall>c \<in> insert b B - {b}. payload s2 c = payload s1 c" "outside s2 = outside s1"
        using fill_owned [OF m(4) own1(2) len] unfolding same by blast
      have ap2: "block_addr s2 (k, u) = ap" using block_addr_outside [OF w(5)] same(1) by (simp add: ap_def)
      obtain s3 where f: "purva_free s2 ap = Some s3" "heap_owns s3 (insert b B - {(k, u)})"
        "\<forall>c \<in> insert b B - {(k, u)}. payload s3 c = payload s2 c" "outside s3 = outside s2"
        using free_owns [OF w(2) own1(1)] unfolding ap2 by blast
      have run: "purva_realloc s ap n = Some (block_addr s b, s3)"
        using start n(1) False m(1,2) read w(1) f(1) by (simp add: purva_realloc_def ob_def [symmetric] min same)
      have "b \<noteq> (k, u)" using m(3) own(2) by blast
      then have "payload s3 b = payload s2 b" using f(3) by simp
      then have "take (8 * (u - 1)) (payload s3 b) = payload s (k, u)" using w(3) blk(6) by simp
      moreover have "payload s3 c = payload s c" if "c \<in> B - {(k, u)}" for c
        using f(3) w(4) m(3,5) that by auto
      moreover have "outside s3 = outside s" using f(4) w(5) m(6) by simp
      ultimately show ?thesis using lt m(3) run f(2) by (auto simp: b_def)
    qed
  qed
qed

end
