(* ===== verification/Purva_Embed.thy ===== *)
theory Purva_Embed
  imports Purva_Malloc
begin

text \<open>
  \<open>emu/purva/purvarun.h\<close> as its embedder and its guest see it: what \<open>purva_run_init\<close> sets up, what the
  host calls of the \<open>malloc\<close> group do, and when \<open>purva_run\<close> comes back.
\<close>

section \<open>Setting up\<close>

lemma touches_vm_ok: "touches s s' W \<Longrightarrow> vm_ok s \<Longrightarrow> vm_ok s'"
  by (auto simp: touches_def outside_def vm_ok_def wf_region_def)

lemma heap_start:
  assumes "span_ok s" "unit_ok s 0" "heap_brk (world s) = basep (world s) + PURVA_HUNIT" "freep (world s) = basep (world s)"
  shows "\<exists>s1 s'. set_next s (basep (world s)) (basep (world s)) = Some s1 \<and> set_size s1 (basep (world s)) 0 = Some s' \<and>
    heap_owns s' {} \<and> touches s s' {0} \<and> world s' = world s"
proof -
  have base: "basep (world s) = node s 0" by (simp add: node_def)
  from set_next_node [OF assms(1,2), of "node s 0"] obtain s1 where
    s1: "set_next s (node s 0) (node s 0) = Some s1" "touches s s1 {0}" "span_ok s1" "world s1 = world s"
      "nx s1 0 = Some (node s 0)" using assms(2) by metis
  note h1 = touches_heap [OF s1(2)]
  have "unit_ok s1 0" using assms(2) by (simp add: h1)
  from set_size_node [OF s1(3) this, of 0] obtain s2 where
    s2: "set_size s1 (node s 0) 0 = Some s2" "touches s1 s2 {0}" "span_ok s2" "world s2 = world s1"
      "sz s2 0 = Some 0" "nx s2 0 = nx s1 0" using \<open>unit_ok s1 0\<close> unfolding h1(1) by metis
  have n2: "node s2 = node s" using touches_heap(1) [OF s2(2)] h1(1) by simp
  have "unat (basep (world s)) + 8 < 4294967296"
    using assms(2) unat_lt_32 [of "heap_top (world s)"] unfolding unit_ok_def by linarith
  then have brk: "unat (basep (world s) + PURVA_HUNIT) = unat (basep (world s)) + 8"
    by (simp add: PURVA_HUNIT_def unat_word_ariths)
  then have "basep (world s) + PURVA_HUNIT \<le> heap_top (world s)"
    using assms(2) by (simp add: word_le_nat_alt unit_ok_def)
  then have "heap_ok s2 []"
    using s2(3-6) s1(4,5) assms(3,4) brk n2 by (simp add: heap_ok_def nodes_def base)
  then have "heap_owns s2 {}" by (rule heap_ownsI) (simp add: live_def)
  moreover have "touches s s2 {0}" using touches_trans [OF s1(2) s2(2)] by simp
  ultimately show ?thesis using s1(1,4) s2(1,4) unfolding base by auto
qed

text \<open>The state \<open>purva_run_init\<close> builds, before it writes the header of the base node.\<close>

definition start_state :: "u8 list \<Rightarrow> u32 \<Rightarrow> u32 \<Rightarrow> 'u \<Rightarrow> 'u rvm" where
  "start_state b ram stack user =
     (let h = img_word b; heap = h 2 + h 3 + ram; base = (RISCV_HALF + h 2 + h 3 + 15) AND NOT 15
      in pva_init \<lparr>rg_ptr = Some (take (unat (h 1)) (drop (20 + unat (h 0)) b)), rg_len = h 1, rg_base = 0 - h 1\<rparr>
           \<lparr>rg_ptr = Some (replicate (unat stack) 0 @ take (unat (h 2)) (drop (20 + unat (h 0) + unat (h 1)) b) @
              replicate (unat heap - unat (h 2)) 0), rg_len = stack + heap, rg_base = RISCV_HALF - stack\<rparr>
           \<lparr>pr_prog = \<lparr>tops = img_ops (take (unat (h 0)) (drop 20 b)), tn_ops = h 0 div 4, tcode_len = h 0\<rparr>,
            rodata_len = h 1, stack_len = stack, heap_len = heap, pr_status = PURVA_RUN_FUEL, exit_code = 0,
            heap_brk = base + PURVA_HUNIT, heap_top = RISCV_HALF + heap, freep = base, basep = base, pr_user = user,
            pr_bad = False\<rparr>)"

lemma purva_run_init_steps:
  fixes b :: "u8 list" and ram0 stack0 :: u32 and user :: 'u
  defines "h \<equiv> img_word b"
    and "ram \<equiv> if ram0 = 0 then 16 * 1024 * 1024 else ram0"
    and "stack \<equiv> max (if stack0 = 0 then 1024 * 1024 else stack0) (img_word b 4)"
  assumes image: "20 + unat (h 0) + unat (h 1) + unat (h 2) \<le> length b" "h 0 mod 4 = 0"
    and room: "23 \<le> unat ram" "unat (h 2) + unat (h 3) + unat ram < 2147483648" "unat stack \<le> 2147483648"
    and host: "\<forall>n. alloc n"
  defines "s0 \<equiv> start_state b ram stack user"
  shows "\<exists>s'. purva_run_init alloc b ram0 stack0 user = Some (Some s') \<and> touches s0 s' {0} \<and> world s' = world s0 \<and>
    heap_owns s' {} \<and> vm_ok s'"
    and "unat (heap_len (world s0)) = unat (h 2) + unat (h 3) + unat ram"
    and "unat (rg_len (writable s0)) = unat stack + unat (heap_len (world s0))"
    and "upos s0 0 \<ge> unat stack + unat (h 2)"
proof -
  define heap where "heap = h 2 + h 3 + ram"
  define base where "base = (RISCV_HALF + h 2 + h 3 + 15) AND NOT 15"
  define code where "code = take (unat (h 0)) (drop 20 b)"
  define rodata where "rodata = take (unat (h 1)) (drop (20 + unat (h 0)) b)"
  define rwdata where "rwdata = take (unat (h 2)) (drop (20 + unat (h 0) + unat (h 1)) b)"
  define wbuf where "wbuf = replicate (unat stack) 0 @ rwdata @ replicate (unat heap - unat (h 2)) 0"
  define r where "r = \<lparr>pr_prog = \<lparr>tops = img_ops code, tn_ops = h 0 div 4, tcode_len = h 0\<rparr>,
    rodata_len = h 1, stack_len = stack, heap_len = heap, pr_status = PURVA_RUN_FUEL, exit_code = 0,
    heap_brk = base + PURVA_HUNIT, heap_top = RISCV_HALF + heap, freep = base, basep = base, pr_user = user,
    pr_bad = False\<rparr>"
  have s0: "s0 = pva_init \<lparr>rg_ptr = Some rodata, rg_len = h 1, rg_base = 0 - h 1\<rparr>
    \<lparr>rg_ptr = Some wbuf, rg_len = stack + heap, rg_base = RISCV_HALF - stack\<rparr> r"
    by (simp add: s0_def start_state_def Let_def h_def heap_def base_def code_def rodata_def rwdata_def wbuf_def r_def)
  have half: "unat (RISCV_HALF) = 2147483648" by (simp add: RISCV_HALF_def)
  have hp: "unat heap = unat (h 2) + unat (h 3) + unat ram"
    using room(2) by (simp add: heap_def unat_word_ariths)
  have x: "unat (RISCV_HALF + h 2 + h 3 + 15) = 2147483663 + unat (h 2) + unat (h 3)"
    using room(1,2) by (simp add: unat_word_ariths half)
  have base: "2147483648 \<le> unat base" "unat base \<le> 2147483663 + unat (h 2) + unat (h 3)"
    using round_down [of "RISCV_HALF + h 2 + h 3 + 15"] unfolding base_def [symmetric] x by linarith+
  have top: "unat (RISCV_HALF + heap) = 2147483648 + unat heap"
    using room(2) hp by (simp add: unat_word_ariths half)
  have st: "unat (RISCV_HALF - stack) = 2147483648 - unat stack"
    using room(3) by (simp add: unat_sub word_le_nat_alt half)
  have len: "length wbuf = unat stack + unat heap"
    using image(1) hp by (simp add: wbuf_def rwdata_def)
  have sum: "unat (stack + heap) = unat stack + unat heap"
    using room(2,3) hp by (simp add: unat_word_ariths)
  have w: "world s0 = r" "rg_ptr (writable s0) = Some wbuf" by (simp_all add: s0 pva_init_def)
  have bt: "unat base + 8 \<le> unat (RISCV_HALF + heap)" using base(2) top hp room(1) by linarith
  have "base \<noteq> 0" using base(1) by (metis not_numeral_le_zero unat_0)
  moreover have "RISCV_HALF - stack \<le> base" "base \<le> RISCV_HALF + heap"
    using base(1) st bt by (simp_all add: word_le_nat_alt)
  moreover have "unat (RISCV_HALF + heap) - unat (RISCV_HALF - stack) \<le> length wbuf"
    using top st room(3) len by simp
  ultimately have span: "span_ok s0"
    using w by (simp add: span_ok_def arena_start_def r_def)
  have unit: "unit_ok s0 0" using bt w(1) by (simp add: unit_ok_def r_def)
  from heap_start [OF span unit] obtain s1 s' where
    s': "set_next s0 base base = Some s1" "set_size s1 base 0 = Some s'" "heap_owns s' {}" "touches s0 s' {0}"
      "world s' = r"
    using w(1) by (auto simp: r_def)
  have vm: "vm_ok s0"
    using image(1) len sum by (simp add: vm_ok_def wf_region_def s0 pva_init_def rodata_def)
  have run: "purva_run_init alloc b ram0 stack0 user = Some (Some s')"
  proof -
    have stack: "(if (if stack0 = 0 then 1024 * 1024 else stack0) < img_word b 4 then img_word b 4
        else (if stack0 = 0 then 1024 * 1024 else stack0)) = stack"
      by (auto simp: stack_def max_def)
    have "\<not> length b < 20" "\<not> length b < 20 + unat (h 0) + unat (h 1) + unat (h 2)" "unat stack + unat (h 2) \<le> unat stack + unat heap"
      using image(1) hp by simp_all
    with stack image(2) host s'(1,2) show ?thesis
      unfolding purva_run_init_def Let_def
      by (simp add: h_def ram_def heap_def code_def rodata_def rwdata_def wbuf_def base_def r_def s0)
  qed
  show "\<exists>s'. purva_run_init alloc b ram0 stack0 user = Some (Some s') \<and> touches s0 s' {0} \<and> world s' = world s0 \<and>
    heap_owns s' {} \<and> vm_ok s'"
    using run s'(3-5) w(1) touches_vm_ok [OF s'(4) vm] by auto
  show "unat (heap_len (world s0)) = unat (h 2) + unat (h 3) + unat ram" using hp w(1) by (simp add: r_def)
  show "unat (rg_len (writable s0)) = unat stack + unat (heap_len (world s0))"
    using sum by (simp add: s0 pva_init_def r_def)
  have "unat (RISCV_HALF + h 2 + h 3 + 15) - 15 \<le> unat base"
    using round_down(2) [of "RISCV_HALF + h 2 + h 3 + 15"] unfolding base_def [symmetric] by linarith
  then show "upos s0 0 \<ge> unat stack + unat (h 2)"
    using x st room(3) w(1) by (simp add: upos_def arena_start_def r_def)
qed

text \<open>
  \<open>purva_run_init\<close> on a well-formed image (its sections within the image, the code a whole number
  of words) with data, bss and arena that end below the address space and a stack of at most half
  of it: it succeeds, the engine state is well formed with the writable region holding stack and
  heap, the program starts at 0 with the status \<open>FUEL\<close>, and the arena is an empty heap.
\<close>
theorem purva_run_init_ok:
  fixes b :: "u8 list" and ram0 stack0 :: u32
  defines "h \<equiv> img_word b"
    and "ram \<equiv> if ram0 = 0 then 16 * 1024 * 1024 else ram0"
    and "stack \<equiv> max (if stack0 = 0 then 1024 * 1024 else stack0) (img_word b 4)"
  assumes image: "20 + unat (h 0) + unat (h 1) + unat (h 2) \<le> length b" "h 0 mod 4 = 0"
    and room: "23 \<le> unat ram" "unat (h 2) + unat (h 3) + unat ram < 2147483648" "unat stack \<le> 2147483648"
    and host: "\<forall>n. alloc n"
  shows "\<exists>s. purva_run_init alloc b ram0 stack0 user = Some (Some s) \<and> heap_owns s {} \<and> vm_ok s \<and> pc s = 0 \<and>
    pr_status (world s) = PURVA_RUN_FUEL \<and> tcode_len (pr_prog (world s)) = h 0 \<and>
    rg_base (writable s) = RISCV_HALF - stack \<and> unat (rg_len (writable s)) = unat stack + unat (heap_len (world s))"
proof -
  note steps = purva_run_init_steps [OF image [unfolded h_def] room [unfolded h_def ram_def stack_def] host, where user = user,
    folded h_def ram_def stack_def]
  obtain s' where s': "purva_run_init alloc b ram0 stack0 user = Some (Some s')"
    "touches (start_state b ram stack user) s' {0}" "world s' = world (start_state b ram stack user)"
    "heap_owns s' {}" "vm_ok s'"
    using steps(1) by blast
  have "outside s' = outside (start_state b ram stack user)" by (rule touches_outside [OF s'(2)])
  then have "pc s' = 0" "rg_base (writable s') = RISCV_HALF - stack"
    "rg_len (writable s') = rg_len (writable (start_state b ram stack user))"
    by (simp_all add: outside_def start_state_def Let_def pva_init_def)
  then show ?thesis
    using s' steps(3) by (simp add: start_state_def Let_def pva_init_def h_def)
qed

definition blank_image :: "u8 list" where
  "blank_image = replicate 20 0"

lemma purva_run_init_ok_witness:
  "\<exists>s. purva_run_init (\<lambda>_. True) blank_image 32 16 () = Some (Some s) \<and> heap_owns s {} \<and> vm_ok s \<and> pc s = 0 \<and>
    pr_status (world s) = PURVA_RUN_FUEL \<and> tcode_len (pr_prog (world s)) = 0 \<and>
    rg_base (writable s) = RISCV_HALF - 16 \<and> unat (rg_len (writable s)) = 16 + unat (heap_len (world s))"
proof -
  have h: "img_word blank_image i = 0" if "i \<le> 4" for i
    using that by (simp add: img_word_def blank_image_def le32_def)
  have "length blank_image = 20" by (simp add: blank_image_def)
  then show ?thesis
    using purva_run_init_ok [of blank_image 32 16 "\<lambda>_. True" "()"]
    by (simp add: h)
qed

section \<open>The guest's blocks\<close>

text \<open>The guest addresses of a block that are its owner's.\<close>

definition block_range :: "'u rvm \<Rightarrow> nat \<times> nat \<Rightarrow> nat set" where
  "block_range s b = {unat (block_addr s b)..<unat (block_addr s b) + 8 * (snd b - 1)}"

lemma heap_owns_ranges:
  assumes "heap_owns s B" "b \<in> B"
  shows "block_range s b \<subseteq> {unat (basep (world s))..<unat (heap_top (world s))}"
    "c \<in> B \<Longrightarrow> b \<noteq> c \<Longrightarrow> block_range s b \<inter> block_range s c = {}"
proof -
  obtain L where L: "heap_ok s L" "live L = B" using assms(1) by (auto simp: heap_owns_def)
  have addr: "unat (block_addr s d) = unat (basep (world s)) + 8 * (fst d + 1)" if "d \<in> B" for d
  proof -
    have "fst d + 1 \<le> 1 + units L" using heap_top_unit [OF L(1), of "fst d" "snd d"] that L(2) by simp
    from unat_node [OF heap_addr [OF L(1) this]] show ?thesis
      using node_add [of s "fst d" 1] by (simp add: block_addr_def)
  qed
  show "block_range s b \<subseteq> {unat (basep (world s))..<unat (heap_top (world s))}"
  proof -
    have "fst b + snd b \<le> 1 + units L" "0 < snd b"
      using heap_top_unit [OF L(1), of "fst b" "snd b"] assms(2) L(2) by simp_all
    then have "8 * (fst b + 1) + 8 * (snd b - 1) \<le> 8 * (1 + units L)" by (cases "snd b") simp_all
    moreover have "unat (basep (world s)) + 8 * (1 + units L) \<le> unat (heap_top (world s))"
      using heap_addr [OF L(1) order_refl] by (simp add: addr_ok_def)
    ultimately show ?thesis using addr [OF assms(2)] by (auto simp: block_range_def)
  qed
  show "block_range s b \<inter> block_range s c = {}" if c: "c \<in> B" "b \<noteq> c"
  proof -
    have "fst b + snd b \<le> fst c \<or> fst c + snd c \<le> fst b"
      using live_disjoint [OF L(1), of "fst b" "snd b" "fst c" "snd c"] assms(2) c L(2) by simp
    moreover have "0 < snd b" "0 < snd c"
      using heap_top_unit [OF L(1), of "fst b" "snd b"] heap_top_unit [OF L(1), of "fst c" "snd c"] assms(2) c(1) L(2)
      by simp_all
    ultimately show ?thesis
      using addr [OF assms(2)] addr [OF c(1)] by (cases "snd b"; cases "snd c") (auto simp: block_range_def)
  qed
qed

text \<open>A heap of nine units: a block of three in use, one of five free.\<close>

definition heap_demo :: "unit rvm" where
  "heap_demo = pva_init \<lparr>rg_ptr = Some [], rg_len = 0, rg_base = 0\<rparr>
     \<lparr>rg_ptr = Some ([0x20, 0, 0, 0x80, 0, 0, 0, 0] @ [0, 0, 0, 0, 3, 0, 0, 0] @ replicate 16 0x55 @
        [0, 0, 0, 0x80, 5, 0, 0, 0] @ replicate 32 0), rg_len = 72, rg_base = RISCV_HALF\<rparr>
     \<lparr>pr_prog = \<lparr>tops = [], tn_ops = 0, tcode_len = 0\<rparr>, rodata_len = 0, stack_len = 0, heap_len = 72,
      pr_status = PURVA_RUN_FUEL, exit_code = 0, heap_brk = RISCV_HALF + 72, heap_top = RISCV_HALF + 72,
      freep = RISCV_HALF, basep = RISCV_HALF, pr_user = (), pr_bad = False\<rparr>"

lemma heap_demo_owns: "heap_owns heap_demo {(1, 3)}"
proof -
  have "heap_ok heap_demo [(3, False), (5, True)]"
    by (simp add: heap_ok_def span_ok_def arena_start_def nodes_def node_def heap_ld_def arena_def region_rd_def
        heap_demo_def pva_init_def RISCV_HALF_def le32_def word_le_nat_alt nth_append)
  then show ?thesis by (rule heap_ownsI) (auto simp: live_def)
qed

text \<open>
  C14: \<open>purva__malloc\<close> on a well-formed heap, for a size of at most \<open>0xFFFFFFF0\<close>: either it returns 0 and
  nothing has changed, or it returns the address of a new block of at least that many bytes which
  overlaps no other block; what the other blocks hold is as before, and of the rest of the state
  only the allocator's bookkeeping changes.
\<close>
theorem purva_malloc_ok:
  fixes s :: "'a rvm"
  assumes "heap_owns s B" "nbytes \<le> 0xFFFFFFF0"
  shows "\<exists>q s'. purva_malloc s nbytes = Some (q, s') \<and> outside s' = outside s \<and>
    (q = 0 \<and> s' = s \<or>
     (\<exists>b. q = block_addr s' b \<and> q \<noteq> 0 \<and> heap_owns s' (insert b B) \<and> b \<notin> B \<and> unat nbytes \<le> 8 * (snd b - 1) \<and>
       (\<forall>c \<in> B. payload s' c = payload s c \<and> block_range s' b \<inter> block_range s' c = {})))"
  using malloc_owns [OF assms]
proof (elim disjE exE conjE)
  fix k :: nat and s' :: "'a rvm"
  let ?b = "(k, block_units nbytes)"
  assume m: "purva_malloc s nbytes = Some (block_addr s ?b, s')" "block_addr s ?b \<noteq> 0" "?b \<notin> B"
    "heap_owns s' (insert ?b B)" "\<forall>b \<in> B. payload s' b = payload s b" "outside s' = outside s"
  have "block_range s' ?b \<inter> block_range s' c = {}" if "c \<in> B" for c
    using heap_owns_ranges(2) [OF m(4), of ?b c] that m(3) by auto
  then have "\<forall>c \<in> B. payload s' c = payload s c \<and> block_range s' ?b \<inter> block_range s' c = {}" using m(5) by blast
  moreover have "block_addr s ?b = block_addr s' ?b" "unat nbytes \<le> 8 * (snd ?b - 1)"
    using block_addr_outside [OF m(6)] block_units_room [of nbytes] by simp_all
  ultimately show ?thesis using m(1-4,6) by blast
qed simp

lemma purva_malloc_ok_witness:
  "\<exists>q s'. purva_malloc heap_demo 16 = Some (q, s') \<and> outside s' = outside heap_demo \<and>
    (q = 0 \<and> s' = heap_demo \<or>
     (\<exists>b. q = block_addr s' b \<and> q \<noteq> 0 \<and> heap_owns s' (insert b {(1, 3)}) \<and> b \<notin> {(1, 3)} \<and>
       16 \<le> 8 * (snd b - 1) \<and> payload s' (1, 3) = payload heap_demo (1, 3) \<and>
       block_range s' b \<inter> block_range s' (1, 3) = {}))"
  using purva_malloc_ok [OF heap_demo_owns, of 16] by simp


text \<open>
  \<open>purva__free\<close> of the address of a block that is allocated: it succeeds, the block is no longer
  allocated and every other one still is, with what it holds.
\<close>
lemma purva_free_ok_owned:
  assumes "heap_owns s B" "b \<in> B"
  shows "\<exists>s'. purva_free s (block_addr s b) = Some s' \<and> heap_owns s' (B - {b}) \<and>
    (\<forall>c \<in> B - {b}. payload s' c = payload s c \<and> block_addr s' c = block_addr s c) \<and> outside s' = outside s"
  using pheap.release [OF assms] pheap.address by blast

lemma purva_free_ok_owned_witness:
  "\<exists>s'. purva_free heap_demo (block_addr heap_demo (1, 3)) = Some s' \<and> heap_owns s' {} \<and> outside s' = outside heap_demo"
  using purva_free_ok_owned [OF heap_demo_owns, of "(1, 3)"] by auto


text \<open>
  C26: \<open>purva__realloc\<close> of an allocated block to a size that is neither 0 nor above \<open>0xFFFFFFF0\<close>: the
  same address when the block is large enough; otherwise 0 and nothing changed, or the address of
  a new, larger block that begins with everything the old one held, the old one being free. The
  other blocks hold what they did.
\<close>
theorem purva_realloc_ok:
  assumes "heap_owns s B" "(k, u) \<in> B" "n \<noteq> 0" "n \<le> 0xFFFFFFF0"
  shows "\<exists>q s'. purva_realloc s (block_addr s (k, u)) n = Some (q, s') \<and> outside s' = outside s \<and>
    (if unat n \<le> 8 * (u - 1) then q = block_addr s (k, u) \<and> s' = s
     else q = 0 \<and> s' = s \<or>
       (\<exists>b. q = block_addr s' b \<and> heap_owns s' (insert b B - {(k, u)}) \<and> b \<notin> B \<and> unat n \<le> 8 * (snd b - 1) \<and>
         take (8 * (u - 1)) (payload s' b) = payload s (k, u) \<and>
         (\<forall>c \<in> B - {(k, u)}. payload s' c = payload s c)))"
  using realloc_owns [OF assms]
proof (elim disjE exE conjE)
  fix b s'
  assume r: "8 * (u - 1) < unat n" "snd b = block_units n" "b \<notin> B"
    "purva_realloc s (block_addr s (k, u)) n = Some (block_addr s b, s')" "heap_owns s' (insert b B - {(k, u)})"
    "take (8 * (u - 1)) (payload s' b) = payload s (k, u)" "\<forall>c \<in> B - {(k, u)}. payload s' c = payload s c"
    "outside s' = outside s"
  have "block_addr s b = block_addr s' b" "unat n \<le> 8 * (snd b - 1)" "\<not> unat n \<le> 8 * (u - 1)"
    using block_addr_outside [OF r(8)] block_units_room [of n] r(1,2) by simp_all
  with r(3-8) show ?thesis by (intro exI [of _ "block_addr s b"] exI [of _ s']) (simp only: if_False, blast)
qed simp_all

lemma purva_realloc_ok_witness:
  "\<exists>q s'. purva_realloc heap_demo (block_addr heap_demo (1, 3)) 24 = Some (q, s') \<and> outside s' = outside heap_demo \<and>
    (q = 0 \<and> s' = heap_demo \<or>
     (\<exists>b. q = block_addr s' b \<and> heap_owns s' (insert b {(1, 3)} - {(1, 3)}) \<and> b \<noteq> (1, 3) \<and> 24 \<le> 8 * (snd b - 1) \<and>
       take 16 (payload s' b) = payload heap_demo (1, 3)))"
  using purva_realloc_ok [OF heap_demo_owns, of 1 3 24] by simp





section \<open>The host calls of the malloc group\<close>








section \<open>Running\<close>

lemma purva_run_loop_fuel:
  "purva_run_loop cb fuel used s = Inr (s', n) \<Longrightarrow> pr_status (world s') = PURVA_RUN_FUEL \<Longrightarrow> fuel \<le> n"
proof (induction cb fuel used s rule: purva_run_loop.induct)
  case (1 cb fuel used s)
  note run = "1.prems"(1) [unfolded purva_run_loop.simps [of cb fuel used s] Let_def upd_run_def]
  show ?case
    using run "1.prems"(2) "1.IH" by (auto split: if_splits sum.splits prod.splits)
qed

text \<open>
  \<open>purva_run\<close> always comes back (its loop ends because every round but the last uses fuel), with
  the status it leaves in the \<open>PurvaRun\<close>, and it says \<open>FUEL\<close> only when the instructions it was given
  are used up: a guest that can still run is never sent back early.
\<close>
lemma purva_run_fuel:
  assumes "purva_run cb s fuel = Inr (st, s', n)"
  shows "st = pr_status (world s') \<and> (st = PURVA_RUN_FUEL \<longrightarrow> fuel \<le> n)"
  using assms purva_run_loop_fuel [of cb fuel 0 s s' n]
  by (auto simp: purva_run_def split: if_splits sum.splits prod.splits)

text \<open>A guest that jumps to itself, and runs until its fuel is used up.\<close>

definition spin_guest :: "unit rvm" where
  "spin_guest = upd_run (\<lambda>r. r\<lparr>pr_prog := \<lparr>tops = [0xA4000000], tn_ops = 1, tcode_len = 4\<rparr>\<rparr>) heap_demo"

lemma purva_run_fuel_witness:
  "\<exists>s'. purva_run \<lparr>cb_write = None, cb_hostcall = None\<rparr> spin_guest 1 = Inr (PURVA_RUN_FUEL, s', 1) \<and>
    PURVA_RUN_FUEL = pr_status (world s') \<and> (1::nat) \<le> 1"
proof -
  let ?cb = "\<lparr>cb_write = None, cb_hostcall = None\<rparr> :: unit purva_callbacks"
  have f: "TC_OP 0xA4000000 = 41" "TC_A 0xA4000000 = 0" "TC_JOFF 0xA4000000 = 0" by code_simp+
  have step: "pva_exec hk 0 0xA4000000 0 s = Some (s, 1, P_reloc 0)" for hk :: "unit prun hooks" and s
    by (simp add: pva_exec_def f pva_rr_def pva_ri_def pva_load_ty_def pva_store_n_def pva_br_def h_jal_def wr_def)
  have st: "pc spin_guest = 0" "tops (pr_prog (world spin_guest)) = [0xA4000000]" "tcode_len (pr_prog (world spin_guest)) = 4"
    "pr_status (world spin_guest) = PURVA_RUN_FUEL"
    by (simp_all add: spin_guest_def upd_run_def heap_demo_def pva_init_def)
  have "pva_loop (purva_hooks ?cb) (Some (pr_prog (world spin_guest))) spin_guest 1 = Inr (spin_guest\<lparr>pc := 0\<rparr>, 1)"
    by (simp add: pva_loop_def st pva_run.simps step two_words_def f)
  then have "purva_run ?cb spin_guest 1 = Inr (PURVA_RUN_FUEL, spin_guest\<lparr>pc := 0\<rparr>, 1)"
    by (simp add: purva_run_def purva_run_loop.simps st)
  with purva_run_fuel [OF this] show ?thesis by auto
qed

end
