(* ===== verification/Purva_Image.thy ===== *)
theory Purva_Image
  imports Purva_Embed
begin

text \<open>
  Image files, \<open>emu/purva/image.h\<close>: what \<open>transcode\<close> writes and \<open>purva\<close> reads. A file is its bytes;
  \<open>fwrite\<close> takes what still fits into \<open>cap\<close> bytes and \<open>fread\<close> gives what is left. \<open>None\<close> is a host
  access outside a buffer (a size field above the length of its blob, or a failed \<open>malloc\<close>, which
  \<open>image_read\<close> does not test). Whether \<open>fopen\<close> and \<open>malloc\<close> succeed are arguments.
\<close>

section \<open>The format\<close>

record image =
  code_size :: u32
  rodata_size :: u32
  rwdata_size :: u32
  bss_size :: u32
  stack_size :: u32
  im_code :: "u8 list"
  im_rodata :: "u8 list"
  im_rwdata :: "u8 list"

definition img_wr32 :: "u32 \<Rightarrow> u8 list" where
  "img_wr32 v = [byte_of 0 v, byte_of 1 v, byte_of 2 v, byte_of 3 v]"

definition img_rd32 :: "u8 list \<Rightarrow> (u32 \<times> u8 list) option" where
  "img_rd32 f = (if length f < 4 then None else Some (le32 (f ! 0) (f ! 1) (f ! 2) (f ! 3), drop 4 f))"

text \<open>The chain of \<open>fwrite\<close> calls joined by \<open>&&\<close>; \<open>None\<close> in the list is a read outside the blob.\<close>

fun img_puts :: "nat \<Rightarrow> u8 list \<Rightarrow> u8 list option list \<Rightarrow> (u8 list \<times> bool) option" where
  "img_puts cap f [] = Some (f, True)"
| "img_puts cap f (None # cs) = None"
| "img_puts cap f (Some c # cs) =
     (if length c \<le> cap - length f then img_puts cap (f @ c) cs
      else Some (f @ take (cap - length f) c, False))"

definition img_blob :: "u32 \<Rightarrow> u8 list \<Rightarrow> u8 list option" where
  "img_blob n p = (if unat n \<le> length p then Some (take (unat n) p) else None)"

definition image_write :: "bool \<Rightarrow> nat \<Rightarrow> image \<Rightarrow> (u8 list option \<times> int) option" where
  "image_write opens cap img =
     (if \<not> opens then Some (None, -1)
      else map_option (\<lambda>(f, ok). (Some f, if ok then 0 else -1))
        (img_puts cap []
           [Some (img_wr32 (code_size img)), Some (img_wr32 (rodata_size img)), Some (img_wr32 (rwdata_size img)),
            Some (img_wr32 (bss_size img)), Some (img_wr32 (stack_size img)),
            img_blob (code_size img) (im_code img), img_blob (rodata_size img) (im_rodata img),
            img_blob (rwdata_size img) (im_rwdata img)]))"

text \<open>
  \<open>image_read\<close>. The outer \<open>None\<close> is a host fault, the inner one the error return; a header cut
  short and a blob cut short are both errors.
\<close>

definition image_header :: "u8 list \<Rightarrow> ((u32 \<times> u32 \<times> u32 \<times> u32 \<times> u32) \<times> u8 list) option" where
  "image_header f = do {
     (c, f) \<leftarrow> img_rd32 f; (ro, f) \<leftarrow> img_rd32 f; (rw, f) \<leftarrow> img_rd32 f;
     (bss, f) \<leftarrow> img_rd32 f; (st, f) \<leftarrow> img_rd32 f;
     Some ((c, ro, rw, bss, st), f) }"

definition image_read :: "(nat \<Rightarrow> bool) \<Rightarrow> u8 list option \<Rightarrow> image option option" where
  "image_read alloc file =
     (case file of
        None \<Rightarrow> Some None
      | Some f0 \<Rightarrow>
          (case image_header f0 of
             None \<Rightarrow> Some None
           | Some ((c, ro, rw, bss, st), f) \<Rightarrow>
               if (unat c \<noteq> 0 \<and> \<not> alloc (unat c)) then None
               else if length f < unat c then Some None
               else if (unat ro \<noteq> 0 \<and> \<not> alloc (unat ro)) then None
               else if length f < unat c + unat ro then Some None
               else if (unat rw \<noteq> 0 \<and> \<not> alloc (unat rw)) then None
               else if length f < unat c + unat ro + unat rw then Some None
               else Some (Some \<lparr>code_size = c, rodata_size = ro, rwdata_size = rw, bss_size = bss, stack_size = st,
                 im_code = take (unat c) f, im_rodata = take (unat ro) (drop (unat c) f),
                 im_rwdata = take (unat rw) (drop (unat c + unat ro) f)\<rparr>)))"

section \<open>Writing and reading back\<close>

definition image_ok :: "image \<Rightarrow> bool" where
  "image_ok img = (length (im_code img) = unat (code_size img) \<and> length (im_rodata img) = unat (rodata_size img) \<and>
     length (im_rwdata img) = unat (rwdata_size img))"

definition image_bytes :: "image \<Rightarrow> u8 list" where
  "image_bytes img = img_wr32 (code_size img) @ img_wr32 (rodata_size img) @ img_wr32 (rwdata_size img) @
     img_wr32 (bss_size img) @ img_wr32 (stack_size img) @ im_code img @ im_rodata img @ im_rwdata img"

lemma length_img_wr32 [simp]: "length (img_wr32 v) = 4"
  by (simp add: img_wr32_def)

lemma img_rd32_wr32 [simp]: "img_rd32 (img_wr32 v @ f) = Some (v, f)"
  by (simp add: img_rd32_def img_wr32_def le32_bytes [simplified])

lemma length_image_bytes: "length (image_bytes img) = 20 + length (im_code img) + length (im_rodata img) + length (im_rwdata img)"
  by (simp add: image_bytes_def)

lemma img_puts_fit: "length f + length (concat cs) \<le> cap \<Longrightarrow> img_puts cap f (map Some cs) = Some (f @ concat cs, True)"
  by (induction cs arbitrary: f) simp_all

lemma image_write_bytes:
  assumes "image_ok img" "length (image_bytes img) \<le> cap"
  shows "image_write True cap img = Some (Some (image_bytes img), 0)"
proof -
  let ?cs = "[img_wr32 (code_size img), img_wr32 (rodata_size img), img_wr32 (rwdata_size img),
    img_wr32 (bss_size img), img_wr32 (stack_size img), im_code img, im_rodata img, im_rwdata img]"
  have "concat ?cs = image_bytes img" by (simp add: image_bytes_def)
  moreover have "img_blob (code_size img) (im_code img) = Some (im_code img)"
    "img_blob (rodata_size img) (im_rodata img) = Some (im_rodata img)"
    "img_blob (rwdata_size img) (im_rwdata img) = Some (im_rwdata img)"
    using assms(1) by (simp_all add: img_blob_def image_ok_def)
  ultimately show ?thesis
    using img_puts_fit [of "[]" ?cs cap] assms(2) unfolding image_write_def by (simp only: list.map) simp
qed

text \<open>
  An image whose size fields are those of its blobs, written to a file with room for it, is
  read back as it was.
\<close>
lemma image_roundtrip:
  assumes "image_ok img" "length (image_bytes img) \<le> cap"
  shows "\<exists>f. image_write True cap img = Some (f, 0) \<and> image_read (\<lambda>_. True) f = Some (Some img)"
  using assms
  by (simp add: image_write_bytes image_read_def image_header_def image_bytes_def image_ok_def)

definition small_image :: image where
  "small_image = \<lparr>code_size = 4, rodata_size = 2, rwdata_size = 3, bss_size = 8, stack_size = 16,
     im_code = [0, 0, 0, 0xA4], im_rodata = [0x68, 0x69], im_rwdata = [1, 2, 3]\<rparr>"

lemma small_image_ok: "image_ok small_image" "length (image_bytes small_image) = 29"
  by (simp_all add: image_ok_def length_image_bytes small_image_def)

lemma image_roundtrip_witness:
  "\<exists>f. image_write True 100 small_image = Some (f, 0) \<and> image_read (\<lambda>_. True) f = Some (Some small_image)"
  using image_roundtrip [OF small_image_ok(1), of 100] small_image_ok(2) by simp

section \<open>From the file to the engine\<close>

lemma img_words:
  "img_word (image_bytes img) 0 = code_size img" "img_word (image_bytes img) 1 = rodata_size img"
  "img_word (image_bytes img) 2 = rwdata_size img" "img_word (image_bytes img) 3 = bss_size img"
  "img_word (image_bytes img) 4 = stack_size img"
  by (simp_all add: img_word_def image_bytes_def img_wr32_def le32_bytes [simplified])

lemma img_blobs:
  assumes "image_ok img"
  shows "take (unat (code_size img)) (drop 20 (image_bytes img)) = im_code img"
    "take (unat (rodata_size img)) (drop (20 + unat (code_size img)) (image_bytes img)) = im_rodata img"
    "take (unat (rwdata_size img)) (drop (20 + unat (code_size img) + unat (rodata_size img)) (image_bytes img)) = im_rwdata img"
  using assms by (simp_all add: image_bytes_def image_ok_def)

text \<open>
  What an image file says is what the guest gets. The bytes \<open>image_write\<close> puts out for a
  well-formed image whose code is whole words, given to \<open>purva_run_init\<close> with an arena of at least
  23 bytes and sizes that fit the address space, make a state whose program is the image's op words,
  whose read-only region is the image's rodata, ending at the top of the address space, and whose
  writable region holds the image's initial data from \<open>RISCV_HALF\<close> on.
\<close>
lemma image_loads:
  fixes img :: image and ram0 stack0 :: u32 and user :: 'u
  defines "ram \<equiv> if ram0 = 0 then 16 * 1024 * 1024 else ram0"
    and "stack \<equiv> max (if stack0 = 0 then 1024 * 1024 else stack0) (stack_size img)"
  assumes ok: "image_ok img" "code_size img mod 4 = 0"
    and room: "23 \<le> unat ram" "unat (rwdata_size img) + unat (bss_size img) + unat ram < 2147483648"
      "unat stack \<le> 2147483648"
    and host: "\<forall>n. alloc n"
  shows "\<exists>s bs. purva_run_init alloc (image_bytes img) ram0 stack0 user = Some (Some s) \<and>
    tops (pr_prog (world s)) = img_ops (im_code img) \<and> tcode_len (pr_prog (world s)) = code_size img \<and>
    rg_ptr (readonly s) = Some (im_rodata img) \<and> rg_base (readonly s) = 0 - rodata_size img \<and>
    rg_ptr (writable s) = Some bs \<and> rg_base (writable s) = RISCV_HALF - stack \<and>
    take (unat (rwdata_size img)) (drop (unat stack) bs) = im_rwdata img \<and> heap_owns s {} \<and> vm_ok s"
proof -
  let ?b = "image_bytes img"
  define s0 where "s0 = start_state ?b ram stack user"
  have len: "20 + unat (img_word ?b 0) + unat (img_word ?b 1) + unat (img_word ?b 2) \<le> length ?b"
    unfolding img_words using ok(1) by (simp add: length_image_bytes image_ok_def)
  note steps = purva_run_init_steps [OF len _ _ _ _ host, of ram0 stack0 user, unfolded img_words, folded ram_def stack_def,
    folded s0_def, OF ok(2) room]
  obtain s' where s': "purva_run_init alloc ?b ram0 stack0 user = Some (Some s')" "touches s0 s' {0}" "world s' = world s0"
    "heap_owns s' {}" "vm_ok s'" using steps(1) by blast
  let ?w = "replicate (unat stack) 0 @ im_rwdata img @ replicate (unat (rwdata_size img + bss_size img + ram) - unat (rwdata_size img)) 0"
  have st: "readonly s0 = \<lparr>rg_ptr = Some (im_rodata img), rg_len = rodata_size img, rg_base = 0 - rodata_size img\<rparr>"
    "rg_ptr (writable s0) = Some ?w" "rg_base (writable s0) = RISCV_HALF - stack"
    "tops (pr_prog (world s0)) = img_ops (im_code img)" "tcode_len (pr_prog (world s0)) = code_size img"
    by (simp_all add: s0_def start_state_def Let_def pva_init_def img_words img_words(2) [unfolded One_nat_def]
        img_blobs [OF ok(1)])
  obtain bs where bs: "rg_ptr (writable s') = Some bs" "length bs = length ?w"
    "\<And>i. i < upos s0 0 \<Longrightarrow> bs ! i = ?w ! i"
    using s'(2) st(2) unfolding touches_def by (metis (no_types, lifting) leD option.inject singletonD)
  have "take (unat (rwdata_size img)) (drop (unat stack) bs) = im_rwdata img"
  proof (rule nth_equalityI)
    show len: "length (take (unat (rwdata_size img)) (drop (unat stack) bs)) = length (im_rwdata img)"
      using bs(2) ok(1) by (simp add: image_ok_def)
    fix i assume "i < length (take (unat (rwdata_size img)) (drop (unat stack) bs))"
    then have i: "i < unat (rwdata_size img)" "i < length (im_rwdata img)" using len ok(1) by (simp_all add: image_ok_def)
    then have "bs ! (unat stack + i) = ?w ! (unat stack + i)" using bs(3) steps(4) by simp
    also have "\<dots> = im_rwdata img ! i" using i by (simp add: nth_append)
    finally show "take (unat (rwdata_size img)) (drop (unat stack) bs) ! i = im_rwdata img ! i"
      using i bs(2) by simp
  qed
  moreover have "readonly s' = readonly s0" "rg_base (writable s') = rg_base (writable s0)"
    using touches_outside [OF s'(2)] by (simp_all add: outside_def)
  ultimately show ?thesis using s' st bs(1) by simp
qed

lemma image_loads_witness:
  "\<exists>s bs. purva_run_init (\<lambda>_. True) (image_bytes small_image) 64 32 () = Some (Some s) \<and>
    tops (pr_prog (world s)) = img_ops [0, 0, 0, 0xA4] \<and> tcode_len (pr_prog (world s)) = 4 \<and>
    rg_ptr (readonly s) = Some [0x68, 0x69] \<and> rg_base (readonly s) = 0 - 2 \<and>
    rg_ptr (writable s) = Some bs \<and> rg_base (writable s) = RISCV_HALF - 32 \<and>
    take 3 (drop 32 bs) = [1, 2, 3] \<and> heap_owns s {} \<and> vm_ok s"
  using image_loads [OF small_image_ok(1), of 64 32 "\<lambda>_. True" "()"] by (simp add: small_image_def)

text \<open>Op words written as bytes are read as they were.\<close>

definition ops_bytes :: "u32 list \<Rightarrow> u8 list" where
  "ops_bytes ops = concat (map img_wr32 ops)"

lemma length_ops_bytes [simp]: "length (ops_bytes ops) = 4 * length ops"
  by (induction ops) (simp_all add: ops_bytes_def)

lemma img_ops_bytes: "img_ops (ops_bytes ops) = ops"
proof (induction ops)
  case (Cons x ops)
  have b: "ops_bytes (x # ops) = img_wr32 x @ ops_bytes ops" by (simp add: ops_bytes_def)
  have "img_word (img_wr32 x @ c) 0 = x" for c
    by (simp add: img_word_def img_wr32_def le32_bytes [simplified])
  moreover have "img_word (img_wr32 x @ c) (Suc i) = img_word c i" for c i
    by (simp add: img_word_def img_wr32_def add.commute [of 3])
  moreover have "[0..<Suc (length ops)] = 0 # map Suc [0..<length ops]"
    by (simp add: map_Suc_upt upt_conv_Cons del: upt_Suc)
  ultimately show ?case using Cons by (simp add: img_ops_def b comp_def del: upt_Suc)
qed (simp add: ops_bytes_def img_ops_def)

end
