(* ===== verification/Purva_Main.thy ===== *)
theory Purva_Main
  imports Host_Driver Purva_Image
begin

text \<open>
  The driver of the transcoding engine, \<open>emu/purva/main.c\<close>. Its handlers, initial stack, slice loop
  and signature dump are the text of \<open>emu/main.c\<close>, with the length of the heap part of the writable
  region in the place of the heap size; what differs is where the program and the symbols come from.
\<close>

section \<open>Setting up\<close>

text \<open>\<open>sym\<close>: a name in the file given with \<open>--symbols=\<close>, if there is one.\<close>

definition psym :: "u8 list option \<Rightarrow> u8 list \<Rightarrow> u32 option option" where
  "psym symbols name = (case symbols of None \<Rightarrow> Some None | Some e \<Rightarrow> elf_sym e name)"

definition heap_region_len :: "image \<Rightarrow> options \<Rightarrow> u32" where
  "heap_region_len img opts = rwdata_size img + bss_size img + o_ram opts"

definition stack_region_len :: "image \<Rightarrow> u32" where
  "stack_region_len img = (if stack_size img > 16 * 1024 * 1024 then stack_size img else 16 * 1024 * 1024)"

definition pmain_host :: "options \<Rightarrow> image \<Rightarrow> host" where
  "pmain_host opts img =
     \<lparr>g_halt = False, g_exit = 1, g_user_mode = o_user opts, g_brk = RISCV_HALF + rwdata_size img + bss_size img,
      g_faulted = False, g_heap_size = heap_region_len img opts, g_stdout = [], g_stderr = []\<rparr>"

text \<open>
  The writable buffer: the stack, then the initial data, then zeros. A failed \<open>calloc\<close> is not
  tested: the region is then a NULL pointer with its length, and copying into it a host fault.
\<close>

definition pmain_buffer :: "(nat \<Rightarrow> bool) \<Rightarrow> options \<Rightarrow> image \<Rightarrow> u8 list option option" where
  "pmain_buffer alloc opts img =
     (let t = unat (stack_region_len img); h = unat (heap_region_len img opts)
      in if alloc (t + h) then
           (if rwdata_size img = 0 then Some (Some (replicate (t + h) 0))
            else map_option Some (copy_in (im_rwdata img) 0 (unat (rwdata_size img)) (replicate (t + h) 0) t))
         else if rwdata_size img = 0 then Some None else None)"

definition pmain_state :: "options \<Rightarrow> image \<Rightarrow> u8 list option \<Rightarrow> hvm" where
  "pmain_state opts img buf =
     pva_init \<lparr>rg_ptr = Some (im_rodata img), rg_len = rodata_size img, rg_base = 0 - rodata_size img\<rparr>
       \<lparr>rg_ptr = buf, rg_len = stack_region_len img + heap_region_len img opts, rg_base = RISCV_HALF - stack_region_len img\<rparr>
       (pmain_host opts img)"

text \<open>\<open>Transcoded prog = { (uint32_t *)img.code, img.code_size / 4, img.code_size }\<close>.\<close>

definition pmain_prog :: "image \<Rightarrow> transcoded" where
  "pmain_prog img = \<lparr>tops = img_ops (im_code img), tn_ops = code_size img div 4, tcode_len = code_size img\<rparr>"

text \<open>The start of the program; a function to invoke starts at its address in the symbol file.\<close>

definition pmain_start ::
  "options \<Rightarrow> u8 list option \<Rightarrow> image \<Rightarrow> u8 list option \<Rightarrow> hvm
     \<Rightarrow> (hvm \<times> u32 option \<times> (u32 \<times> u32) option) option option" where
  "pmain_start opts symbols img buf s =
     (case o_invoke opts of
        Some name \<Rightarrow> do {
          r \<leftarrow> psym symbols name;
          Some (case r of
                  None \<Rightarrow> None
                | Some v \<Rightarrow> Some ((set_args (o_args opts) 10 (s\<lparr>regs := (regs s)(1 := MAGIC_RET)\<rparr>))\<lparr>pc := v\<rparr>, None, None)) }
      | None \<Rightarrow>
          if o_user opts then do {
            mem0 \<leftarrow> buf;
            (sp, mem) \<leftarrow> setup_user_stack (RISCV_HALF - stack_region_len img) (o_argv opts) mem0;
            Some (Some ((with_stack s mem sp)\<lparr>pc := 0\<rparr>, None, None)) }
          else do {
            t \<leftarrow> psym symbols sym_tohost; b \<leftarrow> psym symbols sym_begin; e \<leftarrow> psym symbols sym_end;
            Some (Some (s\<lparr>pc := 0\<rparr>, t, (case (b, e) of (Some x, Some y) \<Rightarrow> Some (x, y) | _ \<Rightarrow> None))) })"

section \<open>Running\<close>

text \<open>A slice; \<open>None\<close> is a fault of the engine.\<close>

definition pmain_slice :: "image \<Rightarrow> hvm \<Rightarrow> nat \<Rightarrow> (hvm \<times> nat) option" where
  "pmain_slice img s n = (case pva_loop main_hooks (Some (pmain_prog img)) s n of Inl x \<Rightarrow> None | Inr r \<Rightarrow> Some r)"

definition purva_main ::
  "(nat \<Rightarrow> bool) \<Rightarrow> bool \<Rightarrow> options \<Rightarrow> u8 list option \<Rightarrow> u8 list option \<Rightarrow> main_end option" where
  "purva_main alloc opens opts symbols file =
     (case image_read alloc file of
        None \<Rightarrow> None
      | Some None \<Rightarrow> Some (exit_with 2)
      | Some (Some img) \<Rightarrow>
          (case pmain_buffer alloc opts img of
             None \<Rightarrow> None
           | Some buf \<Rightarrow>
               (case pmain_start opts symbols img buf (pmain_state opts img buf) of
                  None \<Rightarrow> None
                | Some None \<Rightarrow> Some (exit_with 2)
                | Some (Some (s, tohost, sg)) \<Rightarrow>
                    (case run_slices (pmain_slice img) tohost (o_invoke opts \<noteq> None) (o_max opts) 0 s of
                       None \<Rightarrow> None
                     | Some (s', i) \<Rightarrow> main_finish opens opts sg s' i))))"

section \<open>What the program starts with\<close>

text \<open>
  With an image whose size fields are those of its blobs, and sizes that fit the two halves of the
  address space, the driver sets up a well-formed state in which the guest reads the image's initial
  data from \<open>RISCV_HALF\<close> on and its read-only data up to the top of the address space; the program
  is the image's op array.
\<close>

lemma pmain_ready:
  assumes "image_ok img" "\<forall>n. alloc n"
    and room: "unat (rwdata_size img) + unat (bss_size img) + unat (o_ram opts) + unat (rodata_size img) < 2147483648"
      "unat (stack_region_len img) \<le> 2147483648"
  shows "\<exists>buf. pmain_buffer alloc opts img = Some (Some buf) \<and> vm_ok (pmain_state opts img (Some buf)) \<and>
    (\<forall>i < unat (rwdata_size img).
       guest_byte (pmain_state opts img (Some buf)) (RISCV_HALF + of_nat i) = Some (im_rwdata img ! i)) \<and>
    (\<forall>i < unat (rodata_size img).
       guest_byte (pmain_state opts img (Some buf)) (0 - rodata_size img + of_nat i) = Some (im_rodata img ! i))"
proof -
  let ?t = "stack_region_len img" and ?h = "heap_region_len img opts" and ?rw = "rwdata_size img" and ?ro = "rodata_size img"
  have len: "length (im_rwdata img) = unat ?rw" "length (im_rodata img) = unat ?ro" using assms(1) by (simp_all add: image_ok_def)
  have h: "unat ?h = unat ?rw + unat (bss_size img) + unat (o_ram opts)"
    using room(1) by (simp add: heap_region_len_def unat_word_ariths)
  have th: "unat (?t + ?h) = unat ?t + unat ?h" using h room by (simp add: unat_word_ariths)
  have base: "unat (RISCV_HALF - ?t) = 2147483648 - unat ?t"
    using room(2) unat_sub [of ?t RISCV_HALF] by (simp add: word_le_nat_alt half_nat)
  obtain m where m: "copy_in (im_rwdata img) 0 (unat ?rw) (replicate (unat ?t + unat ?h) 0) (unat ?t) = Some m"
    "length m = unat ?t + unat ?h"
    "\<forall>j. m ! j = (if unat ?t \<le> j \<and> j < unat ?t + unat ?rw then im_rwdata img ! (0 + (j - unat ?t)) else replicate (unat ?t + unat ?h) 0 ! j)"
    using copy_exists [of 0 "unat ?rw" "im_rwdata img" "unat ?t" "replicate (unat ?t + unat ?h) 0"] len h by auto
  have z: "m = replicate (unat ?t + unat ?h) 0" if "?rw = 0"
    using m(1) that by (auto simp: copy_in_def replicate_add [symmetric])
  have buf: "pmain_buffer alloc opts img = Some (Some m)"
    using m(1) assms(2) z by (auto simp: pmain_buffer_def Let_def)
  let ?s = "pmain_state opts img (Some m)"
  have ok: "vm_ok ?s" using m(2) len th by (simp add: vm_ok_def wf_region_def pmain_state_def pva_init_def)
  have rw: "guest_byte ?s (RISCV_HALF + of_nat i) = Some (im_rwdata img ! i)" if i: "i < unat ?rw" for i
  proof -
    have "unat (RISCV_HALF + of_nat i) = 2147483648 + i"
      using i h room(1) unat_add_small [of RISCV_HALF i] by (simp add: half_nat)
    then have "unat (RISCV_HALF + of_nat i - (RISCV_HALF - ?t)) = unat ?t + i"
      using dist_eq [of "RISCV_HALF - ?t" "RISCV_HALF + of_nat i"] base room(2) by simp
    then show ?thesis
      using i h m th by (simp add: guest_byte_def pmain_state_def pva_init_def region_rd_def word_less_nat_alt)
  qed
  have ro: "guest_byte ?s (0 - ?ro + of_nat i) = Some (im_rodata img ! i)" if i: "i < unat ?ro" for i
  proof -
    have "unat (0 - ?ro) = 4294967296 - unat ?ro" using i unat_sub_if' [of 0 ?ro] by simp
    then have a: "unat (0 - ?ro + of_nat i) = 4294967296 - unat ?ro + i"
      using i room(1) unat_add_small [of "0 - ?ro" i] by simp
    have "unat (0 - ?ro + of_nat i - (RISCV_HALF - ?t)) = 4294967296 - unat ?ro + i - (2147483648 - unat ?t)"
      using dist_eq [of "RISCV_HALF - ?t" "0 - ?ro + of_nat i"] a base room(1) by simp
    then have "\<not> 0 - ?ro + of_nat i - (RISCV_HALF - ?t) < ?t + ?h"
      using th h room unfolding word_less_nat_alt by linarith
    moreover have "unat (0 - ?ro + of_nat i - (0 - ?ro)) = i"
      using order.strict_trans [OF i unat_lt_32] by (simp add: unat_of_nat take_bit_nat_eq_self)
    ultimately show ?thesis
      using i len(2) by (simp add: guest_byte_def pmain_state_def pva_init_def region_rd_def word_less_nat_alt)
  qed
  show ?thesis using buf ok rw ro by blast
qed

end
