(* ===== verification/Purvs_Decode.thy ===== *)
theory Purvs_Decode
  imports Purv_Decode
begin

text \<open>
  The decode half of \<open>emu/purvs/purvs.c\<close>: the leaf opcodes, the decoded record and
  \<open>decode_one\<close>. A record is a head slot and, for the opcodes of \<open>RISCV_IMM_MASK\<close>, an immediate
  in the slot after it. The buffer is reused, so \<open>decode_one\<close> takes the old contents of the two
  slots and overwrites only the fields its case writes.
\<close>

section \<open>Leaf opcodes\<close>

text \<open>The enum \<open>RISCV_OP_*\<close> of \<open>purvs.h\<close>, in its order; \<open>sop_num\<close> is the C value.\<close>

datatype sop =
    S_ADD | S_SLL | S_SLT | S_SLTU | S_XOR | S_SRL | S_OR | S_AND | S_SUB | S_SRA
  | S_ADDI | S_SLLI | S_SLTI | S_SLTIU | S_XORI | S_SRLI | S_ORI | S_ANDI | S_SRAI
  | S_MUL | S_MULH | S_MULHSU | S_MULHU | S_DIV | S_DIVU | S_REM | S_REMU
  | S_LB | S_LH | S_LW | S_LBU | S_LHU
  | S_SB | S_SH | S_SW
  | S_BEQ | S_BNE | S_BLT | S_BGE | S_BLTU | S_BGEU
  | S_JAL | S_JALR
  | S_LUI | S_NOP
  | S_ECALL | S_EBREAK | S_ILLEGAL
  | S_END

definition sop_list :: "sop list" where
  "sop_list =
    [S_ADD, S_SLL, S_SLT, S_SLTU, S_XOR, S_SRL, S_OR, S_AND, S_SUB, S_SRA,
     S_ADDI, S_SLLI, S_SLTI, S_SLTIU, S_XORI, S_SRLI, S_ORI, S_ANDI, S_SRAI,
     S_MUL, S_MULH, S_MULHSU, S_MULHU, S_DIV, S_DIVU, S_REM, S_REMU,
     S_LB, S_LH, S_LW, S_LBU, S_LHU, S_SB, S_SH, S_SW,
     S_BEQ, S_BNE, S_BLT, S_BGE, S_BLTU, S_BGEU, S_JAL, S_JALR,
     S_LUI, S_NOP, S_ECALL, S_EBREAK, S_ILLEGAL, S_END]"

primrec sop_num :: "sop \<Rightarrow> nat" where
  "sop_num S_ADD = 0" | "sop_num S_SLL = 1" | "sop_num S_SLT = 2" | "sop_num S_SLTU = 3"
| "sop_num S_XOR = 4" | "sop_num S_SRL = 5" | "sop_num S_OR = 6" | "sop_num S_AND = 7"
| "sop_num S_SUB = 8" | "sop_num S_SRA = 9"
| "sop_num S_ADDI = 10" | "sop_num S_SLLI = 11" | "sop_num S_SLTI = 12" | "sop_num S_SLTIU = 13"
| "sop_num S_XORI = 14" | "sop_num S_SRLI = 15" | "sop_num S_ORI = 16" | "sop_num S_ANDI = 17"
| "sop_num S_SRAI = 18"
| "sop_num S_MUL = 19" | "sop_num S_MULH = 20" | "sop_num S_MULHSU = 21" | "sop_num S_MULHU = 22"
| "sop_num S_DIV = 23" | "sop_num S_DIVU = 24" | "sop_num S_REM = 25" | "sop_num S_REMU = 26"
| "sop_num S_LB = 27" | "sop_num S_LH = 28" | "sop_num S_LW = 29" | "sop_num S_LBU = 30"
| "sop_num S_LHU = 31"
| "sop_num S_SB = 32" | "sop_num S_SH = 33" | "sop_num S_SW = 34"
| "sop_num S_BEQ = 35" | "sop_num S_BNE = 36" | "sop_num S_BLT = 37" | "sop_num S_BGE = 38"
| "sop_num S_BLTU = 39" | "sop_num S_BGEU = 40"
| "sop_num S_JAL = 41" | "sop_num S_JALR = 42"
| "sop_num S_LUI = 43" | "sop_num S_NOP = 44"
| "sop_num S_ECALL = 45" | "sop_num S_EBREAK = 46" | "sop_num S_ILLEGAL = 47"
| "sop_num S_END = 48"

text \<open>Enum arithmetic such as \<open>RISCV_OP_ADDI + f3\<close>.\<close>

definition sop_plus :: "sop \<Rightarrow> u32 \<Rightarrow> sop" where
  "sop_plus p f3 = sop_list ! (sop_num p + unat f3)"

text \<open>\<open>RISCV_IMM_MASK\<close> and its test: bits 10..18, 27..43 and 45..47.\<close>

definition RISCV_IMM_MASK :: u64 where
  "RISCV_IMM_MASK =
     push_bit 10 (push_bit 9 1 - 1) OR push_bit 27 (push_bit 17 1 - 1) OR
     push_bit 45 (push_bit 3 1 - 1)"

definition op_has_imm :: "sop \<Rightarrow> bool" where
  "op_has_imm p = (drop_bit (sop_num p) RISCV_IMM_MASK AND 1 = 1)"

definition is_terminator :: "sop \<Rightarrow> bool" where
  "is_terminator p =
     (sop_num S_BEQ \<le> sop_num p \<and> sop_num p \<le> sop_num S_JALR \<or>
      sop_num S_ECALL \<le> sop_num p \<and> sop_num p \<le> sop_num S_ILLEGAL)"

definition is_trap_op :: "sop \<Rightarrow> bool" where
  "is_trap_op p = (sop_num S_ECALL \<le> sop_num p \<and> sop_num p \<le> sop_num S_ILLEGAL)"

lemma sop_list_num: "sop_num p < length sop_list \<and> sop_list ! sop_num p = p"
  by (cases p) (simp_all add: sop_list_def)

lemma sop_plus_table:
  "sop_plus p 0 = p"
  "sop_plus S_ADD 1 = S_SLL" "sop_plus S_ADD 2 = S_SLT" "sop_plus S_ADD 3 = S_SLTU"
  "sop_plus S_ADD 4 = S_XOR" "sop_plus S_ADD 5 = S_SRL" "sop_plus S_ADD 6 = S_OR"
  "sop_plus S_ADD 7 = S_AND"
  "sop_plus S_ADDI 1 = S_SLLI" "sop_plus S_ADDI 2 = S_SLTI" "sop_plus S_ADDI 3 = S_SLTIU"
  "sop_plus S_ADDI 4 = S_XORI" "sop_plus S_ADDI 5 = S_SRLI" "sop_plus S_ADDI 6 = S_ORI"
  "sop_plus S_ADDI 7 = S_ANDI"
  "sop_plus S_MUL 1 = S_MULH" "sop_plus S_MUL 2 = S_MULHSU" "sop_plus S_MUL 3 = S_MULHU"
  "sop_plus S_MUL 4 = S_DIV" "sop_plus S_MUL 5 = S_DIVU" "sop_plus S_MUL 6 = S_REM"
  "sop_plus S_MUL 7 = S_REMU"
  using sop_list_num by (simp_all add: sop_plus_def) (simp_all add: sop_list_def)

lemma op_has_imm_iff:
  "op_has_imm p \<longleftrightarrow> 10 \<le> sop_num p \<and> sop_num p \<le> 18 \<or> 27 \<le> sop_num p \<and> sop_num p \<le> 43 \<or>
     45 \<le> sop_num p \<and> sop_num p \<le> 47"
  by (cases p) (simp_all add: op_has_imm_def RISCV_IMM_MASK_def)

section \<open>The decoded record\<close>

text \<open>The head slot of \<open>RiscvEmulatorDecoded_t\<close>, and a head with the slot that follows it.\<close>

record head =
  sop :: sop
  srd :: reg
  srs1 :: reg
  srs2 :: reg

type_synonym rec = "head \<times> u32"

definition load_op :: "u32 \<Rightarrow> sop" where
  "load_op f3 =
     (if f3 = 0 then S_LB else if f3 = 1 then S_LH else if f3 = 2 then S_LW
      else if f3 = 4 then S_LBU else if f3 = 5 then S_LHU else S_ILLEGAL)"

definition store_op :: "u32 \<Rightarrow> sop" where
  "store_op f3 =
     (if f3 = 0 then S_SB else if f3 = 1 then S_SH else if f3 = 2 then S_SW else S_ILLEGAL)"

definition branch_op :: "u32 \<Rightarrow> sop" where
  "branch_op f3 =
     (if f3 = 0 then S_BEQ else if f3 = 1 then S_BNE else if f3 = 4 then S_BLT
      else if f3 = 5 then S_BGE else if f3 = 6 then S_BLTU else if f3 = 7 then S_BGEU
      else S_ILLEGAL)"

section \<open>decode_one\<close>

text \<open>The 32-bit half; \<open>d\<close> and \<open>v\<close> are the slots' old contents, \<open>off\<close> the instruction's address.\<close>

definition decode_one32 :: "rec \<Rightarrow> u32 \<Rightarrow> u32 \<Rightarrow> rec" where
  "decode_one32 old w off =
     (let rd = rfield 7 w; rs1 = rfield 15 w; rs2 = rfield 20 w;
          f3 = f3_of w; f7 = f7_of w; opc = w AND 0x7f;
          d = (fst old)\<lparr>srd := rd, srs1 := rs1\<rparr>; v = snd old
      in if opc = 0x13 then
           (if f3 = 1 \<or> f3 = 5 then
              (d\<lparr>sop := if f3 = 5 \<and> f7 = 0x20 then S_SRAI else sop_plus S_ADDI f3\<rparr>,
               drop_bit 20 w AND 31)
            else (d\<lparr>sop := sop_plus S_ADDI f3\<rparr>, imm_I w))
         else if opc = 0x33 then
           (d\<lparr>srs2 := rs2,
              sop := if f7 = 1 then sop_plus S_MUL f3
                     else if f7 = 0x20 then (if f3 = 0 then S_SUB else S_SRA)
                     else sop_plus S_ADD f3\<rparr>, v)
         else if opc = 0x03 then (d\<lparr>sop := load_op f3\<rparr>, imm_I w)
         else if opc = 0x23 then (d\<lparr>sop := store_op f3, srs2 := rs2\<rparr>, imm_S w)
         else if opc = 0x63 then (d\<lparr>sop := branch_op f3, srs2 := rs2\<rparr>, off + imm_B w)
         else if opc = 0x6f then (d\<lparr>sop := S_JAL\<rparr>, off + imm_J w)
         else if opc = 0x67 then (d\<lparr>sop := S_JALR\<rparr>, imm_I w)
         else if opc = 0x37 then (d\<lparr>sop := S_LUI\<rparr>, imm_U w)
         else if opc = 0x17 then (d\<lparr>sop := S_LUI\<rparr>, off + imm_U w)
         else if opc = 0x0f then
           (d\<lparr>sop := if rd \<noteq> 0 \<or> rs1 \<noteq> 0 \<or> (f3 \<noteq> 0 \<and> f3 \<noteq> 1) then S_ILLEGAL else S_NOP\<rparr>, v)
         else if opc = 0x73 then
           (d\<lparr>sop := if f3 = 0 \<and> rd = 0 \<and> rs1 = 0 \<and> imm_sys w = 0 then S_ECALL
                     else if f3 = 0 \<and> rd = 0 \<and> rs1 = 0 \<and> imm_sys w = 1 then S_EBREAK
                     else S_ILLEGAL\<rparr>, v)
         else (d\<lparr>sop := S_ILLEGAL\<rparr>, v))"

definition decode_one16_misc_alu :: "rec \<Rightarrow> u32 \<Rightarrow> rec" where
  "decode_one16_misc_alu old c =
     (let rdp = rfieldc 2 c; rsp = rfieldc 7 c; k = drop_bit 10 c AND 3;
          d = (fst old)\<lparr>srd := rsp, srs1 := rsp\<rparr>; v = snd old
      in if k = 0 then (d\<lparr>sop := S_SRLI\<rparr>, c_shamt c)
         else if k = 1 then (d\<lparr>sop := S_SRAI\<rparr>, c_shamt c)
         else if k = 2 then (d\<lparr>sop := S_ANDI\<rparr>, c_ci c)
         else if drop_bit 12 c AND 1 \<noteq> 0 then (d\<lparr>sop := S_ILLEGAL\<rparr>, v)
         else (let j = drop_bit 5 c AND 3
               in (d\<lparr>srs2 := rdp,
                     sop := if j = 0 then S_SUB else if j = 1 then S_XOR
                            else if j = 2 then S_OR else S_AND\<rparr>, v)))"

definition decode_one16_cr :: "rec \<Rightarrow> u32 \<Rightarrow> rec" where
  "decode_one16_cr old c =
     (let rd = rfield 7 c; rs2 = rfield 2 c; d = fst old; v = snd old
      in if drop_bit 12 c AND 1 = 0 then
           (if rs2 = 0 then (d\<lparr>sop := S_JALR, srs1 := rd, srd := 0\<rparr>, 0)
            else (d\<lparr>sop := S_ADD, srd := rd, srs1 := 0, srs2 := rs2\<rparr>, v))
         else if rd = 0 \<and> rs2 = 0 then (d\<lparr>sop := S_EBREAK\<rparr>, v)
         else if rs2 = 0 then (d\<lparr>sop := S_JALR, srs1 := rd, srd := 1\<rparr>, 0)
         else (d\<lparr>sop := S_ADD, srs1 := rd, srs2 := rs2\<rparr>, v))"

definition decode_one16 :: "rec \<Rightarrow> u32 \<Rightarrow> u32 \<Rightarrow> rec" where
  "decode_one16 old c off =
     (let rd = rfield 7 c; rdp = rfieldc 2 c; rsp = rfieldc 7 c; sel = c_sel c;
          d = (fst old)\<lparr>srd := rd\<rparr>; v = snd old
      in if sel = 0 then
           (d\<lparr>sop := if c_addi4spn c \<noteq> 0 then S_ADDI else S_ILLEGAL, srd := rdp, srs1 := 2\<rparr>,
            c_addi4spn c)
         else if sel = 8 then (d\<lparr>sop := S_LW, srd := rdp, srs1 := rsp\<rparr>, c_lw_imm c)
         else if sel = 24 then (d\<lparr>sop := S_SW, srs1 := rsp, srs2 := rdp\<rparr>, c_lw_imm c)
         else if sel = 1 then (d\<lparr>sop := S_ADDI, srs1 := rd\<rparr>, c_ci c)
         else if sel = 5 then (d\<lparr>srd := 1, sop := S_JAL\<rparr>, off + c_cj c)
         else if sel = 21 then (d\<lparr>srd := 0, sop := S_JAL\<rparr>, off + c_cj c)
         else if sel = 9 then (d\<lparr>sop := S_ADDI, srs1 := 0\<rparr>, c_ci c)
         else if sel = 13 then
           (if rd = 2 then
              (d\<lparr>sop := if c_addi16sp c \<noteq> 0 then S_ADDI else S_ILLEGAL, srd := 2, srs1 := 2\<rparr>,
               c_addi16sp c)
            else (d\<lparr>sop := if c_lui_imm c \<noteq> 0 then S_LUI else S_ILLEGAL\<rparr>, c_lui_imm c))
         else if sel = 17 then decode_one16_misc_alu (d, v) c
         else if sel = 25 then (d\<lparr>sop := S_BEQ, srs1 := rsp, srs2 := 0\<rparr>, off + c_cb c)
         else if sel = 29 then (d\<lparr>sop := S_BNE, srs1 := rsp, srs2 := 0\<rparr>, off + c_cb c)
         else if sel = 2 then (d\<lparr>sop := S_SLLI, srs1 := rd\<rparr>, c_shamt c)
         else if sel = 10 then (d\<lparr>sop := S_LW, srs1 := 2\<rparr>, c_lwsp_imm c)
         else if sel = 18 then decode_one16_cr (d, v) c
         else if sel = 26 then (d\<lparr>sop := S_SW, srs1 := 2, srs2 := rfield 2 c\<rparr>, c_swsp_imm c)
         else (d\<lparr>sop := S_ILLEGAL\<rparr>, v))"

text \<open>The trailing fixup: trap ops carry the raw word in the immediate slot.\<close>

definition trap_raw :: "u32 \<Rightarrow> rec \<Rightarrow> rec" where
  "trap_raw raw r = (if is_trap_op (sop (fst r)) then (fst r, raw) else r)"

definition decode_rec :: "rec \<Rightarrow> u32 \<Rightarrow> u32 \<Rightarrow> u32 \<Rightarrow> rec" where
  "decode_rec old w width off =
     trap_raw w (if width = 4 then decode_one32 old w off else decode_one16 old w off)"

definition decode_one :: "rec \<Rightarrow> u8 list \<Rightarrow> u32 \<Rightarrow> (rec \<times> u32) option" where
  "decode_one old code off =
     map_option (\<lambda>(w, width). (decode_rec old w width off, width)) (fetch code off)"

end
