(* ===== verification/Purvs_Eval.thy ===== *)
theory Purvs_Eval
  imports Purvs_Decode Purv_Loop
begin

text \<open>
  The execute half of \<open>emu/purvs/purvs.c\<close>: \<open>RiscvEmulatorDefaultEval\<close>, the threaded evaluator
  that walks the slots of a decoded run. The last section relates one decoded record to the
  action purv performs for the same instruction.
\<close>

section \<open>Slots\<close>

text \<open>
  The union \<open>RiscvEmulatorDecoded_t\<close>: a slot is a head or a trailing immediate. Reading an
  immediate slot as a head is type punning the engine never does; here it has no result.
\<close>

datatype slot = Head head | Imm u32

definition slots_of :: "rec \<Rightarrow> slot list" where
  "slots_of r = (if op_has_imm (sop (fst r)) then [Head (fst r), Imm (snd r)] else [Head (fst r)])"

section \<open>The handlers\<close>

text \<open>The reg-reg handlers \<open>h_add\<close> to \<open>h_and\<close> and \<open>h_mul\<close> to \<open>h_remu\<close>.\<close>

definition rr_val :: "sop \<Rightarrow> (u32 \<Rightarrow> u32 \<Rightarrow> u32) option" where
  "rr_val p =
     (if p = S_ADD then Some (\<lambda>a b. a + b)
      else if p = S_SUB then Some (\<lambda>a b. a - b)
      else if p = S_SLL then Some (\<lambda>a b. push_bit (unat (b AND 31)) a)
      else if p = S_SLT then Some (\<lambda>a b. if sint a < sint b then 1 else 0)
      else if p = S_SLTU then Some (\<lambda>a b. if a < b then 1 else 0)
      else if p = S_XOR then Some (\<lambda>a b. a XOR b)
      else if p = S_SRL then Some (\<lambda>a b. drop_bit (unat (b AND 31)) a)
      else if p = S_SRA then Some (\<lambda>a b. signed_drop_bit (unat (b AND 31)) a)
      else if p = S_OR then Some (\<lambda>a b. a OR b)
      else if p = S_AND then Some (\<lambda>a b. a AND b)
      else if p = S_MUL then Some (\<lambda>a b. a * b)
      else if p = S_MULH then Some c_mulh
      else if p = S_MULHSU then Some c_mulhsu
      else if p = S_MULHU then Some c_mulhu
      else if p = S_DIV then Some c_div
      else if p = S_DIVU then Some c_divu
      else if p = S_REM then Some c_rem
      else if p = S_REMU then Some c_remu
      else None)"

text \<open>The reg-imm handlers \<open>h_addi\<close> to \<open>h_srai\<close>.\<close>

definition ri_val :: "sop \<Rightarrow> (u32 \<Rightarrow> u32 \<Rightarrow> u32) option" where
  "ri_val p =
     (if p = S_ADDI then Some (\<lambda>a i. a + i)
      else if p = S_SLLI then Some (\<lambda>a i. push_bit (unat (i AND 31)) a)
      else if p = S_SLTI then Some (\<lambda>a i. if sint a < sint i then 1 else 0)
      else if p = S_SLTIU then Some (\<lambda>a i. if a < i then 1 else 0)
      else if p = S_XORI then Some (\<lambda>a i. a XOR i)
      else if p = S_SRLI then Some (\<lambda>a i. drop_bit (unat (i AND 31)) a)
      else if p = S_ORI then Some (\<lambda>a i. a OR i)
      else if p = S_ANDI then Some (\<lambda>a i. a AND i)
      else if p = S_SRAI then Some (\<lambda>a i. signed_drop_bit (unat (i AND 31)) a)
      else None)"

text \<open>The load handlers: the value, and the state the callback leaves on a miss.\<close>

definition cb_load :: "'w hooks \<Rightarrow> 'w vm \<Rightarrow> u32 \<Rightarrow> u32 \<times> 'w vm" where
  "cb_load hk s ad =
     (case h_callback hk of None \<Rightarrow> (0, s) | Some cb \<Rightarrow> cb s RISCV_MEM_LOAD ad 0)"

definition load_with ::
  "'w hooks \<Rightarrow> 'w vm \<Rightarrow> u32 \<Rightarrow> u32 \<Rightarrow> (hptr \<Rightarrow> u32 option) \<Rightarrow> (u32 \<Rightarrow> u32) \<Rightarrow> (u32 \<times> 'w vm) option" where
  "load_with hk s ad n hit miss =
     (case mem_xlate s ad n False of
        Some p \<Rightarrow> map_option (\<lambda>v. (v, s)) (hit p)
      | None \<Rightarrow> (case cb_load hk s ad of (v, s') \<Rightarrow> Some (miss v, s')))"

definition h_load :: "'w hooks \<Rightarrow> sop \<Rightarrow> u32 \<Rightarrow> 'w vm \<Rightarrow> (u32 \<times> 'w vm) option" where
  "h_load hk p ad s =
     (if p = S_LB then
        load_with hk s ad 1 (\<lambda>q. do { b0 \<leftarrow> rd8 s q 0; Some (scast b0) }) (\<lambda>v. sext v 8)
      else if p = S_LH then
        load_with hk s ad 2
          (\<lambda>q. do { b0 \<leftarrow> rd8 s q 0; b1 \<leftarrow> rd8 s q 1; Some (scast (ucast (le16 b0 b1) :: u16)) })
          (\<lambda>v. sext v 16)
      else if p = S_LW then
        load_with hk s ad 4
          (\<lambda>q. do { b0 \<leftarrow> rd8 s q 0; b1 \<leftarrow> rd8 s q 1; b2 \<leftarrow> rd8 s q 2; b3 \<leftarrow> rd8 s q 3;
                    Some (le32 b0 b1 b2 b3) }) (\<lambda>v. v)
      else if p = S_LBU then
        load_with hk s ad 1 (\<lambda>q. do { b0 \<leftarrow> rd8 s q 0; Some (ucast b0) }) (\<lambda>v. v AND 0xff)
      else if p = S_LHU then
        load_with hk s ad 2 (\<lambda>q. do { b0 \<leftarrow> rd8 s q 0; b1 \<leftarrow> rd8 s q 1; Some (le16 b0 b1) })
          (\<lambda>v. v AND 0xffff)
      else None)"

definition is_load :: "sop \<Rightarrow> bool" where
  "is_load p = (p = S_LB \<or> p = S_LH \<or> p = S_LW \<or> p = S_LBU \<or> p = S_LHU)"

text \<open>The store handlers.\<close>

definition h_store :: "'w hooks \<Rightarrow> sop \<Rightarrow> u32 \<Rightarrow> u32 \<Rightarrow> 'w vm \<Rightarrow> 'w vm option" where
  "h_store hk p ad b s =
     (if p = S_SB then
        (case mem_xlate s ad 1 True of
           Some q \<Rightarrow> wr8 s q 0 (byte_of 0 b) | None \<Rightarrow> Some (store_miss hk s ad b))
      else if p = S_SH then
        (case mem_xlate s ad 2 True of
           Some q \<Rightarrow> do { s1 \<leftarrow> wr8 s q 0 (byte_of 0 b); wr8 s1 q 1 (byte_of 1 b) }
         | None \<Rightarrow> Some (store_miss hk s ad b))
      else if p = S_SW then
        (case mem_xlate s ad 4 True of
           Some q \<Rightarrow> do {
             s1 \<leftarrow> wr8 s q 0 (byte_of 0 b); s2 \<leftarrow> wr8 s1 q 1 (byte_of 1 b);
             s3 \<leftarrow> wr8 s2 q 2 (byte_of 2 b); wr8 s3 q 3 (byte_of 3 b) }
         | None \<Rightarrow> Some (store_miss hk s ad b))
      else None)"

definition is_store :: "sop \<Rightarrow> bool" where
  "is_store p = (p = S_SB \<or> p = S_SH \<or> p = S_SW)"

text \<open>The branch handlers' tests.\<close>

definition br_test :: "sop \<Rightarrow> (u32 \<Rightarrow> u32 \<Rightarrow> bool) option" where
  "br_test p =
     (if p = S_BEQ then Some (\<lambda>a b. a = b)
      else if p = S_BNE then Some (\<lambda>a b. a \<noteq> b)
      else if p = S_BLT then Some (\<lambda>a b. sint a < sint b)
      else if p = S_BGE then Some (\<lambda>a b. sint a \<ge> sint b)
      else if p = S_BLTU then Some (\<lambda>a b. a < b)
      else if p = S_BGEU then Some (\<lambda>a b. a \<ge> b)
      else None)"

text \<open>
  The handlers that read the trailing immediate \<open>v\<close>. A jump takes its link from the preset
  \<open>pc\<close> of the state.
\<close>

definition exec_imm :: "'w hooks \<Rightarrow> head \<Rightarrow> u32 \<Rightarrow> 'w vm \<Rightarrow> 'w vm option" where
  "exec_imm hk h v s =
     (let p = sop h; a = regs s (srs1 h); b = regs s (srs2 h)
      in case ri_val p of
           Some f \<Rightarrow> Some (wr s (srd h) (f a v))
         | None \<Rightarrow>
        (case br_test p of
           Some t \<Rightarrow> Some (if t a b then s\<lparr>pc := v\<rparr> else s)
         | None \<Rightarrow>
            if is_load p then
              (if srd h \<noteq> 0
               then map_option (\<lambda>(x, s'). wr s' (srd h) x) (h_load hk p (a + v) s) else Some s)
            else if is_store p then h_store hk p (a + v) b s
            else if p = S_JAL then Some ((wr s (srd h) (pc s))\<lparr>pc := v\<rparr>)
            else if p = S_JALR then
              Some ((wr s (srd h) (pc s))\<lparr>pc := (a + v) AND NOT 1\<rparr>)
            else if p = S_LUI then Some (wr s (srd h) v)
            else None))"

text \<open>
  The threaded dispatch: \<open>d\<close> is the cursor's displacement from the start of the block, the value
  the evaluator returns. Running past the block, or dispatching on an immediate slot, has no
  result.
\<close>

fun default_eval :: "'w hooks \<Rightarrow> slot list \<Rightarrow> nat \<Rightarrow> 'w vm \<Rightarrow> ('w vm \<times> nat) option" where
  "default_eval hk [] d s = None"
| "default_eval hk (Imm v # r) d s = None"
| "default_eval hk (Head h # r) d s =
     (if sop h = S_END then Some (s, d)
      else if is_trap_op (sop h) then Some (s, d + 1)
      else if sop h = S_NOP then default_eval hk r (d + 1) s
      else (case rr_val (sop h) of
              Some f \<Rightarrow>
                default_eval hk r (d + 1)
                  (wr s (srd h) (f (regs s (srs1 h)) (regs s (srs2 h))))
            | None \<Rightarrow>
                (case r of
                   Imm v # r' \<Rightarrow>
                     (case exec_imm hk h v s of
                        None \<Rightarrow> None | Some s' \<Rightarrow> default_eval hk r' (d + 2) s')
                 | _ \<Rightarrow> None)))"

text \<open>One record of a run, away from its slots. A trap record does nothing here.\<close>

definition exec_rec :: "'w hooks \<Rightarrow> rec \<Rightarrow> 'w vm \<Rightarrow> 'w vm option" where
  "exec_rec hk r s =
     (let h = fst r
      in if is_trap_op (sop h) \<or> sop h = S_NOP then Some s
         else case rr_val (sop h) of
                Some f \<Rightarrow> Some (wr s (srd h) (f (regs s (srs1 h)) (regs s (srs2 h))))
              | None \<Rightarrow> exec_imm hk h (snd r) s)"


section \<open>Slots and records\<close>

text \<open>Which handler an opcode has decides whether a slot trails it, as the mask says.\<close>

lemma imm_class:
  "p \<noteq> S_END \<Longrightarrow> op_has_imm p \<longleftrightarrow> is_trap_op p \<or> rr_val p = None \<and> p \<noteq> S_NOP"
  by (cases p) (simp_all add: op_has_imm_iff is_trap_op_def rr_val_def)

lemma default_eval_rec:
  assumes "sop (fst r) \<noteq> S_END"
  shows "default_eval hk (slots_of r @ rest) d s =
     (if is_trap_op (sop (fst r)) then Some (s, d + 1)
      else case exec_rec hk r s of
             None \<Rightarrow> None
           | Some s' \<Rightarrow> default_eval hk rest (d + length (slots_of r)) s')"
proof -
  obtain h v where r: "r = (h, v)" by (cases r)
  consider (trap) "is_trap_op (sop h)" | (nop) "\<not> is_trap_op (sop h)" "sop h = S_NOP"
    | (rr) f where "\<not> is_trap_op (sop h)" "sop h \<noteq> S_NOP" "rr_val (sop h) = Some f"
    | (imm) "\<not> is_trap_op (sop h)" "sop h \<noteq> S_NOP" "rr_val (sop h) = None"
    by blast
  then show ?thesis
  proof cases
    case trap
    with assms r show ?thesis by (simp add: slots_of_def)
  next
    case nop
    with assms r imm_class [of "sop h"] show ?thesis
      by (simp add: slots_of_def exec_rec_def rr_val_def)
  next
    case rr
    with assms r imm_class [of "sop h"] show ?thesis by (simp add: slots_of_def exec_rec_def)
  next
    case imm
    with assms r imm_class [of "sop h"] show ?thesis
      by (simp add: slots_of_def exec_rec_def split: option.split)
  qed
qed

section \<open>One instruction in both engines\<close>

text \<open>
  The encodings the two decoders read differently: \<open>OP\<close> with \<open>funct7 = 0x20\<close> and a \<open>funct3\<close> that
  has no such variant. RISC-V reserves them; purv ignores \<open>funct7\<close> there, purvs takes \<open>SRA\<close>.
\<close>

definition reserved_op :: "u32 \<Rightarrow> u32 \<Rightarrow> bool" where
  "reserved_op w width =
     (width = 4 \<and> w AND 0x7f = 0x33 \<and> f7_of w = 0x20 \<and> f3_of w \<noteq> 0 \<and> f3_of w \<noteq> 5)"

text \<open>The trap the run loop takes for a trap record.\<close>

definition trap_exec :: "'w hooks \<Rightarrow> sop \<Rightarrow> u32 \<Rightarrow> u32 \<Rightarrow> 'w vm \<Rightarrow> 'w vm \<times> ctl" where
  "trap_exec hk q p w s =
     (if q = S_ECALL then exec_ecall hk p w s
      else if q = S_EBREAK then exec_ebreak hk p w s
      else exec_illegal hk p w s)"

text \<open>Where an action leaves the state's \<open>pc\<close> when the run loop has preset it.\<close>

fun land :: "ctl \<Rightarrow> 'w vm \<Rightarrow> 'w vm" where
  "land (C_goto t) s = s\<lparr>pc := t\<rparr>"
| "land C_done s = s"
| "land C_out s = s"

lemma rr_alu:
  assumes "f7 \<noteq> 0x20 \<or> f3_of w = 0 \<or> f3_of w = 5"
  shows "rr_val (if f7 = 0x20 then (if f3_of w = 0 then S_SUB else S_SRA) else sop_plus S_ADD (f3_of w))
    = Some (alu (f3_of w) f7)"
  using f3_cases [of w] assms
  by (elim disjE) (auto simp: rr_val_def sop_plus_table alu_def fun_eq_iff)

lemma rr_mul: "rr_val (sop_plus S_MUL (f3_of w)) = Some (mul_op (f3_of w))"
  using f3_cases [of w]
  by (elim disjE) (auto simp: rr_val_def sop_plus_table mul_op_def fun_eq_iff)

lemma ri_alu:
  assumes "f3_of w \<noteq> 1" "f3_of w \<noteq> 5"
  shows "ri_val (sop_plus S_ADDI (f3_of w)) = Some (alu (f3_of w) 0)"
  using f3_cases [of w] assms
  by (elim disjE) (simp_all add: ri_val_def sop_plus_table alu_def fun_eq_iff)

lemma ri_shift:
  assumes "f3_of w = 1 \<or> f3_of w = 5"
  shows "ri_val (if f3_of w = 5 \<and> f7 = 0x20 then S_SRAI else sop_plus S_ADDI (f3_of w)) =
    Some (alu (f3_of w) f7)"
  using assms by (elim disjE) (simp_all add: ri_val_def sop_plus_table alu_def fun_eq_iff)

lemma rr_class:
  "rr_val p = Some f \<Longrightarrow> \<not> is_trap_op p \<and> p \<noteq> S_NOP \<and> \<not> is_terminator p \<and> p \<noteq> S_END"
  by (auto simp: rr_val_def is_trap_op_def is_terminator_def split: if_splits)

lemma ri_class:
  "ri_val p = Some f \<Longrightarrow>
     \<not> is_trap_op p \<and> p \<noteq> S_NOP \<and> \<not> is_terminator p \<and> p \<noteq> S_END \<and> rr_val p = None"
  by (auto simp: ri_val_def rr_val_def is_trap_op_def is_terminator_def split: if_splits)

lemma br_class:
  "br_test p = Some f \<Longrightarrow>
     \<not> is_trap_op p \<and> p \<noteq> S_NOP \<and> p \<noteq> S_END \<and> rr_val p = None \<and> ri_val p = None"
  by (auto simp: br_test_def ri_val_def rr_val_def is_trap_op_def split: if_splits)

lemma leaf_alu:
  "ri_val S_ADDI = Some (alu 0 0)" "ri_val S_SLLI = Some (alu 1 0)" "ri_val S_SRLI = Some (alu 5 0)"
  "ri_val S_SRAI = Some (alu 5 0x20)" "ri_val S_ANDI = Some (alu 7 0)"
  "rr_val S_ADD = Some (alu 0 0)" "rr_val S_SUB = Some (alu 0 0x20)" "rr_val S_XOR = Some (alu 4 0)"
  "rr_val S_OR = Some (alu 6 0)" "rr_val S_AND = Some (alu 7 0)"
  by (simp_all add: ri_val_def rr_val_def alu_def fun_eq_iff)

text \<open>
  An action and a record agree when they do the same to a state: the trap path for a trap
  record, the same new state and next pc otherwise; only a terminator leaves the run.
\<close>

definition agrees ::
  "'w hooks \<Rightarrow> action \<Rightarrow> rec \<Rightarrow> u32 \<Rightarrow> u32 \<Rightarrow> u32 \<Rightarrow> 'w vm \<Rightarrow> bool" where
  "agrees hk act r p w width s =
     (let q = sop (fst r); e = exec_action hk act p w width s
      in q \<noteq> S_END \<and>
         (if is_trap_op q
          then \<forall>pc'. exec_action hk act p w width (s\<lparr>pc := pc'\<rparr>) = Some (trap_exec hk q p w s)
          else map_option (\<lambda>(s1, c). land c s1) e = exec_rec hk r s \<and>
               (\<forall>s1 c. e = Some (s1, c) \<longrightarrow>
                  c = C_done \<and> (is_terminator q \<longrightarrow> pc s1 = pc s) \<or>
                  is_terminator q \<and> (\<exists>t. c = C_goto t))))"

lemma agrees_rr:
  "rr_val (sop h) = Some (alu f3 f7) \<Longrightarrow> a = regs s (srs1 h) \<Longrightarrow> b = regs s (srs2 h) \<Longrightarrow> rd = srd h \<Longrightarrow>
     agrees hk (A_alu f3 f7 a b rd) (h, v) p w width s"
  by (auto simp: agrees_def exec_rec_def Let_def dest: rr_class)

lemma agrees_mul:
  "rr_val (sop h) = Some (mul_op f3) \<Longrightarrow> a = regs s (srs1 h) \<Longrightarrow> b = regs s (srs2 h) \<Longrightarrow> rd = srd h \<Longrightarrow>
     agrees hk (A_mul f3 a b rd) (h, v) p w width s"
  by (auto simp: agrees_def exec_rec_def Let_def dest: rr_class)

lemma agrees_ri:
  "ri_val (sop h) = Some (alu f3 f7) \<Longrightarrow> a = regs s (srs1 h) \<Longrightarrow> rd = srd h \<Longrightarrow>
     agrees hk (A_alu f3 f7 a v rd) (h, v) p w width s"
  by (frule ri_class) (simp add: agrees_def exec_rec_def exec_imm_def Let_def)

lemma load_miss_cb:
  "load_miss hk s f3 ad n =
     (case cb_load hk s ad of (v, s') \<Rightarrow>
        (if f3 AND 4 \<noteq> 0 then (if n = 4 then v else v AND (push_bit (8 * n) 1 - 1))
         else sext v (8 * n), s'))"
  by (simp add: load_miss_def cb_load_def split: option.split)

lemma load_f3:
  "f3 = 3 \<or> (f3 :: u32) > 5 \<Longrightarrow> load_op f3 = S_ILLEGAL"
  "\<not> (f3 = 3 \<or> (f3 :: u32) > 5) \<Longrightarrow> f3 = 0 \<or> f3 = 1 \<or> f3 = 2 \<or> f3 = 4 \<or> f3 = 5"
  using load_width [of f3] by (auto simp: load_op_def)

lemma exec_load_op:
  assumes "\<not> (f3 = 3 \<or> f3 > 5)"
  shows "exec_load hk f3 a v rd p w s =
    (if rd = 0 then Some (s, C_done)
     else map_option (\<lambda>(x, s'). (wr s' rd x, C_done)) (h_load hk (load_op f3) (a + v) s))"
  using load_f3(2) [OF assms]
  by (elim disjE)
    (simp_all add: exec_load_def h_load_def load_op_def load_with_def load_hit_def load_miss_cb
      split: option.split prod.split Option.bind_split)

lemma load_op_class:
  "is_load (load_op f3) \<or> load_op f3 = S_ILLEGAL"
  by (simp add: load_op_def is_load_def)

lemma agrees_load:
  assumes "sop h = load_op f3" "a = regs s (srs1 h)" "rd = srd h"
  shows "agrees hk (A_load f3 a v rd) (h, v) p w width s"
proof (cases "f3 = 3 \<or> f3 > 5")
  case True
  then have "sop h = S_ILLEGAL" using assms(1) load_f3 by simp
  with True show ?thesis by (simp add: agrees_def exec_load_def is_trap_op_def trap_exec_def)
next
  case False
  then have "\<exists>q. sop h = q \<and> load_op f3 = q \<and> (q = S_LB \<or> q = S_LH \<or> q = S_LW \<or> q = S_LBU \<or> q = S_LHU)"
    using assms(1) load_f3(2) [OF False] by (auto simp: load_op_def)
  then obtain q where q: "sop h = q" "load_op f3 = q"
      "q = S_LB \<or> q = S_LH \<or> q = S_LW \<or> q = S_LBU \<or> q = S_LHU" by blast
  have cls: "q \<noteq> S_END" "\<not> is_trap_op q" "q \<noteq> S_NOP" "rr_val q = None" "ri_val q = None"
    "br_test q = None" "is_load q" "\<not> is_terminator q"
    using q(3) by (auto simp: is_trap_op_def is_terminator_def rr_val_def ri_val_def br_test_def is_load_def)
  show ?thesis
    using cls q assms by (auto simp: agrees_def exec_rec_def exec_imm_def Let_def exec_load_op [OF False]
        option.map_comp comp_def split_def)
qed

lemma bind_done: "m \<bind> (\<lambda>s'. Some (s', C_done)) = map_option (\<lambda>s'. (s', C_done)) m"
  by (cases m) simp_all

lemma exec_store_op:
  assumes "\<not> f3 > 2"
  shows "exec_store hk f3 a b v p w s =
    map_option (\<lambda>s'. (s', C_done)) (h_store hk (store_op f3) (a + v) b s)"
  using store_width [OF assms]
  by (elim disjE)
    (simp_all add: exec_store_def h_store_def store_op_def store_hit_def bind_done Let_def
      split: option.split)

lemma agrees_store:
  assumes "sop h = store_op f3" "a = regs s (srs1 h)" "b = regs s (srs2 h)"
  shows "agrees hk (A_store f3 a b v) (h, v) p w width s"
proof (cases "f3 > 2")
  case True
  then have "sop h = S_ILLEGAL" using assms(1) by (auto simp: store_op_def)
  with True show ?thesis by (simp add: agrees_def exec_store_def is_trap_op_def trap_exec_def)
next
  case False
  from store_width [OF False] assms have
    q: "is_store (sop h)" "sop h = store_op f3"
    by (auto simp: store_op_def is_store_def)
  then have "sop h \<noteq> S_END" "\<not> is_trap_op (sop h)" "sop h \<noteq> S_NOP" "rr_val (sop h) = None"
    "ri_val (sop h) = None" "br_test (sop h) = None" "\<not> is_load (sop h)"
    "\<not> is_terminator (sop h)"
    by (auto simp: is_store_def is_trap_op_def is_terminator_def rr_val_def ri_val_def br_test_def is_load_def)
  with q assms show ?thesis
    by (auto simp: agrees_def exec_rec_def exec_imm_def Let_def exec_store_op [OF False]
        option.map_comp comp_def option.map_ident)
qed

lemma agrees_branch:
  assumes "sop h = branch_op f3" "a = regs s (srs1 h)" "b = regs s (srs2 h)" "v = p + imm"
  shows "agrees hk (A_branch f3 a b imm) (h, v) p w width s"
proof (cases "branch_take f3 a b")
  case None
  then have "sop h = S_ILLEGAL" using assms(1)
    by (auto simp: branch_take_def branch_op_def split: if_splits)
  with None show ?thesis by (simp add: agrees_def is_trap_op_def trap_exec_def)
next
  case (Some tk)
  then obtain t where "br_test (sop h) = Some t" "t a b = tk" "is_terminator (sop h)"
    using assms(1)
    by (auto simp: branch_take_def branch_op_def br_test_def is_terminator_def split: if_splits)
  with Some assms show ?thesis
    by (frule_tac br_class) (auto simp: agrees_def exec_rec_def exec_imm_def)
qed

lemma agrees_jump:
  "sop h = S_JAL \<Longrightarrow> v = p + imm \<Longrightarrow> rd = srd h \<Longrightarrow> pc s = p + width \<Longrightarrow>
     agrees hk (A_jal imm rd) (h, v) p w width s"
  "sop h = S_JALR \<Longrightarrow> a = regs s (srs1 h) \<Longrightarrow> rd = srd h \<Longrightarrow> pc s = p + width \<Longrightarrow>
     agrees hk (A_jalr a v rd) (h, v) p w width s"
  by (simp_all add: agrees_def exec_rec_def exec_imm_def is_trap_op_def is_terminator_def
      rr_val_def ri_val_def br_test_def is_load_def is_store_def)

lemma agrees_upper:
  "sop h = S_LUI \<Longrightarrow> rd = srd h \<Longrightarrow> agrees hk (A_lui v rd) (h, v) p w width s"
  "sop h = S_LUI \<Longrightarrow> rd = srd h \<Longrightarrow> v = p + imm \<Longrightarrow> agrees hk (A_auipc imm rd) (h, v) p w width s"
  by (simp_all add: agrees_def exec_rec_def exec_imm_def is_trap_op_def
      rr_val_def ri_val_def br_test_def is_load_def is_store_def)

lemma agrees_trap:
  "sop h = S_ILLEGAL \<Longrightarrow> agrees hk A_illegal (h, v) p w width s"
  "sop h = S_EBREAK \<Longrightarrow> agrees hk A_ebreak (h, v) p w width s"
  "sop h = S_NOP \<Longrightarrow> agrees hk A_done (h, v) p w width s"
  by (simp_all add: agrees_def exec_rec_def is_trap_op_def is_terminator_def trap_exec_def)

lemma agrees_system:
  "sop h = (if f3 = 0 \<and> rd = 0 \<and> rs1 = 0 \<and> imm = 0 then S_ECALL
            else if f3 = 0 \<and> rd = 0 \<and> rs1 = 0 \<and> imm = 1 then S_EBREAK else S_ILLEGAL) \<Longrightarrow>
     agrees hk (A_system f3 rd rs1 imm) (h, v) p w width s"
  by (simp add: agrees_def exec_system_def is_trap_op_def trap_exec_def)

text \<open>The fixup of a trap's immediate is invisible to the comparison.\<close>

lemma agrees_raw [simp]: "agrees hk act (trap_raw raw r) p w width s = agrees hk act r p w width s"
  by (auto simp: trap_raw_def agrees_def Let_def)

lemma agrees32_opimm:
  "w AND 0x7f = 0x13 \<Longrightarrow>
    agrees hk (decode32 (regs s) w) (decode_one32 old w p) p w width s"
  using ri_shift [of w "f7_of w"] ri_alu [of w]
  by (cases "f3_of w = 1 \<or> f3_of w = 5")
    (auto simp: decode32_def decode_one32_def Let_def intro!: agrees_ri)

lemma agrees32_op:
  assumes "w AND 0x7f = 0x33" "\<not> reserved_op w 4"
  shows "agrees hk (decode32 (regs s) w) (decode_one32 old w p) p w width s"
proof (cases "f7_of w = 1")
  case True
  with assms rr_mul show ?thesis
    by (auto simp: decode32_def decode_one32_def Let_def intro!: agrees_mul)
next
  case False
  have "f7_of w \<noteq> 0x20 \<or> f3_of w = 0 \<or> f3_of w = 5"
    using assms by (auto simp: reserved_op_def)
  from rr_alu [OF this] assms False show ?thesis
    by (simp add: decode32_def decode_one32_def Let_def agrees_rr)
qed

lemma agrees32_rest:
  assumes "pc s = p + 4" "w AND 0x7f \<noteq> 0x13" "w AND 0x7f \<noteq> 0x33"
  shows "agrees hk (decode32 (regs s) w) (decode_one32 old w p) p w 4 s"
  using assms
  by (simp add: decode32_def decode_one32_def Let_def agrees_load agrees_store agrees_branch
      agrees_jump agrees_upper agrees_trap agrees_system)

lemma agrees32:
  assumes "pc s = p + 4" "\<not> reserved_op w 4"
  shows "agrees hk (decode32 (regs s) w) (decode_one32 old w p) p w 4 s"
  using agrees32_opimm agrees32_op agrees32_rest assms by blast

lemma agrees16:
  assumes "pc s = p + 2" "regs s 0 = 0"
  shows "agrees hk (decode16 (regs s) w) (decode_one16 old w p) p w 2 s"
proof -
  have j0: "agrees hk (A_jalr a 0 rd) (h, 0) p w 2 s"
    if "sop h = S_JALR" "a = regs s (srs1 h)" "rd = srd h" for a rd h
    using agrees_jump(2) [OF that] assms(1) .
  have lw: "agrees hk (A_load 2 a v rd) (h, v) p w 2 s"
    if "sop h = S_LW" "a = regs s (srs1 h)" "rd = srd h" for a v rd h
    by (rule agrees_load) (simp_all add: that load_op_def)
  have sw: "agrees hk (A_store 2 a b v) (h, v) p w 2 s"
    if "sop h = S_SW" "a = regs s (srs1 h)" "b = regs s (srs2 h)" for a b v h
    by (rule agrees_store) (simp_all add: that store_op_def)
  have br: "agrees hk (A_branch 0 a b imm) (h, p + imm) p w 2 s" if "sop h = S_BEQ"
      "a = regs s (srs1 h)" "b = regs s (srs2 h)" for a b imm h
    by (rule agrees_branch) (simp_all add: that branch_op_def)
  have bn: "agrees hk (A_branch 1 a b imm) (h, p + imm) p w 2 s" if "sop h = S_BNE"
      "a = regs s (srs1 h)" "b = regs s (srs2 h)" for a b imm h
    by (rule agrees_branch) (simp_all add: that branch_op_def)
  note rules = agrees_ri agrees_rr agrees_jump agrees_upper agrees_trap leaf_alu lw sw br bn j0
  have misc: "agrees hk (decode16_misc_alu (regs s) w) (decode_one16_misc_alu old w) p w 2 s" for old
    by (simp add: decode16_misc_alu_def decode_one16_misc_alu_def Let_def rules)
  have cr: "agrees hk (decode16_cr (regs s) w) (decode_one16_cr old w) p w 2 s"
    if "srd (fst old) = rfield 7 w" for old
    using assms that by (simp add: decode16_cr_def decode_one16_cr_def Let_def rules)
  show ?thesis
    using assms by (simp add: decode16_def decode_one16_def Let_def rules misc cr)
qed

text \<open>
  Both engines do the same for every instruction outside the reserved encodings, whatever the
  reused buffer held before.
\<close>

lemma decode_rec_agrees:
  assumes "pc s = p + width" "regs s 0 = 0" "\<not> reserved_op w width" "width = 2 \<or> width = 4"
  shows "agrees hk (decode (regs s) w width) (decode_rec old w width p) p w width s"
  using assms agrees16 [of s p hk w old] agrees32 [of s p w hk old]
  by (auto simp: decode_def decode_rec_def)

text \<open>A trap record's immediate is the raw word.\<close>

lemma decode_rec_raw:
  "is_trap_op (sop (fst (decode_rec old w width p))) \<Longrightarrow> snd (decode_rec old w width p) = w"
  by (simp add: decode_rec_def trap_raw_def split: if_splits)

lemma agrees_trapE:
  assumes "agrees hk act r p w width s" "is_trap_op (sop (fst r))"
  shows "exec_action hk act p w width (s\<lparr>pc := pc'\<rparr>) = Some (trap_exec hk (sop (fst r)) p w s)"
  using assms by (simp add: agrees_def Let_def)

lemma agrees_self:
  "agrees hk act r p w width s \<Longrightarrow> is_trap_op (sop (fst r)) \<Longrightarrow>
     exec_action hk act p w width s = Some (trap_exec hk (sop (fst r)) p w s)"
  using agrees_trapE [of hk act r p w width s "pc s"] by simp

lemma agrees_eq:
  "agrees hk act r p w width s \<Longrightarrow> \<not> is_trap_op (sop (fst r)) \<Longrightarrow>
     exec_rec hk r s = map_option (\<lambda>(s1, c). land c s1) (exec_action hk act p w width s)"
  by (simp add: agrees_def Let_def)

section \<open>Properties\<close>

text \<open>
  C4: instruction by instruction, purvs decodes and evaluates what purv executes. For every raw
  word outside the reserved encodings, whatever the two slots held before: if the record is a
  trap, purv takes the same trap; otherwise evaluating the record on a state whose pc is preset
  to the fall-through gives purv's state with purv's next pc.
\<close>

theorem purvs_instruction:
  assumes "pc s = p + width" "regs s 0 = 0" "width = 2 \<or> width = 4" "\<not> reserved_op w width"
  shows "let r = decode_rec old w width p;
             e = exec_action hk (decode (regs s) w width) p w width s
         in if is_trap_op (sop (fst r)) then e = Some (trap_exec hk (sop (fst r)) p w s) \<and> snd r = w
            else exec_rec hk r s = map_option (\<lambda>(s1, c). land c s1) e"
proof -
  note ag = decode_rec_agrees [OF assms(1,2,4,3), of hk old]
  show ?thesis
    unfolding Let_def using agrees_self [OF ag] agrees_eq [OF ag] decode_rec_raw by simp
qed

lemma purvs_instruction_witness:
  "let s = (riscv_init \<lparr>rg_ptr = None, rg_len = 0, rg_base = 0\<rparr>
             \<lparr>rg_ptr = None, rg_len = 0, rg_base = 0\<rparr> ())\<lparr>pc := 2\<rparr>;
       r = decode_rec undefined 0x9002 2 0;
       e = exec_action init_hooks (decode (regs s) 0x9002 2) 0 0x9002 2 s
   in if is_trap_op (sop (fst r)) then e = Some (trap_exec init_hooks (sop (fst r)) 0 0x9002 s) \<and>
        snd r = 0x9002
      else exec_rec init_hooks r s = map_option (\<lambda>(s1, c). land c s1) e"
  unfolding Let_def
  by (rule purvs_instruction [unfolded Let_def]) (simp_all add: riscv_init_def reserved_op_def)

end
