(* ===== verification/Purvs_Loop.thy ===== *)
theory Purvs_Loop
  imports Purvs_Eval Host_Main
begin

text \<open>
  The run loop of \<open>emu/purvs/purvs.c\<close>: decode a run ahead, hand it to the evaluator, recover
  the pc. The evaluator is a parameter, as \<open>state->eval\<close> is; its contract is the locale
  \<open>value_eval\<close>, interpreted on \<open>default_eval\<close>. Inside it the loop is shown equal to purv's.

  A run is a list of records here and a prefix of the slot buffer in C. The buffer is reused, so
  the old contents of the slots are a parameter \<open>old\<close> (indexed by the instruction count), on
  which no result depends.
\<close>

section \<open>Decoding ahead\<close>

definition RISCV_BLOCK_MAX :: nat where
  "RISCV_BLOCK_MAX = 64"

definition RISCV_BLOCK_SLOTS :: nat where
  "RISCV_BLOCK_SLOTS = 2 * RISCV_BLOCK_MAX + 1"

text \<open>
  The test in front of \<open>decode_one\<close>: \<open>Some True\<close> is the \<open>break\<close>, \<open>None\<close> a read outside the code.
\<close>

definition decode_stop :: "u8 list \<Rightarrow> u32 \<Rightarrow> u32 \<Rightarrow> bool option" where
  "decode_stop code clen p =
     (let win = (if clen \<ge> 4 then clen - 4 else 0)
      in if p > win then
           (if p \<ge> clen \<or> clen - p < 2 then Some True
            else do { b0 \<leftarrow> code_at code p; b1 \<leftarrow> code_at code (p + 1);
                      Some (le16 b0 b1 AND 3 = 3 \<and> clen - p < 4) })
         else Some False)"

text \<open>
  Loop 1: \<open>left\<close> is \<open>lim - insns\<close>. The result is the records emitted, the guest instructions they
  cover and the pc where decoding stopped. A jump is traced through: a linking one leaves a
  \<open>LUI\<close> record, a plain one nothing.
\<close>

fun decode_ahead ::
  "(nat \<Rightarrow> rec) \<Rightarrow> u8 list \<Rightarrow> u32 \<Rightarrow> nat \<Rightarrow> nat \<Rightarrow> u32 \<Rightarrow> (rec list \<times> nat \<times> u32) option" where
  "decode_ahead old code clen 0 insns p = Some ([], insns, p)"
| "decode_ahead old code clen (Suc left) insns p =
     (case decode_stop code clen p of
        None \<Rightarrow> None
      | Some True \<Rightarrow> Some ([], insns, p)
      | Some False \<Rightarrow>
          (case decode_one (old insns) code p of
             None \<Rightarrow> None
           | Some ((h, v), width) \<Rightarrow>
               if sop h = S_JAL then
                 (case decode_ahead old code clen left (Suc insns) v of
                    None \<Rightarrow> None
                  | Some (rs, k, e) \<Rightarrow>
                      Some (if srd h \<noteq> 0 then (h\<lparr>sop := S_LUI\<rparr>, p + width) # rs else rs, k, e))
               else if is_terminator (sop h) then Some ([(h, v)], Suc insns, p + width)
               else (case decode_ahead old code clen left (Suc insns) (p + width) of
                       None \<Rightarrow> None
                     | Some (rs, k, e) \<Rightarrow> Some ((h, v) # rs, k, e))))"

text \<open>The slots of a run with the \<open>END\<close> sentinel behind them.\<close>

definition block_of :: "rec \<Rightarrow> rec list \<Rightarrow> slot list" where
  "block_of old rs = concat (map slots_of rs) @ [Head ((fst old)\<lparr>sop := S_END\<rparr>)]"

section \<open>Recovering the pc\<close>

text \<open>\<open>step_one\<close>: the width, and for a jump whether it links and its target.\<close>

definition step_one :: "u8 list \<Rightarrow> u32 \<Rightarrow> (u32 \<times> (bool \<times> u32) option) option" where
  "step_one code p =
     (case fetch code p of
        None \<Rightarrow> None
      | Some (w, width) \<Rightarrow>
          if width = 4 then
            Some (4, if w AND 0x7f = 0x6f then Some (rfield 7 w \<noteq> 0, p + imm_J w) else None)
          else
            (let sel = c_sel w
             in Some (2, if sel = 5 \<or> sel = 21 then Some (sel = 5, p + c_cj w) else None)))"

partial_function (option) fixup_pc ::
  "u8 list \<Rightarrow> nat \<Rightarrow> nat \<Rightarrow> nat \<Rightarrow> u32 \<Rightarrow> (u32 \<times> nat) option" where
  "fixup_pc code records recs cnt p =
     (if recs < records then
        (case step_one code p of
           None \<Rightarrow> None
         | Some (width, Some (link, target)) \<Rightarrow>
             fixup_pc code records (if link then Suc recs else recs) (Suc cnt) target
         | Some (width, None) \<Rightarrow> fixup_pc code records (Suc recs) (Suc cnt) (p + width))
      else Some (p, cnt))"

section \<open>The run loop\<close>

text \<open>The host handler of a trap record; a missing handler stops except for \<open>ecall\<close>.\<close>

definition trap_handler :: "'w hooks \<Rightarrow> sop \<Rightarrow> 'w trap_fn" where
  "trap_handler hk q s =
     (if q = S_ECALL then (case h_ecall hk of Some f \<Rightarrow> f s | None \<Rightarrow> (False, s))
      else if q = S_EBREAK then (case h_ebreak hk of Some f \<Rightarrow> f s | None \<Rightarrow> (True, s))
      else (case h_illegal hk of Some f \<Rightarrow> f s | None \<Rightarrow> (True, s)))"

text \<open>
  One iteration of the outer loop; the flag is whether the loop goes on. The pc a trap handler
  sees is \<open>last_pc\<close>, which the C code sets to the start of the run and never moves.
\<close>

definition run_batch ::
  "(slot list \<Rightarrow> 'w vm \<Rightarrow> ('w vm \<times> nat) option) \<Rightarrow> 'w hooks \<Rightarrow> (nat \<Rightarrow> rec)
     \<Rightarrow> u8 list option \<Rightarrow> u32 \<Rightarrow> nat \<Rightarrow> nat \<Rightarrow> 'w vm \<Rightarrow> ('w vm \<times> nat \<times> bool) option" where
  "run_batch ev hk old code clen mx k s =
     (let run_pc = pc s; last_pc = pc s; lim = min (mx - k) RISCV_BLOCK_MAX
      in case (case code of
                 None \<Rightarrow> Some ([], 0, run_pc)
               | Some bs \<Rightarrow> decode_ahead (\<lambda>i. old (k + i)) bs clen lim 0 run_pc) of
           None \<Rightarrow> None
         | Some (rs, insns, end_pc) \<Rightarrow>
             if insns = 0 then Some (s, k, False)
             else if rs = [] then Some (s\<lparr>pc := end_pc\<rparr>, k + insns, True)
             else
               (case ev (block_of (old (k + insns)) rs) (s\<lparr>pc := end_pc\<rparr>) of
                  None \<Rightarrow> None
                | Some (s2, rn) \<Rightarrow>
                    if rn < length rs then
                      (case fixup_pc (the code) rn 0 0 run_pc of
                         None \<Rightarrow> None
                       | Some (q, n) \<Rightarrow> Some (s2\<lparr>pc := q\<rparr>, k + n, True))
                    else
                      (let t = last rs; q = sop (fst t)
                       in if is_trap_op q then
                            (case trap_handler hk q (s2\<lparr>pc := last_pc, inst := snd t\<rparr>) of
                               (stop, s4) \<Rightarrow>
                                 if stop then Some (s4, k + insns, False)
                                 else Some (s4\<lparr>pc := end_pc\<rparr>, k + insns, True))
                          else Some (s2, k + insns, True))))"

partial_function (option) purvs_while ::
  "(slot list \<Rightarrow> 'w vm \<Rightarrow> ('w vm \<times> nat) option) \<Rightarrow> 'w hooks \<Rightarrow> (nat \<Rightarrow> rec)
     \<Rightarrow> u8 list option \<Rightarrow> u32 \<Rightarrow> nat \<Rightarrow> nat \<Rightarrow> 'w vm \<Rightarrow> ('w vm \<times> nat) option" where
  "purvs_while ev hk old code clen mx k s =
     (if k < mx then
        (case run_batch ev hk old code clen mx k s of
           None \<Rightarrow> None
         | Some (s', k', go) \<Rightarrow> if go then purvs_while ev hk old code clen mx k' s' else Some (s', k'))
      else Some (s, k))"

text \<open>\<open>RiscvEmulatorLoop\<close> of purvs with the evaluator Init installs.\<close>

definition purvs_loop :: "'w hooks \<Rightarrow> (nat \<Rightarrow> rec) \<Rightarrow> 'w vm \<Rightarrow> nat \<Rightarrow> ('w vm \<times> nat) option" where
  "purvs_loop hk old s mx =
     purvs_while (\<lambda>b. default_eval hk b 0) hk old (rg_ptr (readonly s)) (rg_len (readonly s)) mx 0 s"

section \<open>Decoded runs\<close>

lemma decode_stop_fetch:
  assumes "length bs = unat clen" "clen \<ge> 4"
  shows "decode_stop bs clen p = Some (fetch bs p = None)"
proof (cases "p > clen - 4")
  case False
  then have "unat p + 3 < length bs"
    using assms by (simp add: word_less_nat_alt word_le_nat_alt unat_sub)
  with fetch_some [of p bs] False assms show ?thesis
    using unat_lt_32 [of clen] by (auto simp: decode_stop_def)
next
  case True
  show ?thesis
  proof (cases "p < clen")
    case False
    then have "fetch bs p = None"
      using assms(1) by (simp add: fetch_def code_at_def word_less_nat_alt)
    with False True assms show ?thesis by (simp add: decode_stop_def not_less)
  next
    case lt: True
    have sub: "unat (clen - p) = unat clen - unat p" "unat p < unat clen"
      using lt unat_sub_u32 by (auto simp: word_less_nat_alt)
    have nle: "\<not> clen \<le> p" using lt by simp
    have "clen - p < 4"
      using True assms(2) sub by (simp add: word_less_nat_alt word_le_nat_alt unat_sub)
    then have stop: "decode_stop bs clen p =
        map_option (\<lambda>r. r = None) (window_safe (Some bs) clen p)"
      using True lt assms(2) nle
      by (auto simp: decode_stop_def window_safe_def split: option.split Option.bind_split)
    obtain r where r: "window_safe (Some bs) clen p = Some r"
      using window_safe_total [OF assms(1)] by blast
    show ?thesis
    proof (cases r)
      case None
      with r stop window_safe_break [OF assms(1)] show ?thesis by simp
    next
      case (Some safe)
      note pos = window_safe_pos [OF r [unfolded Some]]
      have "unat p + 4 > length bs"
        using \<open>clen - p < 4\<close> sub assms(1) by (simp add: word_less_nat_alt)
      with window_safe_run [OF assms(1) r [unfolded Some]] pos have "fetch bs p \<noteq> None" by auto
      with r stop Some show ?thesis by simp
    qed
  qed
qed

lemma decode_one_fetch:
  "decode_one old code p =
     (case fetch code p of None \<Rightarrow> None | Some (w, width) \<Rightarrow> Some (decode_rec old w width p, width))"
  by (auto simp: decode_one_def split: option.split)

lemma trap_raw_sop [simp]: "sop (fst (trap_raw raw r)) = sop (fst r)"
  "srd (fst (trap_raw raw r)) = srd (fst r)"
  by (simp_all add: trap_raw_def)

lemma not_jal:
  "load_op f \<noteq> S_JAL" "store_op f \<noteq> S_JAL" "branch_op f \<noteq> S_JAL"
  "sop_plus S_ADDI (f3_of w) \<noteq> S_JAL" "sop_plus S_ADD (f3_of w) \<noteq> S_JAL"
  "sop_plus S_MUL (f3_of w) \<noteq> S_JAL"
  subgoal by (simp add: load_op_def)
  subgoal by (simp add: store_op_def)
  subgoal by (simp add: branch_op_def)
  using f3_cases [of w] by (elim disjE; simp add: sop_plus_table)+

lemma jal32:
  "sop (fst (decode_rec old w 4 p)) = S_JAL \<longleftrightarrow> w AND 0x7f = 0x6f"
  "w AND 0x7f = 0x6f \<Longrightarrow> decode_rec old w 4 p =
     ((fst old)\<lparr>srd := rfield 7 w, srs1 := rfield 15 w, sop := S_JAL\<rparr>, p + imm_J w)"
proof -
  have "w AND 0x7f = 0x6f" if "sop (fst (decode_rec old w 4 p)) = S_JAL"
    using that by (auto simp: decode_rec_def decode_one32_def Let_def not_jal split: if_splits)
  moreover show r: "decode_rec old w 4 p =
     ((fst old)\<lparr>srd := rfield 7 w, srs1 := rfield 15 w, sop := S_JAL\<rparr>, p + imm_J w)"
    if "w AND 0x7f = 0x6f"
    using that by (simp add: decode_rec_def decode_one32_def Let_def trap_raw_def is_trap_op_def)
  ultimately show "sop (fst (decode_rec old w 4 p)) = S_JAL \<longleftrightarrow> w AND 0x7f = 0x6f"
    by (cases "w AND 0x7f = 0x6f") auto
qed

lemma jal16:
  "sop (fst (decode_rec old w 2 p)) = S_JAL \<longleftrightarrow> c_sel w = 5 \<or> c_sel w = 21"
  "c_sel w = 5 \<or> c_sel w = 21 \<Longrightarrow> decode_rec old w 2 p =
     ((fst old)\<lparr>srd := if c_sel w = 5 then 1 else 0, sop := S_JAL\<rparr>, p + c_cj w)"
proof -
  have "c_sel w = 5 \<or> c_sel w = 21" if "sop (fst (decode_rec old w 2 p)) = S_JAL"
    using that by (auto simp: decode_rec_def decode_one16_def decode_one16_cr_def
        decode_one16_misc_alu_def Let_def split: if_splits)
  moreover show r: "decode_rec old w 2 p =
     ((fst old)\<lparr>srd := if c_sel w = 5 then 1 else 0, sop := S_JAL\<rparr>, p + c_cj w)"
    if "c_sel w = 5 \<or> c_sel w = 21"
    using that
    by (elim disjE)
      (simp_all add: decode_rec_def decode_one16_def Let_def trap_raw_def is_trap_op_def)
  ultimately show "sop (fst (decode_rec old w 2 p)) = S_JAL \<longleftrightarrow> c_sel w = 5 \<or> c_sel w = 21"
    by (cases "c_sel w = 5 \<or> c_sel w = 21") (simp, blast)
qed

text \<open>A jump record is exactly purv's \<open>A_jal\<close>, with the target made absolute.\<close>

lemma decode_rec_jal:
  assumes "sop (fst (decode_rec old w width p)) = S_JAL" "width = 2 \<or> width = 4"
  obtains imm where "decode x w width = A_jal imm (srd (fst (decode_rec old w width p)))"
    "snd (decode_rec old w width p) = p + imm"
proof (cases "width = 4")
  case True
  with assms(1) have "w AND 0x7f = 0x6f" by (simp add: jal32)
  with True that jal32(2) [OF this, of old p] show ?thesis
    by (simp add: decode_def decode32_def Let_def)
next
  case False
  with assms have w: "width = 2" by simp
  with assms(1) have "c_sel w = 5 \<or> c_sel w = 21" by (simp add: jal16)
  with w that jal16(2) [OF this, of old p] show ?thesis
    by (auto simp: decode_def decode16_def Let_def)
qed

text \<open>The lean step of the fixup walk sees the jumps decode sees, and no others.\<close>

lemma step_one_decode:
  assumes "fetch code p = Some (w, width)" and r: "r = decode_rec old w width p"
  shows "step_one code p = Some (width,
     if sop (fst r) = S_JAL then Some (srd (fst r) \<noteq> 0, snd r) else None)"
proof (cases "width = 4")
  case True
  with assms jal32 [where w = w] show ?thesis by (simp add: step_one_def)
next
  case False
  with fetch_width [OF assms(1)] have "width = 2" by simp
  with assms jal16 [where w = w] show ?thesis by (auto simp: step_one_def Let_def)
qed

section \<open>The evaluator's contract\<close>

text \<open>A run's records in sequence. A trap record, always the last, does nothing.\<close>

fun exec_recs :: "'w hooks \<Rightarrow> rec list \<Rightarrow> 'w vm \<Rightarrow> 'w vm option" where
  "exec_recs hk [] s = Some s"
| "exec_recs hk (r # rs) s =
     (case exec_rec hk r s of None \<Rightarrow> None | Some s' \<Rightarrow> exec_recs hk rs s')"

text \<open>What decode guarantees of a run: no sentinel inside, and a trap only at its end.\<close>

definition runnable :: "rec list \<Rightarrow> bool" where
  "runnable rs =
     ((\<forall>r \<in> set rs. sop (fst r) \<noteq> S_END) \<and> (\<forall>r \<in> set (butlast rs). \<not> is_trap_op (sop (fst r))))"

lemma runnable_Cons:
  "runnable (r # rs) \<longleftrightarrow>
     sop (fst r) \<noteq> S_END \<and> (rs = [] \<or> \<not> is_trap_op (sop (fst r))) \<and> runnable rs"
  by (auto simp: runnable_def)

lemma slots_of_pos: "1 \<le> length (slots_of r)"
  by (simp add: slots_of_def)

lemma default_eval_run:
  "runnable rs \<Longrightarrow> exec_recs hk rs s = Some s' \<Longrightarrow> sop h = S_END \<Longrightarrow>
     \<exists>d'. default_eval hk (concat (map slots_of rs) @ Head h # rest) d s = Some (s', d')
        \<and> d + length rs \<le> d'"
proof (induction rs arbitrary: d s)
  case Nil
  then show ?case by simp
next
  case (Cons r rs)
  note rn = Cons.prems(1) [unfolded runnable_Cons]
  obtain s1 where s1: "exec_rec hk r s = Some s1" "exec_recs hk rs s1 = Some s'"
    using Cons.prems(2) by (auto split: option.splits)
  show ?case
  proof (cases "is_trap_op (sop (fst r))")
    case True
    with rn have "rs = []" by simp
    with True rn s1 Cons.prems(2) show ?thesis
      by (simp add: default_eval_rec exec_rec_def Let_def)
  next
    case False
    obtain d' where "default_eval hk (concat (map slots_of rs) @ Head h # rest)
        (d + length (slots_of r)) s1 = Some (s', d')" "d + length (slots_of r) + length rs \<le> d'"
      using Cons.IH [OF _ s1(2) Cons.prems(3)] rn by blast
    with False rn s1 slots_of_pos [of r] show ?thesis
      by (simp add: default_eval_rec)
  qed
qed

text \<open>
  The contract of purvs.h: an evaluator that runs the value semantics to the end of the run and
  reports at least the record count.
\<close>

locale value_eval = trap_hooks hk for hk :: "'w hooks" +
  fixes ev :: "slot list \<Rightarrow> 'w vm \<Rightarrow> ('w vm \<times> nat) option"
  assumes completes: "runnable rs \<Longrightarrow> exec_recs hk rs s = Some s' \<Longrightarrow>
    \<exists>d. ev (block_of e rs) s = Some (s', d) \<and> length rs \<le> d"

lemma default_eval_completes:
  "runnable rs \<Longrightarrow> exec_recs hk rs s = Some s' \<Longrightarrow>
    \<exists>d. default_eval hk (block_of e rs) 0 s = Some (s', d) \<and> length rs \<le> d"
  using default_eval_run [of rs hk s s' "(fst e)\<lparr>sop := S_END\<rparr>" "[]" 0]
  by (simp add: block_of_def)

section \<open>Records and the preset pc\<close>

lemma cb_load_pc:
  "callback_blind hk \<Longrightarrow> cb_load hk (s\<lparr>pc := q\<rparr>) a = map_prod id (\<lambda>s'. s'\<lparr>pc := q\<rparr>) (cb_load hk s a)"
  by (auto simp: cb_load_def callback_blind_def pc_blind_mem_def split: option.splits)

lemma h_load_pc:
  assumes "callback_blind hk"
  shows "h_load hk p a (s\<lparr>pc := q\<rparr>) = map_option (map_prod id (\<lambda>s'. s'\<lparr>pc := q\<rparr>)) (h_load hk p a s)"
proof -
  have "load_with hk (s\<lparr>pc := q\<rparr>) a n hit miss =
      map_option (map_prod id (\<lambda>s'. s'\<lparr>pc := q\<rparr>)) (load_with hk s a n hit miss)" for n hit miss
    by (simp add: load_with_def cb_load_pc [OF assms] option.map_comp comp_def split_def
        split: option.split)
  then show ?thesis by (simp add: h_load_def)
qed

lemma bind_wr8_pc:
  "wr8 (s\<lparr>pc := q\<rparr>) p i b \<bind> f = wr8 s p i b \<bind> (\<lambda>s'. f (s'\<lparr>pc := q\<rparr>))"
  by (simp add: wr8_pc map_option_case split: option.split)

lemma h_store_pc:
  "callback_blind hk \<Longrightarrow>
     h_store hk p a b (s\<lparr>pc := q\<rparr>) = map_option (\<lambda>s'. s'\<lparr>pc := q\<rparr>) (h_store hk p a b s)"
  by (simp add: h_store_def store_miss_pc wr8_pc bind_wr8_pc bind_map_option map_option_bind
      comp_def split: option.split)

text \<open>A record that is no terminator does not look at the preset pc and does not move it.\<close>

lemma exec_rec_pc:
  assumes "callback_blind hk" "\<not> is_terminator (sop (fst r))"
  shows "exec_rec hk r (s\<lparr>pc := q\<rparr>) = map_option (\<lambda>s'. s'\<lparr>pc := q\<rparr>) (exec_rec hk r s)"
proof -
  have no: "br_test (sop (fst r)) = None" "sop (fst r) \<noteq> S_JAL" "sop (fst r) \<noteq> S_JALR"
    "br_test S_LUI = None"
    using assms(2) by (auto simp: br_test_def is_terminator_def)
  have "exec_imm hk (fst r) v (s\<lparr>pc := q\<rparr>) =
      map_option (\<lambda>s'. s'\<lparr>pc := q\<rparr>) (exec_imm hk (fst r) v s)" for v
    using no h_load_pc [OF assms(1)] h_store_pc [OF assms(1)]
    by (simp add: exec_imm_def Let_def option.map_comp comp_def split_def split: option.split)
  then show ?thesis
    by (simp add: exec_rec_def Let_def split: option.split)
qed

section \<open>Equivalence with purv\<close>

text \<open>A trap handler that does not look at the state's \<open>pc\<close> and does not move it.\<close>

definition pc_blind_trap :: "'w trap_fn \<Rightarrow> bool" where
  "pc_blind_trap f = (\<forall>s q. f (s\<lparr>pc := q\<rparr>) = map_prod id (\<lambda>s'. s'\<lparr>pc := q\<rparr>) (f s))"

definition hooks_blind :: "'w hooks \<Rightarrow> bool" where
  "hooks_blind hk =
     (callback_blind hk \<and>
      (\<forall>f. h_ecall hk = Some f \<or> h_ebreak hk = Some f \<or> h_illegal hk = Some f \<longrightarrow> pc_blind_trap f))"

text \<open>No instruction the code can fetch is one of the reserved encodings.\<close>

definition no_reserved :: "u8 list \<Rightarrow> bool" where
  "no_reserved code = (\<forall>p w width. fetch code p = Some (w, width) \<longrightarrow> \<not> reserved_op w width)"

text \<open>How a trap record of a run continues in purv.\<close>

definition after_trap ::
  "'w hooks \<Rightarrow> u8 list \<Rightarrow> nat \<Rightarrow> nat \<Rightarrow> u32 \<Rightarrow> u32 \<Rightarrow> 'w vm \<times> ctl \<Rightarrow> ('w vm \<times> nat \<times> u32 \<times> bool) option"
  where
  "after_trap hk code n k p e r =
     (case r of (s, c) \<Rightarrow>
        if c = C_out then Some (s, k, p, True) else ref_run hk code n k e s)"

lemma trap_exec_ctl: "trap_exec hk q p w s = (s', c) \<Longrightarrow> c = C_done \<or> c = C_out"
  by (auto simp: trap_exec_def exec_ecall_def exec_ebreak_def exec_illegal_def Let_def
      split: if_splits option.splits prod.splits)

lemma trap_exec_blind:
  "trap_exec hk q p w (s\<lparr>pc := p'\<rparr>) = trap_exec hk q p w s"
  by (simp add: trap_exec_def)

lemma same_but_pc_trap_exec: "same_but_pc s t \<Longrightarrow> trap_exec hk q p w t = trap_exec hk q p w s"
  by (metis same_but_pcE trap_exec_blind)

lemma agrees_step:
  assumes "agrees hk act r p w width s" "\<not> is_trap_op (sop (fst r))"
    and "exec_action hk act p w width s = Some (s1, c)"
  shows "exec_rec hk r s = Some (land c s1)"
    and "c = C_done \<and> (is_terminator (sop (fst r)) \<longrightarrow> pc s1 = pc s) \<or>
         is_terminator (sop (fst r)) \<and> (\<exists>t. c = C_goto t)"
  using assms by (auto simp: agrees_def Let_def)

lemma exec_rec_lui:
  "exec_rec hk (h\<lparr>sop := S_LUI\<rparr>, v) s = Some (wr s (srd h) v)"
  by (simp add: exec_rec_def exec_imm_def is_trap_op_def rr_val_def ri_val_def br_test_def
      is_load_def is_store_def)

lemma same_but_pc_wr: "same_but_pc s t \<Longrightarrow> same_but_pc (wr s i v) (wr t i v)"
  by (metis same_but_pcE same_but_pc_refl(2) wr_pc)

lemma decode_ahead_count:
  "decode_ahead old code clen left i p = Some (rs, k, e) \<Longrightarrow>
     i \<le> k \<and> k \<le> i + left \<and> length rs \<le> k - i"
  by (induction left arbitrary: i p rs k e)
    (force split: option.splits bool.splits prod.splits if_splits)+

definition ends_trap :: "rec list \<Rightarrow> bool" where
  "ends_trap rs = (rs \<noteq> [] \<and> is_trap_op (sop (fst (last rs))))"

lemma same_but_pc_sym: "same_but_pc s t \<Longrightarrow> same_but_pc t s"
  by (simp add: same_but_pc_def)

text \<open>The run \<open>rs\<close> emitted from \<open>p\<close> behaves as purv does on the instructions it covers.\<close>

definition run_matches ::
  "'w hooks \<Rightarrow> u8 list \<Rightarrow> nat \<Rightarrow> nat \<Rightarrow> u32 \<Rightarrow> 'w vm \<Rightarrow> nat \<Rightarrow> rec list \<Rightarrow> u32 \<Rightarrow> 'w vm \<Rightarrow> bool" where
  "run_matches hk code n k p s m rs e t =
     (\<exists>s1 t1. exec_recs hk rs t = Some t1 \<and> same_but_pc s1 t1 \<and> vm_ok s1 \<and>
        (if ends_trap rs
         then \<exists>pt. ref_run hk code n k p s =
                after_trap hk code (n - m) (k + m) pt e
                  (trap_exec hk (sop (fst (last rs))) pt (snd (last rs)) s1)
         else ref_run hk code n k p s = ref_run hk code (n - m) (k + m) (pc t1) s1))"

lemma run_matches_nil: "same_but_pc s t \<Longrightarrow> pc t = p \<Longrightarrow> vm_ok s \<Longrightarrow> run_matches hk code n k p s 0 [] e t"
  by (auto simp: run_matches_def ends_trap_def)

lemma run_matches_step:
  assumes "run_matches hk code n (Suc k) p' s' m rs e t'"
    and "ref_run hk code (Suc n) k p s = ref_run hk code n (Suc k) p' s'"
    and "rs' = rs \<and> t' = t \<or>
         rs' = r # rs \<and> exec_rec hk r t = Some t' \<and> \<not> is_trap_op (sop (fst r))"
  shows "run_matches hk code (Suc n) k p s (Suc m) rs' e t"
proof -
  obtain s1 t1 where run: "exec_recs hk rs t' = Some t1" "same_but_pc s1 t1" "vm_ok s1"
    and nxt: "if ends_trap rs
      then \<exists>pt. ref_run hk code n (Suc k) p' s' =
             after_trap hk code (n - m) (Suc k + m) pt e
               (trap_exec hk (sop (fst (last rs))) pt (snd (last rs)) s1)
      else ref_run hk code n (Suc k) p' s' = ref_run hk code (n - m) (Suc k + m) (pc t1) s1"
    using assms(1) unfolding run_matches_def by blast
  have rs': "exec_recs hk rs' t = Some t1" "ends_trap rs' = ends_trap rs"
    "ends_trap rs \<Longrightarrow> last rs' = last rs"
    using assms(3) run(1) by (cases "rs = []"; auto simp: ends_trap_def)+
  show ?thesis
    unfolding run_matches_def assms(2) diff_Suc_Suc add_Suc_right rs'(2)
    using run rs' nxt by (intro exI [of _ s1] exI [of _ t1]) auto
qed

context trap_hooks
begin

lemma terminator_matches:
  assumes blind: "callback_blind hk" and ok: "vm_ok s" and same: "same_but_pc s t"
    and t: "pc t = p + width" and f: "fetch code p = Some (w, width)"
    and nr: "\<not> reserved_op w width" and r: "r = decode_rec old w width p"
    and trm: "is_terminator (sop (fst r))"
  shows "run_matches hk code (Suc n) k p s (Suc 0) [r] (p + width) t"
proof -
  have regs: "regs t = regs s" using same_but_pc_regs [OF same] .
  let ?act = "decode (regs s) w width"
  have ag: "agrees hk ?act r p w width t"
    using decode_rec_agrees [of t p width w hk old] t nr r fetch_width [OF f] ok regs
    by (simp add: vm_ok_def)
  have st: "s = t\<lparr>pc := pc s\<rparr>"
    using same_but_pcE [OF same_but_pc_sym [OF same]] .
  show ?thesis
  proof (cases "is_trap_op (sop (fst r))")
    case True
    have "exec_action hk ?act p w width s = Some (trap_exec hk (sop (fst r)) p w s)"
      using agrees_trapE [OF ag True, of "pc s"] st same_but_pc_trap_exec [OF same] by simp
    moreover have "snd r = w" using decode_rec_raw True r by simp
    moreover obtain s2 c where te: "trap_exec hk (sop (fst r)) p w s = (s2, c)" "c = C_done \<or> c = C_out"
      using trap_exec_ctl by (cases "trap_exec hk (sop (fst r)) p w s") blast
    ultimately have "ref_run hk code (Suc n) k p s =
        after_trap hk code n (Suc k) p (p + width) (trap_exec hk (sop (fst r)) p (snd r) s)"
      using f by (auto simp: after_trap_def)
    then show ?thesis
      using True same ok by (auto simp: run_matches_def ends_trap_def exec_rec_def simp del: ref_run.simps)
  next
    case False
    obtain s1 c where s1: "exec_action hk ?act p w width s = Some (s1, c)" "vm_ok s1"
      using exec_action_ok [OF ok] exec_action_keeps [OF ok] by blast
    obtain t1 where t1: "exec_action hk ?act p w width t = Some (t1, c)" "same_but_pc s1 t1"
      using exec_action_pc [OF blind s1(1) same] by blast
    have "same_but_pc s1 (land c t1)"
      using t1(2) by (cases c) (simp_all add: same_but_pc_def)
    moreover note agrees_step [OF ag False t1(1)]
    ultimately show ?thesis
      using f s1 False t trm by (cases c) (auto simp: run_matches_def ends_trap_def)
  qed
qed

lemma decode_ahead_run:
  assumes blind: "callback_blind hk" and nr: "no_reserved code"
    and code: "length code = unat clen" "clen \<ge> 4"
  shows "decode_ahead old code clen left i p = Some (rs, k', e) \<Longrightarrow> vm_ok s \<Longrightarrow>
    same_but_pc s t \<Longrightarrow> pc t = e \<Longrightarrow> k' - i \<le> n \<Longrightarrow> run_matches hk code n k p s (k' - i) rs e t"
proof (induction left arbitrary: i p rs s t k n)
  case 0
  then show ?case by (simp add: run_matches_nil)
next
  case (Suc left)
  note stop = decode_stop_fetch [OF code, of p]
  show ?case
  proof (cases "fetch code p")
    case None
    with Suc.prems stop show ?thesis by (simp add: run_matches_nil)
  next
    case (Some f)
    obtain w width where f: "fetch code p = Some (w, width)" using Some by (cases f) simp
    obtain h v where r: "(h, v) = decode_rec (old i) w width p" by (metis surj_pair)
    note one = decode_one_fetch [of "old i" code p, unfolded f option.case prod.case, folded r]
    have nres: "\<not> reserved_op w width" using nr f unfolding no_reserved_def by blast
    note width = fetch_width [OF f]
    note regs = same_but_pc_regs [OF Suc.prems(3)]
    consider (jal) "sop h = S_JAL" | (trm) "sop h \<noteq> S_JAL" "is_terminator (sop h)"
      | (seq) "sop h \<noteq> S_JAL" "\<not> is_terminator (sop h)" by blast
    then show ?thesis
    proof cases
      case trm
      then have "rs = [(h, v)]" "k' = Suc i" "e = p + width"
        using Suc.prems(1) stop f one by simp_all
      moreover from this Suc.prems(5) obtain n' where "n = Suc n'" by (cases n) auto
      ultimately show ?thesis
        using terminator_matches [OF blind Suc.prems(2,3) _ f nres r] trm Suc.prems(4) by simp
    next
      case jal
      obtain rs0 where rs0: "decode_ahead old code clen left (Suc i) v = Some (rs0, k', e)"
        and rs: "rs = (if srd h \<noteq> 0 then (h\<lparr>sop := S_LUI\<rparr>, p + width) # rs0 else rs0)"
        using Suc.prems(1) stop f one jal by (auto split: option.splits)
      obtain imm where act: "decode (regs s) w width = A_jal imm (srd h)" "v = p + imm"
        using decode_rec_jal [of "old i" w width p "regs s"] jal width r
        by (metis fst_conv snd_conv)
      let ?s' = "wr s (srd h) (p + width)" and ?t' = "wr t (srd h) (p + width)"
      have m: "k' - i = Suc (k' - Suc i)" using decode_ahead_count [OF rs0] by arith
      with Suc.prems(5) obtain n' where n: "n = Suc n'" "k' - Suc i \<le> n'" by (cases n) auto
      have "run_matches hk code n' (Suc k) v ?s' (k' - Suc i) rs0 e ?t'"
        by (rule Suc.IH [OF rs0 vm_ok_wr [OF Suc.prems(2)] same_but_pc_wr [OF Suc.prems(3)] _ n(2)])
          (simp add: Suc.prems(4))
      then show ?thesis
        unfolding m n
        by (rule run_matches_step [where r = "(h\<lparr>sop := S_LUI\<rparr>, p + width)"])
          (use f act rs exec_rec_lui [of hk h "p + width" t] in
            \<open>auto simp: wr_def is_trap_op_def\<close>)
    next
      case seq
      obtain rs0 where rs0: "decode_ahead old code clen left (Suc i) (p + width) = Some (rs0, k', e)"
        and rs: "rs = (h, v) # rs0"
        using Suc.prems(1) stop f one seq by (auto split: option.splits)
      let ?act = "decode (regs s) w width" and ?s2 = "s\<lparr>pc := p + width\<rparr>"
      have ag: "agrees hk ?act (h, v) p w width ?s2"
        using decode_rec_agrees [of ?s2 p width w hk "old i"] nres width Suc.prems(2) r
        by (simp add: vm_ok_def)
      have nt: "\<not> is_trap_op (sop h)" using seq by (auto simp: is_trap_op_def is_terminator_def)
      obtain s1 c where s1: "exec_action hk ?act p w width s = Some (s1, c)" "vm_ok s1"
        using exec_action_ok [OF Suc.prems(2)] exec_action_keeps [OF Suc.prems(2)] by blast
      obtain s2 where s2: "exec_action hk ?act p w width ?s2 = Some (s2, c)" "same_but_pc s1 s2"
        using exec_action_pc [OF blind s1(1)] by (metis same_but_pc_refl(2))
      have c: "c = C_done" "exec_rec hk (h, v) ?s2 = Some s2"
        using agrees_step [OF ag _ s2(1)] nt seq by auto
      have t: "t = ?s2\<lparr>pc := e\<rparr>"
        using same_but_pcE [OF Suc.prems(3)] Suc.prems(4) by simp
      have t': "exec_rec hk (h, v) t = Some (s2\<lparr>pc := e\<rparr>)"
        unfolding t using exec_rec_pc [OF blind, where r = "(h, v)" and s = ?s2 and q = e] c seq by simp
      have same: "same_but_pc s1 (s2\<lparr>pc := e\<rparr>)" using s2(2) by (simp add: same_but_pc_def)
      have m: "k' - i = Suc (k' - Suc i)" using decode_ahead_count [OF rs0] by arith
      with Suc.prems(5) obtain n' where n: "n = Suc n'" "k' - Suc i \<le> n'" by (cases n) auto
      have "run_matches hk code n' (Suc k) (p + width) s1 (k' - Suc i) rs0 e (s2\<lparr>pc := e\<rparr>)"
        by (rule Suc.IH [OF rs0 s1(2) same _ n(2)]) simp
      then show ?thesis
        unfolding m n
        by (rule run_matches_step [where r = "(h, v)"])
          (use f s1(1) c(1) t' nt rs in simp_all)
    qed
  qed
qed

end

lemma decode_ahead_total:
  assumes "length code = unat clen" "clen \<ge> 4"
  shows "\<exists>rs k e. decode_ahead old code clen left i p = Some (rs, k, e)"
proof (induction left arbitrary: i p)
  case 0
  then show ?case by simp
next
  case (Suc left)
  show ?case
  proof (cases "fetch code p")
    case None
    then show ?thesis using decode_stop_fetch [OF assms, of p] by simp
  next
    case (Some f)
    obtain h v w width where "decode_rec (old i) w width p = (h, v)" "f = (w, width)"
      by (metis surj_pair)
    with Some Suc.IH [of "Suc i" v] Suc.IH [of "Suc i" "p + width"] show ?thesis
      using decode_stop_fetch [OF assms, of p]
      by (auto simp: decode_one_fetch split: option.split)
  qed
qed

lemma decode_ahead_runnable:
  assumes code: "length code = unat clen" "clen \<ge> 4" and nr: "no_reserved code"
  shows "decode_ahead old code clen left i p = Some (rs, k, e) \<Longrightarrow> runnable rs"
proof (induction left arbitrary: i p rs k e)
  case 0
  then show ?case by (simp add: runnable_def)
next
  case (Suc left)
  show ?case
  proof (cases "fetch code p")
    case None
    with Suc.prems decode_stop_fetch [OF code, of p] show ?thesis by (simp add: runnable_def)
  next
    case (Some f)
    obtain w width where f: "fetch code p = Some (w, width)" using Some by (cases f) simp
    obtain h v where r: "decode_rec (old i) w width p = (h, v)" by (metis surj_pair)
    let ?s = "\<lparr>pc = p + width, inst = 0, regs = \<lambda>_. 0, readonly = undefined,
               writable = undefined, world = ()\<rparr>"
    have "agrees init_hooks (decode (regs ?s) w width) (h, v) p w width ?s"
      using decode_rec_agrees [of ?s p width w init_hooks "old i"] nr f fetch_width [OF f] r
      by (simp add: no_reserved_def)
    then have "sop h \<noteq> S_END" by (simp add: agrees_def Let_def)
    moreover have "is_trap_op q \<Longrightarrow> is_terminator q" for q
      by (auto simp: is_trap_op_def is_terminator_def)
    ultimately show ?thesis
      using Suc.prems f r decode_stop_fetch [OF code, of p] Suc.IH
      by (auto simp: decode_one_fetch runnable_Cons is_trap_op_def runnable_def [of "[]"]
          split: option.splits if_splits)
  qed
qed

lemma decode_ahead_none:
  assumes "length code = unat clen" "clen \<ge> 4"
    and "decode_ahead old code clen (Suc left) i p = Some (rs, i, e)"
  shows "fetch code p = None"
proof (rule ccontr)
  assume "fetch code p \<noteq> None"
  then obtain w width where f: "fetch code p = Some (w, width)" by auto
  obtain h v where r: "decode_rec (old i) w width p = (h, v)" by (metis surj_pair)
  show False
    using assms(3) f r decode_stop_fetch [OF assms(1,2), of p]
    by (auto simp: decode_one_fetch split: option.splits if_splits dest!: decode_ahead_count)
qed

lemma trap_exec_handler:
  "is_trap_op q \<Longrightarrow> trap_exec hk q p w s =
     (case trap_handler hk q (s\<lparr>pc := p, inst := w\<rparr>) of
        (stop, s2) \<Rightarrow> (s2, if stop then C_out else C_done))"
  by (auto simp: trap_exec_def trap_handler_def exec_ecall_def exec_ebreak_def exec_illegal_def
      Let_def split: option.split)

lemma trap_handler_blind:
  "hooks_blind hk \<Longrightarrow>
     trap_handler hk q (s\<lparr>pc := p\<rparr>) = map_prod id (\<lambda>s'. s'\<lparr>pc := p\<rparr>) (trap_handler hk q s)"
  by (auto simp: trap_handler_def hooks_blind_def pc_blind_trap_def split: option.split)

context trap_hooks
begin

lemma trap_exec_keeps: "trap_exec hk q p w s = (s', c) \<Longrightarrow> keeps s s'"
  by (auto simp: trap_exec_def split: if_splits
      dest: exec_illegal_keeps exec_ebreak_keeps exec_ecall_keeps)

end

context value_eval
begin

lemma run_batch_matches:
  assumes "run_matches hk code n k p s m rs e (t\<lparr>pc := e\<rparr>)" "runnable rs" "rs \<noteq> []"
    and blind: "hooks_blind hk" and p: "pc t = p"
    and ahead: "decode_ahead (\<lambda>i. old (k + i)) code clen (min (mx - k) RISCV_BLOCK_MAX) 0 p
      = Some (rs, m, e)" "m \<noteq> 0"
  shows "\<exists>s1 t1 pt. vm_ok s1 \<and> same_but_pc s1 t1 \<and>
    (run_batch ev hk old (Some code) clen mx k t = Some (t1, k + m, True) \<and>
       ref_run hk code n k p s = ref_run hk code (n - m) (k + m) (pc t1) s1 \<or>
     run_batch ev hk old (Some code) clen mx k t = Some (t1, k + m, False) \<and>
       ref_run hk code n k p s = Some (s1, k + m, pt, True))"
proof -
  obtain s1 t1 where run: "exec_recs hk rs (t\<lparr>pc := e\<rparr>) = Some t1" "same_but_pc s1 t1" "vm_ok s1"
    and nxt: "if ends_trap rs
      then \<exists>pt. ref_run hk code n k p s = after_trap hk code (n - m) (k + m) pt e
               (trap_exec hk (sop (fst (last rs))) pt (snd (last rs)) s1)
      else ref_run hk code n k p s = ref_run hk code (n - m) (k + m) (pc t1) s1"
    using assms(1) unfolding run_matches_def by blast
  let ?b = "block_of (old (k + m)) rs" and ?q = "sop (fst (last rs))" and ?w = "snd (last rs)"
  obtain d where ev: "ev ?b (t\<lparr>pc := e\<rparr>) = Some (t1, d)" "\<not> d < length rs"
    using completes [OF assms(2) run(1), of "old (k + m)"] by auto
  have batch: "run_batch ev hk old (Some code) clen mx k t =
      (if ends_trap rs then
         (case trap_handler hk ?q (t1\<lparr>pc := p, inst := ?w\<rparr>) of (stop, s4) \<Rightarrow>
            if stop then Some (s4, k + m, False) else Some (s4\<lparr>pc := e\<rparr>, k + m, True))
       else Some (t1, k + m, True))"
    using ahead p ev assms(3) by (simp add: run_batch_def ends_trap_def Let_def)
  show ?thesis
  proof (cases "ends_trap rs")
    case False
    with batch nxt run show ?thesis by auto
  next
    case True
    then have trap: "is_trap_op ?q" by (simp add: ends_trap_def)
    obtain pt where ref: "ref_run hk code n k p s =
        after_trap hk code (n - m) (k + m) pt e (trap_exec hk ?q pt ?w s1)"
      using nxt True by auto
    obtain stop s4 where h: "trap_handler hk ?q (s1\<lparr>pc := pt, inst := ?w\<rparr>) = (stop, s4)"
      by fastforce
    then have te: "trap_exec hk ?q pt ?w s1 = (s4, if stop then C_out else C_done)"
      by (simp add: trap_exec_handler [OF trap])
    have ok: "vm_ok s4" using trap_exec_keeps [OF te] run(3) by (simp add: keeps_def)
    have "t1\<lparr>pc := p, inst := ?w\<rparr> = s1\<lparr>pc := pt, inst := ?w\<rparr>\<lparr>pc := p\<rparr>"
      using same_but_pcE [OF run(2)] by (metis (no_types, lifting) vm.update_convs(1,2) vm.fold_congs(1) vm.surjective)
    then have ht: "trap_handler hk ?q (t1\<lparr>pc := p, inst := ?w\<rparr>) = (stop, s4\<lparr>pc := p\<rparr>)"
      using trap_handler_blind [OF blind, where q = ?q and s = "s1\<lparr>pc := pt, inst := ?w\<rparr>"
            and p = p] h
      by (metis map_prod_simp id_apply)
    show ?thesis
    proof (cases stop)
      case True
      with batch ht te ref \<open>ends_trap rs\<close> ok show ?thesis
        by (intro exI [of _ s4] exI [of _ "s4\<lparr>pc := p\<rparr>"] exI [of _ pt]) (simp add: after_trap_def)
    next
      case False
      with batch ht te ref \<open>ends_trap rs\<close> ok show ?thesis
        by (intro exI [of _ s4] exI [of _ "s4\<lparr>pc := e\<rparr>"] exI [of _ pt]) (simp add: after_trap_def)
    qed
  qed
qed

lemma purvs_while_ref:
  assumes blind: "hooks_blind hk" and nr: "no_reserved code"
    and code: "length code = unat clen" "clen \<ge> 4"
  shows "ref_run hk code (mx - k) k (pc t) s = Some (s', k', p', out) \<Longrightarrow> vm_ok s \<Longrightarrow>
    same_but_pc s t \<Longrightarrow>
    \<exists>t'. purvs_while ev hk old (Some code) clen mx k t = Some (t', k')
       \<and> (if out then same_but_pc s' t' else t' = s'\<lparr>pc := p'\<rparr>)"
proof (induction "mx - k" arbitrary: k s t rule: less_induct)
  case less
  note simps = purvs_while.simps [of ev hk old "Some code" clen mx k t]
  have cb: "callback_blind hk" using blind by (simp add: hooks_blind_def)
  have t: "t = s\<lparr>pc := pc t\<rparr>" by (rule same_but_pcE [OF less.prems(3)])
  show ?case
  proof (cases "k < mx")
    case False
    with less.prems t simps show ?thesis by simp
  next
    case True
    then obtain lim where lim: "min (mx - k) RISCV_BLOCK_MAX = Suc lim"
      by (metis RISCV_BLOCK_MAX_def Suc_pred min_less_iff_conj zero_less_diff zero_less_numeral)
    obtain rs m e where ahead:
      "decode_ahead (\<lambda>i. old (k + i)) code clen (Suc lim) 0 (pc t) = Some (rs, m, e)"
      using decode_ahead_total [OF code] by blast
    note cnt = decode_ahead_count [OF ahead]
    show ?thesis
    proof (cases "m = 0")
      case m0: True
      have "fetch code (pc t) = None"
        using decode_ahead_none [OF code ahead [unfolded m0]] .
      then have "s' = s" "k' = k" "p' = pc t" "\<not> out"
        using less.prems(1) True by (cases "mx - k"; simp)+
      moreover have "run_batch ev hk old (Some code) clen mx k t = Some (t, k, False)"
        using ahead lim m0 by (simp add: run_batch_def Let_def)
      ultimately show ?thesis using simps True t by simp
    next
      case m: False
      have le: "m - 0 \<le> mx - k" using cnt lim by linarith
      have same: "same_but_pc s (t\<lparr>pc := e\<rparr>)"
        using less.prems(3) by (simp add: same_but_pc_def)
      have match: "run_matches hk code (mx - k) k (pc t) s m rs e (t\<lparr>pc := e\<rparr>)"
        using decode_ahead_run [OF cb nr code ahead less.prems(2) same _ le] by simp
      have cont: ?thesis
        if "run_batch ev hk old (Some code) clen mx k t = Some (t1, k + m, True)"
          and "ref_run hk code (mx - k) k (pc t) s =
            ref_run hk code (mx - k - m) (k + m) (pc t1) s1"
          and "vm_ok s1" "same_but_pc s1 t1" for t1 s1
        using less.hyps [of "k + m" t1 s1] that less.prems(1) True m simps by simp
      show ?thesis
      proof (cases "rs = []")
        case nil: True
        have "run_batch ev hk old (Some code) clen mx k t = Some (t\<lparr>pc := e\<rparr>, k + m, True)"
          using ahead lim m nil by (simp add: run_batch_def Let_def)
        moreover obtain s1 where "same_but_pc s1 (t\<lparr>pc := e\<rparr>)" "vm_ok s1"
          "ref_run hk code (mx - k) k (pc t) s = ref_run hk code (mx - k - m) (k + m) e s1"
          using match nil by (auto simp: run_matches_def ends_trap_def)
        ultimately show ?thesis using cont [of "t\<lparr>pc := e\<rparr>" s1] by simp
      next
        case False
        obtain s1 t1 pt where r: "vm_ok s1" "same_but_pc s1 t1"
          "run_batch ev hk old (Some code) clen mx k t = Some (t1, k + m, True) \<and>
             ref_run hk code (mx - k) k (pc t) s
               = ref_run hk code (mx - k - m) (k + m) (pc t1) s1 \<or>
           run_batch ev hk old (Some code) clen mx k t = Some (t1, k + m, False) \<and>
             ref_run hk code (mx - k) k (pc t) s = Some (s1, k + m, pt, True)"
          using run_batch_matches [OF match decode_ahead_runnable [OF code nr ahead] False blind
              refl ahead [folded lim] m]
          by blast
        from r(3) show ?thesis
        proof
          assume "run_batch ev hk old (Some code) clen mx k t = Some (t1, k + m, True) \<and>
             ref_run hk code (mx - k) k (pc t) s
               = ref_run hk code (mx - k - m) (k + m) (pc t1) s1"
          with cont r show ?thesis by blast
        next
          assume "run_batch ev hk old (Some code) clen mx k t = Some (t1, k + m, False) \<and>
             ref_run hk code (mx - k) k (pc t) s = Some (s1, k + m, pt, True)"
          with less.prems(1) r(2) True simps show ?thesis by simp
        qed
      qed
    qed
  qed
qed

end

lemma default_value_eval: "trap_hooks hk \<Longrightarrow> value_eval hk (\<lambda>b. default_eval hk b 0)"
  by (simp add: value_eval_def value_eval_axioms_def default_eval_completes)

interpretation purvs_main: value_eval main_hooks "\<lambda>b. default_eval main_hooks b 0"
  by (rule default_value_eval) (rule main_host.trap_hooks_axioms)

interpretation purvs_init: value_eval "init_hooks :: 'w hooks" "\<lambda>b. default_eval init_hooks b 0"
  by (rule default_value_eval) (rule default_host.trap_hooks_axioms)

section \<open>The early-exit walk\<close>

lemma fixup_walk:
  "decode_ahead old code clen left i p = Some (rs, k, e) \<Longrightarrow> n - recs < length rs \<Longrightarrow>
     \<exists>q d. fixup_pc code n recs cnt p = Some (q, cnt + d) \<and> d \<le> k - i \<and>
       decode_ahead old code clen (left - d) (i + d) q = Some (drop (n - recs) rs, k, e)"
proof (induction left arbitrary: i p rs recs cnt)
  case 0
  then show ?case by simp
next
  case (Suc left)
  show ?case
  proof (cases "recs < n")
    case False
    then show ?thesis
      using Suc.prems fixup_pc.simps [of code n recs cnt p]
      by (intro exI [of _ p] exI [of _ 0]) simp
  next
    case True
    then have "rs \<noteq> []" using Suc.prems(2) by auto
    then obtain w width where f: "fetch code p = Some (w, width)"
      and go: "decode_stop code clen p = Some False"
      using Suc.prems(1) by (auto simp: decode_one_fetch split: option.splits bool.splits)
    obtain h v where r: "decode_rec (old i) w width p = (h, v)" by (metis surj_pair)
    note step = step_one_decode [OF f r [symmetric], simplified]
    note fix_eq = fixup_pc.simps [of code n recs cnt p]
    obtain rs0 pn recs' where rec: "decode_ahead old code clen left (Suc i) pn = Some (rs0, k, e)"
      and walk: "fixup_pc code n recs cnt p = fixup_pc code n recs' (Suc cnt) pn"
      and n: "n - recs' < length rs0" "drop (n - recs') rs0 = drop (n - recs) rs"
    proof (cases "sop h = S_JAL")
      case jal: True
      then obtain rs0 where a: "decode_ahead old code clen left (Suc i) v = Some (rs0, k, e)"
        and rs: "rs = (if srd h \<noteq> 0 then (h\<lparr>sop := S_LUI\<rparr>, p + width) # rs0 else rs0)"
        using Suc.prems(1) f go r by (auto simp: decode_one_fetch split: option.splits)
      have w: "fixup_pc code n recs cnt p =
          fixup_pc code n (if srd h \<noteq> 0 then Suc recs else recs) (Suc cnt) v"
        using True jal step fix_eq by simp
      show ?thesis
      proof (cases "srd h \<noteq> 0")
        case link: True
        then have "n - recs = Suc (n - Suc recs)" using True by simp
        with link rs Suc.prems(2) show ?thesis
          by (intro that [OF a w]) simp_all
      next
        case False
        with rs Suc.prems(2) show ?thesis by (intro that [OF a w]) simp_all
      qed
    next
      case False
      show ?thesis
      proof (cases "is_terminator (sop h)")
        case trm: True
        with False have "rs = [(h, v)]"
          using Suc.prems(1) f go r by (simp add: decode_one_fetch)
        with True Suc.prems(2) show ?thesis by simp
      next
        case seq: False
        obtain rs0 where a: "decode_ahead old code clen left (Suc i) (p + width) = Some (rs0, k, e)"
          and rs: "rs = (h, v) # rs0"
          using Suc.prems(1) f go r False seq by (auto simp: decode_one_fetch split: option.splits)
        have w: "fixup_pc code n recs cnt p = fixup_pc code n (Suc recs) (Suc cnt) (p + width)"
          using True False step fix_eq by simp
        have "n - recs = Suc (n - Suc recs)" using True by simp
        with rs Suc.prems(2) show ?thesis by (intro that [OF a w]) simp_all
      qed
    qed
    obtain q d where q: "fixup_pc code n recs' (Suc cnt) pn = Some (q, Suc cnt + d)"
      "d \<le> k - Suc i"
      "decode_ahead old code clen (left - d) (Suc i + d) q = Some (drop (n - recs') rs0, k, e)"
      using Suc.IH [OF rec n(1)] by blast
    have "Suc i \<le> k" using decode_ahead_count [OF rec] by simp
    with q n(2) walk show ?thesis
      by (intro exI [of _ q] exI [of _ "Suc d"]) simp
  qed
qed

text \<open>The buffer is large enough: two slots for each of at most 64 records, and the sentinel.\<close>

lemma slots_of_bound: "length (concat (map slots_of rs)) \<le> 2 * length rs"
  by (induction rs) (simp_all add: slots_of_def)

section \<open>Properties\<close>

text \<open>
  C2: purvs is purv. On a code region of at least four bytes without reserved encodings, with
  handlers that keep the state invariant and do not look at the state's pc, both engines run to
  completion, execute the same number of instructions and leave the same state; after a stop at
  a trap only the resume pc may differ. The old contents of the slot buffer do not matter.
\<close>

theorem purvs_equals_purv:
  assumes "trap_hooks hk" "hooks_blind hk" "vm_ok s"
    and "rg_ptr (readonly s) = Some code" "rg_len (readonly s) \<ge> 4" "no_reserved code"
  shows "\<exists>s' t k stopped.
    ref_loop hk s mx = Some (s', k, stopped) \<and> riscv_loop hk s mx = Some (s', k) \<and>
    purvs_loop hk old s mx = Some (t, k) \<and> (if stopped then same_but_pc s' t else t = s')"
proof -
  have wf: "wf_region (readonly s)" and len: "length code = unat (rg_len (readonly s))"
    using assms(3,4) by (auto simp: vm_ok_def wf_region_def)
  obtain s1 k p out where run: "ref_run hk code mx 0 (pc s) s = Some (s1, k, p, out)"
    using trap_hooks.ref_run_ok [OF assms(1,3)] by blast
  then have ref: "ref_loop hk s mx = Some (s1\<lparr>pc := p\<rparr>, k, out)"
    using assms(4) by (simp add: ref_loop_def)
  obtain t where "purvs_loop hk old s mx = Some (t, k)"
    "if out then same_but_pc s1 t else t = s1\<lparr>pc := p\<rparr>"
    using value_eval.purvs_while_ref [OF default_value_eval [OF assms(1)] assms(2,6) len assms(5),
        of mx 0 s s s1 k p out old] run assms(3,4)
    by (auto simp: purvs_loop_def)
  with ref riscv_loop_ref [OF wf, of hk mx] show ?thesis
    by (intro exI [of _ "s1\<lparr>pc := p\<rparr>"] exI [of _ t] exI [of _ k] exI [of _ out])
      (auto simp: same_but_pc_def)
qed

text \<open>A program of two instructions, \<open>addi x0, x0, 0\<close> and \<open>ebreak\<close>.\<close>

definition demo_code :: "u8 list" where
  "demo_code = [0x13, 0, 0, 0, 0x73, 0, 0x10, 0]"

definition demo_state :: "unit vm" where
  "demo_state = riscv_init \<lparr>rg_ptr = Some demo_code, rg_len = 8, rg_base = 0\<rparr>
                           \<lparr>rg_ptr = None, rg_len = 0, rg_base = 0\<rparr> ()"

lemma demo_no_reserved: "no_reserved demo_code"
  unfolding no_reserved_def
proof (intro allI impI)
  fix p w width
  assume f: "fetch demo_code p = Some (w, width)"
  have "unat p < 8" using fetch_in_bounds [OF f] by (simp add: demo_code_def)
  then have "unat p \<in> {0, 1, 2, 3, 4, 5, 6, 7}" by auto
  then have "p \<in> {0, 1, 2, 3, 4, 5, 6, 7}"
    by (auto dest!: arg_cong [where f = "of_nat :: nat \<Rightarrow> u32"])
  with f show "\<not> reserved_op w width"
    by (auto simp: fetch_def code_at_def demo_code_def le16_def reserved_op_def)
qed

text \<open>The premises hold for the demo program under the handlers Init installs.\<close>

lemma purvs_equals_purv_witness:
  "\<exists>s' t k stopped.
    ref_loop init_hooks demo_state 10 = Some (s', k, stopped) \<and>
    riscv_loop init_hooks demo_state 10 = Some (s', k) \<and>
    purvs_loop init_hooks (\<lambda>_. undefined) demo_state 10 = Some (t, k) \<and>
    (if stopped then same_but_pc s' t else t = s')"
  by (rule purvs_equals_purv [OF default_host.trap_hooks_axioms _ _ _ _ demo_no_reserved])
    (simp_all add: demo_state_def demo_code_def
      hooks_blind_def callback_blind_def pc_blind_mem_def init_hooks_def default_callback_def
      vm_ok_init wf_region_def riscv_init_def vm_ok_def)

lemma demo_fetch:
  "fetch demo_code 0 = Some (0x13, 4)" "fetch demo_code 4 = Some (0x100073, 4)"
  by (simp_all add: fetch_def code_at_def demo_code_def le16_def)

lemma demo_decode:
  "decode x 0x13 4 = A_alu 0 0 (x 0) 0 0" "decode x 0x100073 4 = A_system 0 0 0 1"
  "decode_rec old 0x13 4 p = ((fst old)\<lparr>srd := 0, srs1 := 0, sop := S_ADDI\<rparr>, 0)"
  "decode_rec old 0x100073 4 p = ((fst old)\<lparr>srd := 0, srs1 := 0, sop := S_EBREAK\<rparr>, 0x100073)"
  by (simp_all add: decode_def decode32_def decode_rec_def decode_one32_def rfield_def f3_of_def
      f7_of_def imm_I_def imm_sys_def trap_raw_def is_trap_op_def sop_plus_table Let_def)

lemma demo_ahead:
  "decode_ahead old demo_code 8 (Suc (Suc n)) 0 0 =
     Some ([((fst (old 0))\<lparr>srd := 0, srs1 := 0, sop := S_ADDI\<rparr>, 0),
            ((fst (old 1))\<lparr>srd := 0, srs1 := 0, sop := S_EBREAK\<rparr>, 0x100073)], 2, 8)"
proof -
  have "decode_stop demo_code 8 p = Some (fetch demo_code p = None)" for p
    by (rule decode_stop_fetch) (simp_all add: demo_code_def)
  then show ?thesis
    by (simp add: demo_fetch decode_one_fetch demo_decode is_terminator_def numeral_2_eq_2)
qed

definition zero_rec :: rec where
  "zero_rec = (\<lparr>sop = S_ADD, srd = 0, srs1 = 0, srs2 = 0\<rparr>, 0)"

definition demo_recs :: "rec list" where
  "demo_recs = [((fst zero_rec)\<lparr>srd := 0, srs1 := 0, sop := S_ADDI\<rparr>, 0),
                ((fst zero_rec)\<lparr>srd := 0, srs1 := 0, sop := S_EBREAK\<rparr>, 0x100073)]"

lemma demo_ahead_recs:
  "decode_ahead (\<lambda>_. zero_rec) demo_code 8 (Suc (Suc 0)) 0 0 = Some (demo_recs, 2, 8)"
  unfolding demo_recs_def by (rule demo_ahead)

lemma demo_trap: "trap_handler init_hooks S_EBREAK s = (True, s)"
  by (simp add: trap_handler_def init_hooks_def)

lemma demo_region:
  "readonly demo_state = \<lparr>rg_ptr = Some demo_code, rg_len = 8, rg_base = 0\<rparr>" "pc demo_state = 0"
  by (simp_all add: demo_state_def riscv_init_def)

lemma demo_ref:
  "ref_run init_hooks demo_code (Suc (Suc n)) 0 0 demo_state =
     Some (demo_state\<lparr>pc := 4, inst := 0x100073\<rparr>, 2, 4, True)"
  by (simp add: demo_fetch demo_decode exec_system_def exec_ebreak_def init_hooks_def wr_def Let_def
      numeral_2_eq_2)

lemma demo_batch:
  "run_batch (\<lambda>b. default_eval init_hooks b 0) init_hooks old (Some demo_code) 8 (Suc (Suc n)) 0
     demo_state = Some (demo_state\<lparr>pc := 0, inst := 0x100073\<rparr>, 2, False)"
proof -
  let ?rs = "[((fst (old 0))\<lparr>srd := 0, srs1 := 0, sop := S_ADDI\<rparr>, 0 :: u32),
              ((fst (old 1))\<lparr>srd := 0, srs1 := 0, sop := S_EBREAK\<rparr>, 0x100073)]"
  obtain m where m: "min (Suc (Suc n)) RISCV_BLOCK_MAX = Suc (Suc m)"
    by (cases "n \<le> 62") (auto simp: RISCV_BLOCK_MAX_def min_def numeral_eq_Suc)
  have run: "runnable ?rs" by (simp add: runnable_def is_trap_op_def)
  have ex: "exec_recs init_hooks ?rs (demo_state\<lparr>pc := 8\<rparr>) = Some (demo_state\<lparr>pc := 8\<rparr>)"
    by (simp add: exec_rec_def exec_imm_def is_trap_op_def rr_val_def ri_val_def wr_def)
  obtain d where "default_eval init_hooks (block_of (old 2) ?rs) 0 (demo_state\<lparr>pc := 8\<rparr>) =
      Some (demo_state\<lparr>pc := 8\<rparr>, d)" "\<not> d < length ?rs"
    using default_eval_completes [OF run ex, of "old 2"] by auto
  then show ?thesis
    using m demo_ahead [of old m]
    by (simp add: run_batch_def demo_region demo_trap Let_def is_trap_op_def numeral_2_eq_2
        del: decode_ahead.simps)
qed

text \<open>
  The pc a trap leaves behind. On the same two instructions both engines stop at the
  \<open>ebreak\<close> after executing two, but purv leaves the state's pc at the \<open>ebreak\<close> (4) and purvs at
  the start of the decoded run (0): \<open>last_pc\<close> is never advanced while the run is decoded, so a
  host that resumes there executes the \<open>addi\<close> again.
\<close>

theorem purvs_trap_pc:
  "map_option (\<lambda>(s, k). (pc s, k)) (riscv_loop init_hooks demo_state (Suc (Suc n))) = Some (4, 2) \<and>
   map_option (\<lambda>(s, k). (pc s, k)) (purvs_loop init_hooks old demo_state (Suc (Suc n))) = Some (0, 2)"
  using demo_ref [of n] demo_batch [of old n]
  by (simp add: riscv_loop_ref ref_loop_def purvs_loop_def purvs_while.simps demo_region
      wf_region_def demo_code_def)

text \<open>
  C38: the pc recovery after an evaluator stops early is exact. If a run emitted from \<open>p\<close> has more
  than \<open>n\<close> records, the walk over \<open>n\<close> of them ends at the pc from which decoding emits precisely
  the remaining records, and the instructions it counts and those left add up to the run's.
\<close>

theorem fixup_pc_resumes:
  assumes "decode_ahead old code clen lim 0 p = Some (rs, insns, e)" "n < length rs"
  shows "\<exists>q d. fixup_pc code n 0 0 p = Some (q, d) \<and> d \<le> insns \<and>
    decode_ahead old code clen (lim - d) d q = Some (drop n rs, insns, e)"
  using fixup_walk [OF assms(1), of n 0 0] assms(2) by simp

lemma fixup_pc_resumes_witness:
  "\<exists>q d. fixup_pc demo_code 1 0 0 0 = Some (q, d) \<and> d \<le> 2 \<and>
     decode_ahead (\<lambda>_. zero_rec) demo_code 8 (Suc (Suc 0) - d) d q = Some (drop 1 demo_recs, 2, 8)"
  by (rule fixup_pc_resumes [OF demo_ahead_recs]) (simp add: demo_recs_def)

text \<open>
  The slot buffer of a run is never overrun: a decode pass under the cap of
  \<open>RISCV_BLOCK_MAX\<close> instructions needs at most \<open>RISCV_BLOCK_SLOTS\<close> slots, sentinel included, and
  the evaluator reaches the sentinel or a trap without leaving them.
\<close>

theorem block_fits:
  assumes "decode_ahead old code clen lim 0 p = Some (rs, insns, e)" "lim \<le> RISCV_BLOCK_MAX"
  shows "length (block_of end_slot rs) \<le> RISCV_BLOCK_SLOTS"
  using decode_ahead_count [OF assms(1)] assms(2) slots_of_bound [of rs]
  by (simp add: block_of_def RISCV_BLOCK_SLOTS_def)

lemma block_fits_witness: "length (block_of zero_rec demo_recs) \<le> RISCV_BLOCK_SLOTS"
  by (rule block_fits [OF demo_ahead_recs]) (simp add: RISCV_BLOCK_MAX_def)

end
