(* ===== verification/Tctool.thy ===== *)
theory Tctool
  imports Purva_Image Elf32
begin

text \<open>
  The transcoding tool \<open>emu/purva/tctool.c\<close>: from a linked ELF file to an image. The file is its
  bytes, \<open>g_elf\<close>; its structures are read whole where the C reads their fields one by one, and
  \<open>None\<close> is an access outside the file, outside an array or outside a buffer. The tool's own
  refusals, each an \<open>exit\<close> with its message, are the values of \<open>tool_exit\<close>. Buffers the tool
  allocates are assumed to be there. The debugging aid under \<open>TCVERIFY\<close> prints only.
\<close>

section \<open>The ELF reader\<close>

datatype tool_exit = No_elf | Entry_not_0 | No_code | Rodata_place | Section_below_base | Bss_below_base
  | No_paired_lo12 | Unresolved_start | Store_fused | No_low_imm | No_auipc | Auipc_too_far

record ehdr =
  e_ident :: "u8 list"
  e_entry :: u32
  e_shoff :: u32
  e_shentsize :: u32
  e_shnum :: u32

record shdr =
  sh_type :: u32
  sh_flags :: u32
  sh_addr :: u32
  sh_offset :: u32
  sh_size :: u32
  sh_link :: u32
  sh_info :: u32

record rela =
  r_offset :: u32
  r_info :: u32
  r_addend :: u32

definition SHT_PROGBITS :: u32 where "SHT_PROGBITS = 1"
definition SHT_NOBITS :: u32 where "SHT_NOBITS = 8"
definition SHT_RELA :: u32 where "SHT_RELA = 4"
definition SHF_WRITE :: u32 where "SHF_WRITE = 1"
definition SHF_ALLOC :: u32 where "SHF_ALLOC = 2"
definition SHF_EXECINSTR :: u32 where "SHF_EXECINSTR = 4"
definition R_RISCV_32 :: u32 where "R_RISCV_32 = 1"
definition R_RISCV_PCREL_HI20 :: u32 where "R_RISCV_PCREL_HI20 = 23"
definition R_RISCV_PCREL_LO12_I :: u32 where "R_RISCV_PCREL_LO12_I = 24"
definition R_RISCV_PCREL_LO12_S :: u32 where "R_RISCV_PCREL_LO12_S = 25"

definition elf_header :: "u8 list \<Rightarrow> ehdr option" where
  "elf_header e = do {
     en \<leftarrow> elf32 e 24; so \<leftarrow> elf32 e 32; es \<leftarrow> elf16 e 46; sn \<leftarrow> elf16 e 48;
     Some \<lparr>e_ident = take 16 e, e_entry = en, e_shoff = so, e_shentsize = es, e_shnum = sn\<rparr> }"

text \<open>\<open>shdr\<close>; the index is an \<open>int\<close>.\<close>

definition shdr_at :: "u8 list \<Rightarrow> ehdr \<Rightarrow> int \<Rightarrow> shdr option" where
  "shdr_at e eh i =
     (let p = int (unat (e_shoff eh)) + i * int (unat (e_shentsize eh)); q = nat p
      in if p < 0 then None
         else do {
           t \<leftarrow> elf32 e (q + 4); fl \<leftarrow> elf32 e (q + 8); a \<leftarrow> elf32 e (q + 12); f \<leftarrow> elf32 e (q + 16);
           z \<leftarrow> elf32 e (q + 20); l \<leftarrow> elf32 e (q + 24); n \<leftarrow> elf32 e (q + 28);
           Some \<lparr>sh_type = t, sh_flags = fl, sh_addr = a, sh_offset = f, sh_size = z, sh_link = l, sh_info = n\<rparr> })"

fun sections_from :: "u8 list \<Rightarrow> ehdr \<Rightarrow> nat \<Rightarrow> nat \<Rightarrow> shdr list option" where
  "sections_from e eh i 0 = Some []"
| "sections_from e eh i (Suc n) = do { s \<leftarrow> shdr_at e eh (int i); ss \<leftarrow> sections_from e eh (Suc i) n; Some (s # ss) }"

text \<open>The sections in the order of the loops \<open>for (int i = 0; i < eh->e_shnum; i++)\<close>.\<close>

definition sections :: "u8 list \<Rightarrow> ehdr \<Rightarrow> shdr list option" where
  "sections e eh = sections_from e eh 0 (unat (e_shnum eh))"

text \<open>Entry \<open>j\<close> of a relocation section, and the value of the symbol it names.\<close>

definition rela_at :: "u8 list \<Rightarrow> shdr \<Rightarrow> nat \<Rightarrow> rela option" where
  "rela_at e sh j =
     (let q = unat (sh_offset sh) + 12 * j
      in do { a \<leftarrow> elf32 e q; i \<leftarrow> elf32 e (q + 4); d \<leftarrow> elf32 e (q + 8);
              Some \<lparr>r_offset = a, r_info = i, r_addend = d\<rparr> })"

definition r_type :: "rela \<Rightarrow> u32" where
  "r_type r = r_info r AND 0xff"

definition sym_value :: "u8 list \<Rightarrow> ehdr \<Rightarrow> shdr \<Rightarrow> rela \<Rightarrow> u32 option" where
  "sym_value e eh sh r = do {
     symsh \<leftarrow> shdr_at e eh (sint (sh_link sh));
     elf32 e (unat (sh_offset symsh) + 16 * unat (drop_bit 8 (r_info r)) + 4) }"

fun relas_from :: "u8 list \<Rightarrow> shdr \<Rightarrow> nat \<Rightarrow> nat \<Rightarrow> rela list option" where
  "relas_from e sh j 0 = Some []"
| "relas_from e sh j (Suc n) = do { r \<leftarrow> rela_at e sh j; rs \<leftarrow> relas_from e sh (Suc j) n; Some (r # rs) }"

definition relas_of :: "u8 list \<Rightarrow> shdr \<Rightarrow> rela list option" where
  "relas_of e sh = relas_from e sh 0 (unat (sh_size sh) div 12)"

text \<open>Every relocation of the file with its section, in the order of the nested loops.\<close>

fun all_relas :: "u8 list \<Rightarrow> ehdr \<Rightarrow> shdr list \<Rightarrow> (shdr \<times> rela) list option" where
  "all_relas e eh [] = Some []"
| "all_relas e eh (sh # ss) =
     (if sh_type sh \<noteq> SHT_RELA then all_relas e eh ss
      else do {
        symsh \<leftarrow> shdr_at e eh (sint (sh_link sh)); rs \<leftarrow> relas_of e sh;
        rest \<leftarrow> all_relas e eh ss; Some (map (Pair sh) rs @ rest) })"

section \<open>Gathering the sections\<close>

record span =
  sp_addr :: u32
  sp_size :: u32
  sp_bytes :: nat

text \<open>The inner loop of \<open>sort_spans\<close>: \<open>v\<close> is to go to the place after \<open>j\<close> or below.\<close>

fun sift_span :: "span list \<Rightarrow> span \<Rightarrow> nat \<Rightarrow> span list" where
  "sift_span s v 0 = s[0 := v]"
| "sift_span s v (Suc j) =
     (if sp_addr (s ! j) > sp_addr v then sift_span (s[Suc j := s ! j]) v j else s[Suc j := v])"

definition sort_spans :: "span list \<Rightarrow> span list" where
  "sort_spans s = fold (\<lambda>i t. sift_span t (t ! i) i) [1..<length s] s"

definition MERGE_AUTO_BASE :: u32 where
  "MERGE_AUTO_BASE = 0xffffffff"

definition wanted :: "bool \<Rightarrow> bool \<Rightarrow> shdr \<Rightarrow> bool" where
  "wanted ex wt sh = (sh_type sh = SHT_PROGBITS \<and> sh_flags sh AND SHF_ALLOC \<noteq> 0 \<and> sh_size sh \<noteq> 0 \<and>
     (sh_flags sh AND SHF_EXECINSTR \<noteq> 0) = ex \<and> (sh_flags sh AND SHF_WRITE \<noteq> 0) = wt)"

definition span_of :: "shdr \<Rightarrow> span" where
  "span_of sh = \<lparr>sp_addr = sh_addr sh, sp_size = sh_size sh, sp_bytes = unat (sh_offset sh)\<rparr>"

text \<open>At most 64 sections of a kind are taken.\<close>

definition spans_of :: "bool \<Rightarrow> bool \<Rightarrow> shdr list \<Rightarrow> span list" where
  "spans_of ex wt ss = take 64 (map span_of (filter (wanted ex wt) ss))"

text \<open>One \<open>memcpy\<close> of the file into the buffer.\<close>

definition place_span :: "u8 list \<Rightarrow> u32 \<Rightarrow> span \<Rightarrow> u8 list \<Rightarrow> u8 list option" where
  "place_span e base sp buf = copy_in e (sp_bytes sp) (unat (sp_size sp)) buf (unat (sp_addr sp - base))"

fun place_spans :: "u8 list \<Rightarrow> u32 \<Rightarrow> span list \<Rightarrow> u8 list \<Rightarrow> u8 list option" where
  "place_spans e base [] buf = Some buf"
| "place_spans e base (sp # sps) buf = do { b \<leftarrow> place_span e base sp buf; place_spans e base sps b }"

text \<open>\<open>merge_progbits\<close>: the buffer (\<open>None\<close> for NULL), its length and the base it starts at.\<close>

definition merge_progbits ::
  "u8 list \<Rightarrow> shdr list \<Rightarrow> bool \<Rightarrow> bool \<Rightarrow> u32 \<Rightarrow> (tool_exit + u8 list option \<times> u32 \<times> u32) option" where
  "merge_progbits e ss ex wt base0 =
     (case sort_spans (spans_of ex wt ss) of
        [] \<Rightarrow> Some (Inr (None, 0, if base0 = MERGE_AUTO_BASE then 0 else base0))
      | sp # sps \<Rightarrow>
          if base0 \<noteq> MERGE_AUTO_BASE \<and> sp_addr sp < base0 then Some (Inl Section_below_base)
          else
            let base = (if base0 = MERGE_AUTO_BASE then sp_addr sp else base0);
                hi = sp_addr (last (sp # sps)) + sp_size (last (sp # sps))
            in do {
              buf \<leftarrow> place_spans e base (sp # sps) (replicate (unat (hi - base)) 0);
              Some (Inr (Some buf, hi - base, base)) })"

fun nobits_top :: "u32 \<Rightarrow> shdr list \<Rightarrow> u32 \<Rightarrow> tool_exit + u32" where
  "nobits_top base [] hi = Inr hi"
| "nobits_top base (sh # ss) hi =
     (if sh_type sh \<noteq> SHT_NOBITS \<or> sh_flags sh AND SHF_ALLOC = 0 \<or> sh_size sh = 0 then nobits_top base ss hi
      else if sh_addr sh < base then Inl Bss_below_base
      else nobits_top base ss (if sh_addr sh + sh_size sh > hi then sh_addr sh + sh_size sh else hi))"

section \<open>Code addresses in the relocations\<close>

fun collect_code_address_relocs ::
  "u8 list \<Rightarrow> ehdr \<Rightarrow> u32 \<Rightarrow> (shdr \<times> rela) list \<Rightarrow> u32 list option" where
  "collect_code_address_relocs e eh clen [] = Some []"
| "collect_code_address_relocs e eh clen ((sh, r) # rs) =
     (if r_type r \<noteq> R_RISCV_32 \<and> r_type r \<noteq> R_RISCV_PCREL_HI20 then collect_code_address_relocs e eh clen rs
      else do {
        v \<leftarrow> sym_value e eh sh r;
        out \<leftarrow> collect_code_address_relocs e eh clen rs;
        Some (if v + r_addend r \<ge> clen then out else (v + r_addend r) # out) })"

record pcrel_fixup =
  hi_off :: u32
  lo_off :: u32
  fx_sym :: u32
  fx_addend :: u32
  lo_is_store :: bool

text \<open>The inner search: every low-part relocation whose symbol is the \<open>auipc\<close> at \<open>hi\<close>.\<close>

fun lo12_users ::
  "u8 list \<Rightarrow> ehdr \<Rightarrow> u32 \<Rightarrow> u32 \<Rightarrow> u32 \<Rightarrow> (shdr \<times> rela) list \<Rightarrow> pcrel_fixup list option" where
  "lo12_users e eh hi sv ad [] = Some []"
| "lo12_users e eh hi sv ad ((sh, r) # rs) =
     (if r_type r \<noteq> R_RISCV_PCREL_LO12_I \<and> r_type r \<noteq> R_RISCV_PCREL_LO12_S then lo12_users e eh hi sv ad rs
      else do {
        v \<leftarrow> sym_value e eh sh r;
        out \<leftarrow> lo12_users e eh hi sv ad rs;
        Some (if v \<noteq> hi then out
              else \<lparr>hi_off = hi, lo_off = r_offset r, fx_sym = sv, fx_addend = ad,
                    lo_is_store = (r_type r = R_RISCV_PCREL_LO12_S)\<rparr> # out) })"

text \<open>\<open>collect_pcrel_code_fixups\<close>; \<open>all\<close> is the list the inner loops scan from the start.\<close>

fun collect_fixups ::
  "u8 list \<Rightarrow> ehdr \<Rightarrow> u32 \<Rightarrow> (shdr \<times> rela) list \<Rightarrow> (shdr \<times> rela) list \<Rightarrow> (tool_exit + pcrel_fixup list) option" where
  "collect_fixups e eh clen all [] = Some (Inr [])"
| "collect_fixups e eh clen all ((sh, r) # rs) =
     (if r_type r \<noteq> R_RISCV_PCREL_HI20 then collect_fixups e eh clen all rs
      else do {
        v \<leftarrow> sym_value e eh sh r;
        if v \<ge> clen then collect_fixups e eh clen all rs
        else do {
          us \<leftarrow> lo12_users e eh (r_offset r) v (r_addend r) all;
          if us = [] then Some (Inl No_paired_lo12)
          else map_option (\<lambda>x. case x of Inl m \<Rightarrow> Inl m | Inr out \<Rightarrow> Inr (us @ out)) (collect_fixups e eh clen all rs) } })"

section \<open>Patching\<close>

definition map_at :: "u32 list \<Rightarrow> u32 \<Rightarrow> u32 option" where
  "map_at m a = (if unat (drop_bit 1 a) < length m then Some (m ! unat (drop_bit 1 a)) else None)"

definition op_at :: "u32 list \<Rightarrow> u32 \<Rightarrow> u32 option" where
  "op_at ops i = (if unat i < length ops then Some (ops ! unat i) else None)"

text \<open>The ops whose immediate is in the low 16 bits.\<close>

definition imm16_low :: "u32 \<Rightarrow> bool" where
  "imm16_low op = (op \<ge> ucast RISCV_OP_ADDI \<and> op \<le> ucast RISCV_OP_SRAI \<or>
     op \<ge> ucast RISCV_OP_LB \<and> op \<le> ucast RISCV_OP_SW \<or> op = ucast RISCV_OP_JALR \<or>
     op = ucast RISCV_OP_LW_BZ \<or> op = ucast RISCV_OP_LBU_BZ)"

definition fix_hi20 :: "u32 \<Rightarrow> u32" where
  "fix_hi20 delta = signed_drop_bit 12 (delta + 0x800)"

definition fix_lo12 :: "u32 \<Rightarrow> u32" where
  "fix_lo12 delta = delta - push_bit 12 (fix_hi20 delta)"

definition set_hi20 :: "u32 \<Rightarrow> u32 \<Rightarrow> u32" where
  "set_hi20 w v = (w AND NOT 0xfffff) OR (v AND 0xfffff)"

definition set_lo16 :: "u32 \<Rightarrow> u32 \<Rightarrow> u32" where
  "set_lo16 w v = (w AND NOT 0xffff) OR (v AND 0xffff)"

text \<open>The body of the loop of \<open>apply_pcrel_code_fixups\<close>.\<close>

definition apply_fixup :: "u32 list \<Rightarrow> pcrel_fixup \<Rightarrow> u32 list \<Rightarrow> (tool_exit + u32 list) option" where
  "apply_fixup m fx ops = do {
     at_hi \<leftarrow> map_at m (hi_off fx); at_lo \<leftarrow> map_at m (lo_off fx); at_sym \<leftarrow> map_at m (fx_sym fx);
     if at_hi = TC_SENTINEL \<or> at_lo = TC_SENTINEL \<or> at_sym = TC_SENTINEL then Some (Inl Unresolved_start)
     else do {
       wlo \<leftarrow> op_at ops at_lo;
       if lo_is_store fx \<and> TC_OP wlo \<noteq> ucast RISCV_OP_SW then Some (Inl Store_fused)
       else if \<not> imm16_low (TC_OP wlo) then Some (Inl No_low_imm)
       else do {
         let delta = (at_sym * 4 + fx_addend fx) - at_hi * 4;
         whi \<leftarrow> op_at ops at_hi;
         if TC_OP whi \<noteq> ucast RISCV_OP_AUIPC then Some (Inl No_auipc)
         else do {
           let ops1 = ops[unat at_hi := set_hi20 whi (fix_hi20 delta)];
           wlo1 \<leftarrow> op_at ops1 at_lo;
           Some (Inr (ops1[unat at_lo := set_lo16 wlo1 (fix_lo12 delta)])) } } } }"

fun apply_fixups :: "u32 list \<Rightarrow> pcrel_fixup list \<Rightarrow> u32 list \<Rightarrow> (tool_exit + u32 list) option" where
  "apply_fixups m [] ops = Some (Inr ops)"
| "apply_fixups m (fx # fxs) ops =
     (case apply_fixup m fx ops of
        None \<Rightarrow> None
      | Some (Inl x) \<Rightarrow> Some (Inl x)
      | Some (Inr ops1) \<Rightarrow> apply_fixups m fxs ops1)"

text \<open>A data \<open>auipc\<close> left bare becomes the load-immediate of its value.\<close>

definition li_word :: "u32 \<Rightarrow> u32 \<Rightarrow> tool_exit + u32" where
  "li_word rd val =
     (let s0 = sint val; sh = sint (val - RISCV_HALF); lim = 1048576
      in if s0 > - lim \<and> s0 < lim
         then Inr (push_bit 26 (ucast RISCV_OP_LI_LO) OR push_bit 21 rd OR (val AND 0x1fffff))
         else if sh > - lim \<and> sh < lim
         then Inr (push_bit 26 (ucast RISCV_OP_LI_HI) OR push_bit 21 rd OR ((val - RISCV_HALF) AND 0x1fffff))
         else Inl Auipc_too_far)"

definition resolve_auipc :: "u32 list \<Rightarrow> u32 \<Rightarrow> u32 list \<Rightarrow> (tool_exit + u32 list) option" where
  "resolve_auipc m hi ops = do {
     at \<leftarrow> map_at m hi;
     if at = TC_SENTINEL then Some (Inr ops)
     else do {
       w \<leftarrow> op_at ops at;
       if TC_OP w \<noteq> ucast RISCV_OP_AUIPC then Some (Inr ops)
       else Some (case li_word (drop_bit 21 w AND 31) (hi + push_bit 12 (w AND 0xfffff)) of
                    Inl x \<Rightarrow> Inl x | Inr w' \<Rightarrow> Inr (ops[unat at := w'])) } }"

fun resolve_data_auipc ::
  "u8 list \<Rightarrow> ehdr \<Rightarrow> u32 \<Rightarrow> u32 list \<Rightarrow> (shdr \<times> rela) list \<Rightarrow> u32 list \<Rightarrow> (tool_exit + u32 list) option" where
  "resolve_data_auipc e eh clen m [] ops = Some (Inr ops)"
| "resolve_data_auipc e eh clen m ((sh, r) # rs) ops =
     (if r_type r \<noteq> R_RISCV_PCREL_HI20 then resolve_data_auipc e eh clen m rs ops
      else do {
        v \<leftarrow> sym_value e eh sh r;
        if v < clen then resolve_data_auipc e eh clen m rs ops
        else do {
          x \<leftarrow> resolve_auipc m (r_offset r) ops;
          case x of Inl y \<Rightarrow> Some (Inl y) | Inr ops1 \<Rightarrow> resolve_data_auipc e eh clen m rs ops1 } })"

text \<open>
  \<open>patch_rela\<close>: the words of one buffer that hold code addresses. The bound is computed in 32 bits.
\<close>

definition patch_word :: "u32 \<Rightarrow> u32 list \<Rightarrow> u32 \<Rightarrow> u32 \<Rightarrow> u32 \<Rightarrow> u32 \<Rightarrow> u8 list \<Rightarrow> u8 list option" where
  "patch_word clen m base blen target off buf =
     (if target \<ge> clen then Some buf
      else do {
        i \<leftarrow> map_at m target;
        if i = TC_SENTINEL then Some buf
        else if off < base \<or> off - base + 4 > blen then Some buf
        else let a = unat (off - base); v = i * 4
             in if a + 4 \<le> length buf
                then Some (buf[a := byte_of 0 v, a + 1 := byte_of 1 v, a + 2 := byte_of 2 v, a + 3 := byte_of 3 v])
                else None })"

fun patch_rela ::
  "u8 list \<Rightarrow> ehdr \<Rightarrow> shdr \<Rightarrow> u32 \<Rightarrow> u32 list \<Rightarrow> u32 \<Rightarrow> u32 \<Rightarrow> rela list \<Rightarrow> u8 list \<Rightarrow> u8 list option" where
  "patch_rela e eh sh clen m base blen [] buf = Some buf"
| "patch_rela e eh sh clen m base blen (r # rs) buf =
     (if r_type r \<noteq> R_RISCV_32 then patch_rela e eh sh clen m base blen rs buf
      else do {
        v \<leftarrow> sym_value e eh sh r;
        buf1 \<leftarrow> patch_word clen m base blen (v + r_addend r) (r_offset r) buf;
        patch_rela e eh sh clen m base blen rs buf1 })"

fun patch_all_relas ::
  "u8 list \<Rightarrow> ehdr \<Rightarrow> u32 \<Rightarrow> u32 list \<Rightarrow> u32 \<Rightarrow> u32 \<Rightarrow> u32 \<Rightarrow> u32 \<Rightarrow> shdr list \<Rightarrow> u8 list \<Rightarrow> u8 list \<Rightarrow>
     (u8 list \<times> u8 list) option" where
  "patch_all_relas e eh clen m robase rolen rwbase rwlen [] ro rw = Some (ro, rw)"
| "patch_all_relas e eh clen m robase rolen rwbase rwlen (sh # ss) ro rw =
     (if sh_type sh \<noteq> SHT_RELA then patch_all_relas e eh clen m robase rolen rwbase rwlen ss ro rw
      else do {
        t \<leftarrow> shdr_at e eh (sint (sh_info sh));
        if rolen \<noteq> 0 \<and> sh_addr t - robase < rolen then do {
          rs \<leftarrow> relas_of e sh; ro1 \<leftarrow> patch_rela e eh sh clen m robase rolen rs ro;
          patch_all_relas e eh clen m robase rolen rwbase rwlen ss ro1 rw }
        else if rwlen \<noteq> 0 \<and> sh_addr t - rwbase < rwlen then do {
          rs \<leftarrow> relas_of e sh; rw1 \<leftarrow> patch_rela e eh sh clen m rwbase rwlen rs rw;
          patch_all_relas e eh clen m robase rolen rwbase rwlen ss ro rw1 }
        else patch_all_relas e eh clen m robase rolen rwbase rwlen ss ro rw })"

section \<open>The tool\<close>

text \<open>The rest of \<open>main\<close>, once the sections are merged: the program is transcoded and patched.\<close>

definition tool_build ::
  "u8 list \<Rightarrow> ehdr \<Rightarrow> shdr list \<Rightarrow> u8 list \<Rightarrow> u32 \<Rightarrow> u8 list \<Rightarrow> u32 \<Rightarrow> u32 \<Rightarrow> u8 list \<Rightarrow> u32 \<Rightarrow> u32 \<Rightarrow>
     (tool_exit + image) option" where
  "tool_build e eh ss code clen ro robase rolen rw rwlen bss = do {
     rs \<leftarrow> all_relas e eh ss;
     addrs \<leftarrow> collect_code_address_relocs e eh clen rs;
     fxs \<leftarrow> collect_fixups e eh clen rs rs;
     case fxs of Inl x \<Rightarrow> Some (Inl x) | Inr fx \<Rightarrow> do {
       let ext = Some (addrs @ map lo_off fx);
       prog \<leftarrow> transcode_ex code clen ext;
       (m, n) \<leftarrow> transcode_map_ex code clen ext;
       (ro1, rw1) \<leftarrow> patch_all_relas e eh clen m robase rolen RISCV_HALF rwlen ss ro rw;
       r1 \<leftarrow> apply_fixups m fx (tops prog);
       case r1 of Inl x \<Rightarrow> Some (Inl x) | Inr ops1 \<Rightarrow> do {
         r2 \<leftarrow> resolve_data_auipc e eh clen m rs ops1;
         case r2 of Inl x \<Rightarrow> Some (Inl x) | Inr ops2 \<Rightarrow>
           Some (Inr \<lparr>code_size = tn_ops prog * 4, rodata_size = rolen, rwdata_size = rwlen, bss_size = bss,
             stack_size = 64 * 1024, im_code = ops_bytes ops2, im_rodata = ro1, im_rwdata = rw1\<rparr>) } } }"

text \<open>\<open>main\<close>, from the bytes of the input file to the image it writes.\<close>

definition tctool :: "u8 list \<Rightarrow> (tool_exit + image) option" where
  "tctool e = do {
     eh \<leftarrow> elf_header e;
     if take 4 (e_ident eh) \<noteq> [0x7f, 0x45, 0x4c, 0x46] then Some (Inl No_elf)
     else if e_entry eh \<noteq> 0 then Some (Inl Entry_not_0)
     else do {
       ss \<leftarrow> sections e eh;
       c \<leftarrow> merge_progbits e ss True False 0;
       case c of Inl x \<Rightarrow> Some (Inl x)
       | Inr (None, _) \<Rightarrow> Some (Inl No_code)
       | Inr (Some code, clen, _) \<Rightarrow> do {
           r \<leftarrow> merge_progbits e ss False False MERGE_AUTO_BASE;
           case r of Inl x \<Rightarrow> Some (Inl x)
           | Inr (ro, rolen, robase) \<Rightarrow>
               if rolen \<noteq> 0 \<and> robase \<noteq> 0 - rolen then Some (Inl Rodata_place)
               else do {
                 w \<leftarrow> merge_progbits e ss False True RISCV_HALF;
                 case w of Inl x \<Rightarrow> Some (Inl x)
                 | Inr (rw, rwlen, _) \<Rightarrow>
                     (case nobits_top (RISCV_HALF + rwlen) ss (RISCV_HALF + rwlen) of
                        Inl x \<Rightarrow> Some (Inl x)
                      | Inr hi \<Rightarrow>
                          tool_build e eh ss code clen (case ro of None \<Rightarrow> [] | Some b \<Rightarrow> b) robase rolen
                            (case rw of None \<Rightarrow> [] | Some b \<Rightarrow> b) rwlen (hi - (RISCV_HALF + rwlen))) } } } }"

end
