(* ===== verification/Tc_Layout.thy ===== *)
theory Tc_Layout
  imports Tc_Fields
begin

text \<open>
  The layout \<open>transcode.c\<close> gives a program: both passes visit the same units, the map names the
  position of every unit, no unit hides a jump target, and the displacements that
  \<open>emit\<close> bakes into branches and jumps fit their fields.
\<close>

section \<open>Code images\<close>

text \<open>What the transcoder is given: whole words of code below the writable half.\<close>

definition code_ok :: "u8 list \<Rightarrow> u32 \<Rightarrow> bool" where
  "code_ok code len = (length code = unat len \<and> 4 dvd unat len \<and> unat len \<le> 2147483648)"

lemma code_ok_le: "code_ok code len \<Longrightarrow> unat len \<le> 2147483648"
  by (simp add: code_ok_def)

lemma unat_add_off:
  "unat (off :: u32) \<le> 2147483648 \<Longrightarrow> unat k \<le> 2000000000 \<Longrightarrow> unat (off + k) = unat off + unat k"
  by (simp add: unat_word_ariths)

lemma add_le_len:
  assumes "code_ok code len" "unat off \<le> unat len" "unat (k :: u32) \<le> 2000000000"
  shows "off + k \<le> len \<longleftrightarrow> unat off + unat k \<le> unat len"
  using unat_add_off [of off k] code_ok_le [OF assms(1)] assms by (simp add: word_le_nat_alt)

lemma tc_word_some:
  assumes "code_ok code len" "unat off + 4 \<le> unat len"
  shows "\<exists>w. tc_word code off = Some w"
proof -
  have len: "length code = unat len" "unat len \<le> 2147483648" using assms(1) by (auto simp: code_ok_def)
  have "unat (off + 1) = unat off + 1" "unat (off + 2) = unat off + 2" "unat (off + 3) = unat off + 3"
    using len assms(2) by (simp_all add: unat_add_off)
  with len assms(2) show ?thesis by (simp add: tc_word_def code_at_def)
qed

lemma tc_decode_some:
  assumes "code_ok code len" "unat off + 4 \<le> unat len"
  obtains w where "tc_word code off = Some w" "tc_decode code off = Some (tc_dec w off)"
  using tc_word_some [OF assms] by (auto simp: tc_decode_def)

text \<open>An aligned offset inside the code has a whole instruction.\<close>

lemma aligned_room:
  assumes "code_ok code len" "4 dvd unat off" "unat off < unat len"
  shows "unat off + 4 \<le> unat len"
proof -
  have "4 dvd unat len - unat off" using assms by (simp add: code_ok_def)
  then have "4 \<le> unat len - unat off" using assms(3) by (auto dest: dvd_imp_le)
  then show ?thesis by simp
qed

section \<open>Units\<close>

text \<open>No slot strictly inside the unit is a target.\<close>

definition clear :: "targets \<Rightarrow> u32 \<Rightarrow> nat \<Rightarrow> bool" where
  "clear t off wd = (\<forall>j. 0 < j \<and> 4 * j < wd \<longrightarrow> \<not> targets_has t (off + of_nat (4 * j)))"

definition unit_ok :: "u32 \<Rightarrow> targets \<Rightarrow> u32 \<Rightarrow> u32 \<times> tdec \<Rightarrow> bool" where
  "unit_ok len t off r =
     (4 dvd unat (fst r) \<and> 4 \<le> unat (fst r) \<and> unat (fst r) \<le> 60 \<and>
      unat off + unat (fst r) \<le> unat len \<and> 4 * unat (op_words (dop (snd r))) \<le> unat (fst r) \<and>
      clear t off (unat (fst r)))"

lemma clear_4: "clear t off 4"
  by (auto simp: clear_def)

lemma clear_8: "\<not> targets_has t (off + 4) \<Longrightarrow> clear t off 8"
  unfolding clear_def
proof (intro allI impI)
  fix j :: nat assume "\<not> targets_has t (off + 4)" "0 < j \<and> 4 * j < 8"
  moreover from this have "j = 1" by simp
  ultimately show "\<not> targets_has t (off + of_nat (4 * j))" by simp
qed

lemma clear_12:
  "\<not> targets_has t (off + 4) \<Longrightarrow> \<not> targets_has t (off + 8) \<Longrightarrow> clear t off 12"
  unfolding clear_def
proof (intro allI impI)
  fix j :: nat
  assume "\<not> targets_has t (off + 4)" "\<not> targets_has t (off + 8)" "0 < j \<and> 4 * j < 12"
  moreover from this have "j = 1 \<or> j = 2" by auto
  ultimately show "\<not> targets_has t (off + of_nat (4 * j))" by auto
qed

text \<open>The instruction \<open>j\<close> words after \<open>off\<close>.\<close>

definition dec_at :: "u8 list \<Rightarrow> u32 \<Rightarrow> nat \<Rightarrow> tdec option" where
  "dec_at code off j = tc_decode code (off + of_nat (4 * j))"

lemma dec_at_next: "dec_at code (off + 4) j = dec_at code off (Suc j)"
  by (simp add: dec_at_def algebra_simps)

lemma dec_at_0 [simp]: "dec_at code off 0 = tc_decode code off"
  by (simp add: dec_at_def)

text \<open>A scan stops after a run of whole instructions, each a save, none of them a target.\<close>

definition is_save :: "tdec \<Rightarrow> reg \<times> u32 \<Rightarrow> bool" where
  "is_save d x = (dop d = RISCV_OP_SW \<and> drs1 d = 2 \<and> 0 \<le> rank_of (fst x) \<and> x = (drs2 d, dimm d))"

definition is_restore :: "tdec \<Rightarrow> reg \<times> u32 \<Rightarrow> bool" where
  "is_restore d x = (dop d = RISCV_OP_LW \<and> drs1 d = 2 \<and> 0 \<le> rank_of (fst x) \<and> x = (drd d, dimm d))"

definition run_ok ::
  "(tdec \<Rightarrow> reg \<times> u32 \<Rightarrow> bool) \<Rightarrow> nat \<Rightarrow> u8 list \<Rightarrow> u32 \<Rightarrow> u32 \<Rightarrow> (reg \<times> u32) list \<times> u32 \<Rightarrow> bool" where
  "run_ok P k code len off r =
     (length (fst r) \<le> k \<and> snd r = off + of_nat (4 * length (fst r)) \<and>
      unat off + 4 * length (fst r) \<le> unat len \<and>
      (\<forall>j < length (fst r). \<exists>d. dec_at code off j = Some d \<and> P d (fst r ! j)))"

lemma run_ok_Nil: "unat off \<le> unat len \<Longrightarrow> run_ok P k code len off ([], off)"
  by (simp add: run_ok_def)

lemma run_ok_Cons:
  assumes "run_ok P k code len (off + 4) (xs, e)" "tc_decode code off = Some d" "P d x"
    and "unat (off + 4) = unat off + 4"
  shows "run_ok P (Suc k) code len off (x # xs, e)"
  using assms
  by (auto simp: run_ok_def dec_at_next nth_Cons algebra_simps split: nat.split)

definition run_clear :: "targets \<Rightarrow> u32 \<Rightarrow> nat \<Rightarrow> bool" where
  "run_clear t off n = (\<forall>j < n. \<not> targets_has t (off + of_nat (4 * j)))"

lemma run_clear_Suc:
  "run_clear t off (Suc n) \<longleftrightarrow> \<not> targets_has t off \<and> run_clear t (off + 4) n"
  by (simp add: run_clear_def All_less_Suc2 algebra_simps)

lemma save_run_ok:
  assumes "code_ok code len" "4 dvd unat off" "unat off \<le> unat len"
  shows "\<exists>r. save_run k code len t off = Some r \<and> run_ok is_save k code len off r \<and>
    run_clear t off (length (fst r))"
  using assms(2,3)
proof (induction k arbitrary: off)
  case 0
  then show ?case by (simp add: run_ok_Nil run_clear_def)
next
  case (Suc k)
  show ?case
  proof (cases "\<not> off + 4 \<le> len \<or> targets_has t off")
    case True
    with Suc.prems show ?thesis by (auto simp: run_ok_Nil run_clear_def)
  next
    case False
    then have room: "unat off + 4 \<le> unat len" using add_le_len [OF assms(1) Suc.prems(2), of 4] by simp
    obtain w where d: "tc_decode code off = Some (tc_dec w off)"
      using tc_decode_some [OF assms(1) room] by blast
    have off4: "unat (off + 4) = unat off + 4"
      using unat_add_off [of off 4] Suc.prems(2) code_ok_le [OF assms(1)] by simp
    obtain r where r: "save_run k code len t (off + 4) = Some r"
      "run_ok is_save k code len (off + 4) r" "run_clear t (off + 4) (length (fst r))"
      using Suc.IH [of "off + 4"] off4 room Suc.prems(1) by auto
    show ?thesis
    proof (cases "dop (tc_dec w off) \<noteq> RISCV_OP_SW \<or> drs1 (tc_dec w off) \<noteq> 2 \<or> rank_of (drs2 (tc_dec w off)) < 0")
      case True
      with False d Suc.prems show ?thesis by (auto simp: run_ok_Nil run_clear_def)
    next
      case ok: False
      then have "is_save (tc_dec w off) (drs2 (tc_dec w off), dimm (tc_dec w off))"
        by (simp add: is_save_def)
      from run_ok_Cons [where P = is_save, OF _ d this off4] ok r False d show ?thesis
        by (cases r) (auto simp: run_clear_Suc not_less)
    qed
  qed
qed

lemma restore_run_ok:
  assumes "code_ok code len" "4 dvd unat off" "unat off \<le> unat len"
  shows "\<exists>r. restore_run k code len t start off = Some r \<and> run_ok is_restore k code len off r \<and>
    (\<forall>j < length (fst r). off + of_nat (4 * j) \<noteq> start \<longrightarrow> \<not> targets_has t (off + of_nat (4 * j)))"
  using assms(2,3)
proof (induction k arbitrary: off)
  case 0
  then show ?case by (simp add: run_ok_Nil)
next
  case (Suc k)
  show ?case
  proof (cases "\<not> off + 4 \<le> len \<or> off \<noteq> start \<and> targets_has t off")
    case True
    with Suc.prems show ?thesis by (auto simp: run_ok_Nil)
  next
    case False
    then have room: "unat off + 4 \<le> unat len" using add_le_len [OF assms(1) Suc.prems(2), of 4] by simp
    obtain w where d: "tc_decode code off = Some (tc_dec w off)"
      using tc_decode_some [OF assms(1) room] by blast
    have off4: "unat (off + 4) = unat off + 4"
      using unat_add_off [of off 4] Suc.prems(2) code_ok_le [OF assms(1)] by simp
    obtain r where r: "restore_run k code len t start (off + 4) = Some r"
      "run_ok is_restore k code len (off + 4) r"
      "\<forall>j < length (fst r). off + 4 + of_nat (4 * j) \<noteq> start \<longrightarrow> \<not> targets_has t (off + 4 + of_nat (4 * j))"
      using Suc.IH [of "off + 4"] off4 room Suc.prems(1) by auto
    show ?thesis
    proof (cases "dop (tc_dec w off) \<noteq> RISCV_OP_LW \<or> drs1 (tc_dec w off) \<noteq> 2 \<or> rank_of (drd (tc_dec w off)) < 0")
      case True
      with False d Suc.prems show ?thesis by (auto simp: run_ok_Nil)
    next
      case ok: False
      then have "is_restore (tc_dec w off) (drd (tc_dec w off), dimm (tc_dec w off))"
        by (simp add: is_restore_def)
      from run_ok_Cons [where P = is_restore, OF _ d this off4] ok r False d show ?thesis
        by (cases r) (auto simp: All_less_Suc2 not_less algebra_simps)
    qed
  qed
qed

text \<open>A single instruction decodes to one of the plain ops.\<close>

lemma tc_load_op_le: "tc_load_op f3 \<le> RISCV_OP_ILLEGAL"
  and tc_store_op_le: "tc_store_op f3 \<le> RISCV_OP_ILLEGAL"
  and tc_branch_op_le: "tc_branch_op f3 \<le> RISCV_OP_ILLEGAL"
  by (simp_all add: tc_load_op_def tc_store_op_def tc_branch_op_def)

lemma tc_switch_op: "fst (tc_switch w off) \<le> RISCV_OP_ILLEGAL \<or> fst (tc_switch w off) = RISCV_OP_MEMOP"
  using f3_cases [of w] tc_load_op_le [of "f3_of w"] tc_store_op_le [of "f3_of w"]
    tc_branch_op_le [of "f3_of w"]
  by (elim disjE) (simp_all add: tc_switch_def Let_def)

lemma tc_dec_op: "dop (tc_dec w off) \<le> RISCV_OP_ILLEGAL \<or> dop (tc_dec w off) = RISCV_OP_MEMOP"
  using tc_switch_op [of w off]
  by (auto simp: tc_dec_def tc_fold_x0_def split: prod.splits)

section \<open>Every unit is well formed\<close>

text \<open>The result of a fusion attempt: it returns, and a match is a well-formed unit.\<close>

definition try_ok :: "u32 \<Rightarrow> targets \<Rightarrow> u32 \<Rightarrow> (u32 \<times> tdec) option option \<Rightarrow> bool" where
  "try_ok len t off r = (case r of None \<Rightarrow> False | Some None \<Rightarrow> True | Some (Some u) \<Rightarrow> unit_ok len t off u)"

lemma try_ok_simps [simp]:
  "try_ok len t off (Some None)" "try_ok len t off (Some (Some u)) = unit_ok len t off u"
  "\<not> try_ok len t off None"
  by (simp_all add: try_ok_def)

lemma try_ok_some: "try_ok len t off m \<Longrightarrow> \<exists>r. m = Some r"
  by (cases m) auto

lemma try_ok_or_else:
  "try_ok len t off m \<Longrightarrow> try_ok len t off n \<Longrightarrow> try_ok len t off (or_else m n)"
  by (cases m) (auto simp: or_else_def split: option.split)

lemma op_words_le: "unat (op_words op) \<le> 2"
  by (simp add: op_words_def)

lemma run_clear_clear: "run_clear t (off + 4) n \<Longrightarrow> clear t off (4 * (1 + n))"
  unfolding clear_def
proof (intro allI impI)
  fix j assume rc: "run_clear t (off + 4) n" and j: "0 < j \<and> 4 * j < 4 * (1 + n)"
  then obtain i where i: "j = Suc i" "i < n" by (cases j) auto
  with rc have "\<not> targets_has t (off + 4 + of_nat (4 * i))" by (simp add: run_clear_def)
  then show "\<not> targets_has t (off + of_nat (4 * j))" by (simp add: i algebra_simps)
qed

lemma off_add:
  assumes ok: "code_ok code len" and room: "unat off + 4 \<le> unat len"
  shows "unat (k :: u32) \<le> 1000 \<Longrightarrow> unat (off + k) = unat off + unat k"
  using unat_add_off [of off k] code_ok_le [OF ok] room by simp

lemma le_len:
  assumes ok: "code_ok code len" and room: "unat off + 4 \<le> unat len"
  shows "unat (k :: u32) \<le> 1000 \<Longrightarrow> off + k \<le> len \<longleftrightarrow> unat off + unat k \<le> unat len"
  using off_add [OF ok room, of k] by (simp add: word_le_nat_alt)

lemma gt_len:
  assumes ok: "code_ok code len" and room: "unat off + 4 \<le> unat len"
  shows "unat (k :: u32) \<le> 1000 \<Longrightarrow> len < off + k \<longleftrightarrow> unat len < unat off + unat k"
  using off_add [OF ok room, of k] by (simp add: word_less_nat_alt)

lemma dec_here:
  assumes ok: "code_ok code len" and room: "unat off + 4 \<le> unat len"
  obtains w where "tc_word code off = Some w" "tc_decode code off = Some (tc_dec w off)"
  using tc_decode_some [OF ok room] by blast

lemma dec_4:
  assumes ok: "code_ok code len" and r8: "unat off + 8 \<le> unat len"
  obtains w where "tc_word code (off + 4) = Some w" "tc_decode code (off + 4) = Some (tc_dec w (off + 4))"
  using tc_decode_some [OF ok, of "off + 4"] off_add [OF ok, of off 4] r8 by auto

lemma dec_8:
  assumes ok: "code_ok code len" and r12: "unat off + 12 \<le> unat len"
  obtains w where "tc_word code (off + 8) = Some w" "tc_decode code (off + 8) = Some (tc_dec w (off + 8))"
  using tc_decode_some [OF ok, of "off + 8"] off_add [OF ok, of off 8] r12 by auto

lemma prologue_ok:
  assumes ok: "code_ok code len" and al: "4 dvd unat off" and room: "unat off + 4 \<le> unat len"
  shows "try_ok len t off (try_fuse_prologue code len off t)"
proof -
  note off_add = off_add [OF ok room] and dec_here = dec_here [OF ok room] and gt_len = gt_len [OF ok room]
    and le_len = le_len [OF ok room]
  obtain w where d: "tc_decode code off = Some (tc_dec w off)" using dec_here by blast
  have "4 dvd unat (off + 4)" "unat (off + 4) \<le> unat len" using off_add [of 4] al room by auto
  then obtain xs e where r: "save_run 13 code len t (off + 4) = Some (xs, e)"
    "run_ok is_save 13 code len (off + 4) (xs, e)" "run_clear t (off + 4) (length xs)"
    using save_run_ok [OF ok, of "off + 4" 13 t] by auto
  have len: "length xs \<le> 13" "unat off + 4 + 4 * length xs \<le> unat len"
    using r(2) off_add [of 4] by (auto simp: run_ok_def)
  have "unat (4 * (1 + of_nat (length xs)) :: u32) = 4 * (1 + length xs)"
    using len(1) by (simp add: unat_word_ariths unat_of_nat)
  then have "unit_ok len t off (4 * (1 + of_nat (length xs)), fused RISCV_OP_PROLOGUE i)" for i
    using len run_clear_clear [OF r(3)] by (simp add: unit_ok_def fused_def op_words_def)
  with d r(1) show ?thesis
    by (simp add: try_fuse_prologue_def Let_def split: option.split)
qed

lemma epilogue_clear:
  assumes "\<forall>j < n. off + of_nat (4 * j) \<noteq> off \<longrightarrow> \<not> targets_has t (off + of_nat (4 * j))"
    and "\<not> targets_has t (off + of_nat (4 * n))" "\<not> targets_has t (off + of_nat (4 * n) + 4)"
    and "n \<le> 13"
  shows "clear t off (4 * n + 8)"
  unfolding clear_def
proof (intro allI impI)
  fix j assume j: "0 < j \<and> 4 * j < 4 * n + 8"
  then consider "j < n" | "j = n" | "j = Suc n" by linarith
  then show "\<not> targets_has t (off + of_nat (4 * j))"
  proof cases
    case 1
    have "unat (of_nat (4 * j) :: u32) = 4 * j"
      using 1 assms(4) by (simp only: unat_of_nat) simp
    with j have "(of_nat (4 * j) :: u32) \<noteq> 0" by (metis unat_0 mult_eq_0_iff neq0_conv zero_neq_numeral)
    with assms(1) 1 show ?thesis by simp
  next
    case 2 with assms(2) show ?thesis by simp
  next
    case 3 with assms(3) show ?thesis by (simp add: algebra_simps)
  qed
qed

lemma epilogue_ok:
  assumes ok: "code_ok code len" and al: "4 dvd unat off" and room: "unat off + 4 \<le> unat len"
  shows "try_ok len t off (try_fuse_epilogue code len off t)"
proof -
  note off_add = off_add [OF ok room] and dec_here = dec_here [OF ok room] and gt_len = gt_len [OF ok room]
    and le_len = le_len [OF ok room]
  have "unat off \<le> unat len" using room by simp
  then obtain xs e where r: "restore_run 13 code len t off off = Some (xs, e)"
    "run_ok is_restore 13 code len off (xs, e)"
    "\<forall>j < length xs. off + of_nat (4 * j) \<noteq> off \<longrightarrow> \<not> targets_has t (off + of_nat (4 * j))"
    using restore_run_ok [OF ok al, of 13 t off] by auto
  have len: "length xs \<le> 13" "e = off + of_nat (4 * length xs)" "unat off + 4 * length xs \<le> unat len"
    using r(2) by (auto simp: run_ok_def)
  have n: "unat (of_nat (4 * length xs) :: u32) = 4 * length xs"
    using len(1) by (simp only: unat_of_nat) simp
  have e: "unat e = unat off + 4 * length xs"
    using off_add [of "of_nat (4 * length xs)"] n len(1,2) by simp
  show ?thesis
  proof (cases "xs = [] \<or> e + 8 > len \<or> targets_has t e \<or> targets_has t (e + 4)")
    case True
    with r(1) show ?thesis by (auto simp: try_fuse_epilogue_def)
  next
    case False
    have bnd: "unat e + 8 \<le> unat len" "unat (e + 4) = unat e + 4" "unat (e + 8) = unat e + 8"
      using False len(3) e code_ok_le [OF ok] unat_add_off [of e 8] unat_add_off [of e 4]
      by (auto simp: word_less_nat_alt not_less)
    obtain w1 w2 where d: "tc_decode code e = Some (tc_dec w1 e)"
      "tc_decode code (e + 4) = Some (tc_dec w2 (e + 4))"
      using tc_decode_some [OF ok, of e] tc_decode_some [OF ok, of "e + 4"] bnd by (metis add.assoc
          add_leD1 numeral_Bit0)
    have w: "unat (e + 8 - off) = 4 * length xs + 8"
      using bnd(3) e by (simp add: unat_sub word_le_nat_alt)
    have "unit_ok len t off (e + 8 - off, fused RISCV_OP_EPILOGUE i)" for i
      using w bnd(1) e len(1) False epilogue_clear [OF r(3)] len(2)
      by (simp add: unit_ok_def fused_def op_words_def)
    with d r(1) False show ?thesis
      by (simp add: try_fuse_epilogue_def Let_def split: option.split)
  qed
qed

lemma unit_8:
  "unat off + 8 \<le> unat len \<Longrightarrow> \<not> targets_has t (off + 4) \<Longrightarrow> unit_ok len t off (8, d)"
  using op_words_le [of "dop d"] by (simp add: unit_ok_def clear_8)

lemma la_ok:
  assumes ok: "code_ok code len" and room: "unat off + 4 \<le> unat len"
  shows "try_ok len t off (try_fuse_la code len off t)"
proof (cases "off + 8 > len \<or> targets_has t (off + 4)")
  case True
  then show ?thesis by (simp add: try_fuse_la_def)
next
  case False
  then have r8: "unat off + 8 \<le> unat len" using gt_len [OF ok room, of 8] by simp
  obtain w1 where "tc_decode code off = Some (tc_dec w1 off)" using dec_here [OF ok room] by blast
  moreover obtain w2 where "tc_decode code (off + 4) = Some (tc_dec w2 (off + 4))"
    using dec_4 [OF ok r8] by blast
  ultimately show ?thesis
    using False unit_8 [OF r8] by (simp add: try_fuse_la_def Let_def)
qed

lemma pair_ok:
  assumes ok: "code_ok code len" and room: "unat off + 4 \<le> unat len"
  shows "try_ok len t off (try_fuse_pair code len off t)"
proof (cases "off + 8 > len \<or> targets_has t (off + 4)")
  case True
  then show ?thesis by (simp add: try_fuse_pair_def)
next
  case False
  then have r8: "unat off + 8 \<le> unat len" using gt_len [OF ok room, of 8] by simp
  obtain w1 where d1: "tc_decode code off = Some (tc_dec w1 off)" using dec_here [OF ok room] by blast
  obtain w2 where d2: "tc_decode code (off + 4) = Some (tc_dec w2 (off + 4))"
    using dec_4 [OF ok r8] by blast
  have u12: "unit_ok len t off (12, d\<lparr>dop := RISCV_OP_VCALL\<rparr>) \<and>
      (\<exists>w. tc_decode code (off + 8) = Some (tc_dec w (off + 8)))"
    if "off + 12 \<le> len" "\<not> targets_has t (off + 8)" for d
    using that le_len [OF ok room, of 12] clear_12 [of t off] False dec_8 [OF ok]
    by (simp add: unit_ok_def op_words_def) blast
  have three: "try_ok len t off (tc_decode code (off + 8) \<bind>
      (\<lambda>c. Some (Some (if is_vcall d c then (12, d\<lparr>dop := RISCV_OP_VCALL\<rparr>) else (8, d)))))"
    if "off + 12 \<le> len" "\<not> targets_has t (off + 8)" for d
    using u12 [OF that, of d] unit_8 [OF r8, of t d] False by auto
  show ?thesis
    using False d1 d2 unit_8 [OF r8] three
    by (simp add: try_fuse_pair_def split: option.split)
qed

lemma tc_step_ok:
  assumes ok: "code_ok code len" and al: "4 dvd unat off" and room: "unat off + 4 \<le> unat len"
  shows "\<exists>r. tc_step code len off t = Some r \<and> unit_ok len t off r"
proof -
  let ?m = "or_else (try_fuse_prologue code len off t)
    (or_else (try_fuse_epilogue code len off t)
    (or_else (try_fuse_la code len off t) (try_fuse_pair code len off t)))"
  have m: "try_ok len t off ?m"
    by (intro try_ok_or_else prologue_ok epilogue_ok la_ok pair_ok assms)
  have bz: "dop (tc_dec w off) \<noteq> RISCV_OP_LW_BZ \<and> dop (tc_dec w off) \<noteq> RISCV_OP_LBU_BZ" for w
    using tc_dec_op [of w off] by auto
  obtain w where "tc_decode code off = Some (tc_dec w off)" using dec_here [OF ok room] by blast
  moreover have "unit_ok len t off (4, lone_auipc off (tc_dec w off))"
    using room bz [of w] clear_4 [of t off]
    by (auto simp: unit_ok_def op_words_def lone_auipc_def Let_def)
  moreover obtain r where r: "?m = Some r" using try_ok_some [OF m] by blast
  ultimately show ?thesis
    using m unfolding r by (cases r) (auto simp: tc_step_def r)
qed

section \<open>The two passes\<close>

type_synonym tunit = "u32 \<times> u32 \<times> tdec"

text \<open>The units from \<open>off\<close> to the end of the code, as the passes visit them.\<close>

inductive units :: "u8 list \<Rightarrow> u32 \<Rightarrow> targets \<Rightarrow> u32 \<Rightarrow> tunit list \<Rightarrow> bool" for code len t where
  units_end: "units code len t len []"
| units_step: "unat off < unat len \<Longrightarrow> tc_step code len off t = Some (wd, d) \<Longrightarrow>
    unit_ok len t off (wd, d) \<Longrightarrow> units code len t (off + wd) us \<Longrightarrow>
    units code len t off ((off, wd, d) # us)"

text \<open>What the passes do with the units: map updates, words, their number.\<close>

fun place :: "tunit list \<Rightarrow> u32 \<Rightarrow> u32 list \<Rightarrow> u32 list" where
  "place [] at m = m"
| "place ((off, wd, d) # us) at m = place us (at + op_words (dop d)) (m[unat (drop_bit 1 off) := at])"

fun words_of :: "tunit list \<Rightarrow> nat" where
  "words_of [] = 0"
| "words_of ((off, wd, d) # us) = unat (op_words (dop d)) + words_of us"

fun emit_units :: "tunit list \<Rightarrow> u32 list \<Rightarrow> u32 \<Rightarrow> u32 list \<Rightarrow> u32 list" where
  "emit_units [] m len ops = ops"
| "emit_units ((off, wd, d) # us) m len ops =
     emit_units us m len (ops @ tc_emit (of_nat (length ops)) d m len)"

lemma unit_end:
  assumes "code_ok code len" "unat off < unat len" "unit_ok len t off (wd, d)"
  shows "unat (off + wd) = unat off + unat wd" "unat (off + wd) \<le> unat len"
    "4 dvd unat off \<Longrightarrow> 4 dvd unat (off + wd)"
proof -
  show e: "unat (off + wd) = unat off + unat wd"
    using assms code_ok_le [OF assms(1)] unat_add_off [of off wd] by (simp add: unit_ok_def)
  show "unat (off + wd) \<le> unat len" "4 dvd unat off \<Longrightarrow> 4 dvd unat (off + wd)"
    using assms(3) e by (simp_all add: unit_ok_def)
qed

lemma units_exist:
  assumes "code_ok code len" "4 dvd unat off" "unat off \<le> unat len"
  shows "\<exists>us. units code len t off us"
  using assms(2,3)
proof (induction "unat len - unat off" arbitrary: off rule: less_induct)
  case less
  show ?case
  proof (cases "unat off < unat len")
    case False
    with less.prems(2) have "off = len" by (metis le_antisym not_less word_unat_eq_iff)
    then show ?thesis by (auto intro: units_end)
  next
    case True
    from tc_step_ok [OF assms(1) less.prems(1) aligned_room [OF assms(1) less.prems(1) True]]
    obtain wd d where s: "tc_step code len off t = Some (wd, d)" "unit_ok len t off (wd, d)" by force
    note e = unit_end [OF assms(1) True s(2)]
    have "unat len - unat (off + wd) < unat len - unat off"
      using s(2) e(1,2) True unfolding unit_ok_def by (simp only: fst_conv) linarith
    from less.hyps [OF this e(3) [OF less.prems(1)] e(2)] show ?thesis
      using s True by (auto intro: units_step)
  qed
qed

lemma pass_here_some:
  assumes "code_ok code len" "4 dvd unat off" "unat off \<le> unat len"
  shows "pass_here code len off = Some (off \<noteq> len)"
proof (cases "off = len")
  case True
  have "unat (len + 2) = unat len + 2"
    using unat_add_off [of len 2] code_ok_le [OF assms(1)] by simp
  with True show ?thesis by (simp add: pass_here_def word_le_nat_alt)
next
  case False
  then have lt: "unat off < unat len" using assms(3) by (metis nat_less_le word_unat_eq_iff)
  note room = aligned_room [OF assms(1,2) lt]
  have len: "length code = unat len" using assms(1) by (simp add: code_ok_def)
  have off: "unat (off + k) = unat off + unat k" if "unat k \<le> 4" for k
    using that unat_add_off [of off k] lt code_ok_le [OF assms(1)] by simp
  have "code_at code off = Some (code ! unat off)" "code_at code (off + 1) = Some (code ! unat (off + 1))"
    using room off [of 1] len by (simp_all add: code_at_def)
  moreover have "off + 2 \<le> len" "off + 4 \<le> len"
    using room off [of 2] off [of 4] by (simp_all add: word_le_nat_alt)
  ultimately show ?thesis using False by (simp add: pass_here_def not_less)
qed

lemma build_loop_units:
  assumes "code_ok code len" "units code len t off us" "4 dvd unat off"
  shows "build_loop code len t off at m = Some (place us at m, at + of_nat (words_of us))"
  using assms(2,3)
proof (induction arbitrary: at m)
  case units_end
  then show ?case
    using pass_here_some [OF assms(1)] by (subst build_loop.simps) simp
next
  case (units_step off wd d us)
  note e = unit_end [OF assms(1) units_step.hyps(1,3)]
  have "off \<noteq> len" using units_step.hyps(1) by blast
  then show ?case
    using units_step pass_here_some [OF assms(1) units_step.prems] e(3)
    by (subst build_loop.simps) simp
qed

lemma length_tc_emit: "length (tc_emit at d m len) = unat (op_words (dop d))"
  by (simp add: tc_emit_def op_words_def Let_def)

lemma emit_loop_units:
  assumes "code_ok code len" "units code len t off us" "4 dvd unat off"
  shows "emit_loop code len t m off ops = Some (emit_units us m len ops)"
  using assms(2,3)
proof (induction arbitrary: ops)
  case units_end
  then show ?case
    using pass_here_some [OF assms(1)] by (subst emit_loop.simps) simp
next
  case (units_step off wd d us)
  note e = unit_end [OF assms(1) units_step.hyps(1,3)]
  have "off \<noteq> len" using units_step.hyps(1) by blast
  then show ?case
    using units_step pass_here_some [OF assms(1) units_step.prems] e(3)
    by (subst emit_loop.simps) simp
qed

lemma length_emit_units: "length (emit_units us m len ops) = length ops + words_of us"
  by (induction us m len ops rule: emit_units.induct) (simp_all add: length_tc_emit)

lemma words_le:
  assumes "code_ok code len" "units code len t off us"
  shows "4 * words_of us + unat off \<le> unat len"
  using assms(2)
proof induction
  case (units_step off wd d us)
  then show ?case using unit_end(1) [OF assms(1) units_step.hyps(1,3)] by (simp add: unit_ok_def)
qed simp

section \<open>Where a unit is placed\<close>

text \<open>The op position of the unit that starts at \<open>o\<close>, the first unit being at \<open>a\<close>.\<close>

fun upos :: "nat \<Rightarrow> tunit list \<Rightarrow> u32 \<Rightarrow> nat option" where
  "upos a [] x = None"
| "upos a ((off, wd, d) # us) x =
     (if off = x then Some a else upos (a + unat (op_words (dop d))) us x)"

lemma upos_ge: "upos a us x = Some b \<Longrightarrow> a \<le> b"
  by (induction a us x rule: upos.induct) (auto split: if_splits)

lemma upos_le: "upos a us x = Some b \<Longrightarrow> b \<le> a + words_of us"
  by (induction a us x rule: upos.induct) (auto split: if_splits)

lemma upos_mem: "upos a us x \<noteq> None \<longleftrightarrow> x \<in> fst ` set us"
  by (induction a us x rule: upos.induct) auto

lemma units_bounds:
  assumes "code_ok code len" "units code len t off us" "(x, wd, d) \<in> set us"
  shows "unat off \<le> unat x" "unat x < unat len"
  using assms(2,3)
proof (induction)
  case (units_step off wd' d' us)
  note e = unit_end [OF assms(1) units_step.hyps(1,3)]
  { case 1 then show ?case using units_step e by (auto dest: add_leD1) }
  { case 2 then show ?case using units_step by auto }
qed simp_all

lemma units_aligned:
  assumes "code_ok code len" "units code len t off us" "4 dvd unat off" "(x, wd, d) \<in> set us"
  shows "4 dvd unat x"
  using assms(2-4)
proof (induction)
  case (units_step off wd' d' us)
  then show ?case using unit_end(3) [OF assms(1) units_step.hyps(1,3)] by auto
qed simp

lemma units_member:
  assumes "units code len t off us" "(x, wd, d) \<in> set us"
  shows "tc_step code len x t = Some (wd, d) \<and> unit_ok len t x (wd, d)"
  using assms by induction auto

lemma half_eq:
  assumes "4 dvd unat x" "4 dvd unat y" "drop_bit 1 x = drop_bit 1 (y :: u32)"
  shows "x = y"
proof -
  have "unat x div 2 = unat y div 2"
    using arg_cong [OF assms(3), of unat] by (simp add: drop_bit_eq_div unat_div)
  moreover have "2 dvd unat x" "2 dvd unat y"
    using assms(1,2) by (meson dvd_trans even_numeral dvd_triv_left)+
  ultimately have "unat x = unat y" by (metis dvd_div_mult_self)
  then show ?thesis by (simp add: word_unat_eq_iff)
qed

lemma half_lt: "unat (x :: u32) < unat len \<Longrightarrow> unat (drop_bit 1 x) < unat (drop_bit 1 (len :: u32)) + 2"
  by (simp add: drop_bit_eq_div unat_div)

lemma length_place: "length (place us at m) = length m"
  by (induction us at m rule: place.induct) simp_all

text \<open>The finished map at an aligned offset: the position of the unit there, or what was there.\<close>

lemma place_nth:
  assumes "code_ok code len" "units code len t off us" "4 dvd unat off"
    and "4 dvd unat x" "unat x < unat len" "length m = unat (drop_bit 1 len) + 2"
  shows "place us (of_nat a) m ! unat (drop_bit 1 x) =
    (case upos a us x of Some b \<Rightarrow> of_nat b | None \<Rightarrow> m ! unat (drop_bit 1 x))"
  using assms(2,3,6)
proof (induction arbitrary: a m)
  case (units_step off wd d us)
  note e = unit_end [OF assms(1) units_step.hyps(1,3)]
  have IH: "place us (of_nat (a + unat (op_words (dop d)))) m' ! unat (drop_bit 1 x) =
    (case upos (a + unat (op_words (dop d))) us x of Some b \<Rightarrow> of_nat b | None \<Rightarrow> m' ! unat (drop_bit 1 x))"
    if "length m' = unat (drop_bit 1 len) + 2" for m'
    by (rule units_step.IH) (use e(3) units_step.prems that in auto)
  show ?case
  proof (cases "off = x")
    case True
    have "upos (a + unat (op_words (dop d))) us x = None"
    proof (rule ccontr)
      assume "upos (a + unat (op_words (dop d))) us x \<noteq> None"
      then have "x \<in> fst ` set us" by (simp only: upos_mem)
      then obtain wd' d' where "(x, wd', d') \<in> set us" by auto
      from units_bounds(1) [OF assms(1) units_step.hyps(4) this]
      show False using e(1) True units_step.hyps(3) by (simp add: unit_ok_def)
    qed
    with IH [of "m[unat (drop_bit 1 off) := of_nat a]"] True half_lt [OF assms(5)] units_step.prems
    show ?thesis by simp
  next
    case False
    then have "drop_bit 1 off \<noteq> drop_bit 1 x" using half_eq [OF units_step.prems(1) assms(4)] by blast
    then have "unat (drop_bit 1 off) \<noteq> unat (drop_bit 1 x)" by (simp add: word_unat_eq_iff)
    with IH [of "m[unat (drop_bit 1 off) := of_nat a]"] False units_step.prems
    show ?thesis by (simp split: option.split)
  qed
qed simp

text \<open>Positions grow no faster than offsets: at most one word per four bytes of code.\<close>

lemma upos_lipschitz:
  assumes "code_ok code len" "units code len t off us"
    and "upos a us x = Some b" "upos a us y = Some c" "unat x \<le> unat y"
  shows "b \<le> c" "4 * (c - b) \<le> unat y - unat x"
proof -
  have start: "4 * c + unat off \<le> 4 * a + unat y"
    if "units code len t off us" "upos a us y = Some c" for off us a c
    using that
  proof (induction arbitrary: a)
    case (units_step off wd d us)
    note e = unit_end [OF assms(1) units_step.hyps(1,3)]
    from units_step show ?case using e(1) by (fastforce simp: unit_ok_def split: if_splits)
  qed simp
  have "b \<le> c \<and> 4 * (c - b) \<le> unat y - unat x"
    using assms(2-4)
  proof (induction arbitrary: a)
    case (units_step off wd d us)
    note e = unit_end [OF assms(1) units_step.hyps(1,3)]
    show ?case
    proof (cases "off = x")
      case True
      have "4 * c + unat off \<le> 4 * a + unat y"
        by (rule start [OF units.units_step [OF units_step.hyps(1-4)] units_step.prems(2)])
      then show ?thesis using True units_step.prems upos_ge [OF units_step.prems(2)] by auto
    next
      case False
      have "off \<noteq> y"
      proof
        assume "off = y"
        from units_step.prems(1) False obtain wd' d' where "(x, wd', d') \<in> set us"
          using upos_mem [of "a + unat (op_words (dop d))" us x] by auto
        from units_bounds(1) [OF assms(1) units_step.hyps(4) this] \<open>off = y\<close> assms(5) e(1)
        show False using units_step.hyps(3) by (simp add: unit_ok_def)
      qed
      with False units_step show ?thesis by simp
    qed
  qed simp
  then show "b \<le> c" "4 * (c - b) \<le> unat y - unat x" by blast+
qed

section \<open>Where the words of a unit are\<close>

lemma emit_units_prefix:
  "i < length ops \<Longrightarrow> emit_units us m len ops ! i = ops ! i"
  by (induction us m len ops rule: emit_units.induct) (simp_all add: nth_append)

lemma emit_units_nth:
  assumes "units code len t off us" "upos (length ops) us x = Some b" "(x, wd, d) \<in> set us"
    and "code_ok code len" "k < unat (op_words (dop d))"
  shows "emit_units us m len ops ! (b + k) = tc_emit (of_nat b) d m len ! k"
  using assms(1,2,3)
proof (induction arbitrary: ops)
  case (units_step off wd' d' us)
  note e = unit_end [OF assms(4) units_step.hyps(1,3)]
  show ?case
  proof (cases "off = x")
    case True
    have "(x, wd, d) \<notin> set us"
      using units_bounds(1) [OF assms(4) units_step.hyps(4)] e(1) True units_step.hyps(3)
      by (fastforce simp: unit_ok_def)
    with units_step.prems True have "d' = d" "b = length ops" by auto
    with assms(5) show ?thesis
      by (simp add: emit_units_prefix length_tc_emit nth_append)
  next
    case False
    with units_step show ?thesis by (simp add: length_tc_emit)
  qed
qed simp

section \<open>The target set holds every target\<close>

definition targets_wf :: "targets \<Rightarrow> bool" where
  "targets_wf t = (unat (tslots t) \<le> 8 * length (tbits t))"

lemma targets_new_wf: "targets_wf (targets_new len)"
proof -
  have "unat len div 4 < 1073741824" by (rule less_mult_imp_div_less) simp
  then have "unat (len div 4) \<le> 1073741823" by (simp add: unat_div)
  then have "unat (len div 4 + 7) = unat (len div 4) + 7" by (simp add: unat_word_ariths)
  then show ?thesis by (simp add: targets_wf_def targets_new_def Let_def unat_div)
qed

lemma targets_mark_wf: "targets_wf t \<Longrightarrow> targets_wf (targets_mark t a)"
  by (simp add: targets_wf_def targets_mark_def Let_def)

lemma tslots_mark [simp]: "tslots (targets_mark t a) = tslots t"
  by (simp add: targets_mark_def Let_def)

lemma slot_eq:
  fixes i j :: u32
  assumes "unat (i div 8) = unat (j div 8)" "unat (i mod 8) = unat (j mod 8)"
  shows "i = j"
proof -
  have "unat i = unat j"
    using assms by (simp add: unat_div unat_mod) (metis div_mult_mod_eq)
  then show ?thesis by (simp add: word_unat_eq_iff)
qed

lemma targets_has_mark:
  assumes "targets_wf t"
  shows "targets_has (targets_mark t a) b \<longleftrightarrow>
    targets_has t b \<or> a div 4 = b div 4 \<and> a div 4 < tslots t"
proof -
  have inb: "unat (i div 8) < length (tbits t)" if "i < tslots t" for i
    using that assms by (simp add: targets_wf_def word_less_nat_alt unat_div)
  define i j where ij: "i = a div 4" "j = b div 4"
  have "unat (i mod 8) < 8" by (simp add: unat_mod)
  then have bit: "bit (x OR push_bit (unat (i mod 8)) 1) (unat (j mod 8)) \<longleftrightarrow>
      bit (x :: u8) (unat (j mod 8)) \<or> unat (i mod 8) = unat (j mod 8)" for x
    by (auto simp: bit_simps bit_1_iff)
  have has: "targets_has u b \<longleftrightarrow> j < tslots u \<and> bit (tbits u ! unat (j div 8)) (unat (j mod 8))" for u
    by (simp only: targets_has_def Let_def bit_iff_and_push_bit_not_eq_0 ij)
  have mark: "targets_mark t a = (if i < tslots t
      then t\<lparr>tbits := (tbits t)[unat (i div 8) := tbits t ! unat (i div 8) OR push_bit (unat (i mod 8)) 1]\<rparr>
      else t)"
    by (simp only: targets_mark_def Let_def ij)
  have nth: "tbits (targets_mark t a) ! unat (j div 8) =
      (if i < tslots t \<and> unat (i div 8) = unat (j div 8)
       then tbits t ! unat (j div 8) OR push_bit (unat (i mod 8)) 1 else tbits t ! unat (j div 8))"
    if "j < tslots t"
    using inb [OF that] unfolding mark by (auto simp: nth_list_update)
  show ?thesis
  proof (cases "j < tslots t")
    case True
    have "i = j \<longleftrightarrow> unat (i div 8) = unat (j div 8) \<and> unat (i mod 8) = unat (j mod 8)"
      using slot_eq by blast
    then show ?thesis
      unfolding has nth [OF True] tslots_mark ij [symmetric] using True bit by auto
  next
    case False
    then show ?thesis unfolding has tslots_mark ij [symmetric] by auto
  qed
qed

lemma foldl_mark_wf: "targets_wf t \<Longrightarrow> targets_wf (foldl targets_mark t as)"
  by (induction as arbitrary: t) (simp_all add: targets_mark_wf)

lemma tslots_foldl [simp]: "tslots (foldl targets_mark t as) = tslots t"
  by (induction as arbitrary: t) simp_all

lemma foldl_mark_has:
  "targets_wf t \<Longrightarrow> targets_has (foldl targets_mark t as) b \<longleftrightarrow>
     targets_has t b \<or> (\<exists>a \<in> set as. a div 4 = b div 4 \<and> a div 4 < tslots t)"
  by (induction as arbitrary: t) (auto simp: targets_mark_wf targets_has_mark)

lemma collect_loop_ok:
  assumes "code_ok code len" "4 dvd unat off" "unat off \<le> unat len" "targets_wf t"
  shows "\<exists>t'. collect_loop code len off t = Some t' \<and> targets_wf t' \<and> tslots t' = tslots t \<and>
    (\<forall>b. targets_has t b \<longrightarrow> targets_has t' b) \<and>
    (\<forall>x d. 4 dvd unat x \<and> unat off \<le> unat x \<and> unat x < unat len \<and> tc_decode code x = Some d \<and>
       is_direct d \<and> dtarget d div 4 < tslots t \<longrightarrow> targets_has t' (dtarget d))"
  using assms(2-4)
proof (induction "unat len - unat off" arbitrary: off t rule: less_induct)
  case less
  have le: "off + 4 \<le> len \<longleftrightarrow> unat off + 4 \<le> unat len"
    using add_le_len [OF assms(1) less.prems(2), of 4] by simp
  show ?case
  proof (cases "unat off < unat len")
    case False
    then have "\<not> off + 4 \<le> len" using le by simp
    with False less.prems(3) show ?thesis by (subst collect_loop.simps) auto
  next
    case True
    note room = aligned_room [OF assms(1) less.prems(1) True]
    obtain w where d: "tc_decode code off = Some (tc_dec w off)"
      using tc_decode_some [OF assms(1) room] by blast
    have off4: "unat (off + 4) = unat off + 4"
      using unat_add_off [of off 4] less.prems(2) code_ok_le [OF assms(1)] by simp
    obtain t1 where t1: "t1 = (if is_direct (tc_dec w off) then targets_mark t (dtarget (tc_dec w off)) else t)"
      by simp
    have sl: "tslots t1 = tslots t" "targets_wf t1"
      using less.prems(3) by (simp_all add: t1 targets_mark_wf)
    have "unat len - unat (off + 4) < unat len - unat off" using off4 True by simp
    from less.hyps [OF this, of t1] obtain t' where t':
      "collect_loop code len (off + 4) t1 = Some t'" "targets_wf t'" "tslots t' = tslots t1"
      "\<forall>b. targets_has t1 b \<longrightarrow> targets_has t' b"
      "\<forall>x d. 4 dvd unat x \<and> unat (off + 4) \<le> unat x \<and> unat x < unat len \<and> tc_decode code x = Some d \<and>
         is_direct d \<and> dtarget d div 4 < tslots t1 \<longrightarrow> targets_has t' (dtarget d)"
      using off4 room less.prems(1,2) sl(2) by auto
    have later: "unat (off + 4) \<le> unat x"
      if "4 dvd unat x" "unat off \<le> unat x" "x \<noteq> off" for x
    proof -
      have "unat off < unat x" using that by (metis nat_less_le word_unat_eq_iff)
      moreover have "4 dvd unat x - unat off" using that(1) less.prems(1) by (rule dvd_diff_nat)
      ultimately show ?thesis using off4 by (auto dest: dvd_imp_le)
    qed
    have here: "targets_has t1 (dtarget (tc_dec w off))"
      if "is_direct (tc_dec w off)" "dtarget (tc_dec w off) div 4 < tslots t"
      using that targets_has_mark [OF less.prems(3)] by (simp add: t1)
    have old: "targets_has t b \<Longrightarrow> targets_has t1 b" for b
      using targets_has_mark [OF less.prems(3)] by (simp add: t1)
    show ?thesis
    proof (intro exI [of _ t'] conjI allI impI)
      show "collect_loop code len off t = Some t'"
        using le room d t'(1) by (subst collect_loop.simps) (simp add: t1)
      show "targets_wf t'" "tslots t' = tslots t" using t'(2,3) sl(1) by simp_all
      show "targets_has t b \<Longrightarrow> targets_has t' b" for b using old t'(4) by blast
      fix x d'
      assume x: "4 dvd unat x \<and> unat off \<le> unat x \<and> unat x < unat len \<and> tc_decode code x = Some d' \<and>
        is_direct d' \<and> dtarget d' div 4 < tslots t"
      show "targets_has t' (dtarget d')"
      proof (cases "x = off")
        case True
        with x d here t'(4) show ?thesis by auto
      next
        case False
        with x later t'(5) sl show ?thesis by metis
      qed
    qed
  qed
qed

definition ext_addrs :: "u32 list option \<Rightarrow> u32 list" where
  "ext_addrs ext = (case ext of None \<Rightarrow> [] | Some as \<Rightarrow> as)"

lemma collect_targets_ok:
  assumes "code_ok code len"
  obtains t where "collect_targets code len ext = Some t" "tslots t = len div 4"
    "\<And>x d. 4 dvd unat x \<Longrightarrow> unat x < unat len \<Longrightarrow> tc_decode code x = Some d \<Longrightarrow> is_direct d \<Longrightarrow>
       dtarget d div 4 < len div 4 \<Longrightarrow> targets_has t (dtarget d)"
    "\<And>a. a \<in> set (ext_addrs ext) \<Longrightarrow> a div 4 < len div 4 \<Longrightarrow> targets_has t a"
proof -
  have slots: "tslots (targets_new len) = len div 4" by (simp add: targets_new_def Let_def)
  obtain t' where t': "collect_loop code len 0 (targets_new len) = Some t'" "targets_wf t'"
    "tslots t' = len div 4"
    "\<forall>x d. 4 dvd unat x \<and> unat x < unat len \<and> tc_decode code x = Some d \<and>
       is_direct d \<and> dtarget d div 4 < len div 4 \<longrightarrow> targets_has t' (dtarget d)"
    using collect_loop_ok [OF assms, of 0 "targets_new len"] targets_new_wf slots by auto
  have eq: "collect_targets code len ext = Some (foldl targets_mark t' (ext_addrs ext))"
    using t'(1) by (simp add: collect_targets_def ext_addrs_def split: option.split)
  show ?thesis
    by (rule that [OF eq]) (use t' foldl_mark_has [OF t'(2)] in auto)
qed

section \<open>The finished program\<close>

definition half :: "u32 \<Rightarrow> nat" where
  "half x = unat (drop_bit 1 x)"

text \<open>Everything the two passes compute, in terms of the units.\<close>

lemma transcode_units:
  assumes "code_ok code len" "collect_targets code len ext = Some t"
  obtains us m where "units code len t 0 us"
    "transcode_map_ex code len ext = Some (m, of_nat (words_of us))"
    "transcode_ex code len ext = Some \<lparr>tops = emit_units us m len [],
       tn_ops = of_nat (words_of us), tcode_len = of_nat (words_of us) * 4\<rparr>"
    "\<And>x. 4 dvd unat x \<Longrightarrow> unat x < unat len \<Longrightarrow>
       m ! half x = (case upos 0 us x of Some b \<Rightarrow> of_nat b | None \<Rightarrow> TC_SENTINEL)"
proof -
  obtain us where us: "units code len t 0 us" using units_exist [OF assms(1), of 0] by auto
  define blank where "blank = replicate (unat (drop_bit 1 len) + 2) TC_SENTINEL"
  let ?m = "place us 0 blank"
  have z: "4 dvd unat (0 :: u32)" by simp
  have bm: "build_map code len t = Some (?m, of_nat (words_of us))"
    using build_loop_units [OF assms(1) us z] by (simp add: build_map_def blank_def)
  have em: "emit_loop code len t ?m 0 [] = Some (emit_units us ?m len [])"
    by (rule emit_loop_units [OF assms(1) us z])
  have look: "?m ! half x = (case upos 0 us x of Some b \<Rightarrow> of_nat b | None \<Rightarrow> TC_SENTINEL)"
    if "4 dvd unat x" "unat x < unat len" for x
  proof -
    have len: "length blank = unat (drop_bit 1 len) + 2" by (simp add: blank_def)
    have "blank ! unat (drop_bit 1 x) = TC_SENTINEL"
      unfolding blank_def by (rule nth_replicate) (rule half_lt [OF that(2)])
    with place_nth [where m = blank and a = 0, OF assms(1) us z that len] show ?thesis
      by (cases "upos 0 us x") (simp_all add: half_def)
  qed
  show ?thesis
    by (rule that [OF us _ _ look]) (simp_all add: transcode_map_ex_def transcode_ex_def assms(2) bm em)
qed

lemma words_bound:
  assumes "code_ok code len" "units code len t 0 us" "b \<le> words_of us"
  shows "unat (of_nat b :: u32) = b" "of_nat b \<noteq> TC_SENTINEL" "4 * b \<le> unat len"
proof -
  show le: "4 * b \<le> unat len" using words_le [OF assms(1,2)] assms(3) by simp
  then have "b \<le> 536870912" using code_ok_le [OF assms(1)] by simp
  then show u: "unat (of_nat b :: u32) = b" by (simp add: unat_of_nat)
  show "of_nat b \<noteq> TC_SENTINEL"
    using \<open>b \<le> 536870912\<close> u by (auto simp: TC_SENTINEL_def dest: arg_cong [where f = unat])
qed

text \<open>Every aligned offset lies in a unit, and a target is where a unit starts.\<close>

lemma units_cover:
  assumes "code_ok code len" "units code len t off us" "unat off \<le> unat x" "unat x < unat len"
  shows "\<exists>(o', wd, d) \<in> set us. unat o' \<le> unat x \<and> unat x < unat o' + unat wd"
  using assms(2,3)
proof induction
  case units_end
  then show ?case using assms(4) by simp
next
  case (units_step off wd d us)
  show ?case
  proof (cases "unat x < unat off + unat wd")
    case True
    with units_step.prems show ?thesis by auto
  next
    case False
    then have "unat (off + wd) \<le> unat x"
      using unit_end(1) [OF assms(1) units_step.hyps(1,3)] by simp
    from units_step.IH [OF this] show ?thesis by auto
  qed
qed

lemma target_is_unit:
  assumes "code_ok code len" "units code len t 0 us" "4 dvd unat x" "unat x < unat len"
    and "targets_has t x"
  shows "\<exists>b. upos 0 us x = Some b \<and> b \<le> words_of us"
proof -
  obtain o' wd d where u: "(o', wd, d) \<in> set us" "unat o' \<le> unat x" "unat x < unat o' + unat wd"
    using units_cover [OF assms(1,2), of x] assms(4) by auto
  have "x = o'"
  proof (rule ccontr)
    assume ne: "x \<noteq> o'"
    have al: "4 dvd unat o'" using units_aligned [OF assms(1,2) _ u(1)] by simp
    then obtain j where j: "unat x - unat o' = 4 * j" using assms(3) by (meson dvdE dvd_diff_nat)
    have "unat o' \<noteq> unat x" using ne by (simp add: word_unat_eq_iff)
    with u(2) j have pos: "0 < j" "4 * j < unat wd" using u(3) by auto
    have "unat x = unat o' + 4 * j" using j u(2) by simp
    then have "x = of_nat (unat o' + 4 * j)" by (metis of_nat_unat ucast_id)
    then have "x = o' + of_nat (4 * j)" by simp
    moreover have "clear t o' (unat wd)"
      using units_member [OF assms(2) u(1)] by (simp add: unit_ok_def)
    ultimately show False using pos assms(5) by (simp add: clear_def)
  qed
  then have "x \<in> fst ` set us" using u(1) by force
  then have "upos 0 us x \<noteq> None" by (simp only: upos_mem)
  then show ?thesis using upos_le [of 0 us x] by auto
qed

section \<open>Displacements\<close>

lemma sext_of_int:
  assumes "0 < n" "n \<le> 32" "- (2 ^ (n - 1)) \<le> z" "z < 2 ^ (n - 1)"
  shows "sext (word_of_int z) n = word_of_int z"
proof -
  have "signed_take_bit (n - 1) (take_bit 32 z) = signed_take_bit (n - 1) z"
    using assms(1,2) by (simp add: signed_take_bit_take_bit) (use assms(1,2) in linarith)
  also have "\<dots> = z" using assms(3,4) by (simp add: signed_take_bit_int_eq_self)
  finally show ?thesis using assms(1,2) by (simp add: sext_word_of_int uint_word_of_int_eq)
qed

lemma sdrop4:
  assumes "- (2 ^ 29) \<le> z" "z < 2 ^ 29" "c < 4"
  shows "signed_drop_bit 2 (word_of_int (4 * z) OR c :: u32) = word_of_int z"
proof (rule bit_word_eqI)
  fix n assume n: "n < LENGTH(32)"
  have "signed_take_bit 29 z = z" using assms(1,2) by (simp add: signed_take_bit_int_eq_self)
  then have top: "bit z i \<longleftrightarrow> bit z 29" if "29 \<le> i" for i
    using that bit_signed_take_bit_iff [of 29 z i] by simp
  have four: "4 * z = push_bit 2 z" by (simp add: push_bit_eq_mult)
  have "unat c < 2 ^ 2" using assms(3) by (simp add: word_less_nat_alt)
  then have "take_bit 2 c = c"
    by (simp add: word_unat_eq_iff unsigned_take_bit_eq take_bit_nat_eq_self)
  then have low: "\<not> bit c i" if "2 \<le> i" for i using that bit_take_bit_iff [of 2 c i] by simp
  show "bit (signed_drop_bit 2 (word_of_int (4 * z) OR c :: u32)) n = bit (word_of_int z :: u32) n"
  proof (cases "n < 30")
    case True
    then show ?thesis using low [of "2 + n"] unfolding four bit_signed_drop_bit_iff
      by (simp add: bit_simps)
  next
    case False
    then show ?thesis using n low [of 31] top [of n] unfolding four bit_signed_drop_bit_iff
      by (simp add: bit_simps)
  qed
qed

lemma imm_range:
  "\<exists>k. imm_B w = word_of_int k \<and> -4096 \<le> k \<and> k < 4096"
  "\<exists>k. imm_J w = word_of_int k \<and> -1048576 \<le> k \<and> k < 1048576"
proof -
  have "\<exists>k. sext v (Suc n) = word_of_int k \<and> - (2 ^ n) \<le> k \<and> k < 2 ^ n" if "n < 32" for v n
    using that signed_take_bit_int_greater_eq_minus_exp [of n "uint v"]
      signed_take_bit_int_less_exp [of n "uint v"]
    by (intro exI [of _ "signed_take_bit n (uint v)"]) (simp add: sext_word_of_int)
  from this [of 12] this [of 20] show
    "\<exists>k. imm_B w = word_of_int k \<and> -4096 \<le> k \<and> k < 4096"
    "\<exists>k. imm_J w = word_of_int k \<and> -1048576 \<le> k \<and> k < 1048576"
    by (simp_all add: imm_B_def imm_J_def)
qed

text \<open>Inside the code, an offset plus a displacement does not wrap.\<close>

lemma no_wrap:
  fixes x :: u32
  assumes "uint x \<le> 2147483648" "uint (x + word_of_int k) \<le> 2147483648"
    "-1048576 \<le> k" "k \<le> 1048576"
  shows "uint (x + word_of_int k) = uint x + k"
proof -
  have "uint (x + word_of_int k) = (uint x + k) mod 4294967296"
    by (simp add: uint_word_ariths uint_word_of_int mod_add_right_eq)
  moreover have "(uint x + k) mod 4294967296 = uint x + k" if "0 \<le> uint x + k"
    using that assms by (intro mod_pos_pos_trivial) auto
  moreover have "(uint x + k) mod 4294967296 = uint x + k + 4294967296" if "uint x + k < 0"
  proof -
    have "0 \<le> uint x" by simp
    then have "(uint x + k + 4294967296) mod 4294967296 = uint x + k + 4294967296"
      using that assms(3) by (intro mod_pos_pos_trivial) linarith+
    then show ?thesis by simp
  qed
  moreover have "0 \<le> uint x" by simp
  ultimately show ?thesis using assms by (cases "0 \<le> uint x + k") auto
qed

section \<open>Direct jumps are never fused away\<close>

lemma try_fused_op:
  "try_fuse_prologue code len off t = Some (Some (wd, d)) \<Longrightarrow> RISCV_OP_PROLOGUE \<le> dop d"
  "try_fuse_epilogue code len off t = Some (Some (wd, d)) \<Longrightarrow> RISCV_OP_PROLOGUE \<le> dop d"
  "try_fuse_la code len off t = Some (Some (wd, d)) \<Longrightarrow> RISCV_OP_PROLOGUE \<le> dop d"
  by (auto simp: try_fuse_prologue_def try_fuse_epilogue_def try_fuse_la_def fused_def Let_def
      bind_eq_Some_conv split: if_splits option.splits prod.splits)

lemma tc_pair_op: "tc_pair a b = Some d \<Longrightarrow> RISCV_OP_PROLOGUE \<le> dop d"
  by (auto simp: tc_pair_def pair_shadd_def pair_lwx_def pair_lwlw_def pair_lwsw_def pair_bz_def
      Let_def split: if_splits option.splits)

lemma try_pair_op:
  "try_fuse_pair code len off t = Some (Some (wd, d)) \<Longrightarrow> RISCV_OP_PROLOGUE \<le> dop d"
  by (auto simp: try_fuse_pair_def bind_eq_Some_conv dest: tc_pair_op split: if_splits option.splits)

lemma or_else_Some:
  "or_else m n = Some (Some r) \<longleftrightarrow> m = Some (Some r) \<or> m = Some None \<and> n = Some (Some r)"
  by (cases m) (auto simp: or_else_def split: option.splits)

lemma direct_not_fused:
  assumes "tc_decode code off = Some a" "is_direct a"
  shows "try_fuse_prologue code len off t \<noteq> Some (Some r)" "try_fuse_epilogue code len off t \<noteq> Some (Some r)"
    "try_fuse_la code len off t \<noteq> Some (Some r)" "try_fuse_pair code len off t \<noteq> Some (Some r)"
proof -
  have op: "35 \<le> unat (dop a)" "unat (dop a) \<le> 41" using assms(2) by (auto simp: is_direct_def op_nat)
  have ne: "dop a \<noteq> RISCV_OP_ADDI" "dop a \<noteq> RISCV_OP_LW" "dop a \<noteq> RISCV_OP_AUIPC"
    "dop a \<noteq> RISCV_OP_SLLI" "dop a \<noteq> RISCV_OP_ADD" "dop a \<noteq> RISCV_OP_LBU"
    using op by auto
  show "try_fuse_prologue code len off t \<noteq> Some (Some r)"
    using assms(1) ne(1) by (simp add: try_fuse_prologue_def)
  have "restore_run 13 code len t off off = Some ([], off)"
    using assms(1) ne(2) by (simp add: eval_nat_numeral)
  then show "try_fuse_epilogue code len off t \<noteq> Some (Some r)"
    by (simp add: try_fuse_epilogue_def)
  show "try_fuse_la code len off t \<noteq> Some (Some r)"
    using assms(1) ne(3) by (simp add: try_fuse_la_def)
  have "tc_pair a b = None" for b
    using ne by (simp add: tc_pair_def pair_shadd_def pair_lwx_def pair_lwlw_def pair_lwsw_def pair_bz_def)
  with assms(1) show "try_fuse_pair code len off t \<noteq> Some (Some r)"
    by (auto simp: try_fuse_pair_def bind_eq_Some_conv split: if_splits)
qed

lemma tc_step_direct:
  assumes "tc_decode code off = Some a" "is_direct a" "tc_step code len off t = Some r"
  shows "r = (4, a)"
proof -
  let ?m = "or_else (try_fuse_prologue code len off t)
    (or_else (try_fuse_epilogue code len off t)
    (or_else (try_fuse_la code len off t) (try_fuse_pair code len off t)))"
  have "?m \<noteq> Some (Some r)" for r
    using direct_not_fused [OF assms(1,2), of len t r] by (auto simp: or_else_Some)
  then have "r = (4, lone_auipc off a)"
    using assms(1,3) by (auto simp: tc_step_def split: option.splits)
  moreover have "lone_auipc off a = a"
    using assms(2) by (auto simp: lone_auipc_def is_direct_def)
  ultimately show ?thesis by simp
qed

text \<open>The target of a direct jump is the instruction's address plus its immediate.\<close>

definition jump_op :: "u8 \<Rightarrow> bool" where
  "jump_op op = (op = RISCV_OP_JAL \<or> RISCV_OP_BEQ \<le> op \<and> op \<le> RISCV_OP_BGEU)"

lemma jump_op_num: "jump_op op \<longleftrightarrow> 35 \<le> unat op \<and> unat op \<le> 41"
  by (auto simp: jump_op_def op_nat)

lemma jump_op_ops:
  "\<not> jump_op (tc_load_op f3)" "\<not> jump_op (tc_store_op f3)" "tc_branch_op f3 \<noteq> RISCV_OP_JAL"
  by (simp_all add: jump_op_def tc_load_op_def tc_store_op_def tc_branch_op_def)

lemma tc_switch_jump:
  assumes "jump_op (fst (tc_switch w off))"
  shows "fst (tc_switch w off) = RISCV_OP_JAL \<and> snd (snd (tc_switch w off)) = off + imm_J w \<or>
    fst (tc_switch w off) \<noteq> RISCV_OP_JAL \<and> snd (snd (tc_switch w off)) = off + imm_B w"
  using assms f3_cases [of w] jump_op_ops [of "f3_of w"]
  by (elim disjE) (auto simp: tc_switch_def jump_op_num Let_def split: if_splits)

lemma is_direct_jump: "is_direct d = jump_op (dop d)"
  by (auto simp: is_direct_def jump_op_def)

lemma tc_dec_jump:
  assumes "is_direct (tc_dec w off)"
  shows "dop (tc_dec w off) = fst (tc_switch w off)" "dtarget (tc_dec w off) = snd (snd (tc_switch w off))"
    "jump_op (fst (tc_switch w off))"
  using assms
  by (auto simp: tc_dec_def is_direct_jump tc_fold_x0_def jump_op_def split: prod.splits if_splits)

lemma tc_dec_target:
  assumes "is_direct (tc_dec w off)"
  shows "\<exists>k. dtarget (tc_dec w off) = off + word_of_int k \<and> -1048576 \<le> k \<and> k < 1048576 \<and>
    (dop (tc_dec w off) \<noteq> RISCV_OP_JAL \<longrightarrow> -4096 \<le> k \<and> k < 4096)"
proof -
  note d = tc_dec_jump [OF assms]
  obtain kb kj where k: "imm_B w = word_of_int kb" "-4096 \<le> kb" "kb < 4096"
    "imm_J w = word_of_int kj" "-1048576 \<le> kj" "kj < 1048576"
    using imm_range by blast
  from tc_switch_jump [OF d(3)] show ?thesis
    by (elim disjE conjE) (use d(1,2) k in \<open>auto intro: exI [of _ kj] exI [of _ kb]\<close>)
qed

text \<open>What \<open>emit\<close> computes for a target inside the code.\<close>

lemma disp4_eq:
  assumes "m ! half y = of_nat c" "(of_nat c :: u32) \<noteq> TC_SENTINEL" "dtarget d = y" "unat y < unat len"
  shows "disp4 m len d (of_nat b) = word_of_int (4 * (int c - int b))"
proof -
  have "target_word m len y (of_nat b) = of_nat c"
    using assms by (simp add: target_word_def half_def word_le_nat_alt Let_def)
  then show ?thesis by (simp add: disp4_def assms(3) flip: wi_hom_sub wi_hom_mult)
qed

text \<open>The distance in words, scaled by 4, is never more than the distance in bytes.\<close>

lemma disp_range:
  assumes "code_ok code len" "units code len t 0 us"
    and "upos 0 us x = Some b" "upos 0 us y = Some c" "y = x + word_of_int k"
    and "-1048576 \<le> k" "k \<le> 1048576" "unat x < unat len" "unat y < unat len"
  shows "\<bar>4 * (int c - int b)\<bar> \<le> \<bar>k\<bar>" "k < 0 \<longrightarrow> c \<le> b" "0 \<le> k \<longrightarrow> b \<le> c"
proof -
  have u: "uint y = uint x + k"
  proof -
    have le: "uint z \<le> 2147483648" if "unat z < unat len" for z
    proof -
      have "unat z \<le> 2147483648" using that code_ok_le [OF assms(1)] by simp
      then show ?thesis unfolding unat_eq_nat_uint nat_le_iff by simp
    qed
    show ?thesis using no_wrap [of x k] le [OF assms(8)] le [OF assms(9)] assms(5-7) by simp
  qed
  have "\<bar>4 * (int c - int b)\<bar> \<le> \<bar>k\<bar> \<and> (k < 0 \<longrightarrow> c \<le> b) \<and> (0 \<le> k \<longrightarrow> b \<le> c)"
  proof (cases "0 \<le> k")
    case True
    then have le: "unat x \<le> unat y" using u by (simp flip: word_le_nat_alt add: word_le_def)
    have "int (unat y) - int (unat x) = k" using u by simp
    moreover have n: "4 * c + unat x \<le> 4 * b + unat y" "b \<le> c"
      using upos_lipschitz [OF assms(1,2,3,4) le] le by linarith+
    moreover have "int (4 * c + unat x) \<le> int (4 * b + unat y)" using n(1) by (simp only: of_nat_le_iff)
    ultimately show ?thesis using True by (simp add: abs_if)
  next
    case False
    then have le: "unat y \<le> unat x" using u by (simp flip: word_le_nat_alt add: word_le_def)
    have "int (unat y) - int (unat x) = k" using u by simp
    moreover have n: "4 * b + unat y \<le> 4 * c + unat x" "c \<le> b"
      using upos_lipschitz [OF assms(1,2,4,3) le] le by linarith+
    moreover have "int (4 * b + unat y) \<le> int (4 * c + unat x)" using n(1) by (simp only: of_nat_le_iff)
    ultimately show ?thesis using False by (simp add: abs_if)
  qed
  then show "\<bar>4 * (int c - int b)\<bar> \<le> \<bar>k\<bar>" "k < 0 \<longrightarrow> c \<le> b" "0 \<le> k \<longrightarrow> b \<le> c"
    by blast+
qed

text \<open>Where a direct jump's op word sends the cursor.\<close>

definition jump_disp :: "u8 \<Rightarrow> u32 \<Rightarrow> u32" where
  "jump_disp op w = signed_drop_bit 2 (if op = RISCV_OP_JAL then TC_JOFF w else TC_IMM w)"

lemma jump_disp_emit:
  assumes "jump_op (dop d)" "disp4 m len d at = word_of_int (4 * z)"
    and "-262144 \<le> z" "z < 262144" "dop d \<noteq> RISCV_OP_JAL \<longrightarrow> -8192 \<le> z \<and> z < 8192"
  shows "\<exists>w. tc_emit at d m len = [w] \<and> TC_OP w = ucast (dop d) \<and> jump_disp (dop d) w = word_of_int z"
proof -
  have lt: "dop d < 64" using assms(1) by (auto simp: jump_op_num word_less_nat_alt)
  have drop: "signed_drop_bit 2 (word_of_int (4 * z) :: u32) = word_of_int z"
    using sdrop4 [of z 0] assms(3,4) by simp
  show ?thesis
  proof (cases "dop d = RISCV_OP_JAL")
    case True
    have "sext (word_of_int (4 * z)) 21 = word_of_int (4 * z)"
      by (rule sext_of_int) (use assms(3,4) in simp_all)
    with True drop assms(2) lt show ?thesis
      by (simp add: emit_jal TC_OP_pack jump_disp_def TC_JOFF_pack)
  next
    case False
    have "sext (word_of_int (4 * z)) 16 = word_of_int (4 * z)"
      by (rule sext_of_int) (use assms(5) False in simp_all)
    with False drop assms(1,2) lt show ?thesis
      by (simp add: emit_branch jump_op_def TC_OP_pack jump_disp_def TC_IMM_pack)
  qed
qed

text \<open>The places of a direct jump and of its target, and how far they are apart.\<close>

lemma jump_positions:
  assumes "code_ok code len" "transcode_map_ex code len ext = Some (m, n)"
    and "transcode_ex code len ext = Some p" "4 dvd unat x" "unat x < unat len"
    and "tc_decode code x = Some d" "is_direct d" "4 dvd unat (dtarget d)" "unat (dtarget d) < unat len"
    and "m ! half x \<noteq> TC_SENTINEL"
  obtains t us b c wd k where "units code len t 0 us" "p = \<lparr>tops = emit_units us m len [],
       tn_ops = of_nat (words_of us), tcode_len = of_nat (words_of us) * 4\<rparr>"
    "upos 0 us x = Some b" "(x, wd, d) \<in> set us" "b \<le> words_of us" "c \<le> words_of us"
    "m ! half x = of_nat b" "m ! half (dtarget d) = of_nat c" "-1048576 \<le> k" "k < 1048576"
    "dop d \<noteq> RISCV_OP_JAL \<longrightarrow> -4096 \<le> k \<and> k < 4096"
    "\<bar>4 * (int c - int b)\<bar> \<le> \<bar>k\<bar>" "k < 0 \<longrightarrow> c \<le> b" "0 \<le> k \<longrightarrow> b \<le> c"
proof -
  obtain t where t: "collect_targets code len ext = Some t" "tslots t = len div 4"
    "\<And>x d. 4 dvd unat x \<Longrightarrow> unat x < unat len \<Longrightarrow> tc_decode code x = Some d \<Longrightarrow> is_direct d \<Longrightarrow>
       dtarget d div 4 < len div 4 \<Longrightarrow> targets_has t (dtarget d)"
    using collect_targets_ok [OF assms(1)] by metis
  obtain us m' where u: "units code len t 0 us"
    "transcode_map_ex code len ext = Some (m', of_nat (words_of us))"
    "transcode_ex code len ext = Some \<lparr>tops = emit_units us m' len [],
       tn_ops = of_nat (words_of us), tcode_len = of_nat (words_of us) * 4\<rparr>"
    "\<And>x. 4 dvd unat x \<Longrightarrow> unat x < unat len \<Longrightarrow>
       m' ! half x = (case upos 0 us x of Some b \<Rightarrow> of_nat b | None \<Rightarrow> TC_SENTINEL)"
    using transcode_units [OF assms(1) t(1)] by metis
  have eq: "m' = m" "p = \<lparr>tops = emit_units us m len [],
       tn_ops = of_nat (words_of us), tcode_len = of_nat (words_of us) * 4\<rparr>"
    using u(2,3) assms(2,3) by simp_all
  obtain b where b: "upos 0 us x = Some b"
    using u(4) [OF assms(4,5)] assms(10) eq(1) by (auto split: option.splits)
  then have "upos 0 us x \<noteq> None" by simp
  then have "x \<in> fst ` set us" by (simp only: upos_mem)
  then obtain wd d' where mem: "(x, wd, d') \<in> set us" by auto
  from tc_step_direct [OF assms(6,7)] units_member [OF u(1) mem] have d': "d' = d" by force
  let ?y = "dtarget d"
  have "unat ?y div 4 < unat len div 4"
    using assms(1,8,9) by (auto simp: code_ok_def elim!: dvdE)
  then have "?y div 4 < len div 4" by (simp add: word_less_nat_alt unat_div)
  then have "targets_has t ?y" using t(3) assms(4-7) by blast
  from target_is_unit [OF assms(1) u(1) assms(8,9) this] obtain c where
    c: "upos 0 us ?y = Some c" "c \<le> words_of us" by blast
  have b': "b \<le> words_of us" using upos_le [OF b] by simp
  obtain w where w: "d = tc_dec w x" using assms(6) by (auto simp: tc_decode_def)
  obtain k where k: "?y = x + word_of_int k" "-1048576 \<le> k" "k < 1048576"
    "dop d \<noteq> RISCV_OP_JAL \<longrightarrow> -4096 \<le> k \<and> k < 4096"
    using tc_dec_target assms(7) unfolding w by blast
  note rng = disp_range [OF assms(1) u(1) b c(1) k(1,2) _ assms(5,9)]
  have my: "m ! half ?y = of_nat c" "m ! half x = of_nat b"
    using u(4) [OF assms(8,9)] u(4) [OF assms(4,5)] b c eq(1) by simp_all
  show thesis
    by (rule that [OF u(1) eq(2) b _ b' c(2) my(2,1) k(2-4)]) (use mem d' rng k(3) in \<open>simp_all\<close>)
qed

lemma branch_lands:
  assumes "code_ok code len" "transcode_map_ex code len ext = Some (m, n)"
    and "transcode_ex code len ext = Some p" "4 dvd unat x" "unat x < unat len"
    and "tc_decode code x = Some d" "is_direct d" "4 dvd unat (dtarget d)" "unat (dtarget d) < unat len"
    and "m ! half x \<noteq> TC_SENTINEL"
  shows "\<exists>w. tc_emit (m ! half x) d m len = [w] \<and> tops p ! unat (m ! half x) = w \<and>
    TC_OP w = ucast (dop d) \<and> m ! half x + jump_disp (dop d) w = m ! half (dtarget d)"
proof -
  obtain t us b c wd k where u: "units code len t 0 us" "p = \<lparr>tops = emit_units us m len [],
       tn_ops = of_nat (words_of us), tcode_len = of_nat (words_of us) * 4\<rparr>"
    and b: "upos 0 us x = Some b" "(x, wd, d) \<in> set us" "b \<le> words_of us" "c \<le> words_of us"
    and my: "m ! half x = of_nat b" "m ! half (dtarget d) = of_nat c"
    and k: "-1048576 \<le> k" "k < 1048576" "dop d \<noteq> RISCV_OP_JAL \<longrightarrow> -4096 \<le> k \<and> k < 4096"
    and rng: "\<bar>4 * (int c - int b)\<bar> \<le> \<bar>k\<bar>" "k < 0 \<longrightarrow> c \<le> b" "0 \<le> k \<longrightarrow> b \<le> c"
    by (rule jump_positions [OF assms])
  let ?z = "int c - int b"
  have disp: "disp4 m len d (of_nat b) = word_of_int (4 * ?z)"
    by (rule disp4_eq [OF my(2) words_bound(2) [OF assms(1) u(1) b(4)] refl assms(9)])
  have "\<bar>4 * ?z\<bar> \<le> \<bar>k\<bar>" "k < 0 \<longrightarrow> ?z \<le> 0" "0 \<le> k \<longrightarrow> 0 \<le> ?z" using rng by simp_all
  then have z: "-262144 \<le> ?z" "?z < 262144" "dop d \<noteq> RISCV_OP_JAL \<longrightarrow> -8192 \<le> ?z \<and> ?z < 8192"
    using k by (cases "0 \<le> k"; auto simp: abs_if split: if_splits)+
  from jump_disp_emit [OF assms(7) [unfolded is_direct_jump] disp z] obtain w where
    w: "tc_emit (of_nat b) d m len = [w]" "TC_OP w = ucast (dop d)"
      "jump_disp (dop d) w = word_of_int ?z" by blast
  have "unat (op_words (dop d)) = 1" using length_tc_emit [of "of_nat b" d m len] w(1) by simp
  then have "tops p ! b = w"
    using emit_units_nth [OF u(1), of "[]" x b wd d 0 m] b(1,2) assms(1) w(1) u(2) by simp
  then have "tops p ! unat (m ! half x) = w"
    using words_bound(1) [OF assms(1) u(1) b(3)] my(1) by simp
  moreover have "of_nat b + word_of_int ?z = (of_nat c :: u32)" by (simp flip: wi_hom_sub)
  ultimately show ?thesis using w my by simp
qed

section \<open>Properties\<close>

text \<open>
  C11: transcoding returns, stays inside the code, and its two passes agree. For every code image of
  whole words (at most 2 GiB), with any external targets, both the map-only entry point and the
  full transcoder produce a result; the number of words emitted is the number the first pass
  announced (so the array allocated for them suffices), and it is never more than the
  number of instructions.
\<close>

theorem transcode_layout:
  assumes "code_ok code len"
  shows "\<exists>m n p. transcode_map_ex code len ext = Some (m, n) \<and> transcode_ex code len ext = Some p \<and>
    tn_ops p = n \<and> length (tops p) = unat n \<and> tcode_len p = n * 4 \<and> 4 * unat n \<le> unat len"
proof -
  obtain t where t: "collect_targets code len ext = Some t" using collect_targets_ok [OF assms] by metis
  obtain us m where u: "units code len t 0 us"
    "transcode_map_ex code len ext = Some (m, of_nat (words_of us))"
    "transcode_ex code len ext = Some \<lparr>tops = emit_units us m len [],
       tn_ops = of_nat (words_of us), tcode_len = of_nat (words_of us) * 4\<rparr>"
    using transcode_units [OF assms t] by metis
  from words_bound [OF assms u(1) order_refl] u(2,3) show ?thesis
    by (simp add: length_emit_units)
qed

text \<open>A three-instruction image: \<open>nop\<close>, \<open>addi a0, a0, 1\<close>, \<open>beq a0, a1, -8\<close>.\<close>

definition tc_demo :: "u8 list" where
  "tc_demo = [0x13, 0, 0, 0, 0x13, 5, 0x15, 0, 0xe3, 0x0c, 0xb5, 0xfe]"

lemma tc_demo_ok: "code_ok tc_demo 12"
  by (simp add: code_ok_def tc_demo_def)

lemma tc_demo_map:
  "transcode_map_ex tc_demo 12 None =
     Some ([0, TC_SENTINEL, 0, TC_SENTINEL, 1, TC_SENTINEL, TC_SENTINEL, TC_SENTINEL], 2)"
  by code_simp

lemma tc_demo_branch:
  "tc_decode tc_demo 8 =
     Some \<lparr>dop = RISCV_OP_BEQ, drd = 25, drs1 = 10, drs2 = 11, dimm = 0, dtarget = 0\<rparr>"
  by code_simp

lemma tc_demo_ops:
  "transcode_ex tc_demo 12 None =
     Some \<lparr>tops = [0x294a0001, 0x8d4bfffc], tn_ops = 2, tcode_len = 8\<rparr>"
  by code_simp

lemma half_demo: "half 8 = 4" "half 0 = 0"
  by (simp_all add: half_def)

lemma transcode_layout_witness:
  "\<exists>m n p. transcode_map_ex tc_demo 12 None = Some (m, n) \<and> transcode_ex tc_demo 12 None = Some p \<and>
    tn_ops p = n \<and> length (tops p) = unat n \<and> tcode_len p = n * 4 \<and> 4 * unat n \<le> unat (12 :: u32)"
  by (rule transcode_layout [OF tc_demo_ok])

text \<open>
  C8: fusion never hides a jump target. An aligned address inside the code that some branch or
  \<open>jal\<close> anywhere in the program targets, or that the caller lists as reachable, keeps an op position
  of its own in the map, whatever runs of instructions around it were collapsed.
\<close>

theorem transcode_keeps_targets:
  assumes "code_ok code len" "transcode_map_ex code len ext = Some (m, n)"
    and "4 dvd unat y" "unat y < unat len"
    and "y \<in> set (ext_addrs ext) \<or>
      (\<exists>x d. 4 dvd unat x \<and> unat x < unat len \<and> tc_decode code x = Some d \<and> is_direct d \<and> dtarget d = y)"
  shows "m ! half y \<noteq> TC_SENTINEL \<and> m ! half y \<le> n"
proof -
  obtain t where t: "collect_targets code len ext = Some t" "tslots t = len div 4"
    "\<And>x d. 4 dvd unat x \<Longrightarrow> unat x < unat len \<Longrightarrow> tc_decode code x = Some d \<Longrightarrow> is_direct d \<Longrightarrow>
       dtarget d div 4 < len div 4 \<Longrightarrow> targets_has t (dtarget d)"
    "\<And>a. a \<in> set (ext_addrs ext) \<Longrightarrow> a div 4 < len div 4 \<Longrightarrow> targets_has t a"
    using collect_targets_ok [OF assms(1)] by metis
  obtain us m' where u: "units code len t 0 us"
    "transcode_map_ex code len ext = Some (m', of_nat (words_of us))"
    "\<And>x. 4 dvd unat x \<Longrightarrow> unat x < unat len \<Longrightarrow>
       m' ! half x = (case upos 0 us x of Some b \<Rightarrow> of_nat b | None \<Rightarrow> TC_SENTINEL)"
    using transcode_units [OF assms(1) t(1)] by metis
  have eq: "m' = m" "n = of_nat (words_of us)" using u(2) assms(2) by simp_all
  have "unat y div 4 < unat len div 4"
    using assms(1,3,4) by (auto simp: code_ok_def elim!: dvdE)
  then have lt: "y div 4 < len div 4" by (simp add: word_less_nat_alt unat_div)
  then have "targets_has t y" using assms(5) t(3,4) by blast
  from target_is_unit [OF assms(1) u(1) assms(3,4) this] obtain b where
    b: "upos 0 us y = Some b" "b \<le> words_of us" by blast
  have "(of_nat b :: u32) \<le> of_nat (words_of us)"
    using b(2) words_bound(1) [OF assms(1) u(1)] by (simp add: word_le_nat_alt)
  with u(3) [OF assms(3,4)] b words_bound(2) [OF assms(1) u(1) b(2)] eq show ?thesis by simp
qed

lemma transcode_keeps_targets_witness:
  "let m = [0, TC_SENTINEL, 0, TC_SENTINEL, 1, TC_SENTINEL, TC_SENTINEL, TC_SENTINEL]
   in m ! half 0 \<noteq> TC_SENTINEL \<and> m ! half 0 \<le> 2"
  unfolding Let_def
  by (rule transcode_keeps_targets [OF tc_demo_ok tc_demo_map])
    (auto simp: is_direct_def tc_demo_branch intro!: exI [of _ 8])

text \<open>
  C7: a transcoded branch lands on its target. The op word emitted for a conditional branch or
  \<open>jal\<close>, at the position the map gives the instruction, has the instruction's op number, and its
  displacement field, read back with its sign and added to the position, is the map's position
  of the branch target: nothing is lost in the 16- or 21-bit field, however much code between the
  two was fused or dropped.
\<close>

theorem transcode_branch_lands:
  assumes "code_ok code len" "transcode_map_ex code len ext = Some (m, n)"
    and "transcode_ex code len ext = Some p" "4 dvd unat x" "unat x < unat len"
    and "tc_decode code x = Some d" "is_direct d" "4 dvd unat (dtarget d)" "unat (dtarget d) < unat len"
    and "m ! half x \<noteq> TC_SENTINEL"
  shows "let w = tops p ! unat (m ! half x)
    in TC_OP w = ucast (dop d) \<and> m ! half x + jump_disp (dop d) w = m ! half (dtarget d)"
  using branch_lands [OF assms] by (auto simp: Let_def)

lemma transcode_branch_lands_witness:
  "let m = [0, TC_SENTINEL, 0, TC_SENTINEL, 1, TC_SENTINEL, TC_SENTINEL, TC_SENTINEL];
       w = [0x294a0001, 0x8d4bfffc] ! unat (m ! half 8)
   in TC_OP w = ucast RISCV_OP_BEQ \<and> m ! half 8 + jump_disp RISCV_OP_BEQ w = m ! half 0"
  using transcode_branch_lands [OF tc_demo_ok tc_demo_map tc_demo_ops _ _ tc_demo_branch]
  by (simp add: is_direct_def half_demo TC_SENTINEL_def)

end
