(* ===== verification/Purva_Sem.thy ===== *)
theory Purva_Sem
  imports Purva Tc_Layout Purvs_Eval
begin

text \<open>
  What one op word does: the word the transcoder emits for an instruction, executed by the
  evaluator, against the instruction executed by purv.
\<close>

section \<open>Memory accesses\<close>

lemma mem_w_xlate: "mem_w s a n = mem_xlate s a n True"
  by (simp add: mem_w_def mem_xlate_def split: option.split)

lemma mem_r_xlate: "mem_r s a n = mem_xlate s a n False"
  by (simp add: mem_r_def mem_w_def mem_xlate_def split: option.split)

text \<open>The C type of a load's \<open>funct3\<close>.\<close>

definition f3_ty :: "u32 \<Rightarrow> cty" where
  "f3_ty f3 = (if f3 = 0 then Int8 else if f3 = 1 then Int16 else if f3 = 2 then Int32
               else if f3 = 4 then Uint8 else Uint16)"

lemma ccast_low:
  "ccast Int8 v = sext v 8" "ccast Int16 v = sext v 16" "ccast Uint8 v = take_bit 8 v"
  "ccast Uint16 v = take_bit 16 v"
  by (rule bit_word_eqI, auto simp: bit_sext bit_simps min_def)+

lemma ld_le_load_hit:
  assumes "f3 \<noteq> 3" "\<not> f3 > 5"
  shows "map_option (ccast (f3_ty f3)) (ld_le s q (csize (f3_ty f3))) = load_hit s q f3"
proof -
  have b: "scast (ucast (ucast (b :: u8) :: u32) :: u8) = (scast b :: u32)"
    "ucast (ucast (ucast b :: u32) :: u8) = (ucast b :: u32)" for b
    by (rule bit_word_eqI, auto simp: bit_simps dest: bit_imp_le_length)+
  have w: "ucast (ucast (le16 b0 b1) :: u16) = le16 b0 b1" for b0 b1
    by (rule bit_word_eqI) (auto simp: bit_simps bit_le16)
  from load_width [OF assms] show ?thesis
    by (elim disjE)
      (simp_all add: f3_ty_def ld_le_def load_hit_def b w [unfolded le16_def] le16_def le32_def or.assoc
        split: Option.bind_split)
qed

lemma st_le_store_hit:
  assumes "\<not> f3 > 2"
  shows "st_le s q (push_bit (unat f3) 1) v = store_hit s q f3 v"
  using store_width [OF assms]
  by (elim disjE) (simp_all add: st_le_def store_hit_def)

lemma load_size: "f3 \<noteq> 3 \<Longrightarrow> \<not> f3 > 5 \<Longrightarrow> csize (f3_ty f3) = push_bit (unat (f3 AND 3)) 1"
  using load_width [of f3] by (auto simp: f3_ty_def)

text \<open>A load and a store of purv through the evaluator's accessors, under an installed callback.\<close>

lemma exec_load_ld_mem:
  assumes "f3 \<noteq> 3" "\<not> f3 > 5" "h_callback hk \<noteq> None"
  shows "exec_load hk f3 a imm rd p w s =
    (if rd = 0 then Some (s, C_done)
     else map_option (\<lambda>(v, s'). (wr s' rd (ccast (f3_ty f3) v), C_done))
            (ld_mem hk s (a + imm) (csize (f3_ty f3))))"
proof -
  let ?n = "push_bit (unat (f3 AND 3)) 1 :: u32"
  obtain cb where cb: "h_callback hk = Some cb" using assms(3) by blast
  have miss: "load_miss hk s f3 ad (unat ?n) =
      (case cb s RISCV_MEM_LOAD ad 0 of (v, s') \<Rightarrow> (ccast (f3_ty f3) v, s'))" for ad
    using load_width [OF assms(1,2)]
    by (elim disjE) (simp_all add: load_miss_def cb f3_ty_def ccast_low mask_fields split: prod.split del: ccast.simps(1,2,4,5))
  show ?thesis
    using assms(1,2) miss
    by (auto simp: exec_load_def Let_def ld_mem_def mem_r_xlate load_size [OF assms(1,2)] cb
        ld_le_load_hit [OF assms(1,2), symmetric] option.map_comp comp_def map_option_case
        split: option.split prod.split)
qed

lemma exec_store_st_mem:
  assumes "\<not> f3 > 2" "h_callback hk \<noteq> None"
  shows "exec_store hk f3 a b imm p w s =
    map_option (\<lambda>s'. (s', C_done)) (st_mem hk s (a + imm) (push_bit (unat f3) 1) b)"
  using assms
  by (auto simp: exec_store_def st_mem_def mem_w_xlate store_miss_def bind_done Let_def
      st_le_store_hit [OF assms(1), simplified]
      split: option.split)

section \<open>Immediates survive the 16-bit field\<close>

lemma imm_fields:
  "sext (imm_I w) 16 = imm_I w" "sext (imm_S w) 16 = imm_S w"
  "sext (x AND 31) 16 AND 31 = x AND 31"
  "push_bit 12 (take_bit 20 (drop_bit 12 w AND 0xfffff)) = imm_U w"
proof -
  have m: "(0xfffff000 :: u32) = NOT (mask 12)" "(0x1f :: u32) = mask 5"
    by (simp_all add: mask_eq_exp_minus_1)
  show "sext (imm_I w) 16 = imm_I w"
    by (rule bit_word_eqI) (auto simp: imm_I_def bit_sext bit_simps min_def)
  show "sext (imm_S w) 16 = imm_S w"
    unfolding imm_S_def m
    by (rule bit_word_eqI) (auto simp: bit_sext bit_simps min_def)
  show "sext (x AND 31) 16 AND 31 = x AND 31"
    unfolding mask_fields by (rule bit_word_eqI) (auto simp: bit_sext bit_simps min_def)
  show "push_bit 12 (take_bit 20 (drop_bit 12 w AND 0xfffff)) = imm_U w"
    unfolding imm_U_def m mask_fields by (rule bit_word_eqI) (auto simp: bit_simps)
qed

section \<open>Which handler runs\<close>

lemma pva_rr_alu:
  assumes "f7 \<noteq> 0x20 \<or> f3_of w = 0 \<or> f3_of w = 5"
  shows "pva_rr (ucast (if f7 = 0x20 then (if f3_of w = 0 then RISCV_OP_SUB else RISCV_OP_SRA)
                        else RISCV_OP_ADD + ucast (f3_of w))) = Some (alu (f3_of w) f7)"
  using f3_cases [of w] assms
  by (elim disjE) (auto simp: pva_rr_def alu_def fun_eq_iff)

lemma pva_rr_mul: "pva_rr (ucast (RISCV_OP_MUL + ucast (f3_of w))) = Some (mul_op (f3_of w))"
  using f3_cases [of w]
  by (elim disjE) (simp_all add: pva_rr_def mul_op_def fun_eq_iff)

lemma pva_ri_alu:
  assumes "f3_of w \<noteq> 1" "f3_of w \<noteq> 5"
  shows "pva_rr (ucast (RISCV_OP_ADDI + ucast (f3_of w))) = None"
    "pva_ri (ucast (RISCV_OP_ADDI + ucast (f3_of w))) = Some (alu (f3_of w) 0)"
  using f3_cases [of w] assms
  by (elim disjE; simp add: pva_ri_def pva_rr_def alu_def fun_eq_iff)+

lemma pva_ri_shift:
  "pva_rr (ucast RISCV_OP_SLLI) = None" "pva_ri (ucast RISCV_OP_SLLI) = Some (alu 1 g)"
  "pva_rr (ucast (if g = 0x20 then RISCV_OP_SRAI else RISCV_OP_SRLI)) = None"
  "pva_ri (ucast (if g = 0x20 then RISCV_OP_SRAI else RISCV_OP_SRLI)) = Some (alu 5 g)"
  by (auto simp: pva_ri_def pva_rr_def alu_def fun_eq_iff)

lemma pva_load_f3:
  assumes "f3 \<noteq> 3" "\<not> f3 > 5"
  shows "pva_rr (ucast (tc_load_op f3)) = None" "pva_ri (ucast (tc_load_op f3)) = None"
    "pva_load_ty (ucast (tc_load_op f3)) = Some (f3_ty f3)"
  using load_width [OF assms]
  by (elim disjE; simp add: pva_rr_def pva_ri_def pva_load_ty_def tc_load_op_def f3_ty_def)+

lemma pva_store_f3:
  assumes "\<not> f3 > 2"
  shows "pva_rr (ucast (tc_store_op f3)) = None" "pva_ri (ucast (tc_store_op f3)) = None"
    "pva_load_ty (ucast (tc_store_op f3)) = None"
    "pva_store_n (ucast (tc_store_op f3)) = Some (push_bit (unat f3) 1)"
  using store_width [OF assms]
  by (elim disjE; simp add: pva_rr_def pva_ri_def pva_load_ty_def pva_store_n_def tc_store_op_def)+

lemma pva_exec_rr:
  assumes "pva_rr (ucast op) = Some f" "op < 64"
  shows "pva_exec hk idx (pack3 op a b c x) w2 s = Some (set_reg s a (f (regs s b) (regs s c)), 1, P_next 1)"
  using assms by (simp add: pva_exec_def TC_OP_pack TC_A_pack TC_B_pack TC_C_pack)

lemma pva_exec_ri:
  assumes "pva_rr (ucast op) = None" "pva_ri (ucast op) = Some f" "op < 64"
  shows "pva_exec hk idx (pack2 op a b x) w2 s =
    Some (set_reg s a (f (regs s b) (sext x 16)), 1, P_next 1)"
  using assms by (simp add: pva_exec_def TC_OP_pack TC_A_pack TC_B_pack TC_IMM_pack)

lemma set_reg_wr: "rd \<noteq> 0 \<Longrightarrow> set_reg s rd v = wr s rd v"
  by (simp add: set_reg_def wr_def)

section \<open>Straight-line instructions\<close>

text \<open>An instruction and an op word agree: both continue, with the same state.\<close>

definition same_step :: "'w pres \<Rightarrow> ('w vm \<times> ctl) option \<Rightarrow> bool" where
  "same_step r e = (\<exists>m. e = map_option (\<lambda>s'. (s', C_done)) m \<and> r = map_option (\<lambda>s'. (s', 1, P_next 1)) m)"

lemma same_step_Some: "s1 = s2 \<Longrightarrow> same_step (Some (s1, 1, P_next 1)) (Some (s2, C_done))"
  unfolding same_step_def by (rule exI [of _ "Some s1"]) simp

text \<open>The instructions that stay in line: arithmetic, upper immediates, loads and stores.\<close>

definition line_op :: "u8 \<Rightarrow> bool" where
  "line_op op = (op \<le> RISCV_OP_SW \<or> op = RISCV_OP_LUI)"

lemma dec_fields:
  "drd (tc_dec w off) = rfield 7 w" "drs1 (tc_dec w off) = rfield 15 w"
  "drs2 (tc_dec w off) = rfield 20 w" "dimm (tc_dec w off) = fst (snd (tc_switch w off))"
  "dtarget (tc_dec w off) = snd (snd (tc_switch w off))"
  "dop (tc_dec w off) = tc_fold_x0 (rfield 7 w) (fst (tc_switch w off))"
  by (simp_all add: tc_dec_def split: prod.split)

lemma fold_x0_id: "tc_fold_x0 rd op \<noteq> RISCV_OP_NOP \<or> rd \<noteq> 0 \<Longrightarrow> tc_fold_x0 rd op = op"
  by (auto simp: tc_fold_x0_def)

lemma line_op_nop: "line_op op \<Longrightarrow> op \<noteq> RISCV_OP_NOP"
  by (auto simp: line_op_def)

lemma rr_line: "op \<le> RISCV_OP_SRA \<or> RISCV_OP_MUL \<le> op \<and> op \<le> RISCV_OP_REMU \<Longrightarrow> op < 64"
  by (auto simp: word_le_nat_alt word_less_nat_alt)

text \<open>Opcode \<open>OP-IMM\<close>.\<close>

lemma line_opimm:
  assumes "w AND 0x7f = 0x13" "rfield 7 w \<noteq> 0"
  shows "\<exists>e. tc_emit at (tc_dec w off) m len = [e] \<and>
    same_step (pva_exec hk idx e w2 s) (exec_action hk (decode32 (regs s) w) off w 4 s)"
proof -
  let ?d = "tc_dec w off" and ?rd = "rfield 7 w"
  have op: "dop ?d = fst (tc_switch w off)"
    using fold_x0_id [of ?rd] assms(2) by (simp add: dec_fields)
  have fields: "fst (snd (tc_switch w off)) = (if f3_of w = 1 \<or> f3_of w = 5 then drop_bit 20 w AND 31 else imm_I w)"
    using assms(1) by (simp add: tc_switch_def Let_def)
  have opn: "fst (tc_switch w off) = (if f3_of w = 1 then RISCV_OP_SLLI
      else if f3_of w = 5 then (if f7_of w = 0x20 then RISCV_OP_SRAI else RISCV_OP_SRLI)
      else RISCV_OP_ADDI + ucast (f3_of w))"
    using assms(1) by (simp add: tc_switch_def Let_def)
  have rng: "RISCV_OP_ADDI \<le> fst (tc_switch w off) \<and> fst (tc_switch w off) \<le> RISCV_OP_SRAI"
    using f3_cases [of w] unfolding opn by (elim disjE) simp_all
  then have lt: "fst (tc_switch w off) < 64" by (simp add: op_nat word_less_nat_alt)
  have em: "tc_emit at ?d m len =
      [pack2 (fst (tc_switch w off)) ?rd (rfield 15 w) (fst (snd (tc_switch w off)))]"
    using rng op by (simp add: emit_ri dec_fields)
  have shift: "alu f3 f7 a (sext (v AND 31) 16) = alu f3 f7 a (v AND 31)" if "f3 = 1 \<or> f3 = 5" for f3 f7 a v
    using that imm_fields(3) [of v] by (auto simp: alu_def)
  have act: "decode32 (regs s) w = (if f3_of w = 1 \<or> f3_of w = 5
      then A_alu (f3_of w) (f7_of w) (regs s (rfield 15 w)) (drop_bit 20 w AND 31) ?rd
      else A_alu (f3_of w) 0 (regs s (rfield 15 w)) (imm_I w) ?rd)"
    using assms(1) by (simp add: decode32_def Let_def)
  consider "f3_of w = 1" | "f3_of w = 5" | "f3_of w \<noteq> 1" "f3_of w \<noteq> 5" by blast
  then have "same_step (pva_exec hk idx (pack2 (fst (tc_switch w off)) ?rd (rfield 15 w)
      (fst (snd (tc_switch w off)))) w2 s) (exec_action hk (decode32 (regs s) w) off w 4 s)"
  proof cases
    case 1
    with shift assms(2) show ?thesis unfolding opn fields act
      by (simp add: pva_exec_ri [OF pva_ri_shift(1) pva_ri_shift(2) [where g = "f7_of w"]] set_reg_wr
          same_step_Some [simplified])
  next
    case 2
    with shift lt assms(2) show ?thesis unfolding opn fields act
      by (simp add: pva_exec_ri [OF pva_ri_shift(3,4)] opn set_reg_wr same_step_Some [simplified]
          del: if_split)
  next
    case 3
    with lt assms(2) imm_fields(1) show ?thesis unfolding opn fields act
      by (simp add: pva_exec_ri [OF pva_ri_alu [OF 3]] opn set_reg_wr same_step_Some [simplified])
  qed
  with em show ?thesis by simp
qed

text \<open>Opcode \<open>OP\<close>, without the reserved encodings.\<close>

lemma line_op_op:
  assumes "w AND 0x7f = 0x33" "rfield 7 w \<noteq> 0" "\<not> reserved_op w 4"
  shows "\<exists>e. tc_emit at (tc_dec w off) m len = [e] \<and>
    same_step (pva_exec hk idx e w2 s) (exec_action hk (decode32 (regs s) w) off w 4 s)"
proof -
  let ?d = "tc_dec w off" and ?rd = "rfield 7 w" and ?o = "fst (tc_switch w off)"
  have op: "dop ?d = ?o" using fold_x0_id [of ?rd] assms(2) by (simp add: dec_fields)
  have opn: "?o = (if f7_of w = 1 then RISCV_OP_MUL + ucast (f3_of w)
      else if f7_of w = 0x20 then (if f3_of w = 0 then RISCV_OP_SUB else RISCV_OP_SRA)
      else RISCV_OP_ADD + ucast (f3_of w))"
    using assms(1) by (simp add: tc_switch_def Let_def)
  have rng: "?o \<le> RISCV_OP_SRA \<or> RISCV_OP_MUL \<le> ?o \<and> ?o \<le> RISCV_OP_REMU"
    using f3_cases [of w] unfolding opn by (elim disjE) simp_all
  then have lt: "?o < 64" by (rule rr_line)
  have em: "tc_emit at ?d m len = [pack3 ?o ?rd (rfield 15 w) (rfield 20 w) 0]"
    using rng op emit_rr [of ?d at m len] by (simp add: dec_fields)
  have act: "decode32 (regs s) w = (if f7_of w = 1
      then A_mul (f3_of w) (regs s (rfield 15 w)) (regs s (rfield 20 w)) ?rd
      else A_alu (f3_of w) (f7_of w) (regs s (rfield 15 w)) (regs s (rfield 20 w)) ?rd)"
    using assms(1) by (simp add: decode32_def Let_def)
  have "f7_of w \<noteq> 0x20 \<or> f3_of w = 0 \<or> f3_of w = 5"
    using assms(1,3) by (auto simp: reserved_op_def)
  note alu = pva_rr_alu [OF this]
  have "pva_rr (ucast ?o) = Some (if f7_of w = 1 then mul_op (f3_of w) else alu (f3_of w) (f7_of w))"
    using alu pva_rr_mul [of w] unfolding opn by simp
  note run = pva_exec_rr [OF this lt]
  from em act assms(2) show ?thesis
    by (simp add: run set_reg_wr same_step_Some [simplified])
qed

text \<open>Loads and stores.\<close>

lemma pva_exec_load:
  assumes "pva_rr (ucast op) = None" "pva_ri (ucast op) = None" "pva_load_ty (ucast op) = Some T" "op < 64"
  shows "pva_exec hk idx (pack2 op a b x) w2 s =
    map_option (\<lambda>s'. (s', 1, P_next 1))
      (if a \<noteq> 0 then map_option (\<lambda>(v, s'). set_reg s' a (ccast T v))
         (ld_mem hk s (regs s b + sext x 16) (csize T)) else Some s)"
  using assms by (simp add: pva_exec_def LOAD_def TC_OP_pack TC_A_pack TC_B_pack TC_IMM_pack)

lemma pva_exec_store:
  assumes "pva_rr (ucast op) = None" "pva_ri (ucast op) = None" "pva_load_ty (ucast op) = None"
    "pva_store_n (ucast op) = Some n" "op < 64"
  shows "pva_exec hk idx (pack2 op a b x) w2 s =
    map_option (\<lambda>s'. (s', 1, P_next 1)) (st_mem hk s (regs s b + sext x 16) n (regs s a))"
  using assms by (simp add: pva_exec_def STORE_def TC_OP_pack TC_A_pack TC_B_pack TC_IMM_pack)

lemma line_load:
  assumes "w AND 0x7f = 0x03" "tc_load_op (f3_of w) \<noteq> RISCV_OP_ILLEGAL" "h_callback hk \<noteq> None"
  shows "\<exists>e. tc_emit at (tc_dec w off) m len = [e] \<and>
    same_step (pva_exec hk idx e w2 s) (exec_action hk (decode32 (regs s) w) off w 4 s)"
proof -
  let ?d = "tc_dec w off" and ?o = "tc_load_op (f3_of w)"
  have f3: "f3_of w \<noteq> 3" "\<not> f3_of w > 5"
    using assms(2) f3_cases [of w] by (auto simp: tc_load_op_def)
  have sw: "tc_switch w off = (?o, imm_I w, 0)" using assms(1) by (simp add: tc_switch_def Let_def)
  have rng: "RISCV_OP_LB \<le> ?o" "?o \<le> RISCV_OP_LHU" "?o < 64"
    using load_width [OF f3] by (auto simp: tc_load_op_def)
  have op: "dop ?d = ?o"
    using rng by (simp add: dec_fields sw tc_fold_x0_def op_nat)
  have em: "tc_emit at ?d m len = [pack2 ?o (rfield 7 w) (rfield 15 w) (imm_I w)]"
    using rng op emit_ri(2) [of ?d at m len] by (simp add: dec_fields sw)
  have act: "decode32 (regs s) w = A_load (f3_of w) (regs s (rfield 15 w)) (imm_I w) (rfield 7 w)"
    using assms(1) by (simp add: decode32_def Let_def)
  let ?ld = "ld_mem hk s (regs s (rfield 15 w) + imm_I w) (csize (f3_ty (f3_of w)))"
  let ?m = "if rfield 7 w = 0 then Some s
    else map_option (\<lambda>(v, s'). wr s' (rfield 7 w) (ccast (f3_ty (f3_of w)) v)) ?ld"
  have "exec_action hk (decode32 (regs s) w) off w 4 s = map_option (\<lambda>s'. (s', C_done)) ?m"
    using exec_load_ld_mem [OF f3 assms(3)] act
    by (auto simp: option.map_comp comp_def split_def)
  moreover have "pva_exec hk idx (pack2 ?o (rfield 7 w) (rfield 15 w) (imm_I w)) w2 s =
      map_option (\<lambda>s'. (s', 1, P_next 1)) ?m"
    by (simp add: pva_exec_load [OF pva_load_f3 [OF f3] rng(3)] imm_fields(1) set_reg_wr split_def)
  ultimately show ?thesis using em unfolding same_step_def by blast
qed

lemma line_store:
  assumes "w AND 0x7f = 0x23" "tc_store_op (f3_of w) \<noteq> RISCV_OP_ILLEGAL" "h_callback hk \<noteq> None"
  shows "\<exists>e. tc_emit at (tc_dec w off) m len = [e] \<and>
    same_step (pva_exec hk idx e w2 s) (exec_action hk (decode32 (regs s) w) off w 4 s)"
proof -
  let ?d = "tc_dec w off" and ?o = "tc_store_op (f3_of w)"
  have f3: "\<not> f3_of w > 2"
    using assms(2) f3_cases [of w] by (auto simp: tc_store_op_def)
  have sw: "tc_switch w off = (?o, imm_S w, 0)" using assms(1) by (simp add: tc_switch_def Let_def)
  have rng: "RISCV_OP_SB \<le> ?o" "?o \<le> RISCV_OP_SW" "?o < 64"
    using store_width [OF f3] by (auto simp: tc_store_op_def)
  have op: "dop ?d = ?o"
    using rng by (simp add: dec_fields sw tc_fold_x0_def op_nat)
  have em: "tc_emit at ?d m len = [pack2 ?o (rfield 20 w) (rfield 15 w) (imm_S w)]"
    using rng op emit_store [of ?d at m len] by (simp add: dec_fields sw)
  have act: "decode32 (regs s) w =
      A_store (f3_of w) (regs s (rfield 15 w)) (regs s (rfield 20 w)) (imm_S w)"
    using assms(1) by (simp add: decode32_def Let_def)
  have "exec_action hk (decode32 (regs s) w) off w 4 s = map_option (\<lambda>s'. (s', C_done))
      (st_mem hk s (regs s (rfield 15 w) + imm_S w) (push_bit (unat (f3_of w)) 1) (regs s (rfield 20 w)))"
    using exec_store_st_mem [OF f3 assms(3)] act by simp
  moreover have "pva_exec hk idx (pack2 ?o (rfield 20 w) (rfield 15 w) (imm_S w)) w2 s =
      map_option (\<lambda>s'. (s', 1, P_next 1))
        (st_mem hk s (regs s (rfield 15 w) + imm_S w) (push_bit (unat (f3_of w)) 1) (regs s (rfield 20 w)))"
    by (simp add: pva_exec_store [OF pva_store_f3 [OF f3] rng(3)] imm_fields(2))
  ultimately show ?thesis using em by (auto simp: same_step_def)
qed

lemma no_class:
  assumes "RISCV_OP_JAL \<le> op" "op < 64"
  shows "pva_rr (ucast op) = None" "pva_ri (ucast op) = None" "pva_load_ty (ucast op) = None"
    "pva_store_n (ucast op) = None" "pva_br (ucast op) = None"
proof -
  have "unat op < 2 ^ 32" using assms(2) by (simp add: word_less_nat_alt)
  then have "unat (ucast op :: u32) = unat op" by (simp add: unsigned_ucast_eq take_bit_nat_eq_self)
  then have "41 \<le> unat (ucast op :: u32)" using assms(1) by (simp add: word_le_nat_alt)
  then have ne: "ucast op \<noteq> (x :: u32)" if "unat x < 41" for x using that by auto
  show "pva_rr (ucast op) = None" "pva_ri (ucast op) = None" "pva_load_ty (ucast op) = None"
    "pva_store_n (ucast op) = None" "pva_br (ucast op) = None"
    by (simp_all add: pva_rr_def pva_ri_def pva_load_ty_def pva_store_n_def pva_br_def ne)
qed

lemma line_lui:
  assumes "w AND 0x7f = 0x37" "rfield 7 w \<noteq> 0"
  shows "\<exists>e. tc_emit at (tc_dec w off) m len = [e] \<and>
    same_step (pva_exec hk idx e w2 s) (exec_action hk (decode32 (regs s) w) off w 4 s)"
proof -
  let ?d = "tc_dec w off"
  define v where "v = drop_bit 12 w AND 0xfffff"
  have sw: "tc_switch w off = (RISCV_OP_LUI, v, 0)"
    using assms(1) by (simp add: tc_switch_def Let_def v_def)
  have op: "dop ?d = RISCV_OP_LUI" using assms(2) by (simp add: dec_fields sw tc_fold_x0_def)
  have em: "tc_emit at ?d m len = [pack1 RISCV_OP_LUI (rfield 7 w) (take_bit 20 v)]"
    using op emit_upper [of ?d at m len] by (simp add: dec_fields sw)
  have "pva_exec hk idx (pack1 RISCV_OP_LUI (rfield 7 w) (take_bit 20 v)) w2 s =
      Some (wr s (rfield 7 w) (imm_U w), 1, P_next 1)"
    using no_class [of RISCV_OP_LUI] assms(2) imm_fields(4) [of w, folded v_def]
    by (simp add: pva_exec_def TC_OP_pack TC_A_pack TC_UIMM_pack set_reg_wr)
  moreover have "exec_action hk (decode32 (regs s) w) off w 4 s = Some (wr s (rfield 7 w) (imm_U w), C_done)"
    using assms(1) by (simp add: decode32_def Let_def)
  ultimately show ?thesis using em by (simp add: same_step_Some [simplified])
qed

text \<open>The opcode behind a straight-line op.\<close>

lemma line_op_opcode:
  assumes "line_op (dop (tc_dec w off))"
  shows "w AND 0x7f = 0x13 \<and> rfield 7 w \<noteq> 0 \<or> w AND 0x7f = 0x33 \<and> rfield 7 w \<noteq> 0 \<or>
    w AND 0x7f = 0x03 \<and> tc_load_op (f3_of w) \<noteq> RISCV_OP_ILLEGAL \<or>
    w AND 0x7f = 0x23 \<and> tc_store_op (f3_of w) \<noteq> RISCV_OP_ILLEGAL \<or>
    w AND 0x7f = 0x37 \<and> rfield 7 w \<noteq> 0"
proof -
  have br: "\<not> line_op (tc_branch_op f3)" for f3 by (simp add: tc_branch_op_def line_op_def)
  have ill: "\<not> line_op RISCV_OP_ILLEGAL" "\<not> line_op RISCV_OP_NOP" by (simp_all add: line_op_def)
  have other: "\<not> line_op RISCV_OP_JAL" "\<not> line_op RISCV_OP_JALR" "\<not> line_op RISCV_OP_AUIPC"
    "\<not> line_op RISCV_OP_MEMOP" "\<not> line_op RISCV_OP_ECALL" "\<not> line_op RISCV_OP_EBREAK"
    by (simp_all add: line_op_def)
  let ?o = "fst (tc_switch w off)"
  have l: "line_op ?o" using assms ill(2) by (auto simp: dec_fields tc_fold_x0_def split: if_splits)
  have nz: "rfield 7 w \<noteq> 0" if "?o \<le> RISCV_OP_REMU \<or> ?o = RISCV_OP_LUI"
    using that assms ill(2) by (auto simp: dec_fields tc_fold_x0_def)
  have small: "RISCV_OP_ADDI + ucast (f3_of w) \<le> RISCV_OP_REMU" "RISCV_OP_MUL + ucast (f3_of w) \<le> RISCV_OP_REMU"
    "RISCV_OP_ADD + ucast (f3_of w) \<le> RISCV_OP_REMU"
    using f3_cases [of w] by (elim disjE; simp)+
  consider "w AND 0x7f = 0x13" | "w AND 0x7f = 0x33" | "w AND 0x7f = 0x03" | "w AND 0x7f = 0x23"
    | "w AND 0x7f = 0x37" | "w AND 0x7f \<notin> {0x13, 0x33, 0x03, 0x23, 0x37}" by blast
  then show ?thesis
  proof cases
    case 1
    with nz small show ?thesis by (simp add: tc_switch_def Let_def split: if_splits)
  next
    case 2
    with nz small show ?thesis by (simp add: tc_switch_def Let_def split: if_splits)
  next
    case 3
    with l ill show ?thesis by (auto simp: tc_switch_def Let_def)
  next
    case 4
    with l ill show ?thesis by (auto simp: tc_switch_def Let_def)
  next
    case 5
    with nz show ?thesis by (simp add: tc_switch_def Let_def)
  next
    case 6
    with l br ill other show ?thesis by (simp add: tc_switch_def Let_def split: if_splits)
  qed
qed

lemma line_instruction_step:
  assumes "line_op (dop (tc_dec w off))" "\<not> reserved_op w 4" "h_callback hk \<noteq> None"
  shows "\<exists>e. tc_emit at (tc_dec w off) m len = [e] \<and>
    same_step (pva_exec hk idx e w2 s) (exec_action hk (decode32 (regs s) w) off w 4 s)"
  using line_op_opcode [OF assms(1)] line_opimm line_op_op [OF _ _ assms(2)]
    line_load [OF _ _ assms(3)] line_store [OF _ _ assms(3)] line_lui
  by (elim disjE conjE) blast+

section \<open>Dropped instructions\<close>

text \<open>What the transcoder drops has no effect: \<open>fence\<close> and pure writes to \<open>x0\<close>.\<close>

lemma nop_instruction_step:
  assumes "dop (tc_dec w off) = RISCV_OP_NOP"
  shows "exec_action hk (decode32 (regs s) w) off w 4 s = Some (s, C_done)"
proof -
  have wr0: "wr s 0 v = s" for v by (simp add: wr_def)
  let ?o = "fst (tc_switch w off)"
  have o: "rfield 7 w = 0 \<and> (?o \<le> RISCV_OP_REMU \<or> ?o = RISCV_OP_LUI \<or> ?o = RISCV_OP_AUIPC) \<or>
      ?o = RISCV_OP_NOP"
    using assms by (auto simp: dec_fields tc_fold_x0_def split: if_splits)
  have ne: "tc_load_op (f3_of w) \<noteq> RISCV_OP_NOP \<and> \<not> tc_load_op (f3_of w) \<le> RISCV_OP_REMU \<and>
      tc_load_op (f3_of w) \<noteq> RISCV_OP_LUI \<and> tc_load_op (f3_of w) \<noteq> RISCV_OP_AUIPC"
    "tc_store_op (f3_of w) \<noteq> RISCV_OP_NOP \<and> \<not> tc_store_op (f3_of w) \<le> RISCV_OP_REMU \<and>
      tc_store_op (f3_of w) \<noteq> RISCV_OP_LUI \<and> tc_store_op (f3_of w) \<noteq> RISCV_OP_AUIPC"
    "tc_branch_op (f3_of w) \<noteq> RISCV_OP_NOP \<and> \<not> tc_branch_op (f3_of w) \<le> RISCV_OP_REMU \<and>
      tc_branch_op (f3_of w) \<noteq> RISCV_OP_LUI \<and> tc_branch_op (f3_of w) \<noteq> RISCV_OP_AUIPC"
    by (simp_all add: tc_load_op_def tc_store_op_def tc_branch_op_def)
  have rd: "RISCV_OP_ADDI + ucast (f3_of w) \<noteq> RISCV_OP_NOP" "RISCV_OP_MUL + ucast (f3_of w) \<noteq> RISCV_OP_NOP"
    "RISCV_OP_ADD + ucast (f3_of w) \<noteq> RISCV_OP_NOP"
    using f3_cases [of w] by (elim disjE; simp)+
  consider "w AND 0x7f = 0x13" | "w AND 0x7f = 0x33" | "w AND 0x7f \<in> {0x37, 0x17}" | "w AND 0x7f = 0x0f"
    | "w AND 0x7f \<notin> {0x13, 0x33, 0x37, 0x17, 0x0f}" by blast
  then show ?thesis
  proof cases
    case 1
    then have "rfield 7 w = 0" using o rd by (auto simp: tc_switch_def Let_def split: if_splits)
    with 1 show ?thesis by (simp add: decode32_def Let_def wr0)
  next
    case 2
    then have "rfield 7 w = 0" using o rd by (auto simp: tc_switch_def Let_def split: if_splits)
    with 2 show ?thesis by (simp add: decode32_def Let_def wr0)
  next
    case 3
    then have "rfield 7 w = 0" using o by (auto simp: tc_switch_def Let_def)
    with 3 show ?thesis by (auto simp: decode32_def Let_def wr0)
  next
    case 4
    with o show ?thesis by (auto simp: tc_switch_def decode32_def Let_def split: if_splits)
  next
    case 5
    with o ne show ?thesis by (simp add: tc_switch_def Let_def split: if_splits)
  qed
qed

section \<open>Address constants\<close>

text \<open>
  An \<open>auipc\<close> whose value lies in a data cluster becomes a load-immediate with exactly the value the
  instruction has at its own address.
\<close>

lemma li_value:
  assumes "- (2 ^ 20) \<le> sint v" "sint v < 2 ^ 20"
  shows "sext (v AND 0x1fffff) 21 = (v :: u32)"
proof -
  have "sext (v AND 0x1fffff) 21 = sext v 21"
    unfolding mask_fields by (rule sext_low) simp_all
  also have "\<dots> = v"
    using sext_of_int [of 21 "sint v"] assms by simp
  finally show ?thesis .
qed

lemma pva_exec_li:
  "pva_exec hk idx (pack1 RISCV_OP_LI_LO a x) w2 s = Some (set_reg s a (sext x 21), 1, P_next 1)"
  "pva_exec hk idx (pack1 RISCV_OP_LI_HI a x) w2 s = Some (set_reg s a (sext x 21 + RISCV_HALF), 1, P_next 1)"
  using no_class [of RISCV_OP_LI_LO] no_class [of RISCV_OP_LI_HI]
  by (simp_all add: pva_exec_def TC_OP_pack TC_A_pack TC_JOFF_pack)

text \<open>What \<open>la\<close> and a lone \<open>auipc\<close> become, executed.\<close>

lemma li_lo_emit:
  assumes "dop d = RISCV_OP_LI_LO" "dimm d = v AND 0x1fffff" "near v" "drd d \<noteq> 0"
  shows "\<exists>e. tc_emit at d m len = [e] \<and> pva_exec hk idx e w2 s = Some (wr s (drd d) v, 1, P_next 1)"
  using assms li_value [of v] emit_li [of d at m len]
  by (simp add: near_def set_reg_wr pva_exec_li)

lemma li_hi_emit:
  assumes "dop d = RISCV_OP_LI_HI" "dimm d = (v - RISCV_HALF) AND 0x1fffff" "near (v - RISCV_HALF)"
    "drd d \<noteq> 0"
  shows "\<exists>e. tc_emit at d m len = [e] \<and> pva_exec hk idx e w2 s = Some (wr s (drd d) v, 1, P_next 1)"
  using assms li_value [of "v - RISCV_HALF"] emit_li [of d at m len]
  by (simp add: near_def set_reg_wr pva_exec_li)

section \<open>What a decoded op tells of the instruction\<close>

lemma f3_op_eq:
  "tc_load_op f3 = RISCV_OP_LW \<longleftrightarrow> f3 = 2" "tc_load_op f3 = RISCV_OP_LBU \<longleftrightarrow> f3 = 4"
  "tc_store_op f3 = RISCV_OP_SW \<longleftrightarrow> f3 = 2"
  "tc_branch_op f3 = RISCV_OP_BEQ \<longleftrightarrow> f3 = 0" "tc_branch_op f3 = RISCV_OP_BNE \<longleftrightarrow> f3 = 1"
  by (auto simp: tc_load_op_def tc_store_op_def tc_branch_op_def)

lemma alu_op_eq:
  "RISCV_OP_ADD + ucast (f3_of w) = RISCV_OP_ADD \<longleftrightarrow> f3_of w = 0"
  "RISCV_OP_ADDI + ucast (f3_of w) = RISCV_OP_ADDI \<longleftrightarrow> f3_of w = 0"
  "RISCV_OP_ADDI + ucast (f3_of w) = RISCV_OP_SLLI \<longleftrightarrow> f3_of w = 1"
  "RISCV_OP_MUL + ucast (f3_of w) \<noteq> RISCV_OP_ADD"
  using f3_cases [of w] by (elim disjE; simp)+

lemma op_range:
  "RISCV_OP_ADD + ucast (f3_of w) \<le> RISCV_OP_AND" "RISCV_OP_MUL \<le> RISCV_OP_MUL + ucast (f3_of w)"
  "RISCV_OP_MUL + ucast (f3_of w) \<le> RISCV_OP_REMU"
  "RISCV_OP_ADDI \<le> RISCV_OP_ADDI + ucast (f3_of w)" "RISCV_OP_ADDI + ucast (f3_of w) \<le> RISCV_OP_ANDI"
  using f3_cases [of w] by (elim disjE; simp)+

lemma f3_op_range:
  "RISCV_OP_LB \<le> tc_load_op f3" "tc_load_op f3 \<le> RISCV_OP_LHU \<or> tc_load_op f3 = RISCV_OP_ILLEGAL"
  "RISCV_OP_SB \<le> tc_store_op f3" "tc_store_op f3 \<le> RISCV_OP_SW \<or> tc_store_op f3 = RISCV_OP_ILLEGAL"
  "RISCV_OP_BEQ \<le> tc_branch_op f3" "tc_branch_op f3 \<le> RISCV_OP_BGEU \<or> tc_branch_op f3 = RISCV_OP_ILLEGAL"
  by (simp_all add: tc_load_op_def tc_store_op_def tc_branch_op_def)

text \<open>The major opcode behind each class of ops.\<close>

lemma switch_opcode:
  assumes "fst (tc_switch w off) = op"
  shows "RISCV_OP_ADDI \<le> op \<and> op \<le> RISCV_OP_SRAI \<Longrightarrow> w AND 0x7f = 0x13"
    "op \<le> RISCV_OP_SRA \<Longrightarrow> w AND 0x7f = 0x33"
    "RISCV_OP_LB \<le> op \<and> op \<le> RISCV_OP_LHU \<Longrightarrow> w AND 0x7f = 0x03"
    "RISCV_OP_SB \<le> op \<and> op \<le> RISCV_OP_SW \<Longrightarrow> w AND 0x7f = 0x23"
    "RISCV_OP_BEQ \<le> op \<and> op \<le> RISCV_OP_BGEU \<Longrightarrow> w AND 0x7f = 0x63"
    "op = RISCV_OP_JAL \<Longrightarrow> w AND 0x7f = 0x6f"
    "op = RISCV_OP_JALR \<Longrightarrow> w AND 0x7f = 0x67"
    "op = RISCV_OP_AUIPC \<Longrightarrow> w AND 0x7f = 0x17"
  using assms op_range [of w] f3_op_range [of "f3_of w"]
  by (auto simp: tc_switch_def Let_def op_nat split: if_splits)

end
