(* ===== verification/Purva_Fused.thy ===== *)
theory Purva_Fused
  imports Purva_Sem
begin

text \<open>
  The op words that stand for several instructions, and the ones that leave the line, against the
  instructions executed one after the other by purv.
\<close>

section \<open>Instructions in sequence\<close>

text \<open>One raw 32-bit instruction executed by purv at its own address, and several in a row.\<close>

definition insn :: "'w hooks \<Rightarrow> u32 \<Rightarrow> u32 \<Rightarrow> 'w vm \<Rightarrow> ('w vm \<times> ctl) option" where
  "insn hk off w s = exec_action hk (decode32 (regs s) w) off w 4 s"

fun insns :: "'w hooks \<Rightarrow> u32 \<Rightarrow> u32 list \<Rightarrow> 'w vm \<Rightarrow> ('w vm \<times> ctl) option" where
  "insns hk off [] s = Some (s, C_done)"
| "insns hk off (w # ws) s =
     (case insn hk off w s of Some (s', C_done) \<Rightarrow> insns hk (off + 4) ws s' | r \<Rightarrow> r)"

section \<open>What a decoded op says of the instruction\<close>

lemma dop_switch: "dop (tc_dec w off) = op \<Longrightarrow> op \<noteq> RISCV_OP_NOP \<Longrightarrow> fst (tc_switch w off) = op"
  by (auto simp: dec_fields tc_fold_x0_def split: if_splits)

lemma dop_rd:
  "dop (tc_dec w off) = op \<Longrightarrow> op \<noteq> RISCV_OP_NOP \<Longrightarrow> op \<le> RISCV_OP_REMU \<or> op = RISCV_OP_LUI \<or> op = RISCV_OP_AUIPC \<Longrightarrow>
     drd (tc_dec w off) \<noteq> 0"
  by (auto simp: dec_fields tc_fold_x0_def split: if_splits)

lemma insn_slli:
  assumes "dop (tc_dec w off) = RISCV_OP_SLLI"
  shows "insn hk off w s = (let d = tc_dec w off
    in Some (wr s (drd d) (push_bit (unat (dimm d AND 31)) (regs s (drs1 d))), C_done))"
    "dimm (tc_dec w off) AND 31 = dimm (tc_dec w off)"
proof -
  have sw: "fst (tc_switch w off) = RISCV_OP_SLLI" using dop_switch [OF assms] by simp
  have o: "w AND 0x7f = 0x13" using switch_opcode(1) [OF sw] by simp
  with sw have f: "f3_of w = 1" using alu_op_eq(3) [of w] by (auto simp: tc_switch_def Let_def split: if_splits)
  with o have i: "dimm (tc_dec w off) = drop_bit 20 w AND 31"
    by (simp add: dec_fields tc_switch_def Let_def)
  show "dimm (tc_dec w off) AND 31 = dimm (tc_dec w off)" by (simp add: i and.assoc)
  with i o f show "insn hk off w s = (let d = tc_dec w off
    in Some (wr s (drd d) (push_bit (unat (dimm d AND 31)) (regs s (drs1 d))), C_done))"
    by (simp add: insn_def decode32_def Let_def alu_def dec_fields(1,3) dec_fields(2))
qed

lemma insn_add:
  assumes "dop (tc_dec w off) = RISCV_OP_ADD"
  shows "insn hk off w s = (let d = tc_dec w off
    in Some (wr s (drd d) (regs s (drs1 d) + regs s (drs2 d)), C_done))"
proof -
  have sw: "fst (tc_switch w off) = RISCV_OP_ADD" using dop_switch [OF assms] by simp
  have o: "w AND 0x7f = 0x33" using switch_opcode(2) [OF sw] by simp
  with sw have f: "f3_of w = 0" "f7_of w \<noteq> 1" "f7_of w \<noteq> 0x20"
    using alu_op_eq(1,4) [of w] by (auto simp: tc_switch_def Let_def split: if_splits)
  with o show ?thesis by (simp add: insn_def decode32_def Let_def alu_def dec_fields)
qed

lemma insn_addi:
  assumes "dop (tc_dec w off) = RISCV_OP_ADDI"
  shows "insn hk off w s = (let d = tc_dec w off
    in Some (wr s (drd d) (regs s (drs1 d) + dimm d), C_done))"
proof -
  have sw: "fst (tc_switch w off) = RISCV_OP_ADDI" using dop_switch [OF assms] by simp
  have o: "w AND 0x7f = 0x13" using switch_opcode(1) [OF sw] by simp
  with sw have f: "f3_of w = 0"
    using alu_op_eq(2) [of w] by (auto simp: tc_switch_def Let_def split: if_splits)
  with o show ?thesis by (simp add: insn_def decode32_def Let_def alu_def dec_fields tc_switch_def)
qed

text \<open>A load's destination register is written unless it is \<open>x0\<close>.\<close>

lemma insn_load:
  assumes "dop (tc_dec w off) = op" "op = RISCV_OP_LW \<and> T = Int32 \<or> op = RISCV_OP_LBU \<and> T = Uint8"
    and "h_callback hk \<noteq> None" "drd (tc_dec w off) \<noteq> 0"
  shows "insn hk off w s = (let d = tc_dec w off
    in map_option (\<lambda>(v, s'). (wr s' (drd d) (ccast T v), C_done))
         (ld_mem hk s (regs s (drs1 d) + dimm d) (csize T)))"
proof -
  have "op \<noteq> RISCV_OP_NOP" using assms(2) by auto
  then have sw: "fst (tc_switch w off) = op" using dop_switch [OF assms(1)] by simp
  have o: "w AND 0x7f = 0x03" using switch_opcode(3) [OF sw] assms(2) by auto
  with sw assms(2) have f: "f3_of w = 2 \<and> T = Int32 \<or> f3_of w = 4 \<and> T = Uint8"
    using f3_op_eq(1,2) [of "f3_of w"] by (auto simp: tc_switch_def Let_def)
  then have f3: "f3_of w \<noteq> 3" "\<not> f3_of w > 5" and T: "f3_ty (f3_of w) = T"
    by (auto simp: f3_ty_def)
  from o assms(4) show ?thesis
    by (simp add: insn_def decode32_def Let_def exec_load_ld_mem [OF f3 assms(3)] T dec_fields tc_switch_def)
qed

lemma insn_sw:
  assumes "dop (tc_dec w off) = RISCV_OP_SW" "h_callback hk \<noteq> None"
  shows "insn hk off w s = (let d = tc_dec w off
    in map_option (\<lambda>s'. (s', C_done)) (st_mem hk s (regs s (drs1 d) + dimm d) 4 (regs s (drs2 d))))"
proof -
  have sw: "fst (tc_switch w off) = RISCV_OP_SW" using dop_switch [OF assms(1)] by simp
  have o: "w AND 0x7f = 0x23" using switch_opcode(4) [OF sw] by simp
  with sw have f: "f3_of w = 2" using f3_op_eq(3) [of "f3_of w"] by (simp add: tc_switch_def Let_def)
  have "exec_store hk 2 a b i off w s = map_option (\<lambda>s'. (s', C_done)) (st_mem hk s (a + i) 4 b)" for a b i
    using exec_store_st_mem [of 2 hk a b i off w s] assms(2) by simp
  with o show ?thesis by (simp add: insn_def decode32_def Let_def dec_fields tc_switch_def f)
qed

lemma insn_jalr:
  assumes "dop (tc_dec w off) = RISCV_OP_JALR"
  shows "insn hk off w s = (let d = tc_dec w off
    in Some (wr s (drd d) (off + 4), C_goto ((regs s (drs1 d) + dimm d) AND NOT 1)))"
proof -
  have sw: "fst (tc_switch w off) = RISCV_OP_JALR" using dop_switch [OF assms] by simp
  have "w AND 0x7f = 0x67" using switch_opcode(7) [OF sw] by simp
  then show ?thesis by (simp add: insn_def decode32_def Let_def dec_fields tc_switch_def)
qed

lemma insn_jal:
  assumes "dop (tc_dec w off) = RISCV_OP_JAL"
  shows "insn hk off w s = (let d = tc_dec w off
    in Some (wr s (drd d) (off + 4), C_goto (dtarget d)))"
proof -
  have sw: "fst (tc_switch w off) = RISCV_OP_JAL" using dop_switch [OF assms] by simp
  have "w AND 0x7f = 0x6f" using switch_opcode(6) [OF sw] by simp
  then show ?thesis by (simp add: insn_def decode32_def Let_def dec_fields tc_switch_def)
qed

lemma insn_auipc:
  assumes "dop (tc_dec w off) = RISCV_OP_AUIPC"
  shows "insn hk off w s = (let d = tc_dec w off
    in Some (wr s (drd d) (off + push_bit 12 (dimm d)), C_done))"
proof -
  have sw: "fst (tc_switch w off) = RISCV_OP_AUIPC" using dop_switch [OF assms] by simp
  have "w AND 0x7f = 0x17" using switch_opcode(8) [OF sw] by simp
  moreover have "push_bit 12 (drop_bit 12 w AND 0xfffff) = imm_U w"
    using imm_fields(4) [of w] unfolding mask_fields by simp
  ultimately show ?thesis by (simp add: insn_def decode32_def Let_def dec_fields tc_switch_def)
qed

text \<open>The branches: the evaluator's comparison is purv's.\<close>

lemma pva_br_f3:
  assumes "tc_branch_op f3 \<noteq> RISCV_OP_ILLEGAL"
  shows "pva_rr (ucast (tc_branch_op f3)) = None" "pva_ri (ucast (tc_branch_op f3)) = None"
    "pva_load_ty (ucast (tc_branch_op f3)) = None" "pva_store_n (ucast (tc_branch_op f3)) = None"
    "\<exists>t. pva_br (ucast (tc_branch_op f3)) = Some t \<and> (\<forall>a b. branch_take f3 a b = Some (t a b))"
proof -
  consider "f3 = 0" | "f3 = 1" | "f3 = 4" | "f3 = 5" | "f3 = 6" | "f3 = 7"
    using assms by (auto simp: tc_branch_op_def split: if_splits)
  then show "pva_rr (ucast (tc_branch_op f3)) = None" "pva_ri (ucast (tc_branch_op f3)) = None"
    "pva_load_ty (ucast (tc_branch_op f3)) = None" "pva_store_n (ucast (tc_branch_op f3)) = None"
    "\<exists>t. pva_br (ucast (tc_branch_op f3)) = Some t \<and> (\<forall>a b. branch_take f3 a b = Some (t a b))"
    by (cases; simp add: tc_branch_op_def pva_rr_def pva_ri_def pva_load_ty_def pva_store_n_def
        pva_br_def branch_take_def)+
qed

lemma branch_op_ne: "RISCV_OP_BEQ \<le> tc_branch_op f3 \<and> tc_branch_op f3 \<le> RISCV_OP_BGEU \<Longrightarrow>
    tc_branch_op f3 \<noteq> RISCV_OP_ILLEGAL"
  by auto

lemma insn_branch:
  assumes "RISCV_OP_BEQ \<le> dop (tc_dec w off)" "dop (tc_dec w off) \<le> RISCV_OP_BGEU"
  shows "\<exists>t. pva_br (ucast (dop (tc_dec w off))) = Some t \<and>
    insn hk off w s = (let d = tc_dec w off
      in Some (s, if t (regs s (drs1 d)) (regs s (drs2 d)) then C_goto (dtarget d) else C_done)) \<and>
    pva_rr (ucast (dop (tc_dec w off))) = None \<and> pva_ri (ucast (dop (tc_dec w off))) = None \<and>
    pva_load_ty (ucast (dop (tc_dec w off))) = None \<and> pva_store_n (ucast (dop (tc_dec w off))) = None"
proof -
  have "dop (tc_dec w off) \<noteq> RISCV_OP_NOP" using assms by auto
  then have sw: "fst (tc_switch w off) = dop (tc_dec w off)" using dop_switch by blast
  have o: "w AND 0x7f = 0x63" using switch_opcode(5) [OF sw] assms by simp
  then have e: "dop (tc_dec w off) = tc_branch_op (f3_of w)"
    using sw by (simp add: tc_switch_def Let_def)
  have "tc_branch_op (f3_of w) \<noteq> RISCV_OP_ILLEGAL" using assms e by auto
  note b = pva_br_f3 [OF this]
  from b(5) obtain t where t: "pva_br (ucast (tc_branch_op (f3_of w))) = Some t"
    "\<And>a b. branch_take (f3_of w) a b = Some (t a b)" by blast
  have "insn hk off w s = (let d = tc_dec w off
      in Some (s, if t (regs s (drs1 d)) (regs s (drs2 d)) then C_goto (dtarget d) else C_done))"
    using o by (simp add: insn_def decode32_def Let_def t(2) dec_fields tc_switch_def)
  with t(1) b(1-4) e show ?thesis by auto
qed

section \<open>Fused pairs\<close>

text \<open>
  A callback that neither reads nor writes the registers, such as a device: a fused pair calls it
  before the intermediate register is written.
\<close>

definition reg_blind :: "'w hooks \<Rightarrow> bool" where
  "reg_blind hk = (\<exists>cb. h_callback hk = Some cb \<and>
     (\<forall>s op a v x. cb (s\<lparr>regs := x\<rparr>) op a v = (case cb s op a v of (r, s') \<Rightarrow> (r, s'\<lparr>regs := x\<rparr>))))"

lemma reg_blind_callback: "reg_blind hk \<Longrightarrow> h_callback hk \<noteq> None"
  by (auto simp: reg_blind_def)

lemma region_regs [simp]:
  "mem_r (s\<lparr>regs := x\<rparr>) a n = mem_r s a n" "mem_w (s\<lparr>regs := x\<rparr>) a n = mem_w s a n"
  by (simp_all add: mem_r_def mem_w_def cong: option.case_cong)

lemma rd8_regs [simp]: "rd8 (s\<lparr>regs := x\<rparr>) q i = rd8 s q i"
  by (cases q) simp_all

lemma ld_le_regs [simp]: "ld_le (s\<lparr>regs := x\<rparr>) q n = ld_le s q n"
  by (simp add: ld_le_def cong: if_cong)

lemma wr8_regs: "wr8 (s\<lparr>regs := x\<rparr>) q i b = map_option (\<lambda>s'. s'\<lparr>regs := x\<rparr>) (wr8 s q i b)"
  by (cases q) (auto simp: option.map_comp comp_def intro!: option.map_cong0)

lemma st_le_regs: "st_le (s\<lparr>regs := x\<rparr>) q n v = map_option (\<lambda>s'. s'\<lparr>regs := x\<rparr>) (st_le s q n v)"
  by (auto simp: st_le_def wr8_regs split: Option.bind_split)

lemma ld_mem_regs:
  assumes "reg_blind hk"
  shows "ld_mem hk (s\<lparr>regs := x\<rparr>) a n = map_option (\<lambda>(v, s'). (v, s'\<lparr>regs := x\<rparr>)) (ld_mem hk s a n)"
  using assms by (auto simp: ld_mem_def reg_blind_def option.map_comp comp_def split: option.split prod.split)

lemma st_mem_regs:
  assumes "reg_blind hk"
  shows "st_mem hk (s\<lparr>regs := x\<rparr>) a n v = map_option (\<lambda>s'. s'\<lparr>regs := x\<rparr>) (st_mem hk s a n v)"
  using assms by (auto simp: st_mem_def reg_blind_def st_le_regs split: option.split prod.split)

lemma ld_mem_keeps_regs: "reg_blind hk \<Longrightarrow> ld_mem hk s a n = Some (v, s') \<Longrightarrow> regs s' = regs s"
  using ld_mem_regs [of hk "regs s" s a n] by (auto dest: arg_cong [where f = regs])

lemma st_mem_keeps_regs: "reg_blind hk \<Longrightarrow> st_mem hk s a n v = Some s' \<Longrightarrow> regs s' = regs s"
  using st_mem_regs [of hk "regs s" s a n v] by (auto dest: arg_cong [where f = regs])

text \<open>What a pair leaves, for the pairs that stay in line.\<close>

definition same_pair :: "'w pres \<Rightarrow> ('w vm \<times> ctl) option \<Rightarrow> bool" where
  "same_pair r e = (\<exists>m. e = map_option (\<lambda>s'. (s', C_done)) m \<and> r = map_option (\<lambda>s'. (s', 2, P_next 1)) m)"

lemma same_pairI:
  "e = map_option (\<lambda>s'. (s', C_done)) m \<Longrightarrow> r = map_option (\<lambda>s'. (s', 2, P_next 1)) m \<Longrightarrow> same_pair r e"
  by (auto simp: same_pair_def)

lemmas pack_read = TC_OP_pack TC_A_pack TC_B_pack TC_C_pack TC_IMM_pack TC_OFF11_pack TC_SH_pack TC_W_pack

lemma pva_exec_fused:
  "pva_exec hk idx (pack3 RISCV_OP_SHADD a b c x) w2 s = h_shadd (pack3 RISCV_OP_SHADD a b c x) s"
  "pva_exec hk idx (pack3 RISCV_OP_LWX a b c x) w2 s = h_lwx hk (pack3 RISCV_OP_LWX a b c x) s"
  "pva_exec hk idx (pack2 RISCV_OP_LWLW a b x) w2 s = h_lwlw hk (pack2 RISCV_OP_LWLW a b x) s"
  "pva_exec hk idx (pack3 RISCV_OP_LWSW a b c x) w2 s = h_lwsw hk (pack3 RISCV_OP_LWSW a b c x) s"
  "pva_exec hk idx (pack2 RISCV_OP_LW_BZ a b x) w2 s = LOADBZ hk Int32 idx (pack2 RISCV_OP_LW_BZ a b x) w2 s"
  "pva_exec hk idx (pack2 RISCV_OP_LBU_BZ a b x) w2 s = LOADBZ hk Uint8 idx (pack2 RISCV_OP_LBU_BZ a b x) w2 s"
  "pva_exec hk idx (pack2 RISCV_OP_VCALL a b x) w2 s = h_vcall hk idx (pack2 RISCV_OP_VCALL a b x) s"
  "pva_exec hk idx (pack0 RISCV_OP_PROLOGUE x) w2 s = h_prologue hk (pack0 RISCV_OP_PROLOGUE x) s"
  "pva_exec hk idx (pack0 RISCV_OP_EPILOGUE x) w2 s = h_epilogue hk (pack0 RISCV_OP_EPILOGUE x) s"
  using no_class [of RISCV_OP_SHADD] no_class [of RISCV_OP_LWX] no_class [of RISCV_OP_LWLW]
    no_class [of RISCV_OP_LWSW] no_class [of RISCV_OP_LW_BZ] no_class [of RISCV_OP_LBU_BZ]
    no_class [of RISCV_OP_VCALL] no_class [of RISCV_OP_PROLOGUE] no_class [of RISCV_OP_EPILOGUE]
  by (simp_all add: pva_exec_def TC_OP_pack)

lemma insns_pair:
  "insn hk off w1 s = map_option (\<lambda>s'. (s', C_done)) m \<Longrightarrow>
     insns hk off [w1, w2] s = Option.bind m (\<lambda>s'. case insn hk (off + 4) w2 s' of
        Some (s2, C_done) \<Rightarrow> Some (s2, C_done) | r \<Rightarrow> r)"
  by (cases m) (auto split: option.split ctl.split)

lemma set_reg_wr_simps:
  "a \<noteq> 0 \<Longrightarrow> wr s a v = s\<lparr>regs := (regs s)(a := v)\<rparr>" "set_reg s a v = s\<lparr>regs := (regs s)(a := v)\<rparr>"
  by (simp_all add: wr_def set_reg_def)

text \<open>\<open>slli; add\<close>.\<close>

lemma shadd_step:
  assumes "pair_shadd (tc_dec w1 off) (tc_dec w2 (off + 4)) = Some d"
  shows "\<exists>e. tc_emit at d m len = [e] \<and> same_pair (pva_exec hk idx e x s) (insns hk off [w1, w2] s)"
proof -
  let ?a = "tc_dec w1 off" and ?b = "tc_dec w2 (off + 4)"
  have op: "dop ?a = RISCV_OP_SLLI" "dop ?b = RISCV_OP_ADD" "drd ?b = drd ?a"
    using assms by (auto simp: pair_shadd_def split: if_splits)
  obtain r where r: "r \<noteq> drd ?a" "d = \<lparr>dop = RISCV_OP_SHADD, drd = drd ?a, drs1 = r, drs2 = drs1 ?a,
      dimm = dimm ?a, dtarget = 0\<rparr>" "drs1 ?b = drd ?a \<and> drs2 ?b = r \<or> drs2 ?b = drd ?a \<and> drs1 ?b = r"
    using assms op by (auto simp: pair_shadd_def Let_def split: if_splits option.splits)
  have rd: "drd ?a \<noteq> 0" using dop_rd [OF op(1)] by simp
  have im: "take_bit 5 (dimm ?a) = dimm ?a" using insn_slli(2) [OF op(1)] by (simp add: mask_fields)
  let ?v = "regs s r + push_bit (unat (dimm ?a)) (regs s (drs1 ?a))"
  have em: "tc_emit at d m len = [pack3 RISCV_OP_SHADD (drd ?a) r (drs1 ?a) (push_bit 6 (take_bit 5 (dimm ?a)))]"
    using emit_fused3(1) [of d at m len] r(2) by simp
  have x: "pva_exec hk idx (pack3 RISCV_OP_SHADD (drd ?a) r (drs1 ?a) (push_bit 6 (take_bit 5 (dimm ?a)))) x s =
      Some (wr s (drd ?a) ?v, 2, P_next 1)"
    unfolding pva_exec_fused h_shadd_def TC_SH_pack unfolding pack_read im by (simp add: set_reg_wr [OF rd])
  have y: "insns hk off [w1, w2] s = Some (wr s (drd ?a) ?v, C_done)"
    using r rd op(3) im
    by (auto simp: insn_slli(1) [OF op(1)] insn_add [OF op(2)] Let_def mask_fields set_reg_wr_simps add.commute)
  show ?thesis using em x y by (auto simp: same_pair_def intro!: exI [of _ "Some (wr s (drd ?a) ?v)"])
qed

text \<open>\<open>add; lw\<close>.\<close>

lemma bind_map_pair: "Option.bind (map_option g m) h = Option.bind m (\<lambda>x. h (g x))"
  by (cases m) simp_all

lemma sext_id:
  assumes "- (2 ^ (n - 1)) \<le> sint v" "sint v < 2 ^ (n - 1)" "0 < n" "n \<le> 32"
  shows "sext v n = v"
  using sext_of_int [of n "sint v"] assms by simp

lemma lwx_step:
  assumes "pair_lwx (tc_dec w1 off) (tc_dec w2 (off + 4)) = Some d" "reg_blind hk"
  shows "\<exists>e. tc_emit at d m len = [e] \<and> same_pair (pva_exec hk idx e x s) (insns hk off [w1, w2] s)"
proof -
  let ?a = "tc_dec w1 off" and ?b = "tc_dec w2 (off + 4)"
  have op: "dop ?a = RISCV_OP_ADD" "dop ?b = RISCV_OP_LW" "drd ?a \<noteq> 0" "drd ?b = drd ?a" "drs1 ?b = drd ?a"
    "sext (dimm ?b) 11 = dimm ?b"
    and d: "d = \<lparr>dop = RISCV_OP_LWX, drd = drd ?a, drs1 = drs1 ?a, drs2 = drs2 ?a, dimm = dimm ?b, dtarget = 0\<rparr>"
    using assms(1) by (auto simp: pair_lwx_def intro!: sext_id split: if_splits)
  have em: "tc_emit at d m len = [pack3 RISCV_OP_LWX (drd ?a) (drs1 ?a) (drs2 ?a) (dimm ?b)]"
    using emit_fused3(2) [of d at m len] d by simp
  let ?m = "map_option (\<lambda>(v, s'). s'\<lparr>regs := (regs s)(drd ?a := v)\<rparr>)
      (ld_mem hk s (regs s (drs1 ?a) + regs s (drs2 ?a) + dimm ?b) 4)"
  have x: "pva_exec hk idx (pack3 RISCV_OP_LWX (drd ?a) (drs1 ?a) (drs2 ?a) (dimm ?b)) x s =
      map_option (\<lambda>s'. (s', 2, P_next 1)) ?m"
    unfolding pva_exec_fused h_lwx_def pack_read op(6)
    by (auto simp: set_reg_wr_simps option.map_comp comp_def ld_mem_keeps_regs [OF assms(2)]
        intro!: option.map_cong)
  have "drd ?b \<noteq> 0" using op(3,4) by simp
  note ld = insn_load [OF op(2) _ reg_blind_callback [OF assms(2)] this, of Int32]
  have y: "insns hk off [w1, w2] s = map_option (\<lambda>s'. (s', C_done)) ?m"
    using op(3-5)
    by (auto simp: insn_add [OF op(1)] ld Let_def set_reg_wr_simps ld_mem_regs [OF assms(2)]
        option.map_comp comp_def split: option.split)
  from em same_pairI [OF y x] show ?thesis by blast
qed

text \<open>\<open>lw; lw\<close>, and the vtable call's first two instructions.\<close>

definition load2 :: "'w hooks \<Rightarrow> u32 \<Rightarrow> u32 \<Rightarrow> reg \<Rightarrow> 'w vm \<Rightarrow> (u32 \<times> 'w vm) option" where
  "load2 hk a i r s = do {
     (p, s1) \<leftarrow> ld_mem hk s a 4;
     ld_mem hk s1 (p + i) 4 }"

lemma load2_regs:
  assumes "reg_blind hk" "load2 hk a i r s = Some (v, s')"
  shows "regs s' = regs s"
  using assms(2) ld_mem_keeps_regs [OF assms(1)] by (auto simp: load2_def bind_eq_Some_conv split: prod.splits)

lemma lwlw_fields:
  assumes "pair_lwlw a b = Some d"
  shows "dop a = RISCV_OP_LW" "dop b = RISCV_OP_LW" "drd a \<noteq> 0" "drd b = drd a" "drs1 b = drd a"
    "sext (dimm a) 8 = dimm a" "sext (dimm b) 8 = dimm b"
    "d = \<lparr>dop = RISCV_OP_LWLW, drd = drd a, drs1 = drs1 a, drs2 = 0,
           dimm = push_bit 8 (dimm a AND 0xff) OR (dimm b AND 0xff), dtarget = 0\<rparr>"
  using assms by (auto simp: pair_lwlw_def off8_def intro!: sext_id split: if_splits)

lemma lwlw_insns:
  assumes "pair_lwlw (tc_dec w1 off) (tc_dec w2 (off + 4)) = Some d" "reg_blind hk"
  shows "insns hk off [w1, w2] s = map_option (\<lambda>(v, s'). (s'\<lparr>regs := (regs s)(drd d := v)\<rparr>, C_done))
    (load2 hk (regs s (drs1 d) + dimm (tc_dec w1 off)) (dimm (tc_dec w2 (off + 4))) (drd d) s)"
proof -
  note f = lwlw_fields [OF assms(1)]
  let ?b = "tc_dec w2 (off + 4)"
  have "drd ?b \<noteq> 0" using f(3,4) by simp
  note ld2 = insn_load [OF f(2) _ reg_blind_callback [OF assms(2)] this, of Int32]
  note ld1 = insn_load [OF f(1) _ reg_blind_callback [OF assms(2)] f(3), of Int32]
  show ?thesis
    unfolding load2_def f(8)
    using f(3-5) ld_mem_keeps_regs [OF assms(2)]
    by (auto simp: ld1 ld2 Let_def set_reg_wr_simps ld_mem_regs [OF assms(2)] option.map_comp comp_def
        split: option.split Option.bind_split)
qed

lemma h_lwlw_load2:
  "h_lwlw hk w s = map_option (\<lambda>(v, s'). (set_reg s' (TC_A w) v, 2, P_next 1))
     (load2 hk (regs s (TC_B w) + TC_O1 w) (TC_O2 w) r s)"
  by (auto simp: h_lwlw_def load2_def split: Option.bind_split)

lemma h_vcall_load2:
  "h_vcall hk idx w s = map_option (\<lambda>(v, s').
       (set_reg (set_reg s' (TC_A w) (v AND NOT 1)) 1 (push_bit 2 idx + 4), 3, P_jump (v AND NOT 1)))
     (load2 hk (regs s (TC_B w) + TC_O1 w) (TC_O2 w) r s)"
  by (auto simp: h_vcall_def load2_def Let_def split: Option.bind_split)

lemma lwlw_step:
  assumes "pair_lwlw (tc_dec w1 off) (tc_dec w2 (off + 4)) = Some d" "reg_blind hk"
  shows "\<exists>e. tc_emit at d m len = [e] \<and> same_pair (pva_exec hk idx e x s) (insns hk off [w1, w2] s)"
proof -
  let ?a = "tc_dec w1 off" and ?b = "tc_dec w2 (off + 4)"
  note f = lwlw_fields [OF assms(1)]
  let ?e = "pack2 RISCV_OP_LWLW (drd d) (drs1 d) (dimm d)"
  have em: "tc_emit at d m len = [?e]" using emit_ri(3) [of d at m len] f(8) by simp
  have im: "TC_O1 ?e = dimm ?a" "TC_O2 ?e = dimm ?b"
    using TC_O_pack [of "dimm d" "dimm ?a" "dimm ?b"] f(6-8) by simp_all
  let ?m = "map_option (\<lambda>(v, s'). s'\<lparr>regs := (regs s)(drd d := v)\<rparr>)
    (load2 hk (regs s (drs1 d) + dimm ?a) (dimm ?b) (drd d) s)"
  have x: "pva_exec hk idx ?e x s = map_option (\<lambda>s'. (s', 2, P_next 1)) ?m"
    unfolding pva_exec_fused h_lwlw_load2 [where r = "drd d"] im pack_read
    by (auto simp: set_reg_wr_simps option.map_comp comp_def load2_regs [OF assms(2)] intro!: option.map_cong)
  have y: "insns hk off [w1, w2] s = map_option (\<lambda>s'. (s', C_done)) ?m"
    unfolding lwlw_insns [OF assms] by (auto simp: option.map_comp comp_def intro!: option.map_cong)
  from em same_pairI [OF y x] show ?thesis by blast
qed

text \<open>\<open>lw; sw\<close>: the loaded register is written before the store reads its base.\<close>

lemma lwsw_fields:
  assumes "pair_lwsw a b = Some d"
  shows "dop a = RISCV_OP_LW" "dop b = RISCV_OP_SW" "drd a \<noteq> 0" "drs2 b = drd a"
    "d = \<lparr>dop = RISCV_OP_LWSW, drd = drd a, drs1 = drs1 a, drs2 = drs1 b,
           dimm = push_bit 6 (drop_bit 2 (dimm a)) OR drop_bit 2 (dimm b), dtarget = 0\<rparr>"
    "take_bit 5 (drop_bit 2 (dimm a)) = drop_bit 2 (dimm a)" "push_bit 2 (drop_bit 2 (dimm a)) = dimm a"
    "take_bit 6 (drop_bit 2 (dimm b)) = drop_bit 2 (dimm b)" "push_bit 2 (drop_bit 2 (dimm b)) = dimm b"
  using assms word_scaled [of "dimm a" 7] word_scaled [of "dimm b" 8]
  by (auto simp: pair_lwsw_def word_less_nat_alt split: if_splits)

lemma lwsw_step:
  assumes "pair_lwsw (tc_dec w1 off) (tc_dec w2 (off + 4)) = Some d" "reg_blind hk"
  shows "\<exists>e. tc_emit at d m len = [e] \<and> same_pair (pva_exec hk idx e x s) (insns hk off [w1, w2] s)"
proof -
  let ?a = "tc_dec w1 off" and ?b = "tc_dec w2 (off + 4)"
  note f = lwsw_fields [OF assms(1)]
  let ?e = "pack3 RISCV_OP_LWSW (drd d) (drs1 d) (drs2 d)
    (push_bit 6 (take_bit 5 (drop_bit 2 (dimm ?a))) OR take_bit 6 (drop_bit 2 (dimm ?b)))"
  have em: "tc_emit at d m len = [?e]" using emit_fused3(2) [of d at m len] f(5,6,8) by simp
  let ?m = "do { (v, s1) \<leftarrow> ld_mem hk s (regs s (drs1 d) + dimm ?a) 4;
      let s2 = set_reg s1 (drd d) v;
      st_mem hk s2 (regs s2 (drs2 d) + dimm ?b) 4 v }"
  have x: "pva_exec hk idx ?e x s = map_option (\<lambda>s'. (s', 2, P_next 1)) ?m"
    unfolding pva_exec_fused h_lwsw_def TC_W_pack unfolding pack_read f(6,8) unfolding f(7,9)
    by (auto simp: Let_def split: Option.bind_split)
  note ld = insn_load [OF f(1) _ reg_blind_callback [OF assms(2)] f(3), of Int32]
  have y: "insns hk off [w1, w2] s = map_option (\<lambda>s'. (s', C_done)) ?m"
    unfolding f(5)
    using f(3,4)
    by (auto simp: ld insn_sw [OF f(2) reg_blind_callback [OF assms(2)]] Let_def set_reg_wr
        wr_def option.map_comp comp_def split: option.split Option.bind_split)
  from em same_pairI [OF y x] show ?thesis by blast
qed

text \<open>\<open>lw/lbu; beq/bne\<close> against zero, two words: the outcome of both is a state and whether to branch.\<close>

lemma bz_fields:
  assumes "pair_bz a b = Some d"
  shows "\<exists>T q. (dop a = RISCV_OP_LW \<and> T = Int32 \<and> dop d = RISCV_OP_LW_BZ \<or>
      dop a = RISCV_OP_LBU \<and> T = Uint8 \<and> dop d = RISCV_OP_LBU_BZ) \<and>
    (dop b = RISCV_OP_BEQ \<and> q \<or> dop b = RISCV_OP_BNE \<and> \<not> q) \<and> drs2 d = (if q then 1 else 0)"
    "drd a \<noteq> 0" "drs1 b = drd a \<and> drs2 b = 0 \<or> drs2 b = drd a \<and> drs1 b = 0"
    "drd d = drd a" "drs1 d = drs1 a" "dimm d = dimm a" "dtarget d = dtarget b"
proof -
  have d: "d = \<lparr>dop = (if dop a = RISCV_OP_LW then RISCV_OP_LW_BZ else RISCV_OP_LBU_BZ),
      drd = drd a, drs1 = drs1 a, drs2 = (if dop b = RISCV_OP_BEQ then 1 else 0),
      dimm = dimm a, dtarget = dtarget b\<rparr>"
    and c: "dop a = RISCV_OP_LW \<or> dop a = RISCV_OP_LBU" "drd a \<noteq> 0"
      "dop b = RISCV_OP_BEQ \<or> dop b = RISCV_OP_BNE"
      "drs1 b = drd a \<and> drs2 b = 0 \<or> drs2 b = drd a \<and> drs1 b = 0"
    using assms unfolding pair_bz_def by (metis option.distinct(1) option.inject)+
  from c(1,3) show "\<exists>T q. (dop a = RISCV_OP_LW \<and> T = Int32 \<and> dop d = RISCV_OP_LW_BZ \<or>
      dop a = RISCV_OP_LBU \<and> T = Uint8 \<and> dop d = RISCV_OP_LBU_BZ) \<and>
    (dop b = RISCV_OP_BEQ \<and> q \<or> dop b = RISCV_OP_BNE \<and> \<not> q) \<and> drs2 d = (if q then 1 else 0)"
    unfolding d by (elim disjE) (auto intro: exI [of _ True] exI [of _ False])
  show "drd a \<noteq> 0" "drs1 b = drd a \<and> drs2 b = 0 \<or> drs2 b = drd a \<and> drs1 b = 0" by (rule c(2,4))+
  show "drd d = drd a" "drs1 d = drs1 a" "dimm d = dimm a" "dtarget d = dtarget b" unfolding d by simp_all
qed

text \<open>A branch of a known condition, decided on the register file.\<close>

lemma insn_bz:
  assumes "dop (tc_dec w off) = RISCV_OP_BEQ \<and> q \<or> dop (tc_dec w off) = RISCV_OP_BNE \<and> \<not> q"
  shows "insn hk off w s = (let d = tc_dec w off
    in Some (s, if (regs s (drs1 d) = regs s (drs2 d)) = q then C_goto (dtarget d) else C_done))"
proof -
  have "RISCV_OP_BEQ \<le> dop (tc_dec w off)" "dop (tc_dec w off) \<le> RISCV_OP_BGEU" using assms by auto
  from insn_branch [OF this, of hk s] obtain t where
    t: "pva_br (ucast (dop (tc_dec w off))) = Some t" "insn hk off w s = (let d = tc_dec w off
      in Some (s, if t (regs s (drs1 d)) (regs s (drs2 d)) then C_goto (dtarget d) else C_done))"
    by blast
  have "t = (\<lambda>a b. (a = b) = q)" using t(1) assms by (elim disjE conjE) (simp_all add: pva_br_def)
  with t(2) show ?thesis by simp
qed

lemma LOADBZ_pack:
  "LOADBZ hk T idx (pack2 op a b i) w2 s =
     map_option (\<lambda>(x, s1). (set_reg s1 a (ccast T x), 2,
         if (ccast T x = 0) = (w2 AND 1 = 1) then P_reloc (idx + signed_drop_bit 2 w2) else P_next 2))
       (ld_mem hk s (regs s b + sext i 16) (csize T))"
  unfolding LOADBZ_def pack_read by (auto simp: Let_def split: Option.bind_split)

lemma dimm_sext:
  assumes "dop (tc_dec w off) = RISCV_OP_LW \<or> dop (tc_dec w off) = RISCV_OP_LBU"
  shows "sext (dimm (tc_dec w off)) 16 = dimm (tc_dec w off)"
proof -
  have "fst (tc_switch w off) = RISCV_OP_LW \<or> fst (tc_switch w off) = RISCV_OP_LBU"
    using assms dop_switch [of w off "dop (tc_dec w off)"] by auto
  then have "w AND 0x7f = 0x03" using switch_opcode(3) [of w off] by auto
  then show ?thesis by (simp add: dec_fields tc_switch_def Let_def imm_fields(1))
qed

lemma bz_insns:
  assumes "dop (tc_dec w1 off) = opa" "opa = RISCV_OP_LW \<and> T = Int32 \<or> opa = RISCV_OP_LBU \<and> T = Uint8"
    and "dop b = RISCV_OP_BEQ \<and> q \<or> dop b = RISCV_OP_BNE \<and> \<not> q" "b = tc_dec w2 (off + 4)"
    and "drd a \<noteq> 0" "drs1 b = drd a \<and> drs2 b = 0 \<or> drs2 b = drd a \<and> drs1 b = 0" "a = tc_dec w1 off"
    and "reg_blind hk" "regs s 0 = 0"
  shows "insns hk off [w1, w2] s = map_option (\<lambda>(x, s'). (set_reg s' (drd a) (ccast T x),
      if (ccast T x = 0) = q then C_goto (dtarget b) else C_done))
    (ld_mem hk s (regs s (drs1 a) + dimm a) (csize T))"
proof -
  note ld = insn_load [OF assms(1,2) reg_blind_callback [OF assms(8)] assms(5) [unfolded assms(7)],
      folded assms(7)]
  note br = insn_bz [OF assms(3) [unfolded assms(4)], folded assms(4)]
  have z: "regs s' 0 = 0" if "ld_mem hk s x n = Some (v, s')" for x n v s'
    using ld_mem_keeps_regs [OF assms(8) that] assms(9) by simp
  from assms(5,6) show ?thesis
    by (auto simp: ld br Let_def set_reg_wr_simps z option.map_comp comp_def split: option.split)
qed

lemma bz_step:
  assumes "pair_bz (tc_dec w1 off) (tc_dec w2 (off + 4)) = Some d" "reg_blind hk" "regs s 0 = 0"
  shows "\<exists>e1 e2. tc_emit at d m len = [e1, e2] \<and>
    e2 = disp4 m len d at OR (ucast (drs2 d) AND 1) \<and>
    (\<exists>r. insns hk off [w1, w2] s = map_option (\<lambda>(s', tk). (s', if tk then C_goto (dtarget d) else C_done)) r \<and>
         pva_exec hk idx e1 e2 s = map_option (\<lambda>(s', tk).
           (s', 2, if tk then P_reloc (idx + signed_drop_bit 2 e2) else P_next 2)) r)"
proof -
  let ?a = "tc_dec w1 off" and ?b = "tc_dec w2 (off + 4)"
  note f = bz_fields [OF assms(1)]
  from f(1) obtain T q where T:
    "dop ?a = RISCV_OP_LW \<and> T = Int32 \<and> dop d = RISCV_OP_LW_BZ \<or>
      dop ?a = RISCV_OP_LBU \<and> T = Uint8 \<and> dop d = RISCV_OP_LBU_BZ"
    "dop ?b = RISCV_OP_BEQ \<and> q \<or> dop ?b = RISCV_OP_BNE \<and> \<not> q" "drs2 d = (if q then 1 else 0)"
    by blast
  define e2 where "e2 = disp4 m len d at OR (ucast (drs2 d) AND 1)"
  let ?e = "pack2 (dop d) (drd d) (drs1 d) (dimm d)"
  have em: "tc_emit at d m len = [?e, e2]"
    using T(1) unfolding e2_def by (intro emit_bz) auto
  have "\<not> bit (disp4 m len d at) 0" by (simp add: disp4_def bit_0)
  then have c: "e2 AND 1 = 1 \<longleftrightarrow> q"
    using T(3) unfolding e2_def by (auto simp: and_one_eq even_or_iff bit_0 simp flip: odd_iff_mod_2_eq_one)
  let ?r = "map_option (\<lambda>(x, s'). (set_reg s' (drd d) (ccast T x), (ccast T x = 0) = q))
      (ld_mem hk s (regs s (drs1 d) + dimm d) (csize T))"
  have a: "dop ?a = RISCV_OP_LW \<and> T = Int32 \<or> dop ?a = RISCV_OP_LBU \<and> T = Uint8" using T(1) by blast
  then have im: "sext (dimm d) 16 = dimm d" using dimm_sext [of w1 off] f(6) by auto
  have x: "pva_exec hk idx ?e e2 s = map_option (\<lambda>(s', tk).
      (s', 2, if tk then P_reloc (idx + signed_drop_bit 2 e2) else P_next 2)) ?r"
  proof -
    have "pva_exec hk idx ?e e2 s = LOADBZ hk T idx ?e e2 s"
      using T(1) by (elim disjE conjE) (simp_all add: pva_exec_fused(5,6))
    also have "\<dots> = map_option (\<lambda>(s', tk).
        (s', 2, if tk then P_reloc (idx + signed_drop_bit 2 e2) else P_next 2)) ?r"
      unfolding LOADBZ_pack im by (auto simp: c option.map_comp comp_def intro!: option.map_cong)
    finally show ?thesis .
  qed
  have y: "insns hk off [w1, w2] s =
      map_option (\<lambda>(s', tk). (s', if tk then C_goto (dtarget d) else C_done)) ?r"
    unfolding bz_insns [OF refl a T(2) refl f(2,3) refl assms(2,3)] f(4-7)
    by (auto simp: option.map_comp comp_def intro!: option.map_cong)
  from em x y show ?thesis unfolding e2_def by blast
qed

end
