(* ===== verification/Purva_Frame.thy ===== *)
theory Purva_Frame
  imports Purva_Fused "HOL-Library.Multiset"
begin

text \<open>
  The fused frames: the unrolled fast path, the out-of-line path and the instructions a prologue or
  epilogue was made of leave the same state, whenever the band below the frame's top is mapped.
\<close>

section \<open>Words in the writable storage\<close>

definition put_word :: "nat \<Rightarrow> u32 \<Rightarrow> u8 list \<Rightarrow> u8 list" where
  "put_word k v bs = bs[k := byte_of 0 v, k + 1 := byte_of 1 v, k + 2 := byte_of 2 v, k + 3 := byte_of 3 v]"

definition poke :: "nat \<times> u32 \<Rightarrow> 'w vm \<Rightarrow> 'w vm" where
  "poke x s = s\<lparr>writable := (writable s)\<lparr>rg_ptr := map_option (put_word (fst x) (snd x)) (rg_ptr (writable s))\<rparr>\<rparr>"

definition peek :: "'w vm \<Rightarrow> nat \<Rightarrow> u32" where
  "peek s k = (case rg_ptr (writable s) of None \<Rightarrow> 0
     | Some bs \<Rightarrow> le32 (bs ! k) (bs ! (k + 1)) (bs ! (k + 2)) (bs ! (k + 3)))"

definition storage :: "'w vm \<Rightarrow> nat" where
  "storage s = (case rg_ptr (writable s) of None \<Rightarrow> 0 | Some bs \<Rightarrow> length bs)"

lemma length_put_word [simp]: "length (put_word k v bs) = length bs"
  by (simp add: put_word_def)

lemma poke_fields [simp]:
  "regs (poke x s) = regs s" "storage (poke x s) = storage s" "pc (poke x s) = pc s"
  "rg_base (writable (poke x s)) = rg_base (writable s)"
  "rg_len (writable (poke x s)) = rg_len (writable s)"
  by (simp_all add: poke_def storage_def split: option.split)

lemma nth_upd: "xs[i := x] ! j = (if i = j \<and> i < length xs then x else xs ! j)"
  by (cases "i < length xs") (auto simp: list_update_beyond)

lemma put_word_swap:
  "k + 4 \<le> l \<or> l + 4 \<le> k \<Longrightarrow> put_word k v (put_word l u bs) = put_word l u (put_word k v bs)"
  by (rule nth_equalityI) (auto simp: put_word_def nth_upd)

lemma poke_swap:
  assumes "fst x + 4 \<le> fst y \<or> fst y + 4 \<le> fst x"
  shows "poke x (poke y s) = poke y (poke x s)"
  using put_word_swap [OF assms] by (simp add: poke_def option.map_comp comp_def)

lemma st_le_poke:
  assumes "k + 4 \<le> storage s"
  shows "st_le s (WPtr k) 4 v = Some (poke (k, v) s)"
proof -
  obtain bs where "rg_ptr (writable s) = Some bs" "k + 4 \<le> length bs"
    using assms by (auto simp: storage_def split: option.splits)
  then show ?thesis by (simp add: st_le_def region_wr_def poke_def put_word_def)
qed

lemma ld_le_peek:
  assumes "k + 4 \<le> storage s"
  shows "ld_le s (WPtr k) 4 = Some (peek s k)"
proof -
  obtain bs where "rg_ptr (writable s) = Some bs" "k + 4 \<le> length bs"
    using assms by (auto simp: storage_def split: option.splits)
  then show ?thesis by (simp add: ld_le_def region_rd_def peek_def le32_def or.assoc)
qed

section \<open>The band below the top of a frame\<close>

text \<open>\<open>frame_top\<close> succeeds on a buffer that can hold the band.\<close>

definition band :: "'w vm \<Rightarrow> u32 \<Rightarrow> nat \<Rightarrow> bool" where
  "band s tp q \<longleftrightarrow> q = unat (tp - rg_base (writable s)) \<and> 52 \<le> q \<and> q \<le> storage s \<and>
     storage s = unat (rg_len (writable s))"

lemma frame_top_band:
  assumes "wf_region (writable s)" "52 \<le> rg_len (writable s)"
  shows "frame_top s tp = Some q \<longleftrightarrow> band s tp q"
proof -
  let ?r = "tp - rg_base (writable s)" and ?l = "rg_len (writable s)"
  have st: "storage s = unat ?l"
    using assms by (auto simp: storage_def wf_region_def word_le_nat_alt split: option.splits)
  have l: "unat (?l - 52) = unat ?l - 52" using assms(2) by (simp add: unat_sub)
  have "?r - 52 \<le> ?l - 52 \<longleftrightarrow> 52 \<le> unat ?r \<and> unat ?r \<le> unat ?l"
  proof (cases "52 \<le> unat ?r")
    case True
    then have "unat (?r - 52) = unat ?r - 52" by (simp add: unat_sub word_le_nat_alt)
    with True l assms(2) show ?thesis by (auto simp: word_le_nat_alt)
  next
    case False
    then have "unat (?r - 52) = unat ?r + 4294967296 - 52"
      by (simp add: unat_sub_if' word_le_nat_alt)
    with False l show ?thesis unfolding word_le_nat_alt using unat_lt_32 [of ?l] by linarith
  qed
  then show ?thesis
    unfolding frame_top_def band_def Let_def FRAME_SAVE_SPAN_def using st by auto
qed

lemma band_poke [simp]: "band (poke x s) tp q = band s tp q"
  by (simp add: band_def)

lemma band_regs [simp]: "band (s\<lparr>regs := f\<rparr>) tp q = band s tp q"
  by (simp add: band_def storage_def)

text \<open>An access in the band hits the writable region.\<close>

lemma band_mem:
  assumes "band s tp q" "4 \<le> d" "d \<le> 52"
  shows "mem_w s (tp - of_nat d) 4 = Some (WPtr (q - d))"
    "st_mem hk s (tp - of_nat d) 4 v = Some (poke (q - d, v) s)"
    "ld_mem hk s (tp - of_nat d) 4 = Some (peek s (q - d), s)"
proof -
  let ?r = "tp - rg_base (writable s)" and ?l = "rg_len (writable s)"
  have q: "q = unat ?r" "52 \<le> q" "q \<le> unat ?l" "storage s = unat ?l" using assms(1) by (auto simp: band_def)
  have d: "unat (of_nat d :: u32) = d" using assms(3) by (simp only: unat_of_nat) simp
  have r: "unat (?r - of_nat d) = q - d"
    using q assms(3) d by (simp add: unat_sub word_le_nat_alt)
  have lt: "?r - of_nat d < ?l" using r q assms by (simp add: word_less_nat_alt)
  have "unat (?l - (?r - of_nat d)) = unat ?l - (q - d)"
    using lt r by (simp add: unat_sub)
  then have "4 \<le> ?l - (?r - of_nat d)" using q assms by (simp add: word_le_nat_alt)
  with lt r show w: "mem_w s (tp - of_nat d) 4 = Some (WPtr (q - d))"
    by (simp add: mem_w_def region_at_def algebra_simps)
  have "q - d + 4 \<le> storage s" using q assms by simp
  with w st_le_poke [of "q - d" s v] ld_le_peek [of "q - d" s]
  show "st_mem hk s (tp - of_nat d) 4 v = Some (poke (q - d, v) s)"
    "ld_mem hk s (tp - of_nat d) 4 = Some (peek s (q - d), s)"
    by (simp_all add: st_mem_def ld_mem_def mem_r_def)
qed

section \<open>Bits of the register mask\<close>

definition ranks :: "u32 \<Rightarrow> nat list" where
  "ranks m = filter (bit m) [0..<32]"

lemma ctz_bits:
  assumes "m \<noteq> 0"
  shows "bit m (ctz m)" "ctz m < 32" "i < ctz m \<Longrightarrow> \<not> bit m i"
proof -
  let ?t = "takeWhile (\<lambda>i. \<not> bit m i) [0..<32]"
  have lt: "length ?t < 32"
  proof (rule ccontr)
    assume "\<not> length ?t < 32"
    then have "length ?t = length [0..<32]" using length_takeWhile_le [of "\<lambda>i. \<not> bit m i" "[0..<32]"] by simp
    then have "?t = [0..<32]" by (metis takeWhile_eq_take take_all order_refl)
    then have "\<forall>i < 32. \<not> bit m i" by (metis atLeast0LessThan lessThan_iff set_upt set_takeWhileD)
    then have "m = 0" by (intro bit_word_eqI) simp
    with assms show False by simp
  qed
  then show "ctz m < 32" by (simp add: ctz_def)
  have "\<not> (\<not> bit m ([0..<32] ! length ?t))" using nth_length_takeWhile [of "\<lambda>i. \<not> bit m i" "[0..<32]"] lt by simp
  with lt show "bit m (ctz m)" by (simp add: ctz_def)
  assume "i < ctz m"
  then have i: "i < length ?t" by (simp add: ctz_def)
  then have "?t ! i = i" using lt by (simp add: takeWhile_nth)
  with i show "\<not> bit m i" by (metis nth_mem set_takeWhileD)
qed

lemma bit_clear_lowest:
  assumes "m \<noteq> 0"
  shows "bit (m AND (m - 1)) i \<longleftrightarrow> bit m i \<and> i \<noteq> ctz m"
proof -
  let ?c = "ctz m" and ?u = "unset_bit (ctz m) m"
  note c = ctz_bits [OF assms]
  have "?u + push_bit ?c 1 = ?u OR push_bit ?c 1"
    by (rule disjunctive_add) (auto simp: bit_simps)
  also have "\<dots> = m" using c(1,2) by (intro bit_word_eqI) (auto simp: bit_simps)
  finally have "m - 1 = ?u + (2 ^ ?c - 1)" by (simp add: push_bit_eq_mult algebra_simps)
  also have "\<dots> = ?u + mask ?c" by (simp add: mask_eq_exp_minus_1)
  also have "\<dots> = ?u OR mask ?c"
    by (rule disjunctive_add) (use c(3) in \<open>auto simp: bit_simps\<close>)
  finally show ?thesis using c(3) by (auto simp: bit_simps)
qed

lemma ranks_0 [simp]: "ranks 0 = []"
  by (simp add: ranks_def)

lemma ranks_Cons:
  assumes "m \<noteq> 0"
  shows "ranks m = ctz m # ranks (m AND (m - 1))"
proof -
  note c = ctz_bits [OF assms]
  have "[0..<32] = [0..<ctz m] @ ctz m # [Suc (ctz m)..<32]"
    using c(2) upt_add_eq_append [of 0 "ctz m" "32 - ctz m"] by (simp add: upt_conv_Cons)
  moreover have "filter (bit m) [0..<ctz m] = []" "filter (bit (m AND (m - 1))) [0..<ctz m] = []"
    using c(3) by (auto simp: filter_empty_conv bit_clear_lowest [OF assms])
  moreover have "filter (bit (m AND (m - 1))) [Suc (ctz m)..<32] = filter (bit m) [Suc (ctz m)..<32]"
    by (auto simp: bit_clear_lowest [OF assms] intro!: filter_cong)
  ultimately show ?thesis using c(1) by (simp add: ranks_def bit_clear_lowest [OF assms])
qed

lemma ranks_13:
  assumes "m < 0x2000"
  shows "ranks m = filter (\<lambda>r. m AND push_bit r 1 \<noteq> 0) [0..<13]" "length (ranks m) \<le> 13"
    "r \<in> set (ranks m) \<Longrightarrow> r < 13"
proof -
  have "unat m < 2 ^ 13" using assms by (simp add: word_less_nat_alt)
  then have "take_bit 13 m = m" by (simp add: word_unat_eq_iff unsigned_take_bit_eq take_bit_nat_eq_self)
  then have hi: "bit m i \<Longrightarrow> i < 13" for i by (metis bit_take_bit_iff)
  have "[0..<32] = [0..<13] @ [13..<32 :: nat]" by (simp add: upt_rec)
  moreover have "filter (bit m) [13..<32] = []" using hi by (fastforce simp: filter_empty_conv)
  ultimately show e: "ranks m = filter (\<lambda>r. m AND push_bit r 1 \<noteq> 0) [0..<13]"
    by (simp add: ranks_def bit_iff_and_push_bit_not_eq_0 cong: filter_cong)
  have "length (ranks m) \<le> length [0..<13 :: nat]" unfolding e by (rule length_filter_le)
  then show "length (ranks m) \<le> 13" by simp
  show "r \<in> set (ranks m) \<Longrightarrow> r < 13" using hi by (auto simp: ranks_def)
qed

section \<open>Both paths of the handlers\<close>

text \<open>Words stepping down from \<open>q\<close>.\<close>

fun slots :: "nat \<Rightarrow> 'a list \<Rightarrow> (nat \<times> 'a) list" where
  "slots q [] = []"
| "slots q (v # vs) = (q - 4, v) # slots (q - 4) vs"

definition pokes :: "(nat \<times> u32) list \<Rightarrow> 'w vm \<Rightarrow> 'w vm" where
  "pokes xs s = fold poke xs s"

lemma pokes_simps [simp]: "pokes [] s = s" "pokes (x # xs) s = pokes xs (poke x s)"
  by (simp_all add: pokes_def)

lemma save_fast_pokes:
  assumes "4 * length (filter (\<lambda>r. m AND push_bit r 1 \<noteq> 0) rs) \<le> q" "q \<le> storage s"
  shows "save_fast rs m q cnt s =
    (let ks = filter (\<lambda>r. m AND push_bit r 1 \<noteq> 0) rs
     in Some (pokes (slots q (map (\<lambda>r. regs s (rank2reg ! r)) ks)) s, cnt + length ks))"
  using assms
proof (induction rs m q cnt s rule: save_fast.induct)
  case (2 r rs m q cnt s)
  show ?case
  proof (cases "m AND push_bit r 1 \<noteq> 0")
    case True
    with "2.prems" have "st_le s (WPtr (q - 4)) 4 (regs s (rank2reg ! r)) = Some (poke (q - 4, regs s (rank2reg ! r)) s)"
      by (intro st_le_poke) simp
    with True "2.prems" "2.IH"(1) show ?thesis by (simp add: Let_def)
  next
    case False
    with "2.prems" "2.IH"(2) show ?thesis by (simp add: Let_def)
  qed
qed simp

text \<open>The registers a run of loads sets: the words do not change meanwhile.\<close>

definition pulls :: "(nat \<times> reg) list \<Rightarrow> 'w vm \<Rightarrow> 'w vm" where
  "pulls xs s = fold (\<lambda>(k, r) s'. set_reg s' r (peek s' k)) xs s"

lemma pulls_simps [simp]: "pulls [] s = s" "pulls ((k, r) # xs) s = pulls xs (set_reg s r (peek s k))"
  by (simp_all add: pulls_def)

lemma set_reg_storage [simp]:
  "storage (set_reg s r v) = storage s" "peek (set_reg s r v) k = peek s k"
  "band (set_reg s r v) tp q = band s tp q"
  by (simp_all add: set_reg_def storage_def peek_def band_def)

lemma rest_fast_pulls:
  assumes "4 * length (filter (\<lambda>r. m AND push_bit r 1 \<noteq> 0) rs) \<le> q" "q \<le> storage s"
  shows "rest_fast rs m q cnt s =
    (let ks = filter (\<lambda>r. m AND push_bit r 1 \<noteq> 0) rs
     in Some (pulls (slots q (map ((!) rank2reg) ks)) s, cnt + length ks))"
  using assms
proof (induction rs m q cnt s rule: rest_fast.induct)
  case (2 r rs m q cnt s)
  show ?case
  proof (cases "m AND push_bit r 1 \<noteq> 0")
    case True
    with "2.prems" have "ld_le s (WPtr (q - 4)) 4 = Some (peek s (q - 4))"
      by (intro ld_le_peek) simp
    with True "2.prems" "2.IH"(1) show ?thesis by (simp add: Let_def)
  next
    case False
    with "2.prems" "2.IH"(2) show ?thesis by (simp add: Let_def)
  qed
qed simp

lemma slow_addr: "tp - of_nat (4 * j) - 4 = tp - (of_nat (4 * Suc j) :: u32)"
  by simp

lemma prologue_slow_pokes:
  assumes "band s tp q" "j + length (ranks m) \<le> 13" "addr = tp - of_nat (4 * j)"
  shows "prologue_slow hk s m addr cnt =
    Some (pokes (slots (q - 4 * j) (map (\<lambda>r. regs s (rank2reg ! r)) (ranks m))) s, cnt + length (ranks m))"
  using assms
proof (induction hk s m addr cnt arbitrary: j rule: prologue_slow.induct)
  case (1 hk s m addr cnt)
  show ?case
  proof (cases "m = 0")
    case True
    then show ?thesis by (simp add: prologue_slow.simps)
  next
    case False
    note rk = ranks_Cons [OF False]
    have a: "addr - 4 = tp - of_nat (4 * Suc j)" unfolding "1.prems"(3) by (rule slow_addr)
    have n: "Suc j + length (ranks (m AND (m - 1))) \<le> 13" using "1.prems"(2) rk by simp
    have st: "st_mem hk s (addr - 4) 4 v = Some (poke (q - 4 * Suc j, v) s)" for v
      unfolding "1.prems"(3) slow_addr using "1.prems"(1,2) rk by (intro band_mem(2)) simp_all
    have "prologue_slow hk (poke (q - 4 * Suc j, regs s (rank2reg ! ctz m)) s) (m AND (m - 1)) (addr - 4) (cnt + 1) =
        Some (pokes (slots (q - 4 * Suc j) (map (\<lambda>r. regs s (rank2reg ! r)) (ranks (m AND (m - 1)))))
          (poke (q - 4 * Suc j, regs s (rank2reg ! ctz m)) s), cnt + 1 + length (ranks (m AND (m - 1))))"
      using "1.IH" [OF False st _ n a] "1.prems"(1) by simp
    with False st show ?thesis by (simp add: prologue_slow.simps [of hk s m] rk add.commute [of "4 * j" 4])
  qed
qed

lemma epilogue_slow_pulls:
  assumes "band s tp q" "j + length (ranks m) \<le> 13" "addr = tp - of_nat (4 * j)"
  shows "epilogue_slow hk s m addr cnt =
    Some (pulls (slots (q - 4 * j) (map ((!) rank2reg) (ranks m))) s, cnt + length (ranks m))"
  using assms
proof (induction hk s m addr cnt arbitrary: j rule: epilogue_slow.induct)
  case (1 hk s m addr cnt)
  show ?case
  proof (cases "m = 0")
    case True
    then show ?thesis by (simp add: epilogue_slow.simps)
  next
    case False
    note rk = ranks_Cons [OF False]
    have a: "addr - 4 = tp - of_nat (4 * Suc j)" unfolding "1.prems"(3) by (rule slow_addr)
    have n: "Suc j + length (ranks (m AND (m - 1))) \<le> 13" using "1.prems"(2) rk by simp
    have ld: "ld_mem hk s (addr - 4) 4 = Some (peek s (q - 4 * Suc j), s)"
      unfolding "1.prems"(3) slow_addr using "1.prems"(1,2) rk by (intro band_mem(3)) simp_all
    have "epilogue_slow hk (set_reg s (rank2reg ! ctz m) (peek s (q - 4 * Suc j))) (m AND (m - 1)) (addr - 4) (cnt + 1) =
        Some (pulls (slots (q - 4 * Suc j) (map ((!) rank2reg) (ranks (m AND (m - 1)))))
          (set_reg s (rank2reg ! ctz m) (peek s (q - 4 * Suc j))), cnt + 1 + length (ranks (m AND (m - 1))))"
      using "1.IH" [OF False ld refl _ n a] "1.prems"(1) by simp
    with False ld show ?thesis by (simp add: epilogue_slow.simps [of hk s m] rk add.commute [of "4 * j" 4])
  qed
qed

text \<open>The two paths of each handler agree.\<close>

lemma prologue_paths:
  assumes "band s tp q" "m < 0x2000"
  shows "save_fast [0..<13] m q 0 s =
      Some (pokes (slots q (map (\<lambda>r. regs s (rank2reg ! r)) (ranks m))) s, length (ranks m))"
    "prologue_slow hk s m tp 0 = save_fast [0..<13] m q 0 s"
proof -
  have q: "52 \<le> q" "q \<le> storage s" using assms(1) by (auto simp: band_def)
  note r = ranks_13 [OF assms(2)]
  show "save_fast [0..<13] m q 0 s =
      Some (pokes (slots q (map (\<lambda>r. regs s (rank2reg ! r)) (ranks m))) s, length (ranks m))"
    using save_fast_pokes [of m "[0..<13]" q s 0] q r(1,2) by (simp add: Let_def)
  then show "prologue_slow hk s m tp 0 = save_fast [0..<13] m q 0 s"
    using prologue_slow_pokes [OF assms(1), of 0 m tp hk 0] r(2) by simp
qed

lemma epilogue_paths:
  assumes "band s tp q" "m < 0x2000"
  shows "rest_fast [0..<13] m q 0 s =
      Some (pulls (slots q (map ((!) rank2reg) (ranks m))) s, length (ranks m))"
    "epilogue_slow hk s m tp 0 = rest_fast [0..<13] m q 0 s"
proof -
  have q: "52 \<le> q" "q \<le> storage s" using assms(1) by (auto simp: band_def)
  note r = ranks_13 [OF assms(2)]
  show "rest_fast [0..<13] m q 0 s =
      Some (pulls (slots q (map ((!) rank2reg) (ranks m))) s, length (ranks m))"
    using rest_fast_pulls [of m "[0..<13]" q s 0] q r(1,2) by (simp add: Let_def)
  then show "epilogue_slow hk s m tp 0 = rest_fast [0..<13] m q 0 s"
    using epilogue_slow_pulls [OF assms(1), of 0 m tp hk 0] r(2) by simp
qed

section \<open>The order of the saves does not matter\<close>

lemma slots_nth: "length (slots q vs) = length vs" "p < length vs \<Longrightarrow> slots q vs ! p = (q - 4 * Suc p, vs ! p)"
  by (induction q vs arbitrary: p rule: slots.induct) (auto simp: nth_Cons split: nat.split)

lemma in_slots: "x \<in> set (slots q vs) \<Longrightarrow> \<exists>i < length vs. x = (q - 4 * Suc i, vs ! i)"
  by (metis in_set_conv_nth slots_nth)

lemma slots_apart:
  assumes "x \<in> set (slots q vs)" "y \<in> set (slots q vs)" "x \<noteq> y" "4 * length vs \<le> q"
  shows "fst x + 4 \<le> fst y \<or> fst y + 4 \<le> fst x"
proof -
  obtain i j where i: "i < length vs" "x = slots q vs ! i" and j: "j < length vs" "y = slots q vs ! j"
    using assms(1,2) by (auto simp: in_set_conv_nth slots_nth(1))
  with assms(3) have "i \<noteq> j" by auto
  with i j assms(4) show ?thesis by (auto simp: slots_nth)
qed

lemma pokes_mset:
  fixes s :: "'w vm"
  assumes "mset xs = mset (slots q vs)" "4 * length vs \<le> q"
  shows "pokes xs s = pokes (slots q vs) s"
proof -
  have "set xs = set (slots q vs)" using assms(1) by (metis set_mset_mset)
  then have "poke x \<circ> poke y = (poke y \<circ> poke x :: 'w vm \<Rightarrow> 'w vm)" if "x \<in> set xs" "y \<in> set xs" for x y :: "nat \<times> u32"
  proof (cases "x = y")
    case False
    then have "fst x + 4 \<le> fst y \<or> fst y + 4 \<le> fst x"
      using slots_apart [of x q vs y] that assms(2) \<open>set xs = set (slots q vs)\<close> by auto
    show ?thesis by (rule ext) (simp only: comp_apply poke_swap [OF \<open>fst x + 4 \<le> fst y \<or> fst y + 4 \<le> fst x\<close>])
  qed simp
  from fold_multiset_equiv [where f = poke, OF this assms(1)] show ?thesis by (simp add: pokes_def)
qed

lemma set_reg_swap: "r \<noteq> t \<Longrightarrow> set_reg (set_reg s r v) t w = set_reg (set_reg s t w) r v"
  by (simp add: set_reg_def fun_upd_twist)

lemma pulls_mset:
  fixes s :: "'w vm"
  assumes "mset xs = mset (slots q rs)" "distinct rs"
  shows "pulls xs s = pulls (slots q rs) s"
proof -
  let ?f = "\<lambda>(k, r) s'. set_reg s' r (peek s' k)"
  have st: "set xs = set (slots q rs)" using assms(1) by (metis set_mset_mset)
  have "?f x \<circ> ?f y = (?f y \<circ> ?f x :: 'w vm \<Rightarrow> 'w vm)" if "x \<in> set xs" "y \<in> set xs" for x y :: "nat \<times> reg"
  proof (cases "x = y")
    case False
    from that st obtain i j where i: "i < length rs" "x = (q - 4 * Suc i, rs ! i)"
      and j: "j < length rs" "y = (q - 4 * Suc j, rs ! j)"
      using in_slots [of x q rs] in_slots [of y q rs] by auto
    with False have "i \<noteq> j" by auto
    with i(1) j(1) assms(2) have "rs ! i \<noteq> rs ! j" by (simp add: nth_eq_iff_index_eq)
    show ?thesis unfolding i(2) j(2) by (rule ext) (simp add: set_reg_swap [OF \<open>rs ! i \<noteq> rs ! j\<close>])
  qed simp
  from fold_multiset_equiv [where f = ?f, OF this assms(1)] show ?thesis by (simp add: pulls_def)
qed

section \<open>Canonical frames\<close>

lemma rank_of_cases:
  assumes "0 \<le> rank_of r"
  shows "nat (rank_of r) < 13" "rank2reg ! nat (rank_of r) = r" "r \<noteq> 2" "r \<noteq> 0"
proof -
  have "r = 1 \<or> r = 8 \<or> r = 9 \<or> (18 \<le> r \<and> r \<le> 27)"
    using assms by (auto simp: rank_of_def split: if_splits)
  moreover have "r = 18 \<or> r = 19 \<or> r = 20 \<or> r = 21 \<or> r = 22 \<or> r = 23 \<or> r = 24 \<or> r = 25 \<or> r = 26 \<or> r = 27"
    if "18 \<le> r" "r \<le> 27"
  proof -
    have "18 \<le> unat r" "unat r \<le> 27" using that by (simp_all add: word_le_nat_alt)
    then have "unat r = 18 \<or> unat r = 19 \<or> unat r = 20 \<or> unat r = 21 \<or> unat r = 22 \<or> unat r = 23 \<or>
        unat r = 24 \<or> unat r = 25 \<or> unat r = 26 \<or> unat r = 27" by presburger
    then show ?thesis by (auto simp: word_unat_eq_iff)
  qed
  ultimately have "r \<in> {1, 8, 9, 18, 19, 20, 21, 22, 23, 24, 25, 26, 27}" by auto
  then show "nat (rank_of r) < 13" "rank2reg ! nat (rank_of r) = r" "r \<noteq> 2" "r \<noteq> 0"
    by (auto simp: rank_of_def rank2reg_def)
qed

lemma canon_loop_ok:
  assumes "canon_loop saves n ps prev m = Some M" "-1 \<le> prev"
  shows "\<exists>cs. length cs = length ps \<and> (\<forall>p < length ps. (cs ! p, n - 4 - 4 * of_nat (ps ! p)) \<in> set saves) \<and>
    sorted_wrt (<) (prev # map rank_of cs) \<and>
    (\<forall>i < 32. bit M i \<longleftrightarrow> bit m i \<or> (\<exists>c \<in> set cs. i = nat (rank_of c)))"
  using assms
proof (induction saves n ps prev m rule: canon_loop.induct)
  case (1 saves n prev m)
  then show ?case by (intro exI [of _ "[]"]) simp
next
  case (2 saves n p ps prev m)
  let ?P = "\<lambda>(r, i). i = n - 4 - 4 * of_nat p"
  obtain x where x: "find ?P saves = Some x" using "2.prems" by (cases "find ?P saves") auto
  obtain r where r: "x = (r, n - 4 - 4 * of_nat p)" "(r, n - 4 - 4 * of_nat p) \<in> set saves"
    using x by (cases x) (auto simp: find_Some_iff intro: nth_mem dest: nth_mem)
  have rk: "prev < rank_of r" "canon_loop saves n ps (rank_of r) (m OR push_bit (nat (rank_of r)) 1) = Some M"
    using "2.prems"(1) x r(1) by (auto simp: Let_def split: if_splits)
  from "2.IH" [OF x r(1) [symmetric] refl _ rk(2)] rk(1) "2.prems"(2) obtain cs where
    cs: "length cs = length ps" "\<forall>q < length ps. (cs ! q, n - 4 - 4 * of_nat (ps ! q)) \<in> set saves"
      "sorted_wrt (<) (rank_of r # map rank_of cs)"
      "\<forall>i < 32. bit M i \<longleftrightarrow> bit (m OR push_bit (nat (rank_of r)) 1) i \<or> (\<exists>c \<in> set cs. i = nat (rank_of c))"
    by auto
  have "0 \<le> rank_of r" using rk(1) "2.prems"(2) by simp
  then have "bit (push_bit (nat (rank_of r)) 1 :: u32) i \<longleftrightarrow> i = nat (rank_of r)" if "i < 32" for i
    using that rank_of_cases(1) [of r] by (auto simp: bit_simps)
  with cs r(2) rk(1) show ?case
    by (intro exI [of _ "r # cs"]) (auto simp: nth_Cons bit_or_iff split: nat.split)
qed

lemma mset_eq_of_subset:
  assumes "distinct ys" "set ys \<subseteq> set xs" "length xs = length ys"
  shows "mset xs = mset ys"
proof -
  have "card (set ys) = length xs" using assms(1,3) distinct_card by metis
  then have "set ys = set xs" using assms(2) by (metis card_length card_subset_eq card_mono le_antisym List.finite_set)
  moreover from this have "distinct xs" using \<open>card (set ys) = length xs\<close> by (simp add: card_distinct)
  ultimately show ?thesis using assms(1) by (metis set_eq_iff_mset_eq_distinct)
qed

lemma frame_canonical_ok:
  assumes "frame_canonical saves n = Some m" "length saves \<le> 13"
  shows "m < 0x2000" "length (ranks m) = length saves" "distinct (map ((!) rank2reg) (ranks m))"
    "mset saves = mset (zip (map ((!) rank2reg) (ranks m)) (map (\<lambda>p. n - 4 - 4 * of_nat p) [0..<length saves]))"
proof -
  from canon_loop_ok [of saves n "[0..<length saves]" "-1" 0 m] assms(1) obtain cs where
    cs: "length cs = length saves" "\<forall>p < length saves. (cs ! p, n - 4 - 4 * of_nat p) \<in> set saves"
      "sorted_wrt (<) (-1 # map rank_of cs)" "\<forall>i < 32. bit m i \<longleftrightarrow> (\<exists>c \<in> set cs. i = nat (rank_of c))"
    by (auto simp: frame_canonical_def)
  have pos: "\<forall>c \<in> set cs. 0 \<le> rank_of c" using cs(3) by auto
  let ?ks = "map (nat \<circ> rank_of) cs"
  have "sorted_wrt (\<lambda>a b. rank_of a < rank_of b) cs" using cs(3) by (simp add: sorted_wrt_map)
  then have "sorted_wrt (\<lambda>a b. nat (rank_of a) < nat (rank_of b)) cs"
    by (rule sorted_wrt_mono_rel [rotated]) (use pos in \<open>force\<close>)
  then have "sorted_wrt (<) ?ks" by (simp add: sorted_wrt_map)
  then have s1: "sorted ?ks" "distinct ?ks" by (simp_all add: strict_sorted_iff)
  have "set (ranks m) = set ?ks"
  proof -
    have "i < 32" if "i \<in> set ?ks" for i using that pos rank_of_cases(1) by fastforce
    with cs(4) show ?thesis unfolding ranks_def by fastforce
  qed
  moreover have "sorted (ranks m)" "distinct (ranks m)"
    by (simp_all add: ranks_def sorted_wrt_filter distinct_filter)
  ultimately have rk: "ranks m = ?ks" using s1 by (intro sorted_distinct_set_unique)
  then have regs: "map ((!) rank2reg) (ranks m) = cs"
    using pos rank_of_cases(2) by (simp add: map_idI)
  show "length (ranks m) = length saves" using rk cs(1) by simp
  have "distinct (map rank_of cs)" using cs(3) by (simp add: strict_sorted_iff)
  then show "distinct (map ((!) rank2reg) (ranks m))" unfolding regs by (simp add: distinct_map)
  have "bit m i \<Longrightarrow> i < 13" for i
  proof -
    assume "bit m i"
    moreover from this have "i < 32" using bit_imp_le_length [of m i] by simp
    ultimately show "i < 13" using cs(4) pos rank_of_cases(1) by blast
  qed
  then have "take_bit 13 m = m" by (intro bit_word_eqI) (auto simp: bit_simps)
  then have "unat m < 2 ^ 13" by (metis take_bit_nat_less_exp unsigned_take_bit_eq)
  then show "m < 0x2000" by (simp add: word_less_nat_alt)
  let ?ys = "zip cs (map (\<lambda>p. n - 4 - 4 * of_nat p) [0..<length saves])"
  have "distinct ?ys" using \<open>distinct (map rank_of cs)\<close> by (simp add: distinct_map distinct_zipI1)
  moreover have "set ?ys \<subseteq> set saves" using cs(1,2) by (auto simp: set_zip)
  ultimately have "mset saves = mset ?ys" using cs(1) by (intro mset_eq_of_subset) simp_all
  then show "mset saves = mset (zip (map ((!) rank2reg) (ranks m)) (map (\<lambda>p. n - 4 - 4 * of_nat p) [0..<length saves]))"
    unfolding regs .
qed

section \<open>The instructions of a frame\<close>

lemma insns_append:
  "insns hk off ws s = Some (s', C_done) \<Longrightarrow> insns hk off (ws @ vs) s = insns hk (off + of_nat (4 * length ws)) vs s'"
  by (induction hk off ws s rule: insns.induct)
    (auto simp: algebra_simps split: option.splits ctl.splits)

text \<open>Where a save at offset \<open>i\<close> of a frame of size \<open>n\<close> lies.\<close>

definition slot_of :: "nat \<Rightarrow> u32 \<Rightarrow> u32 \<Rightarrow> nat" where
  "slot_of q n i = q - unat (n - i)"

definition in_frame :: "u32 \<Rightarrow> u32 \<Rightarrow> bool" where
  "in_frame n i = (\<exists>j < 13. i = n - 4 - 4 * of_nat j)"

lemma in_frame_slot:
  assumes "in_frame n i"
  shows "\<exists>d. 4 \<le> d \<and> d \<le> 52 \<and> tp - n + i = tp - of_nat d \<and> unat (n - i) = d"
proof -
  obtain j where j: "j < 13" "i = n - 4 - 4 * of_nat j" using assms by (auto simp: in_frame_def)
  have "unat (of_nat (4 * Suc j) :: u32) = 4 * Suc j"
    using j(1) by (simp only: unat_of_nat) simp
  moreover have "n - i = of_nat (4 * Suc j)" "tp - n + i = tp - of_nat (4 * Suc j)"
    using j(2) by simp_all
  ultimately show ?thesis using j(1) by (intro exI [of _ "4 * Suc j"]) simp
qed

lemma insn_save:
  assumes "is_save (tc_dec w off) (r, i)" "h_callback hk \<noteq> None" "band s tp q" "regs s 2 = tp - n" "in_frame n i"
  shows "insn hk off w s = Some (poke (slot_of q n i, regs s r) s, C_done)"
proof -
  from in_frame_slot [OF assms(5), of tp] obtain d where
    d: "4 \<le> d" "d \<le> 52" "tp - n + i = tp - of_nat d" "unat (n - i) = d" by blast
  have f: "dop (tc_dec w off) = RISCV_OP_SW" "drs1 (tc_dec w off) = 2" "drs2 (tc_dec w off) = r"
    "dimm (tc_dec w off) = i" using assms(1) by (auto simp: is_save_def)
  have "regs s 2 + i = tp - of_nat d" using d(3) assms(4) by simp
  then show ?thesis
    by (simp add: insn_sw [OF f(1) assms(2)] f(2-4) band_mem(2) [OF assms(3) d(1,2)] d(4) Let_def slot_of_def)
qed

lemma insn_restore:
  assumes "is_restore (tc_dec w off) (r, i)" "h_callback hk \<noteq> None" "band s tp q" "regs s 2 = tp - n" "in_frame n i"
  shows "insn hk off w s = Some (set_reg s r (peek s (slot_of q n i)), C_done)"
proof -
  from in_frame_slot [OF assms(5), of tp] obtain d where
    d: "4 \<le> d" "d \<le> 52" "tp - n + i = tp - of_nat d" "unat (n - i) = d" by blast
  have f: "dop (tc_dec w off) = RISCV_OP_LW" "drs1 (tc_dec w off) = 2" "drd (tc_dec w off) = r"
    "dimm (tc_dec w off) = i" "0 \<le> rank_of r" using assms(1) by (auto simp: is_restore_def)
  have nz: "drd (tc_dec w off) \<noteq> 0" using rank_of_cases(4) [OF f(5)] f(3) by simp
  have "regs s 2 + i = tp - of_nat d" using d(3) assms(4) by simp
  then show ?thesis using nz
    by (simp add: insn_load [OF f(1) _ assms(2) nz, of Int32] f(2-4) band_mem(3) [OF assms(3) d(1,2)] d(4)
        Let_def slot_of_def set_reg_wr)
qed

text \<open>A run of saves, and of restores, in program order.\<close>

lemma saves_run:
  assumes "length ws = length xs" "h_callback hk \<noteq> None" "band s tp q" "regs s 2 = tp - n"
    and "\<forall>x \<in> set xs. in_frame n (snd x)"
    and "\<forall>j < length xs. is_save (tc_dec (ws ! j) (off + of_nat (4 * j))) (xs ! j)"
  shows "insns hk off ws s = Some (pokes (map (\<lambda>(r, i). (slot_of q n i, regs s r)) xs) s, C_done)"
  using assms
proof (induction ws xs arbitrary: off s rule: list_induct2)
  case (Cons w ws x xs)
  obtain r i where x: "x = (r, i)" by (cases x)
  have st: "insn hk off w s = Some (poke (slot_of q n i, regs s r) s, C_done)"
    using Cons.prems x by (intro insn_save) (auto dest: spec [of _ 0])
  have "\<forall>j < length xs. is_save (tc_dec (ws ! j) (off + 4 + of_nat (4 * j))) (xs ! j)"
    using Cons.prems(5) by (force simp: algebra_simps dest: spec [of _ "Suc _"])
  from Cons.IH [OF Cons.prems(1) _ _ _ this, of "poke (slot_of q n i, regs s r) s"] Cons.prems st show ?case
    by (simp add: x)
qed simp

lemma restores_run:
  assumes "length ws = length xs" "h_callback hk \<noteq> None" "band s tp q" "regs s 2 = tp - n"
    and "\<forall>x \<in> set xs. in_frame n (snd x)"
    and "\<forall>j < length xs. is_restore (tc_dec (ws ! j) (off + of_nat (4 * j))) (xs ! j)"
  shows "insns hk off ws s = Some (pulls (map (\<lambda>(r, i). (slot_of q n i, r)) xs) s, C_done)"
  using assms
proof (induction ws xs arbitrary: off s rule: list_induct2)
  case (Cons w ws x xs)
  obtain r i where x: "x = (r, i)" by (cases x)
  have r: "is_restore (tc_dec w off) (r, i)" using Cons.prems(5) x by (auto dest: spec [of _ 0])
  then have "r \<noteq> 2" using rank_of_cases(3) [of r] by (auto simp: is_restore_def)
  then have sp: "regs (set_reg s r v) 2 = tp - n" for v using Cons.prems(3) by (simp add: set_reg_def)
  have st: "insn hk off w s = Some (set_reg s r (peek s (slot_of q n i)), C_done)"
    using Cons.prems x r by (intro insn_restore) auto
  have "\<forall>j < length xs. is_restore (tc_dec (ws ! j) (off + 4 + of_nat (4 * j))) (xs ! j)"
    using Cons.prems(5) by (force simp: algebra_simps dest: spec [of _ "Suc _"])
  from Cons.IH [OF Cons.prems(1) _ sp _ this, of "peek s (slot_of q n i)"] Cons.prems st show ?case
    by (simp add: x)
qed simp

text \<open>Against the canonical order.\<close>

lemma slot_of_nth:
  assumes "p < 13"
  shows "slot_of q n (n - 4 - 4 * of_nat p) = q - 4 * Suc p"
proof -
  have "unat (of_nat (4 * Suc p) :: u32) = 4 * Suc p"
    using assms by (simp only: unat_of_nat) simp
  moreover have "n - (n - 4 - 4 * of_nat p) = of_nat (4 * Suc p)" by simp
  ultimately show ?thesis by (simp only: slot_of_def)
qed

lemma zip_slots:
  assumes "length cs \<le> 13"
  shows "map (\<lambda>(r, i). (slot_of q n i, f r)) (zip cs (map (\<lambda>p. n - 4 - 4 * of_nat p) [0..<length cs])) = slots q (map f cs)"
    (is "?l = _")
proof (rule nth_equalityI)
  fix p assume "p < length ?l"
  then have p: "p < length cs" by simp
  then have "?l ! p = (slot_of q n (n - 4 - 4 * of_nat p), f (cs ! p))"
    by (simp only: nth_map length_zip length_map length_upt nth_zip nth_upt split min.idem) simp
  with p slot_of_nth [of p q n] assms show "?l ! p = slots q (map f cs) ! p"
    by (simp add: slots_nth)
qed (simp add: slots_nth)

lemma canonical_mset:
  assumes "frame_canonical saves n = Some m" "length saves \<le> 13"
  shows "mset (map (\<lambda>(r, i). (slot_of q n i, f r)) saves) = mset (slots q (map (\<lambda>r. f (rank2reg ! r)) (ranks m)))"
    "\<forall>x \<in> set saves. in_frame n (snd x)"
proof -
  note c = frame_canonical_ok [OF assms]
  let ?cs = "map ((!) rank2reg) (ranks m)"
  have l: "length ?cs = length saves" using c(2) by simp
  let ?g = "\<lambda>(r, i). (slot_of q n i, f r)"
  have "mset (map ?g saves) = image_mset ?g (mset (zip ?cs (map (\<lambda>p. n - 4 - 4 * of_nat p) [0..<length saves])))"
    unfolding mset_map c(4) [symmetric] ..
  also have "\<dots> = mset (map ?g (zip ?cs (map (\<lambda>p. n - 4 - 4 * of_nat p) [0..<length ?cs])))"
    unfolding mset_map l ..
  also have "\<dots> = mset (slots q (map f ?cs))"
    using zip_slots [of ?cs q n f] assms(2) l by simp
  finally show "mset (map ?g saves) = mset (slots q (map (\<lambda>r. f (rank2reg ! r)) (ranks m)))"
    by (simp add: comp_def)
  show "\<forall>x \<in> set saves. in_frame n (snd x)"
  proof
    fix x assume "x \<in> set saves"
    then have "x \<in> set (zip ?cs (map (\<lambda>p. n - 4 - 4 * of_nat p) [0..<length saves]))"
      using c(4) by (metis set_mset_mset)
    then have "snd x \<in> set (map (\<lambda>p. n - 4 - 4 * of_nat p) [0..<length saves])"
      by (metis prod.collapse set_zip_rightD)
    then obtain p where "snd x = n - 4 - 4 * of_nat p" "p < length saves" by auto
    with assms(2) show "in_frame n (snd x)" unfolding in_frame_def by (intro exI [of _ p]) simp
  qed
qed

section \<open>The fused words, executed\<close>

lemma frame_fields:
  assumes "m < 0x2000" "n \<le> 0x1fff"
  shows "drop_bit 13 (pack0 op (frame_enc m n)) AND 0x1fff = m" "pack0 op (frame_enc m n) AND 0x1fff = n"
proof -
  have "unat m < 2 ^ 13" "unat n < 2 ^ 13" using assms by (simp_all add: word_less_nat_alt word_le_nat_alt)
  then have "take_bit 13 m = m" "take_bit 13 n = n"
    by (simp_all add: word_unat_eq_iff unsigned_take_bit_eq take_bit_nat_eq_self)
  moreover from this have "bit m i \<Longrightarrow> i < 13" "bit n i \<Longrightarrow> i < 13" for i by (metis bit_take_bit_iff)+
  ultimately show "drop_bit 13 (pack0 op (frame_enc m n)) AND 0x1fff = m" "pack0 op (frame_enc m n) AND 0x1fff = n"
    unfolding mask_fields pack0_def frame_enc_def by (intro bit_word_eqI; fastforce simp: bit_simps)+
qed

lemma h_prologue_band:
  assumes "frame_top s (regs s 2) = Some q" "band s (regs s 2) q" "m < 0x2000" "n \<le> 0x1fff"
  shows "h_prologue hk (pack0 op (frame_enc m n)) s = Some
    (set_reg (pokes (slots q (map (\<lambda>r. regs s (rank2reg ! r)) (ranks m))) s) 2 (regs s 2 - n),
     length (ranks m) + 1, P_next 1)"
  using assms(1) by (simp add: h_prologue_def frame_fields [OF assms(3,4)] Let_def prologue_paths(1) [OF assms(2,3)])

lemma h_epilogue_band:
  assumes "frame_top s (regs s 2 + n) = Some q" "band s (regs s 2 + n) q" "m < 0x2000" "n \<le> 0x1fff"
  shows "h_epilogue hk (pack0 op (frame_enc m n)) s =
    (let s' = set_reg (pulls (slots q (map ((!) rank2reg) (ranks m))) s) 2 (regs s 2 + n)
     in Some (s', length (ranks m) + 2, P_jump (regs s' 1 AND NOT 1)))"
  using assms(1) by (simp add: h_epilogue_def frame_fields [OF assms(3,4)] Let_def epilogue_paths(1) [OF assms(2,3)])

end
