(* ===== verification/Purva_Equiv.thy ===== *)
theory Purva_Equiv
  imports Purva_Frame
begin

text \<open>
  The evaluator of transcoded programs against purv, op word by op word: what the transcoder emits
  for one instruction, for a direct jump, for a pair, a vtable call, a prologue or an epilogue does
  what those instructions do one after the other.
\<close>

section \<open>The instructions of a unit\<close>

fun code_words :: "u8 list \<Rightarrow> u32 \<Rightarrow> nat \<Rightarrow> u32 list option" where
  "code_words code off 0 = Some []"
| "code_words code off (Suc k) = do {
     w \<leftarrow> tc_word code off;
     ws \<leftarrow> code_words code (off + 4) k;
     Some (w # ws) }"

lemma code_words_add:
  "code_words code off (j + k) = do {
     us \<leftarrow> code_words code off j;
     vs \<leftarrow> code_words code (off + of_nat (4 * j)) k;
     Some (us @ vs) }"
proof (induction j arbitrary: off)
  case (Suc j)
  have "off + 4 + of_nat (4 * j) = off + of_nat (4 * Suc j)" by simp
  with Suc show ?case by (simp add: ac_simps split: Option.bind_split)
qed simp

lemma run_words:
  assumes "run_ok P k code len off (xs, e)"
  shows "\<exists>ws. code_words code off (length xs) = Some ws \<and> length ws = length xs \<and>
    (\<forall>j < length xs. P (tc_dec (ws ! j) (off + of_nat (4 * j))) (xs ! j))"
proof -
  have dec: "\<exists>w. tc_word code (off + of_nat (4 * j)) = Some w \<and> P (tc_dec w (off + of_nat (4 * j))) (xs ! j)"
    if "j < length xs" for j
    using assms that by (fastforce simp: run_ok_def dec_at_def tc_decode_def)
  have "\<exists>ws. code_words code off n = Some ws \<and> length ws = n \<and>
    (\<forall>j < n. P (tc_dec (ws ! j) (off + of_nat (4 * j))) (xs ! j))" if "n \<le> length xs" for n
    using that
  proof (induction n)
    case (Suc n)
    then obtain ws where ws: "code_words code off n = Some ws" "length ws = n"
      "\<forall>j < n. P (tc_dec (ws ! j) (off + of_nat (4 * j))) (xs ! j)" by auto
    obtain w where w: "tc_word code (off + of_nat (4 * n)) = Some w"
      "P (tc_dec w (off + of_nat (4 * n))) (xs ! n)" using dec [of n] Suc.prems by auto
    have "code_words code off (n + 1) = Some (ws @ [w])"
      using ws(1) w(1) unfolding code_words_add by simp
    then show ?case using ws(2,3) w(2) by (intro exI [of _ "ws @ [w]"]) (auto simp: nth_append less_Suc_eq)
  qed simp
  then show ?thesis by blast
qed

lemma code_words_1: "tc_word code off = Some w \<Longrightarrow> code_words code off 1 = Some [w]"
  by (simp add: numeral_eq_Suc)

text \<open>A fused unit comes from the attempt of its kind.\<close>

lemma or_else_cases:
  assumes "tc_step code len off t = Some (wd, d)" "RISCV_OP_PROLOGUE \<le> dop d" "dop d \<le> RISCV_OP_EPILOGUE"
  shows "dop d = RISCV_OP_PROLOGUE \<and> try_fuse_prologue code len off t = Some (Some (wd, d)) \<or>
    dop d = RISCV_OP_EPILOGUE \<and> try_fuse_epilogue code len off t = Some (Some (wd, d))"
proof -
  have la: "try_fuse_la code len off t = Some (Some (wd, d)) \<Longrightarrow> RISCV_OP_EPILOGUE < dop d"
    by (auto simp: try_fuse_la_def fused_def Let_def bind_eq_Some_conv split: if_splits)
  have "tc_pair a b = Some d' \<Longrightarrow> RISCV_OP_EPILOGUE < dop d'" for a b d'
    by (auto simp: tc_pair_def pair_shadd_def pair_lwx_def pair_lwlw_def pair_lwsw_def pair_bz_def
        Let_def split: if_splits option.splits)
  then have pr: "try_fuse_pair code len off t = Some (Some (wd, d)) \<Longrightarrow> RISCV_OP_EPILOGUE < dop d"
    by (fastforce simp: try_fuse_pair_def bind_eq_Some_conv split: if_splits option.splits)
  have p: "try_fuse_prologue code len off t = Some (Some (wd, d)) \<Longrightarrow> dop d = RISCV_OP_PROLOGUE"
    by (auto simp: try_fuse_prologue_def fused_def Let_def bind_eq_Some_conv split: if_splits option.splits prod.splits)
  have e: "try_fuse_epilogue code len off t = Some (Some (wd, d)) \<Longrightarrow> dop d = RISCV_OP_EPILOGUE"
    by (auto simp: try_fuse_epilogue_def fused_def Let_def bind_eq_Some_conv split: if_splits option.splits prod.splits)
  have "dop (lone_auipc off (tc_dec w off)) \<noteq> dop d" for w
  proof -
    have "dop (tc_dec w off) < RISCV_OP_PROLOGUE \<or> dop (tc_dec w off) = RISCV_OP_MEMOP"
      using tc_dec_op [of w off] by (auto simp: op_nat word_less_nat_alt)
    then have "dop (lone_auipc off (tc_dec w off)) < RISCV_OP_PROLOGUE \<or> RISCV_OP_EPILOGUE < dop (lone_auipc off (tc_dec w off))"
      by (auto simp: lone_auipc_def Let_def)
    with assms(2,3) show ?thesis by auto
  qed
  then show ?thesis
    using assms la pr p e
    by (auto simp: tc_step_def tc_decode_def or_else_Some split: option.splits)
qed

text \<open>The instructions behind a fused prologue and a fused epilogue.\<close>

lemma prologue_unit:
  assumes "code_ok code len" "4 dvd unat off" "unat off + 4 \<le> unat len"
    and "try_fuse_prologue code len off t = Some (Some (wd, d))"
  obtains w ws saves n m where "code_words code off (unat wd div 4) = Some (w # ws)"
    "length ws = length saves" "length saves \<le> 13"
    "dop (tc_dec w off) = RISCV_OP_ADDI" "drd (tc_dec w off) = 2" "drs1 (tc_dec w off) = 2"
    "dimm (tc_dec w off) = - n" "n \<le> 0x1fff" "frame_canonical saves n = Some m"
    "\<forall>j < length saves. is_save (tc_dec (ws ! j) (off + 4 + of_nat (4 * j))) (saves ! j)"
    "d = fused RISCV_OP_PROLOGUE (frame_enc m n)"
proof -
  obtain w where w: "tc_word code off = Some w" "tc_decode code off = Some (tc_dec w off)"
    using tc_decode_some [OF assms(1,3)] by blast
  have o4: "unat (off + 4) = unat off + 4"
    using unat_add_off [of off 4] assms(3) code_ok_le [OF assms(1)] by simp
  then have "4 dvd unat (off + 4)" "unat (off + 4) \<le> unat len" using assms(2,3) by auto
  from save_run_ok [OF assms(1) this] obtain saves e where
    r: "save_run 13 code len t (off + 4) = Some (saves, e)" "run_ok is_save 13 code len (off + 4) (saves, e)"
    by (metis prod.collapse)
  define n where "n = - dimm (tc_dec w off)"
  have a: "dop (tc_dec w off) = RISCV_OP_ADDI" "drd (tc_dec w off) = 2" "drs1 (tc_dec w off) = 2" "n \<le> 0x1fff"
    and m: "\<exists>m. frame_canonical saves n = Some m \<and> wd = 4 * (1 + of_nat (length saves)) \<and>
      d = fused RISCV_OP_PROLOGUE (frame_enc m n)"
    using assms(4) w(2) r(1)
    by (auto simp: try_fuse_prologue_def n_def Let_def split: if_splits option.splits)
  then obtain m where m: "frame_canonical saves n = Some m" "wd = 4 * (1 + of_nat (length saves))"
      "d = fused RISCV_OP_PROLOGUE (frame_enc m n)" by blast
  from run_words [OF r(2)] obtain ws where ws: "code_words code (off + 4) (length saves) = Some ws"
    "length ws = length saves"
    "\<forall>j < length saves. is_save (tc_dec (ws ! j) (off + 4 + of_nat (4 * j))) (saves ! j)" by blast
  have l: "length saves \<le> 13" using r(2) by (simp add: run_ok_def)
  have "unat wd = 4 * (1 + length saves)" using l m(2) by (simp add: unat_word_ariths unat_of_nat)
  then have "unat wd div 4 = Suc (length saves)" by simp
  then have "code_words code off (unat wd div 4) = Some (w # ws)" using w(1) ws(1) by simp
  from that [OF this ws(2) l a(1-3) _ a(4) m(1) ws(3) m(3)] show thesis by (simp add: n_def)
qed

lemma epilogue_unit:
  assumes "code_ok code len" "4 dvd unat off" "unat off + 4 \<le> unat len"
    and "try_fuse_epilogue code len off t = Some (Some (wd, d))"
  obtains ws w1 w2 saves n m where "code_words code off (unat wd div 4) = Some (ws @ [w1, w2])"
    "length ws = length saves" "length saves \<le> 13"
    "\<forall>j < length saves. is_restore (tc_dec (ws ! j) (off + of_nat (4 * j))) (saves ! j)"
    "dop (tc_dec w1 (off + of_nat (4 * length ws))) = RISCV_OP_ADDI"
    "drd (tc_dec w1 (off + of_nat (4 * length ws))) = 2" "drs1 (tc_dec w1 (off + of_nat (4 * length ws))) = 2"
    "dimm (tc_dec w1 (off + of_nat (4 * length ws))) = n" "n \<le> 0x1fff" "frame_canonical saves n = Some m"
    "dop (tc_dec w2 (off + of_nat (4 * length ws) + 4)) = RISCV_OP_JALR"
    "drd (tc_dec w2 (off + of_nat (4 * length ws) + 4)) = 0"
    "drs1 (tc_dec w2 (off + of_nat (4 * length ws) + 4)) = 1"
    "dimm (tc_dec w2 (off + of_nat (4 * length ws) + 4)) = 0"
    "d = fused RISCV_OP_EPILOGUE (frame_enc m n)"
proof -
  have "unat off \<le> unat len" using assms(3) by simp
  from restore_run_ok [OF assms(1,2) this] obtain saves e where
    r: "restore_run 13 code len t off off = Some (saves, e)" "run_ok is_restore 13 code len off (saves, e)"
    by (metis prod.collapse)
  have l: "length saves \<le> 13" "e = off + of_nat (4 * length saves)" using r(2) by (simp_all add: run_ok_def)
  from run_words [OF r(2)] obtain ws where ws: "code_words code off (length saves) = Some ws"
    "length ws = length saves"
    "\<forall>j < length saves. is_restore (tc_dec (ws ! j) (off + of_nat (4 * j))) (saves ! j)" by blast
  obtain ad rt m where u: "tc_decode code e = Some ad" "tc_decode code (e + 4) = Some rt"
    "dop ad = RISCV_OP_ADDI" "drd ad = 2" "drs1 ad = 2" "dimm ad \<le> 0x1fff"
    "dop rt = RISCV_OP_JALR" "drd rt = 0" "drs1 rt = 1" "dimm rt = 0"
    "frame_canonical saves (dimm ad) = Some m" "wd = e + 8 - off"
    "d = fused RISCV_OP_EPILOGUE (frame_enc m (dimm ad))"
    using assms(4) r(1)
    by (auto simp: try_fuse_epilogue_def Let_def bind_eq_Some_conv split: if_splits option.splits)
  obtain w1 w2 where w: "tc_word code e = Some w1" "ad = tc_dec w1 e" "tc_word code (e + 4) = Some w2"
    "rt = tc_dec w2 (e + 4)" using u(1,2) by (auto simp: tc_decode_def)
  have "wd = of_nat (4 * (length saves + 2))" using u(12) l(2) by simp
  then have "unat wd = 4 * (length saves + 2)" using l(1) by (simp only: unat_of_nat) simp
  then have "unat wd div 4 = length saves + 2" by simp
  moreover have "code_words code off (length saves + 2) = Some (ws @ [w1, w2])"
    unfolding code_words_add using ws(1) w(1,3) l(2) by (simp add: eval_nat_numeral)
  ultimately have "code_words code off (unat wd div 4) = Some (ws @ [w1, w2])" by simp
  moreover have e: "e = off + of_nat (4 * length ws)" using l(2) ws(2) by simp
  ultimately show thesis
    using that [of ws w1 w2 saves "dimm ad" m] ws(2,3) l(1) u(3-11,13) w(2,4) unfolding e by simp
qed

text \<open>The transcoder's \<open>la\<close>: \<open>auipc; addi\<close> of one register.\<close>

lemma la_unit:
  assumes "code_ok code len" "unat off + 4 \<le> unat len"
    and "try_fuse_la code len off t = Some (Some (wd, d))"
  obtains w1 w2 v where "code_words code off (unat wd div 4) = Some [w1, w2]"
    "dop (tc_dec w1 off) = RISCV_OP_AUIPC" "dop (tc_dec w2 (off + 4)) = RISCV_OP_ADDI"
    "drd (tc_dec w2 (off + 4)) = drd (tc_dec w1 off)" "drs1 (tc_dec w2 (off + 4)) = drd (tc_dec w1 off)"
    "v = off + push_bit 12 (dimm (tc_dec w1 off)) + dimm (tc_dec w2 (off + 4))" "drd d = drd (tc_dec w1 off)"
    "dop d = RISCV_OP_LI_LO \<and> dimm d = v AND 0x1fffff \<and> near v \<or>
     dop d = RISCV_OP_LI_HI \<and> dimm d = (v - RISCV_HALF) AND 0x1fffff \<and> near (v - RISCV_HALF)"
proof -
  obtain a where a: "tc_decode code off = Some a" "dop a = RISCV_OP_AUIPC"
    using assms(3) by (auto simp: try_fuse_la_def bind_eq_Some_conv split: if_split_asm)
  from assms(3) a obtain b where b: "tc_decode code (off + 4) = Some b"
    by (cases "tc_decode code (off + 4)") (auto simp: try_fuse_la_def split: if_split_asm)
  define v where "v = off + push_bit 12 (dimm a) + dimm b"
  have c: "dop b = RISCV_OP_ADDI \<and> drd b = drd a \<and> drs1 b = drd a" and
    "(if v < len then Some None
      else if near v then Some (Some (8, (fused RISCV_OP_LI_LO (v AND 0x1fffff))\<lparr>drd := drd a\<rparr>))
      else if near (v - RISCV_HALF)
      then Some (Some (8, (fused RISCV_OP_LI_HI ((v - RISCV_HALF) AND 0x1fffff))\<lparr>drd := drd a\<rparr>))
      else Some None) = Some (Some (wd, d))"
    using assms(3) a b unfolding try_fuse_la_def v_def Let_def
    by (simp_all split: if_split_asm)
  then have li: "dop d = RISCV_OP_LI_LO \<and> dimm d = v AND 0x1fffff \<and> near v \<or>
      dop d = RISCV_OP_LI_HI \<and> dimm d = (v - RISCV_HALF) AND 0x1fffff \<and> near (v - RISCV_HALF)"
    and ab: "wd = 8" "drd d = drd a"
    by (auto simp: fused_def split: if_split_asm)
  obtain w1 where w1: "tc_word code off = Some w1" "a = tc_dec w1 off"
    using a(1) by (auto simp: tc_decode_def)
  obtain w2 where w2: "tc_word code (off + 4) = Some w2" "b = tc_dec w2 (off + 4)"
    using b by (auto simp: tc_decode_def)
  have "unat wd div 4 = Suc (Suc 0)" using ab(1) by simp
  then have "code_words code off (unat wd div 4) = Some [w1, w2]"
    using w1(1) w2(1) by simp
  from that [OF this, of v] a(2) c ab(2) li w1(2) w2(2) show thesis by (simp add: v_def)
qed

section \<open>Whole units\<close>

lemma insns_append_None: "insns hk off ws s = None \<Longrightarrow> insns hk off (ws @ vs) s = None"
  by (induction hk off ws s rule: insns.induct) (auto split: option.splits ctl.splits)

lemma reg_blind_init: "reg_blind init_hooks"
  by (simp add: reg_blind_def init_hooks_def default_callback_def)

text \<open>A direct jump at its place in the op array.\<close>

lemma pva_exec_jump:
  assumes "is_direct (tc_dec w x)" "tc_emit at (tc_dec w x) m len = [e]"
    and "at + jump_disp (dop (tc_dec w x)) e = y"
  shows "\<exists>s1 tk. insn hk x w s = Some (s1, if tk then C_goto (dtarget (tc_dec w x)) else C_done) \<and>
    (dop (tc_dec w x) = RISCV_OP_JAL \<longrightarrow> tk \<and> s1 = wr s (drd (tc_dec w x)) (x + 4)) \<and>
    (dop (tc_dec w x) \<noteq> RISCV_OP_JAL \<longrightarrow> s1 = s) \<and>
    pva_exec hk at e w2 s = Some
      (if dop (tc_dec w x) = RISCV_OP_JAL then wr s (drd (tc_dec w x)) (push_bit 2 at + 4) else s,
       1, if tk then P_reloc y else P_next 1)"
proof (cases "dop (tc_dec w x) = RISCV_OP_JAL")
  case True
  let ?d = "tc_dec w x"
  have e: "e = pack1 RISCV_OP_JAL (drd ?d) (disp4 m len ?d at)"
    using emit_jal [OF True, of at m len] assms(2) True by simp
  have y: "at + signed_drop_bit 2 (TC_JOFF e) = y" using assms(3) True by (simp add: jump_disp_def)
  have "pva_exec hk at e w2 s = h_jal at e s"
    using no_class [of RISCV_OP_JAL] unfolding e by (simp add: pva_exec_def TC_OP_pack)
  also have "\<dots> = Some (wr s (drd ?d) (push_bit 2 at + 4), 1, P_reloc y)"
    unfolding h_jal_def y by (simp add: e TC_A_pack)
  finally show ?thesis using True
    by (intro exI [of _ "wr s (drd ?d) (x + 4)"] exI [of _ True]) (simp add: insn_jal [OF True] Let_def)
next
  case False
  let ?d = "tc_dec w x"
  have r: "RISCV_OP_BEQ \<le> dop ?d" "dop ?d \<le> RISCV_OP_BGEU" using assms(1) False by (auto simp: is_direct_def)
  have lt: "dop ?d < 64" using r(2) by (simp add: op_nat word_less_nat_alt)
  have e: "e = pack2 (dop ?d) (drs1 ?d) (drs2 ?d) (disp4 m len ?d at)"
    using emit_branch [of ?d at m len] r assms(2) by simp
  have y: "at + signed_drop_bit 2 (TC_IMM e) = y" using assms(3) False by (simp add: jump_disp_def)
  from insn_branch [OF r, of hk s] obtain c where
    c: "pva_br (ucast (dop ?d)) = Some c" "pva_rr (ucast (dop ?d)) = None" "pva_ri (ucast (dop ?d)) = None"
      "pva_load_ty (ucast (dop ?d)) = None" "pva_store_n (ucast (dop ?d)) = None"
      "insn hk x w s = Some (s, if c (regs s (drs1 ?d)) (regs s (drs2 ?d)) then C_goto (dtarget ?d) else C_done)"
    by (auto simp: Let_def)
  have op: "TC_OP e = ucast (dop ?d)" "TC_A e = drs1 ?d" "TC_B e = drs2 ?d"
    unfolding e by (simp_all add: TC_OP_pack [OF lt] TC_A_pack TC_B_pack)
  have "pva_exec hk at e w2 s = Some (s, 1, if c (regs s (drs1 ?d)) (regs s (drs2 ?d)) then P_reloc y else P_next 1)"
    by (simp add: pva_exec_def op c(1-5) y)
  with c(6) False show ?thesis
    by (intro exI [of _ s] exI [of _ "c (regs s (drs1 ?d)) (regs s (drs2 ?d))"]) simp
qed

text \<open>An address constant.\<close>

lemma la_word:
  assumes "code_ok code len" "unat off + 4 \<le> unat len" "try_fuse_la code len off t = Some (Some (wd, d))"
  shows "\<exists>e ws v. code_words code off (unat wd div 4) = Some ws \<and> tc_emit at d m len = [e] \<and>
    insns hk off ws s = Some (wr s (drd d) v, C_done) \<and>
    pva_exec hk idx e x s = Some (wr s (drd d) v, 1, P_next 1)"
proof -
  from la_unit [OF assms] obtain w1 w2 v where
    u: "code_words code off (unat wd div 4) = Some [w1, w2]"
    "dop (tc_dec w1 off) = RISCV_OP_AUIPC" "dop (tc_dec w2 (off + 4)) = RISCV_OP_ADDI"
    "drd (tc_dec w2 (off + 4)) = drd (tc_dec w1 off)" "drs1 (tc_dec w2 (off + 4)) = drd (tc_dec w1 off)"
    "v = off + push_bit 12 (dimm (tc_dec w1 off)) + dimm (tc_dec w2 (off + 4))" "drd d = drd (tc_dec w1 off)"
    "dop d = RISCV_OP_LI_LO \<and> dimm d = v AND 0x1fffff \<and> near v \<or>
     dop d = RISCV_OP_LI_HI \<and> dimm d = (v - RISCV_HALF) AND 0x1fffff \<and> near (v - RISCV_HALF)"
    by metis
  have nz: "drd d \<noteq> 0" using dop_rd [OF u(2)] u(7) by simp
  have "insns hk off [w1, w2] s = Some (wr s (drd d) v, C_done)"
    using nz u(4-7) by (simp add: insn_auipc [OF u(2)] insn_addi [OF u(3)] Let_def set_reg_wr_simps)
  moreover obtain e where "tc_emit at d m len = [e]" "pva_exec hk idx e x s = Some (wr s (drd d) v, 1, P_next 1)"
    using u(8) li_lo_emit [of d v at m len hk idx x s] li_hi_emit [of d v at m len hk idx x s] nz by blast
  ultimately have "code_words code off (unat wd div 4) = Some [w1, w2] \<and> tc_emit at d m len = [e] \<and>
      insns hk off [w1, w2] s = Some (wr s (drd d) v, C_done) \<and>
      pva_exec hk idx e x s = Some (wr s (drd d) v, 1, P_next 1)" using u(1) by simp
  then show ?thesis by (rule exI [where x = e, OF exI [where x = "[w1, w2]", OF exI [where x = v]]])
qed

text \<open>Stores and a write of \<open>sp\<close> commute; loads leave the other registers alone.\<close>

lemma pokes_set_reg: "pokes xs (set_reg s r v) = set_reg (pokes xs s) r v"
proof (induction xs arbitrary: s)
  case (Cons x xs)
  have "poke x (set_reg s r v) = set_reg (poke x s) r v" by (simp add: poke_def set_reg_def)
  then show ?case by (simp add: Cons.IH)
qed simp

lemma pulls_other: "r \<notin> set rs \<Longrightarrow> regs (pulls (slots q rs) s) r = regs s r"
  by (induction q rs arbitrary: s rule: slots.induct) (auto simp: set_reg_def)

lemma frame_enc_low: "n \<le> 0x1fff \<Longrightarrow> frame_enc m n AND 0x1fff = n"
proof -
  assume "n \<le> 0x1fff"
  then have "unat n < 2 ^ 13" by (simp add: word_le_nat_alt)
  then have "take_bit 13 n = n" by (simp add: word_unat_eq_iff unsigned_take_bit_eq take_bit_nat_eq_self)
  then show ?thesis unfolding mask_fields frame_enc_def
    by (intro bit_word_eqI) (metis (mono_tags, lifting) bit_or_iff bit_push_bit_iff bit_take_bit_iff not_le)
qed

text \<open>A prologue word and an epilogue word against their instructions.\<close>

lemma prologue_word:
  assumes "code_ok code len" "4 dvd unat off" "unat off + 4 \<le> unat len"
    and "try_fuse_prologue code len off t = Some (Some (wd, d))" "h_callback hk \<noteq> None"
    and "frame_top s (regs s 2) = Some q" "wf_region (writable s)" "52 \<le> rg_len (writable s)"
  shows "\<exists>e ws s'. code_words code off (unat wd div 4) = Some ws \<and> tc_emit at d m len = [e] \<and>
    insns hk off ws s = Some (s', C_done) \<and> pva_exec hk idx e w2 s = Some (s', length ws, P_next 1)"
proof -
  from prologue_unit [OF assms(1-4)] obtain w ws saves n M where
    c: "code_words code off (unat wd div 4) = Some (w # ws)" "length ws = length saves" "length saves \<le> 13"
    and a: "dop (tc_dec w off) = RISCV_OP_ADDI" "drd (tc_dec w off) = 2" "drs1 (tc_dec w off) = 2"
      "dimm (tc_dec w off) = - n"
    and n: "n \<le> 0x1fff" "frame_canonical saves n = Some M"
    and sv: "\<forall>j < length saves. is_save (tc_dec (ws ! j) (off + 4 + of_nat (4 * j))) (saves ! j)"
    and d: "d = fused RISCV_OP_PROLOGUE (frame_enc M n)" by metis
  let ?tp = "regs s 2" and ?s1 = "set_reg s 2 (regs s 2 - n)"
  have b: "band s ?tp q" using assms(6) frame_top_band [OF assms(7,8)] by simp
  note cm = canonical_mset [OF n(2) c(3)] and fc = frame_canonical_ok [OF n(2) c(3)]
  have i1: "insn hk off w s = Some (?s1, C_done)"
    using a by (simp add: insn_addi [OF a(1)] Let_def set_reg_wr)
  have "insns hk (off + 4) ws ?s1 = Some (pokes (map (\<lambda>(r, i). (slot_of q n i, regs ?s1 r)) saves) ?s1, C_done)"
    by (rule saves_run [OF c(2) assms(5) _ _ cm(2) sv]) (use b in \<open>simp_all add: set_reg_def\<close>)
  moreover have "pokes (map (\<lambda>(r, i). (slot_of q n i, regs ?s1 r)) saves) ?s1 =
      set_reg (pokes (slots q (map (\<lambda>r. regs s (rank2reg ! r)) (ranks M))) s) 2 (?tp - n)"
  proof -
    have r: "regs ?s1 r = regs s r" if "(r, i) \<in> set saves" for r i
    proof -
      from that obtain j where "j < length saves" "saves ! j = (r, i)" by (auto simp: in_set_conv_nth)
      with sv have "0 \<le> rank_of r" by (force simp: is_save_def)
      then show ?thesis using rank_of_cases(3) by (simp add: set_reg_def)
    qed
    have me: "map (\<lambda>(r, i). (slot_of q n i, regs ?s1 r)) saves = map (\<lambda>(r, i). (slot_of q n i, regs s r)) saves"
      using r by auto
    have "4 * length (map (\<lambda>r. regs s (rank2reg ! r)) (ranks M)) \<le> q"
      using b c(3) fc(2) by (simp add: band_def)
    from pokes_mset [OF cm(1) this]
    have "pokes (map (\<lambda>(r, i). (slot_of q n i, regs ?s1 r)) saves) ?s1 =
        pokes (slots q (map (\<lambda>r. regs s (rank2reg ! r)) (ranks M))) ?s1"
      unfolding me .
    also have "\<dots> = set_reg (pokes (slots q (map (\<lambda>r. regs s (rank2reg ! r)) (ranks M))) s) 2 (?tp - n)"
      by (rule pokes_set_reg)
    finally show ?thesis .
  qed
  moreover have "tc_emit at d m len = [pack0 RISCV_OP_PROLOGUE (frame_enc M n)]"
    using emit_frame [of d at m len] d by (simp add: fused_def)
  ultimately show ?thesis
    using c(1,2) i1 fc(2) h_prologue_band [OF assms(6) b fc(1) n(1), of hk RISCV_OP_PROLOGUE]
    by (simp add: pva_exec_fused)
qed

lemma epilogue_word:
  assumes "code_ok code len" "4 dvd unat off" "unat off + 4 \<le> unat len"
    and "try_fuse_epilogue code len off t = Some (Some (wd, d))" "h_callback hk \<noteq> None"
    and "frame_top s (regs s 2 + (dimm d AND 0x1fff)) = Some q" "wf_region (writable s)" "52 \<le> rg_len (writable s)"
  shows "\<exists>e ws s' a. code_words code off (unat wd div 4) = Some ws \<and> tc_emit at d m len = [e] \<and>
    insns hk off ws s = Some (s', C_goto a) \<and> pva_exec hk idx e w2 s = Some (s', length ws, P_jump a)"
proof -
  from epilogue_unit [OF assms(1-4)] obtain ws w1 w2' saves n M where
    c: "code_words code off (unat wd div 4) = Some (ws @ [w1, w2'])" "length ws = length saves" "length saves \<le> 13"
    and rs: "\<forall>j < length saves. is_restore (tc_dec (ws ! j) (off + of_nat (4 * j))) (saves ! j)"
    and a: "dop (tc_dec w1 (off + of_nat (4 * length ws))) = RISCV_OP_ADDI"
      "drd (tc_dec w1 (off + of_nat (4 * length ws))) = 2" "drs1 (tc_dec w1 (off + of_nat (4 * length ws))) = 2"
      "dimm (tc_dec w1 (off + of_nat (4 * length ws))) = n"
    and n: "n \<le> 0x1fff" "frame_canonical saves n = Some M"
    and j: "dop (tc_dec w2' (off + of_nat (4 * length ws) + 4)) = RISCV_OP_JALR"
      "drd (tc_dec w2' (off + of_nat (4 * length ws) + 4)) = 0"
      "drs1 (tc_dec w2' (off + of_nat (4 * length ws) + 4)) = 1"
      "dimm (tc_dec w2' (off + of_nat (4 * length ws) + 4)) = 0"
    and d: "d = fused RISCV_OP_EPILOGUE (frame_enc M n)" by metis
  define e where "e = off + of_nat (4 * length ws)"
  note a = a [folded e_def] and j = j [folded e_def]
  note cm = canonical_mset [OF n(2) c(3)] and fc = frame_canonical_ok [OF n(2) c(3)]
  have "dimm d AND 0x1fff = n"
    using frame_fields(2) [OF fc(1) n(1), of 0] d n(1) by (simp add: fused_def frame_enc_low [OF n(1)])
  then have ft: "frame_top s (regs s 2 + n) = Some q" using assms(6) by simp
  let ?tp = "regs s 2 + n" and ?cs = "map ((!) rank2reg) (ranks M)"
  have b: "band s ?tp q" using ft frame_top_band [OF assms(7,8)] by simp
  define s1 where "s1 = pulls (slots q ?cs) s"
  have "insns hk off ws s = Some (pulls (map (\<lambda>(r, i). (slot_of q n i, r)) saves) s, C_done)"
    by (rule restores_run [OF c(2) assms(5) b _ cm(2) rs]) simp
  also have "pulls (map (\<lambda>(r, i). (slot_of q n i, r)) saves) s = s1"
    unfolding s1_def using cm(1) [of q "\<lambda>r. r"] fc(3) by (intro pulls_mset) (simp_all add: comp_def)
  finally have i1: "insns hk off ws s = Some (s1, C_done)" .
  have "2 \<notin> set ?cs"
  proof -
    have "set saves = set (zip ?cs (map (\<lambda>p. n - 4 - 4 * of_nat p) [0..<length saves]))"
      using fc(4) by (metis set_mset_mset)
    then have "set ?cs = fst ` set saves" using fc(2) by (simp flip: set_map)
    moreover have "0 \<le> rank_of (fst x)" if "x \<in> set saves" for x
      using that rs by (auto simp: in_set_conv_nth is_restore_def)
    ultimately show ?thesis using rank_of_cases(3) by force
  qed
  then have sp: "regs s1 2 = regs s 2" unfolding s1_def by (rule pulls_other)
  let ?s2 = "set_reg s1 2 ?tp"
  have "insns hk e [w1, w2'] s1 = Some (?s2, C_goto (regs ?s2 1 AND NOT 1))"
    using a j sp by (simp add: insn_addi [OF a(1)] insn_jalr [OF j(1)] Let_def set_reg_wr_simps wr_def)
  with insns_append [OF i1, folded e_def] have i2: "insns hk off (ws @ [w1, w2']) s = Some (?s2, C_goto (regs ?s2 1 AND NOT 1))"
    by simp
  have "tc_emit at d m len = [pack0 RISCV_OP_EPILOGUE (frame_enc M n)]"
    using emit_frame [of d at m len] d by (simp add: fused_def)
  with i2 c fc(2) h_epilogue_band [OF ft b fc(1) n(1), of hk RISCV_OP_EPILOGUE] show ?thesis
    by (simp add: pva_exec_fused s1_def Let_def)
qed

section \<open>A small program and machine\<close>

definition fd_code :: "u8 list" where
  "fd_code = [0x13, 0x01, 0x01, 0xff, 0x23, 0x26, 0x11, 0x00, 0x83, 0x20, 0xc1, 0x00,
              0x13, 0x01, 0x01, 0x01, 0x67, 0x80, 0x00, 0x00, 0x17, 0xf5, 0xff, 0xff,
              0x13, 0x05, 0x05, 0x00]"

definition fd_vm :: "unit vm" where
  "fd_vm = pva_init \<lparr>rg_ptr = None, rg_len = 0, rg_base = 0\<rparr>
     \<lparr>rg_ptr = Some (replicate 64 0), rg_len = 64, rg_base = RISCV_HALF - 64\<rparr> ()"

lemma fd_code_ok: "code_ok fd_code 28"
  by (simp add: code_ok_def fd_code_def)

lemma fd_steps:
  "tc_step fd_code 28 0 (targets_new 28) = Some (8, fused RISCV_OP_PROLOGUE (frame_enc 1 16))"
  "tc_step fd_code 28 8 (targets_new 28) = Some (12, fused RISCV_OP_EPILOGUE (frame_enc 1 16))"
  "try_fuse_la fd_code 28 20 (targets_new 28) = Some (Some (8, (fused RISCV_OP_LI_LO 0x1ff014)\<lparr>drd := 10\<rparr>))"
  by code_simp+

lemma fd_band: "frame_top fd_vm (regs fd_vm 2) = Some 64" "wf_region (writable fd_vm)" "52 \<le> rg_len (writable fd_vm)"
  by (simp_all add: frame_top_def fd_vm_def pva_init_def FRAME_SAVE_SPAN_def wf_region_def)

section \<open>Properties\<close>

text \<open>
  C5: an instruction that stays in line means the same to both engines. For every word that decodes
  to an arithmetic, \<open>lui\<close>, load or store op, the one op word the transcoder emits, executed by the
  evaluator, ends like the instruction executed by purv at its own address: in the same state, or
  in the same failing access. What the transcoder drops changes nothing in purv either. Reserved
  \<open>OP\<close> encodings are excluded (the two decoders differ there), and a callback is installed, as
  \<open>RiscvEmulatorInit\<close> of purva does.
\<close>

theorem transcoded_line:
  assumes "line_op (dop (tc_dec w off)) \<or> dop (tc_dec w off) = RISCV_OP_NOP"
    and "\<not> reserved_op w 4" "h_callback hk \<noteq> None"
  shows "if dop (tc_dec w off) = RISCV_OP_NOP
    then tc_emit at (tc_dec w off) m len = [] \<and> insn hk off w s = Some (s, C_done)
    else \<exists>e r. tc_emit at (tc_dec w off) m len = [e] \<and> insn hk off w s = map_option (\<lambda>s'. (s', C_done)) r \<and>
      pva_exec hk idx e w2 s = map_option (\<lambda>s'. (s', 1, P_next 1)) r"
proof (cases "dop (tc_dec w off) = RISCV_OP_NOP")
  case True
  then have "tc_emit at (tc_dec w off) m len = []" by (simp add: tc_emit_def Let_def)
  with True show ?thesis by (simp add: insn_def nop_instruction_step)
next
  case False
  with assms(1) have "line_op (dop (tc_dec w off))" by simp
  from line_instruction_step [OF this assms(2,3)] False show ?thesis
    by (fastforce simp: same_step_def insn_def)
qed

lemma transcoded_line_witness:
  "\<exists>e r. tc_emit 3 (tc_dec 0x00108093 8) [] 0 = [e] \<and>
     insn init_hooks 8 0x00108093 fd_vm = map_option (\<lambda>s'. (s', C_done)) r \<and>
     pva_exec init_hooks 3 e 0 fd_vm = map_option (\<lambda>s'. (s', 1, P_next 1)) r"
proof -
  have d: "dop (tc_dec 0x00108093 8) = RISCV_OP_ADDI" "\<not> reserved_op 0x00108093 4" by code_simp+
  show ?thesis
    using transcoded_line [of "0x00108093" 8 init_hooks 3 "[]" 0 fd_vm 3 0] d
    by (simp add: line_op_def init_hooks_def)
qed

text \<open>
  C6: a direct jump at its place in the transcoded program goes where the instruction goes. The op
  word the map gives for a conditional branch or \<open>jal\<close>, executed at its own index, takes the jump
  exactly when the instruction of purv does, and then the cursor moves to the op index the map
  gives for the instruction's target; not taken, both go on to what follows. A \<open>jal\<close> links the
  address after itself, in op space and in code space.
\<close>

theorem transcoded_jump:
  assumes "code_ok code len" "transcode_map_ex code len ext = Some (m, n)"
    and "transcode_ex code len ext = Some p" "4 dvd unat x" "unat x < unat len"
    and "tc_word code x = Some w" "d = tc_dec w x" "is_direct d"
    and "4 dvd unat (dtarget d)" "unat (dtarget d) < unat len" "m ! half x \<noteq> TC_SENTINEL"
  shows "\<exists>s1 tk. insn hk x w s = Some (s1, if tk then C_goto (dtarget d) else C_done) \<and>
    (dop d = RISCV_OP_JAL \<longrightarrow> tk \<and> s1 = wr s (drd d) (x + 4)) \<and> (dop d \<noteq> RISCV_OP_JAL \<longrightarrow> s1 = s) \<and>
    pva_exec hk (m ! half x) (tops p ! unat (m ! half x)) w2 s = Some
      (if dop d = RISCV_OP_JAL then wr s (drd d) (push_bit 2 (m ! half x) + 4) else s, 1,
       if tk then P_reloc (m ! half (dtarget d)) else P_next 1)"
proof -
  have "tc_decode code x = Some d" using assms(6,7) by (simp add: tc_decode_def)
  from branch_lands [OF assms(1-5) this assms(8-11)] obtain e where
    e: "tc_emit (m ! half x) d m len = [e]" "tops p ! unat (m ! half x) = e"
      "m ! half x + jump_disp (dop d) e = m ! half (dtarget d)" by blast
  show ?thesis
    unfolding e(2) assms(7)
    by (rule pva_exec_jump [OF assms(8) [unfolded assms(7)] e(1) [unfolded assms(7)] e(3) [unfolded assms(7)]])
qed

lemma transcoded_jump_witness:
  "\<exists>tk. insn init_hooks 8 0xfeb50ce3 fd_vm = Some (fd_vm, if tk then C_goto 0 else C_done) \<and>
     pva_exec init_hooks 1 0x8d4bfffc 0 fd_vm = Some (fd_vm, 1, if tk then P_reloc 0 else P_next 1)"
proof -
  have w: "tc_word tc_demo 8 = Some 0xfeb50ce3" by code_simp
  then have d: "tc_dec 0xfeb50ce3 8 = \<lparr>dop = RISCV_OP_BEQ, drd = 25, drs1 = 10, drs2 = 11, dimm = 0, dtarget = 0\<rparr>"
    using tc_demo_branch by (simp add: tc_decode_def)
  show ?thesis
    using transcoded_jump [OF tc_demo_ok tc_demo_map tc_demo_ops _ _ w d [symmetric], of init_hooks fd_vm 0]
    by (simp add: is_direct_def half_demo TC_SENTINEL_def cong: if_cong)
qed

text \<open>
  C9: a fused pair is its two instructions. Whatever two consecutive instructions the transcoder
  accepts as a pair (shifted add, indexed load, double load, load and store, load and branch on
  zero), the emitted word leaves the state the two instructions leave one after the other in purv,
  and fails where they fail; a load-and-branch takes its branch exactly when they do. The callback
  may do anything but look at or write the registers.
\<close>

theorem transcoded_pair:
  assumes "tc_pair (tc_dec w1 off) (tc_dec w2 (off + 4)) = Some d" "reg_blind hk" "regs s 0 = 0"
  shows "if dop d = RISCV_OP_LW_BZ \<or> dop d = RISCV_OP_LBU_BZ
    then \<exists>e1 e2 r. tc_emit at d m len = [e1, e2] \<and>
      insns hk off [w1, w2] s = map_option (\<lambda>(s', tk). (s', if tk then C_goto (dtarget d) else C_done)) r \<and>
      pva_exec hk idx e1 e2 s = map_option (\<lambda>(s', tk).
        (s', 2, if tk then P_reloc (idx + signed_drop_bit 2 e2) else P_next 2)) r
    else \<exists>e r. tc_emit at d m len = [e] \<and>
      insns hk off [w1, w2] s = map_option (\<lambda>s'. (s', C_done)) r \<and>
      pva_exec hk idx e x s = map_option (\<lambda>s'. (s', 2, P_next 1)) r"
proof (cases "pair_bz (tc_dec w1 off) (tc_dec w2 (off + 4)) = Some d")
  case True
  then have "dop d = RISCV_OP_LW_BZ \<or> dop d = RISCV_OP_LBU_BZ" using bz_fields(1) by blast
  with bz_step [OF True assms(2,3), of at m len idx] show ?thesis by auto
next
  case False
  let ?a = "tc_dec w1 off" and ?b = "tc_dec w2 (off + 4)"
  from False assms(1) consider "pair_shadd ?a ?b = Some d" | "pair_lwx ?a ?b = Some d"
    | "pair_lwlw ?a ?b = Some d" | "pair_lwsw ?a ?b = Some d"
    by (auto simp: tc_pair_def split: option.splits)
  then have "(\<exists>e. tc_emit at d m len = [e] \<and> same_pair (pva_exec hk idx e x s) (insns hk off [w1, w2] s)) \<and>
    dop d \<noteq> RISCV_OP_LW_BZ \<and> dop d \<noteq> RISCV_OP_LBU_BZ"
  proof cases
    case 1
    have "dop d = RISCV_OP_SHADD" using 1 by (auto simp: pair_shadd_def Let_def split: if_splits option.splits)
    with shadd_step [OF 1] show ?thesis by auto
  next
    case 2
    have "dop d = RISCV_OP_LWX" using 2 by (auto simp: pair_lwx_def split: if_splits)
    with lwx_step [OF 2 assms(2)] show ?thesis by auto
  next
    case 3
    with lwlw_step [OF 3 assms(2)] lwlw_fields(8) [OF 3] show ?thesis by auto
  next
    case 4
    with lwsw_step [OF 4 assms(2)] lwsw_fields(5) [OF 4] show ?thesis by auto
  qed
  then show ?thesis by (auto simp: same_pair_def)
qed

lemma transcoded_pair_witness:
  "\<exists>e r. tc_emit 0 (the (tc_pair (tc_dec 0x00231293 0) (tc_dec 0x007282b3 4))) [] 0 = [e] \<and>
     insns init_hooks 0 [0x00231293, 0x007282b3] fd_vm = map_option (\<lambda>s'. (s', C_done)) r \<and>
     pva_exec init_hooks 0 e 0 fd_vm = map_option (\<lambda>s'. (s', 2, P_next 1)) r"
proof -
  have d: "tc_pair (tc_dec 0x00231293 0) (tc_dec 0x007282b3 (0 + 4)) =
      Some (the (tc_pair (tc_dec 0x00231293 0) (tc_dec 0x007282b3 4)))"
    "dop (the (tc_pair (tc_dec 0x00231293 0) (tc_dec 0x007282b3 4))) = RISCV_OP_SHADD" by code_simp+
  have "regs fd_vm 0 = 0" by (simp add: fd_vm_def pva_init_def)
  from transcoded_pair [OF d(1) reg_blind_init this, of 0 "[]" 0 0 0] d(2) show ?thesis by simp
qed

text \<open>
  A vtable call is its three instructions. The word emitted for \<open>lw; lw; jalr ra\<close> loads the same
  word and jumps to the same address (with bit 0 cleared) as the three instructions; \<open>ra\<close> gets the
  address after the call, in op space and in code space. The register that held the function
  pointer keeps the loaded word in purv, and the word with bit 0 cleared here.
\<close>

theorem transcoded_vcall:
  assumes "pair_lwlw (tc_dec w1 off) (tc_dec w2 (off + 4)) = Some d" "is_vcall d (tc_dec w3 (off + 8))"
    and "reg_blind hk"
  shows "\<exists>e r. tc_emit at (d\<lparr>dop := RISCV_OP_VCALL\<rparr>) m len = [e] \<and>
    insns hk off [w1, w2, w3] s = map_option (\<lambda>(v, s').
      (s'\<lparr>regs := (regs s)(drd d := v, 1 := off + 12)\<rparr>, C_goto (v AND NOT 1))) r \<and>
    pva_exec hk idx e x s = map_option (\<lambda>(v, s').
      (s'\<lparr>regs := (regs s)(drd d := v AND NOT 1, 1 := push_bit 2 idx + 4)\<rparr>, 3, P_jump (v AND NOT 1))) r"
proof -
  let ?a = "tc_dec w1 off" and ?b = "tc_dec w2 (off + 4)" and ?c = "tc_dec w3 (off + 4 + 4)"
  note f = lwlw_fields [OF assms(1)]
  have c: "dop ?c = RISCV_OP_JALR" "drd ?c = 1" "drs1 ?c = drd d" "dimm ?c = 0"
    using assms(2) by (auto simp: is_vcall_def add.assoc)
  let ?e = "pack2 RISCV_OP_VCALL (drd d) (drs1 d) (dimm d)"
  let ?r = "load2 hk (regs s (drs1 d) + dimm ?a) (dimm ?b) (drd d) s"
  have em: "tc_emit at (d\<lparr>dop := RISCV_OP_VCALL\<rparr>) m len = [?e]"
    using emit_ri(3) [of "d\<lparr>dop := RISCV_OP_VCALL\<rparr>" at m len] by simp
  have im: "TC_O1 ?e = dimm ?a" "TC_O2 ?e = dimm ?b"
    using TC_O_pack [of "dimm d" "dimm ?a" "dimm ?b"] f(6-8) by simp_all
  have x: "pva_exec hk idx ?e x s = map_option (\<lambda>(v, s').
      (s'\<lparr>regs := (regs s)(drd d := v AND NOT 1, 1 := push_bit 2 idx + 4)\<rparr>, 3, P_jump (v AND NOT 1))) ?r"
    unfolding pva_exec_fused h_vcall_load2 [where r = "drd d"] im pack_read
    by (auto simp: set_reg_wr_simps load2_regs [OF assms(3)] intro!: option.map_cong)
  have "insns hk off ([w1, w2] @ [w3]) s = map_option (\<lambda>(v, s').
      (s'\<lparr>regs := (regs s)(drd d := v, 1 := off + 12)\<rparr>, C_goto (v AND NOT 1))) ?r"
  proof (cases ?r)
    case None
    then have "insns hk off [w1, w2] s = None" unfolding lwlw_insns [OF assms(1,3)] by simp
    from insns_append_None [OF this, of "[w3]"] None show ?thesis by simp
  next
    case (Some vs)
    obtain v s' where vs: "vs = (v, s')" by (cases vs)
    have i: "insns hk off [w1, w2] s = Some (s'\<lparr>regs := (regs s)(drd d := v)\<rparr>, C_done)"
      unfolding lwlw_insns [OF assms(1,3)] Some vs by simp
    have "insn hk (off + 4 + 4) w3 (s'\<lparr>regs := (regs s)(drd d := v)\<rparr>) =
        Some (s'\<lparr>regs := (regs s)(drd d := v, 1 := off + 12)\<rparr>, C_goto (v AND NOT 1))"
      unfolding insn_jalr [OF c(1)] Let_def c(2-4) by (simp add: wr_def add.assoc)
    then show ?thesis unfolding insns_append [OF i] by (simp add: Some vs add.assoc)
  qed
  with em x show ?thesis by auto
qed

lemma transcoded_vcall_witness:
  "\<exists>e r. tc_emit 0 ((the (pair_lwlw (tc_dec 0x00052783 0) (tc_dec 0x0087a783 4)))\<lparr>dop := RISCV_OP_VCALL\<rparr>) [] 0 = [e] \<and>
     insns init_hooks 0 [0x00052783, 0x0087a783, 0x000780e7] fd_vm = map_option (\<lambda>(v, s').
       (s'\<lparr>regs := (regs fd_vm)(15 := v, 1 := 12)\<rparr>, C_goto (v AND NOT 1))) r \<and>
     pva_exec init_hooks 0 e 0 fd_vm = map_option (\<lambda>(v, s').
       (s'\<lparr>regs := (regs fd_vm)(15 := v AND NOT 1, 1 := 4)\<rparr>, 3, P_jump (v AND NOT 1))) r"
proof -
  let ?d = "the (pair_lwlw (tc_dec 0x00052783 0) (tc_dec 0x0087a783 4))"
  have d: "pair_lwlw (tc_dec 0x00052783 0) (tc_dec 0x0087a783 (0 + 4)) = Some ?d"
    "is_vcall ?d (tc_dec 0x000780e7 (0 + 8))" "drd ?d = 15" by code_simp+
  from transcoded_vcall [OF d(1,2) reg_blind_init, of 0 "[]" 0 fd_vm 0 0] d(3) show ?thesis by simp
qed

text \<open>
  An address constant is its two instructions. The load-immediate word emitted for
  \<open>auipc; addi\<close> sets the register to exactly the address the two instructions compute at their own
  place in the code, however much the 21 bits of its field and the bias of the upper cluster
  leave out.
\<close>

theorem transcoded_la:
  assumes "code_ok code len" "unat off + 4 \<le> unat len" "try_fuse_la code len off t = Some (Some (wd, d))"
  shows "\<exists>e ws s'. code_words code off (unat wd div 4) = Some ws \<and> tc_emit at d m len = [e] \<and>
    insns hk off ws s = Some (s', C_done) \<and> pva_exec hk idx e x s = Some (s', 1, P_next 1)"
  using la_word [OF assms, of at m hk s idx x] by blast

lemma transcoded_la_witness:
  "\<exists>e ws s'. code_words fd_code 20 2 = Some ws \<and>
     tc_emit 2 ((fused RISCV_OP_LI_LO 0x1ff014)\<lparr>drd := 10\<rparr>) [] 28 = [e] \<and>
     insns init_hooks 20 ws fd_vm = Some (s', C_done) \<and> pva_exec init_hooks 2 e 0 fd_vm = Some (s', 1, P_next 1)"
  using transcoded_la [OF fd_code_ok _ fd_steps(3), where at = 2 and m = "[]" and hk = init_hooks and s = fd_vm and idx = 2 and x = 0] by simp

text \<open>
  The two paths of the fused frame handlers agree. Whenever the 52-byte band below the frame's
  top is inside the writable buffer, the unrolled fast path and the out-of-line path (which checks
  every slot) store, or load, the same registers at the same places and count the same.
\<close>

theorem frame_paths_agree:
  assumes "frame_top s tp = Some q" "wf_region (writable s)" "52 \<le> rg_len (writable s)" "m < 0x2000"
  shows "prologue_slow hk s m tp 0 = save_fast [0..<13] m q 0 s \<and>
    epilogue_slow hk s m tp 0 = rest_fast [0..<13] m q 0 s \<and> save_fast [0..<13] m q 0 s \<noteq> None"
proof -
  have "band s tp q" using assms frame_top_band by blast
  from prologue_paths [OF this assms(4)] epilogue_paths(2) [OF this assms(4)] show ?thesis by simp
qed

lemma frame_paths_agree_witness:
  "prologue_slow init_hooks fd_vm 3 (regs fd_vm 2) 0 = save_fast [0..<13] 3 64 0 fd_vm \<and>
   epilogue_slow init_hooks fd_vm 3 (regs fd_vm 2) 0 = rest_fast [0..<13] 3 64 0 fd_vm \<and>
   save_fast [0..<13] 3 64 0 fd_vm \<noteq> None"
  by (rule frame_paths_agree [OF fd_band]) simp

text \<open>
  C10: a fused prologue is its instructions. When the transcoder replaces \<open>addi sp, sp, -n\<close> and the
  stores of callee-saved registers by one word, in whatever order the code saves them, executing
  the word leaves the state the instructions leave, counts as many instructions, and never leaves
  the buffer, provided the band below the old stack pointer is mapped.
\<close>

theorem transcoded_prologue:
  assumes "code_ok code len" "4 dvd unat off" "unat off + 4 \<le> unat len"
    and "tc_step code len off t = Some (wd, d)" "dop d = RISCV_OP_PROLOGUE" "h_callback hk \<noteq> None"
    and "frame_top s (regs s 2) = Some q" "wf_region (writable s)" "52 \<le> rg_len (writable s)"
  shows "\<exists>e ws s'. code_words code off (unat wd div 4) = Some ws \<and> tc_emit at d m len = [e] \<and>
    insns hk off ws s = Some (s', C_done) \<and> pva_exec hk idx e x s = Some (s', length ws, P_next 1)"
proof -
  have "try_fuse_prologue code len off t = Some (Some (wd, d))"
    using or_else_cases [OF assms(4)] assms(5) by simp
  from prologue_word [OF assms(1-3) this assms(6-9)] show ?thesis .
qed

lemma transcoded_prologue_witness:
  "\<exists>e ws s'. code_words fd_code 0 2 = Some ws \<and> tc_emit 0 (fused RISCV_OP_PROLOGUE (frame_enc 1 16)) [] 28 = [e] \<and>
     insns init_hooks 0 ws fd_vm = Some (s', C_done) \<and> pva_exec init_hooks 0 e 0 fd_vm = Some (s', length ws, P_next 1)"
  using transcoded_prologue [OF fd_code_ok _ _ fd_steps(1) _ _ fd_band, where hk = init_hooks and at = 0 and m = "[]" and idx = 0 and x = 0]
  by (simp add: fused_def init_hooks_def)

text \<open>
  A fused epilogue is its instructions. The word that replaces the loads of callee-saved
  registers, \<open>addi sp, sp, n\<close> and \<open>ret\<close> restores the same registers from the same slots, pops the
  same frame and returns to the same address, counting as many instructions.
\<close>

theorem transcoded_epilogue:
  assumes "code_ok code len" "4 dvd unat off" "unat off + 4 \<le> unat len"
    and "tc_step code len off t = Some (wd, d)" "dop d = RISCV_OP_EPILOGUE" "h_callback hk \<noteq> None"
    and "frame_top s (regs s 2 + (dimm d AND 0x1fff)) = Some q" "wf_region (writable s)"
    and "52 \<le> rg_len (writable s)"
  shows "\<exists>e ws s' a. code_words code off (unat wd div 4) = Some ws \<and> tc_emit at d m len = [e] \<and>
    insns hk off ws s = Some (s', C_goto a) \<and> pva_exec hk idx e x s = Some (s', length ws, P_jump a)"
proof -
  have "try_fuse_epilogue code len off t = Some (Some (wd, d))"
    using or_else_cases [OF assms(4)] assms(5) by simp
  from epilogue_word [OF assms(1-3) this assms(6-9)] show ?thesis .
qed

lemma transcoded_epilogue_witness:
  "\<exists>e ws s' a. code_words fd_code 8 3 = Some ws \<and> tc_emit 1 (fused RISCV_OP_EPILOGUE (frame_enc 1 16)) [] 28 = [e] \<and>
     insns init_hooks 8 ws (set_reg fd_vm 2 (RISCV_HALF - 16)) = Some (s', C_goto a) \<and>
     pva_exec init_hooks 1 e 0 (set_reg fd_vm 2 (RISCV_HALF - 16)) = Some (s', length ws, P_jump a)"
proof -
  let ?s = "set_reg fd_vm 2 (RISCV_HALF - 16)"
  have "frame_enc 1 16 AND 0x1fff = 16" by (rule frame_enc_low) simp
  then have "frame_top ?s (regs ?s 2 + (dimm (fused RISCV_OP_EPILOGUE (frame_enc 1 16)) AND 0x1fff)) = Some 64"
    by (simp add: fused_def set_reg_def frame_top_def fd_vm_def pva_init_def FRAME_SAVE_SPAN_def)
  moreover have "wf_region (writable ?s)" "52 \<le> rg_len (writable ?s)"
    using fd_band(2,3) by (simp_all add: set_reg_def)
  ultimately show ?thesis
    using transcoded_epilogue [OF fd_code_ok _ _ fd_steps(2), where hk = init_hooks and s = ?s and q = 64 and at = 1 and m = "[]" and idx = 1 and x = 0]
    by (simp add: fused_def init_hooks_def)
qed

end
