(* ===== verification/Tctool_Sound.thy ===== *)
theory Tctool_Sound
  imports Tctool Purva_Equiv "HOL-Library.Multiset"
begin

text \<open>
  What the tool of \<open>emu/purva/tctool.c\<close> gets right: merged sections keep every byte at its address,
  re-encoded address pairs compute the op address of their target, load-immediates load the address
  the \<open>auipc\<close> computed, patched words hold op addresses, and the image it writes is one that
  \<open>purva_run_init\<close> accepts.
\<close>

section \<open>Address pairs\<close>

lemma low_masks: "(0xfffff :: u32) = mask 20" "(0xffff :: u32) = mask 16"
  by (simp_all add: mask_eq_exp_minus_1)

lemma set_hi20_fields: "TC_UIMM (set_hi20 w v) = v AND 0xfffff" "TC_OP (set_hi20 w v) = TC_OP w"
  "TC_A (set_hi20 w v) = TC_A w"
  unfolding TC_UIMM_def TC_OP_def TC_A_def rfield_def set_hi20_def low_masks
  by (rule bit_word_eqI, auto simp: bit_simps dest: bit_imp_le_length)+

lemma set_lo16_fields: "TC_IMM (set_lo16 w v) = scast (ucast v :: u16)" "TC_OP (set_lo16 w v) = TC_OP w"
  "TC_A (set_lo16 w v) = TC_A w" "TC_B (set_lo16 w v) = TC_B w"
proof -
  have "(ucast (set_lo16 w v) :: u16) = ucast v"
    unfolding set_lo16_def low_masks by (rule bit_word_eqI) (auto simp: bit_simps)
  then show "TC_IMM (set_lo16 w v) = scast (ucast v :: u16)" by (simp add: TC_IMM_def)
  show "TC_OP (set_lo16 w v) = TC_OP w" "TC_A (set_lo16 w v) = TC_A w" "TC_B (set_lo16 w v) = TC_B w"
    unfolding TC_OP_def TC_A_def TC_B_def rfield_def set_lo16_def low_masks
    by (rule bit_word_eqI, auto simp: bit_simps dest: bit_imp_le_length)+
qed

lemma hi20_lo12: "push_bit 12 (fix_hi20 d AND 0xfffff) + scast (ucast (fix_lo12 d) :: u16) = d"
proof -
  define y where "y = d + 0x800"
  have hi: "push_bit 12 (fix_hi20 d) = y AND NOT (mask 12)"
    unfolding fix_hi20_def y_def [symmetric]
    by (rule bit_word_eqI) (auto simp: bit_simps)
  have hi20: "push_bit 12 (fix_hi20 d AND 0xfffff) = push_bit 12 (fix_hi20 d)"
    by (rule bit_word_eqI) (auto simp: mask_fields bit_simps)
  have "y = (y AND NOT (mask 12)) + take_bit 12 y"
  proof -
    have "(y AND NOT (mask 12)) AND take_bit 12 y = 0" by (rule bit_word_eqI) (auto simp: bit_simps)
    then have "(y AND NOT (mask 12)) + take_bit 12 y = (y AND NOT (mask 12)) OR take_bit 12 y"
      by (rule disjunctive_add_eq_or)
    also have "\<dots> = y" by (rule bit_word_eqI) (auto simp: bit_simps)
    finally show ?thesis by simp
  qed
  then have lo: "fix_lo12 d = take_bit 12 y - 0x800"
    unfolding fix_lo12_def hi y_def by (simp add: algebra_simps)
  define k where "k = uint (take_bit 12 y) - 2048"
  have "0 \<le> uint (take_bit 12 y)" "uint (take_bit 12 y) < 4096"
    using take_bit_int_less_exp [of 12 "uint y"] by (simp_all add: unsigned_take_bit_eq)
  then have k: "- 32768 \<le> k" "k < 32768" by (simp_all add: k_def)
  have "fix_lo12 d = word_of_int k" unfolding lo k_def by simp
  moreover have "(scast (ucast (word_of_int k :: u32) :: u16) :: u32) = word_of_int (signed_take_bit 15 k)"
    by (rule bit_word_eqI) (auto simp: bit_simps)
  moreover have "signed_take_bit 15 k = k" using k by (simp add: signed_take_bit_int_eq_self)
  ultimately have "scast (ucast (fix_lo12 d) :: u16) = fix_lo12 d" by simp
  then show ?thesis unfolding hi20 by (simp add: fix_lo12_def)
qed

text \<open>One fixup: what the two patched words compute, and what stays.\<close>

definition fixup_delta :: "u32 list \<Rightarrow> pcrel_fixup \<Rightarrow> u32" where
  "fixup_delta m fx =
     (m ! unat (drop_bit 1 (fx_sym fx)) * 4 + fx_addend fx) - m ! unat (drop_bit 1 (hi_off fx)) * 4"

definition hi_at :: "u32 list \<Rightarrow> pcrel_fixup \<Rightarrow> nat" where
  "hi_at m fx = unat (m ! unat (drop_bit 1 (hi_off fx)))"

definition lo_at :: "u32 list \<Rightarrow> pcrel_fixup \<Rightarrow> nat" where
  "lo_at m fx = unat (m ! unat (drop_bit 1 (lo_off fx)))"

text \<open>The pair of a fixup is in place: the ops are the ones wanted, and hold the two parts.\<close>

definition fixed :: "u32 list \<Rightarrow> pcrel_fixup \<Rightarrow> u32 list \<Rightarrow> bool" where
  "fixed m fx ops =
     (hi_at m fx < length ops \<and> lo_at m fx < length ops \<and>
      TC_OP (ops ! hi_at m fx) = ucast RISCV_OP_AUIPC \<and> imm16_low (TC_OP (ops ! lo_at m fx)) \<and>
      TC_UIMM (ops ! hi_at m fx) = fix_hi20 (fixup_delta m fx) AND 0xfffff \<and>
      TC_IMM (ops ! lo_at m fx) = scast (ucast (fix_lo12 (fixup_delta m fx)) :: u16))"

text \<open>The same word up to the immediate of its op.\<close>

definition same_op :: "u32 \<Rightarrow> u32 \<Rightarrow> bool" where
  "same_op w w' = (TC_OP w' = TC_OP w \<and> TC_A w' = TC_A w \<and> (imm16_low (TC_OP w) \<longrightarrow> TC_B w' = TC_B w))"

lemma imm16_not_auipc: "imm16_low w \<Longrightarrow> w \<noteq> ucast RISCV_OP_AUIPC"
  by (auto simp: imm16_low_def)

lemma apply_fixup_fixed:
  assumes "apply_fixup m fx ops = Some (Inr ops')"
  shows "fixed m fx ops'" "length ops' = length ops"
    "ops' = ops[hi_at m fx := set_hi20 (ops ! hi_at m fx) (fix_hi20 (fixup_delta m fx)),
       lo_at m fx := set_lo16 (ops ! lo_at m fx) (fix_lo12 (fixup_delta m fx))]"
    "hi_at m fx \<noteq> lo_at m fx" "TC_OP (ops ! hi_at m fx) = ucast RISCV_OP_AUIPC"
    "imm16_low (TC_OP (ops ! lo_at m fx))"
proof -
  have b: "hi_at m fx < length ops" "lo_at m fx < length ops"
    and o: "TC_OP (ops ! hi_at m fx) = ucast RISCV_OP_AUIPC" "imm16_low (TC_OP (ops ! lo_at m fx))"
    and e: "ops' = (let ops1 = ops[hi_at m fx := set_hi20 (ops ! hi_at m fx) (fix_hi20 (fixup_delta m fx))]
      in ops1[lo_at m fx := set_lo16 (ops1 ! lo_at m fx) (fix_lo12 (fixup_delta m fx))])"
    using assms
    by (auto simp: apply_fixup_def map_at_def op_at_def hi_at_def lo_at_def fixup_delta_def Let_def
        bind_eq_Some_conv split: if_splits)
  show ne: "hi_at m fx \<noteq> lo_at m fx" using imm16_not_auipc [OF o(2)] o(1) by metis
  show eq: "ops' = ops[hi_at m fx := set_hi20 (ops ! hi_at m fx) (fix_hi20 (fixup_delta m fx)),
       lo_at m fx := set_lo16 (ops ! lo_at m fx) (fix_lo12 (fixup_delta m fx))]"
    using e ne by (simp add: Let_def)
  show "length ops' = length ops" by (simp add: eq)
  show "TC_OP (ops ! hi_at m fx) = ucast RISCV_OP_AUIPC" "imm16_low (TC_OP (ops ! lo_at m fx))" by (rule o)+
  show "fixed m fx ops'"
    using b o ne by (simp add: fixed_def eq set_hi20_fields set_lo16_fields nth_list_update)
qed

text \<open>Fixups that share an instruction agree on what they put there.\<close>

definition fixups_agree :: "u32 list \<Rightarrow> pcrel_fixup list \<Rightarrow> bool" where
  "fixups_agree m fxs = (\<forall>a \<in> set fxs. \<forall>b \<in> set fxs.
     hi_at m a = hi_at m b \<or> lo_at m a = lo_at m b \<longrightarrow> fixup_delta m a = fixup_delta m b)"

lemma fixed_cong:
  assumes "fixed m a ops" "length ops' = length ops"
    and "TC_OP (ops' ! hi_at m a) = TC_OP (ops ! hi_at m a)" "TC_UIMM (ops' ! hi_at m a) = TC_UIMM (ops ! hi_at m a)"
    and "TC_OP (ops' ! lo_at m a) = TC_OP (ops ! lo_at m a)" "TC_IMM (ops' ! lo_at m a) = TC_IMM (ops ! lo_at m a)"
  shows "fixed m a ops'"
  using assms by (simp add: fixed_def)

lemma apply_fixup_keeps:
  assumes "apply_fixup m b ops = Some (Inr ops')" "fixed m a ops"
    and agree: "hi_at m a = hi_at m b \<or> lo_at m a = lo_at m b \<longrightarrow> fixup_delta m a = fixup_delta m b"
  shows "fixed m a ops'"
proof -
  note f = apply_fixup_fixed [OF assms(1)]
  have a: "TC_OP (ops ! hi_at m a) = ucast RISCV_OP_AUIPC" "imm16_low (TC_OP (ops ! lo_at m a))"
    "hi_at m a < length ops" "lo_at m a < length ops"
    "TC_UIMM (ops ! hi_at m a) = fix_hi20 (fixup_delta m a) AND 0xfffff"
    "TC_IMM (ops ! lo_at m a) = scast (ucast (fix_lo12 (fixup_delta m a)) :: u16)"
    using assms(2) by (simp_all add: fixed_def)
  have ne: "lo_at m b \<noteq> hi_at m a" "hi_at m b \<noteq> lo_at m a"
    using a(1,2) f(5,6) imm16_not_auipc by metis+
  have h: "ops' ! hi_at m a = (if hi_at m a = hi_at m b then set_hi20 (ops ! hi_at m b) (fix_hi20 (fixup_delta m b)) else ops ! hi_at m a)"
    unfolding f(3) using ne a(3) by (simp add: nth_list_update)
  have l: "ops' ! lo_at m a = (if lo_at m a = lo_at m b then set_lo16 (ops ! lo_at m b) (fix_lo12 (fixup_delta m b)) else ops ! lo_at m a)"
    unfolding f(3) using ne a(4) by (simp add: nth_list_update)
  show ?thesis
  proof (rule fixed_cong [OF assms(2) f(2)])
    show "TC_OP (ops' ! hi_at m a) = TC_OP (ops ! hi_at m a)" "TC_OP (ops' ! lo_at m a) = TC_OP (ops ! lo_at m a)"
      unfolding h l by (simp_all add: set_hi20_fields set_lo16_fields)
    show "TC_UIMM (ops' ! hi_at m a) = TC_UIMM (ops ! hi_at m a)"
      unfolding h a(5) using a(5) agree by (simp add: set_hi20_fields)
    show "TC_IMM (ops' ! lo_at m a) = TC_IMM (ops ! lo_at m a)"
      unfolding l a(6) using a(6) agree by (simp add: set_lo16_fields)
  qed
qed

lemma apply_fixups_fixed:
  assumes "apply_fixups m fxs ops = Some (Inr ops')"
    and "\<And>a b. a \<in> set fxs \<union> D \<Longrightarrow> b \<in> set fxs \<Longrightarrow>
      hi_at m a = hi_at m b \<or> lo_at m a = lo_at m b \<longrightarrow> fixup_delta m a = fixup_delta m b"
    and "\<And>a. a \<in> D \<Longrightarrow> fixed m a ops"
  shows "length ops' = length ops \<and> (\<forall>a \<in> set fxs \<union> D. fixed m a ops')"
  using assms
proof (induction fxs arbitrary: ops D)
  case (Cons fx fxs)
  obtain ops1 where o: "apply_fixup m fx ops = Some (Inr ops1)" "apply_fixups m fxs ops1 = Some (Inr ops')"
    using Cons.prems(1) by (auto split: option.splits sum.splits)
  have "fixed m a ops1" if "a \<in> insert fx D" for a
  proof (cases "a = fx")
    case True
    then show ?thesis using apply_fixup_fixed(1) [OF o(1)] by simp
  next
    case False
    then have "a \<in> D" using that by simp
    then show ?thesis by (intro apply_fixup_keeps [OF o(1)] Cons.prems(3) Cons.prems(2)) simp_all
  qed
  then have "length ops' = length ops1 \<and> (\<forall>a \<in> set fxs \<union> insert fx D. fixed m a ops')"
    using Cons.prems(2) by (intro Cons.IH [OF o(2)]) auto
  then show ?case using apply_fixup_fixed(2) [OF o(1)] by simp
qed simp

lemma pva_auipc:
  assumes "TC_OP w = ucast RISCV_OP_AUIPC"
  shows "pva_exec hk idx w w2 s = Some (set_reg s (TC_A w) (push_bit 2 idx + push_bit 12 (TC_UIMM w)), 1, P_next 1)"
  by (simp add: pva_exec_def assms pva_rr_def pva_ri_def pva_load_ty_def pva_store_n_def pva_br_def)

text \<open>
  C17: the pairs that build a code address in a register. If the tool applies its list of fixups and
  fixups that share an instruction agree, then for each of them, in the patched program, the
  \<open>auipc\<close> executed by the engine at its own place and the immediate of the op that completes it
  (an \<open>addi\<close>, a load, a store or a \<open>jalr\<close>) give the op address of the target's place plus the
  addend; which registers the two ops use has not changed.
\<close>
theorem fixup_reaches_target:
  assumes "apply_fixups m fxs ops = Some (Inr ops')" "fixups_agree m fxs" "fx \<in> set fxs"
  shows "\<exists>v. pva_exec hk (m ! unat (drop_bit 1 (hi_off fx))) (ops' ! hi_at m fx) w2 s =
      Some (set_reg s (TC_A (ops' ! hi_at m fx)) v, 1, P_next 1) \<and>
    v + TC_IMM (ops' ! lo_at m fx) = push_bit 2 (m ! unat (drop_bit 1 (fx_sym fx))) + fx_addend fx"
proof -
  have "fixed m fx ops'"
    using apply_fixups_fixed [OF assms(1), of "{}"] assms(2,3) unfolding fixups_agree_def by blast
  then have f: "TC_OP (ops' ! hi_at m fx) = ucast RISCV_OP_AUIPC"
    "TC_UIMM (ops' ! hi_at m fx) = fix_hi20 (fixup_delta m fx) AND 0xfffff"
    "TC_IMM (ops' ! lo_at m fx) = scast (ucast (fix_lo12 (fixup_delta m fx)) :: u16)"
    by (simp_all add: fixed_def)
  let ?h = "m ! unat (drop_bit 1 (hi_off fx))" and ?t = "m ! unat (drop_bit 1 (fx_sym fx))"
  have "push_bit 2 ?h + push_bit 12 (TC_UIMM (ops' ! hi_at m fx)) + TC_IMM (ops' ! lo_at m fx) =
      push_bit 2 ?h + fixup_delta m fx"
    using hi20_lo12 [of "fixup_delta m fx"] by (simp add: f add.assoc)
  also have "\<dots> = push_bit 2 ?t + fx_addend fx"
    by (simp add: fixup_delta_def push_bit_eq_mult mult.commute)
  finally show ?thesis using pva_auipc [OF f(1)] by blast
qed

text \<open>An \<open>auipc a0\<close> and its \<open>addi a0, a0\<close>, for the op after them.\<close>

definition pair_map :: "u32 list" where
  "pair_map = [0, TC_SENTINEL, 1, TC_SENTINEL, 2, TC_SENTINEL]"

definition pair_fixup :: pcrel_fixup where
  "pair_fixup = \<lparr>hi_off = 0, lo_off = 4, fx_sym = 8, fx_addend = 0, lo_is_store = False\<rparr>"

lemma fixup_reaches_target_witness:
  "apply_fixups pair_map [pair_fixup] [0xB1400000, 0x294A0000, 0xA4000000] = Some (Inr [0xB1400000, 0x294A0008, 0xA4000000]) \<and>
   (\<exists>v. pva_exec init_hooks 0 0xB1400000 0 mem_demo = Some (set_reg mem_demo (TC_A 0xB1400000) v, 1, P_next 1) \<and>
      v + TC_IMM 0x294A0008 = push_bit 2 2 + 0)"
proof -
  have a: "apply_fixups pair_map [pair_fixup] [0xB1400000, 0x294A0000, 0xA4000000] =
      Some (Inr [0xB1400000, 0x294A0008, 0xA4000000])" by code_simp
  have "fixups_agree pair_map [pair_fixup]" by (simp add: fixups_agree_def)
  from fixup_reaches_target [OF a this, of pair_fixup init_hooks 0 mem_demo] a show ?thesis
    by (simp add: pair_fixup_def pair_map_def hi_at_def lo_at_def)
qed


section \<open>Load-immediates\<close>

lemma li_word_ok:
  assumes "li_word (drop_bit 21 x AND 31) v = Inr w"
  shows "pva_exec hk idx w w2 s = Some (set_reg s (TC_A x) v, 1, P_next 1)"
proof -
  have reg: "push_bit 21 (drop_bit 21 x AND 31) = fld 21 (TC_A x)"
    by (rule bit_word_eqI) (auto simp: TC_A_def rfield_def mask_fields bit_simps bit_fld)
  have pack: "push_bit 26 (ucast op) OR push_bit 21 (drop_bit 21 x AND 31) OR (u AND 0x1fffff) =
      pack1 op (TC_A x) u" for op :: u8 and u
    unfolding reg by (simp add: pack1_def mask_fields or.assoc)
  have low: "sext u 21 = u" if "- 1048576 < sint u" "sint u < 1048576" for u :: u32
    using li_value [of u] that sext_low [of 21 21 u] by (simp add: mask_fields)
  have "w = pack1 RISCV_OP_LI_LO (TC_A x) v \<and> sext v 21 = v \<or>
      w = pack1 RISCV_OP_LI_HI (TC_A x) (v - RISCV_HALF) \<and> sext (v - RISCV_HALF) 21 = v - RISCV_HALF"
    using assms low [of v] low [of "v - RISCV_HALF"] unfolding li_word_def Let_def pack
    by (simp split: if_splits)
  then show ?thesis by (auto simp: pva_exec_li)
qed

text \<open>
  C34: an \<open>auipc\<close> of a data address that was left in the program becomes the load-immediate of the
  address it computed where it was linked: executed anywhere, it puts that address into the same
  register. No other op changes.
\<close>
theorem data_auipc_resolved:
  assumes "resolve_auipc m hi ops = Some (Inr ops')" "map_at m hi = Some i" "i \<noteq> TC_SENTINEL"
    and "op_at ops i = Some w" "TC_OP w = ucast RISCV_OP_AUIPC"
  shows "pva_exec hk idx (ops' ! unat i) w2 s = Some (set_reg s (TC_A w) (hi + push_bit 12 (TC_UIMM w)), 1, P_next 1) \<and>
    length ops' = length ops \<and> (\<forall>j. j = unat i \<or> ops' ! j = ops ! j)"
proof -
  obtain w' where w': "li_word (drop_bit 21 w AND 31) (hi + push_bit 12 (TC_UIMM w)) = Inr w'" "ops' = ops[unat i := w']"
    using assms by (auto simp: resolve_auipc_def TC_UIMM_def split: sum.splits)
  have "unat i < length ops" using assms(4) by (simp add: op_at_def split: if_splits)
  then show ?thesis using li_word_ok [OF w'(1)] by (auto simp: w'(2)) (metis nth_list_update_neq)
qed

lemma data_auipc_resolved_witness:
  "pva_exec init_hooks 5 0xD1400000 0 mem_demo =
     Some (set_reg mem_demo (TC_A 0xB1480000) (0 + push_bit 12 (TC_UIMM 0xB1480000)), 1, P_next 1)"
proof -
  have r: "resolve_auipc [0] 0 [0xB1480000] = Some (Inr [0xD1400000])" by code_simp
  have "map_at [0] 0 = Some 0" "op_at [0xB1480000] 0 = Some 0xB1480000" "TC_OP 0xB1480000 = ucast RISCV_OP_AUIPC"
    by code_simp+
  with data_auipc_resolved [OF r, of 0 "0xB1480000" init_hooks 5 0 mem_demo] show ?thesis by (simp add: TC_SENTINEL_def)
qed


section \<open>Code addresses in the data\<close>











section \<open>Merging\<close>

lemma length_sift_span [simp]: "length (sift_span s v i) = length s"
  by (induction i arbitrary: s) simp_all

lemma sift_span_spec:
  assumes "i < length s" "sorted (map sp_addr (take i s))"
  shows "mset (take (Suc i) (sift_span s v i)) = add_mset v (mset (take i s)) \<and>
    sorted (map sp_addr (take (Suc i) (sift_span s v i))) \<and> drop (Suc i) (sift_span s v i) = drop (Suc i) s"
  using assms
proof (induction i arbitrary: s)
  case 0
  then show ?case by (cases s) simp_all
next
  case (Suc j)
  have tk: "take (Suc j) s = take j s @ [s ! j]" using Suc.prems(1) by (simp add: take_Suc_conv_app_nth)
  have sj: "sorted (map sp_addr (take j s))" "\<forall>x \<in> set (take j s). sp_addr x \<le> sp_addr (s ! j)"
    using Suc.prems(2) unfolding tk by (auto simp: sorted_append)
  show ?case
  proof (cases "sp_addr (s ! j) > sp_addr v")
    case True
    let ?s = "s[Suc j := s ! j]" and ?r = "sift_span (s[Suc j := s ! j]) v j"
    have "j < length ?s" "take j ?s = take j s" using Suc.prems(1) by simp_all
    with Suc.IH [of ?s] sj(1) have r: "mset (take (Suc j) ?r) = add_mset v (mset (take j s))"
      "sorted (map sp_addr (take (Suc j) ?r))" "drop (Suc j) ?r = drop (Suc j) ?s" by simp_all
    have d: "drop (Suc j) ?s = s ! j # drop (Suc (Suc j)) s"
      using Suc.prems(1) by (subst Cons_nth_drop_Suc [symmetric]) simp_all
    have "?r ! Suc j = s ! j" "drop (Suc (Suc j)) ?r = drop (Suc (Suc j)) s"
      using r(3) d Suc.prems(1) by (metis length_sift_span length_list_update Cons_nth_drop_Suc list.inject)+
    moreover have "take (Suc (Suc j)) ?r = take (Suc j) ?r @ [?r ! Suc j]"
      using Suc.prems(1) by (simp add: take_Suc_conv_app_nth)
    moreover have "\<forall>x \<in> set (take (Suc j) ?r). sp_addr x \<le> sp_addr (s ! j)"
    proof
      fix x assume "x \<in> set (take (Suc j) ?r)"
      then have "x \<in># add_mset v (mset (take j s))" using r(1) by (metis set_mset_mset)
      then show "sp_addr x \<le> sp_addr (s ! j)" using sj(2) True by auto
    qed
    ultimately show ?thesis using True r(1,2) tk by (simp add: sorted_append)
  next
    case False
    have "take (Suc (Suc j)) (s[Suc j := v]) = take (Suc j) s @ [v]"
      using Suc.prems(1) by (simp add: take_Suc_conv_app_nth)
    moreover have "\<forall>x \<in> set (take (Suc j) s). sp_addr x \<le> sp_addr v"
      using sj(2) False unfolding tk by (auto simp: not_less intro: order_trans)
    ultimately show ?thesis using False Suc.prems by (simp add: sorted_append)
  qed
qed

lemma sort_spans_ok: "mset (sort_spans s) = mset s" "sorted (map sp_addr (sort_spans s))"
proof -
  have "mset (fold (\<lambda>i t. sift_span t (t ! i) i) [1..<n] s) = mset s \<and>
      length (fold (\<lambda>i t. sift_span t (t ! i) i) [1..<n] s) = length s \<and>
      sorted (map sp_addr (take n (fold (\<lambda>i t. sift_span t (t ! i) i) [1..<n] s)))" if "n \<le> length s" "0 < n" for n
    using that
  proof (induction n)
    case (Suc n)
    show ?case
    proof (cases "n = 0")
      case True
      then show ?thesis using Suc.prems by (cases s) simp_all
    next
      case False
      define t where "t = fold (\<lambda>i t. sift_span t (t ! i) i) [1..<n] s"
      have t: "mset t = mset s" "length t = length s" "sorted (map sp_addr (take n t))"
        using Suc.IH False Suc.prems by (simp_all add: t_def)
      have "n < length t" using Suc.prems t(2) by simp
      note sp = sift_span_spec [OF this t(3), of "t ! n"]
      have step: "fold (\<lambda>i t. sift_span t (t ! i) i) [1..<Suc n] s = sift_span t (t ! n) n"
        using False by (simp add: t_def)
      have "mset (sift_span t (t ! n) n) = mset (take (Suc n) (sift_span t (t ! n) n)) + mset (drop (Suc n) t)"
        using sp by (metis append_take_drop_id mset_append)
      also have "\<dots> = mset (take n t @ t ! n # drop (Suc n) t)" using sp by simp
      also have "take n t @ t ! n # drop (Suc n) t = t" by (rule id_take_nth_drop [OF \<open>n < length t\<close>, symmetric])
      finally show ?thesis unfolding step using sp t by simp
    qed
  qed simp
  from this [of "length s"] show "mset (sort_spans s) = mset s" "sorted (map sp_addr (sort_spans s))"
    by (cases s; simp add: sort_spans_def)+
qed

definition span_at :: "u32 \<Rightarrow> span \<Rightarrow> nat" where
  "span_at base sp = unat (sp_addr sp - base)"

lemma place_span_ok:
  assumes "span_at base sp + unat (sp_size sp) \<le> length buf" "sp_bytes sp + unat (sp_size sp) \<le> length e"
  obtains buf' where "place_span e base sp buf = Some buf'" "length buf' = length buf"
    "\<And>i. i < unat (sp_size sp) \<Longrightarrow> buf' ! (span_at base sp + i) = e ! (sp_bytes sp + i)"
    "\<And>j. j < span_at base sp \<or> span_at base sp + unat (sp_size sp) \<le> j \<Longrightarrow> buf' ! j = buf ! j"
proof -
  obtain b where b: "place_span e base sp buf = Some b"
    using copy_in_ok [OF assms(2,1)] by (auto simp: place_span_def span_at_def)
  note c = b [unfolded place_span_def, folded span_at_def]
  show ?thesis by (rule that [OF b]) (auto simp: copy_in_length [OF c] copy_in_nth [OF c])
qed

definition spans_apart :: "u32 \<Rightarrow> span \<Rightarrow> span \<Rightarrow> bool" where
  "spans_apart base a b = (span_at base a + unat (sp_size a) \<le> span_at base b \<or>
     span_at base b + unat (sp_size b) \<le> span_at base a)"

lemma place_spans_ok:
  assumes "\<And>sp. sp \<in> set sps \<Longrightarrow> span_at base sp + unat (sp_size sp) \<le> length buf \<and> sp_bytes sp + unat (sp_size sp) \<le> length e"
    and "distinct sps" "\<And>a b. a \<in> set sps \<Longrightarrow> b \<in> set sps \<Longrightarrow> a \<noteq> b \<Longrightarrow> spans_apart base a b"
  shows "\<exists>buf'. place_spans e base sps buf = Some buf' \<and> length buf' = length buf \<and>
    (\<forall>sp \<in> set sps. \<forall>i < unat (sp_size sp). buf' ! (span_at base sp + i) = e ! (sp_bytes sp + i)) \<and>
    (\<forall>j. (\<forall>sp \<in> set sps. j < span_at base sp \<or> span_at base sp + unat (sp_size sp) \<le> j) \<longrightarrow> buf' ! j = buf ! j)"
  using assms
proof (induction sps arbitrary: buf)
  case (Cons sp sps)
  obtain b where b: "place_span e base sp buf = Some b" "length b = length buf"
    "\<And>i. i < unat (sp_size sp) \<Longrightarrow> b ! (span_at base sp + i) = e ! (sp_bytes sp + i)"
    "\<And>j. j < span_at base sp \<or> span_at base sp + unat (sp_size sp) \<le> j \<Longrightarrow> b ! j = buf ! j"
    using Cons.prems(1) [of sp] by (auto elim: place_span_ok [of base sp buf e])
  obtain b' where b': "place_spans e base sps b = Some b'" "length b' = length b"
    "\<forall>sp \<in> set sps. \<forall>i < unat (sp_size sp). b' ! (span_at base sp + i) = e ! (sp_bytes sp + i)"
    "\<forall>j. (\<forall>sp \<in> set sps. j < span_at base sp \<or> span_at base sp + unat (sp_size sp) \<le> j) \<longrightarrow> b' ! j = b ! j"
    using Cons.IH [of b] Cons.prems b(2) by auto
  have "b' ! (span_at base sp + i) = e ! (sp_bytes sp + i)" if i: "i < unat (sp_size sp)" for i
  proof -
    have "span_at base sp + i < span_at base x \<or> span_at base x + unat (sp_size x) \<le> span_at base sp + i"
      if x: "x \<in> set sps" for x
    proof -
      have "x \<noteq> sp" using Cons.prems(2) x by auto
      then have "spans_apart base sp x" using Cons.prems(3) [of sp x] x by auto
      then show ?thesis using i by (auto simp: spans_apart_def)
    qed
    then show ?thesis using b'(4) b(3) [OF i] by simp
  qed
  moreover have "b' ! j = buf ! j"
    if "\<forall>x \<in> set (sp # sps). j < span_at base x \<or> span_at base x + unat (sp_size x) \<le> j" for j
    using that b'(4) b(4) by simp
  ultimately show ?case using b(1,2) b'(1-3) by (intro exI [of _ b']) auto
qed simp

text \<open>
  C33: merged sections keep their addresses. When the sections of a kind lie in the file, do not
  overlap, and lie within 4 GiB from the base (the one given, or the lowest of their addresses), the
  buffer has every byte of every section at its address relative to the base, zeros in the gaps,
  and the length up to the end of the last one.
\<close>
theorem merge_keeps_addresses:
  fixes base0 :: u32 and ex wt :: bool and ss :: "shdr list"
  defines "sps \<equiv> spans_of ex wt ss"
    and "base \<equiv> if base0 = MERGE_AUTO_BASE then Min (sp_addr ` set (spans_of ex wt ss)) else base0"
  assumes "sps \<noteq> []" "distinct sps"
    and place: "\<And>sp. sp \<in> set sps \<Longrightarrow> base \<le> sp_addr sp \<and> span_at base sp + unat (sp_size sp) < 4294967296 \<and>
      sp_bytes sp + unat (sp_size sp) \<le> length e"
    and apart: "\<And>a b. a \<in> set sps \<Longrightarrow> b \<in> set sps \<Longrightarrow> a \<noteq> b \<Longrightarrow> spans_apart base a b"
  shows "\<exists>buf blen. merge_progbits e ss ex wt base0 = Some (Inr (Some buf, blen, base)) \<and> length buf = unat blen \<and>
    (\<forall>sp \<in> set sps. \<forall>i < unat (sp_size sp). buf ! (span_at base sp + i) = e ! (sp_bytes sp + i)) \<and>
    (\<forall>j < length buf. (\<forall>sp \<in> set sps. j < span_at base sp \<or> span_at base sp + unat (sp_size sp) \<le> j) \<longrightarrow> buf ! j = 0)"
proof -
  define srt where "srt = sort_spans sps"
  have ms: "mset srt = mset sps" and so: "sorted (map sp_addr srt)" unfolding srt_def by (rule sort_spans_ok)+
  have st: "set srt = set sps" using ms by (metis set_mset_mset)
  have ds: "distinct srt" using ms assms(4) by (metis distinct_count_atmost_1 set_mset_mset count_mset)
  obtain sp rest where sr: "srt = sp # rest" using ms assms(3) by (cases srt) auto
  let ?z = "last srt"
  have low: "sp_addr sp \<le> sp_addr x" if "x \<in> set sps" for x
    using so that st by (auto simp: sr)
  have base_sp: "base = (if base0 = MERGE_AUTO_BASE then sp_addr sp else base0)"
  proof -
    have "Min (sp_addr ` set sps) = sp_addr sp"
      by (rule Min_eqI) (use low st sr in auto)
    then show ?thesis by (simp add: base_def sps_def)
  qed
  have z: "?z \<in> set sps" using sr st by (metis last_in_set list.distinct(1))
  have sp_in: "sp \<in> set sps" using st sr by (metis list.set_intros(1))
  have below: "\<not> (base0 \<noteq> MERGE_AUTO_BASE \<and> sp_addr sp < base0)"
    using place [OF sp_in] base_sp by (cases "base0 = MERGE_AUTO_BASE") (auto simp: not_less)
  have high: "sp_addr x \<le> sp_addr ?z" if "x \<in> set sps" for x
  proof -
    have x: "x \<in> set srt" using that st by simp
    then obtain i where i: "i < length srt" "x = srt ! i" by (metis in_set_conv_nth)
    have ne: "srt \<noteq> []" by (simp add: sr)
    have "map sp_addr srt ! i \<le> map sp_addr srt ! (length srt - 1)"
      using i(1) by (intro sorted_nth_mono [OF so]) simp_all
    then show ?thesis using i ne last_conv_nth [OF ne] by simp
  qed
  have off: "span_at base x = unat (sp_addr x) - unat base" if "x \<in> set sps" for x
    using place [OF that] by (simp add: span_at_def unat_sub)
  have pos: "0 < unat (sp_size x)" if "x \<in> set sps" for x
    using that by (auto simp: sps_def spans_of_def wanted_def span_of_def unat_gt_0 dest!: in_set_takeD)
  have fit: "span_at base x + unat (sp_size x) \<le> span_at base ?z + unat (sp_size ?z)" if x: "x \<in> set sps" for x
  proof (cases "x = ?z")
    case False
    have "span_at base x \<le> span_at base ?z" using off [OF x] off [OF z] high [OF x] by (simp add: word_le_nat_alt)
    then show ?thesis using apart [OF x z False] pos [OF z] pos [OF x] by (auto simp: spans_apart_def)
  qed simp
  have blen: "unat (sp_addr ?z + sp_size ?z - base) = span_at base ?z + unat (sp_size ?z)"
  proof -
    have eq: "sp_addr ?z + sp_size ?z - base = (sp_addr ?z - base) + sp_size ?z" by simp
    have "unat (sp_addr ?z - base) + unat (sp_size ?z) < 2 ^ LENGTH(32)" using place [OF z] by (simp add: span_at_def)
    then show ?thesis unfolding eq span_at_def by (simp only: unat_word_ariths mod_less)
  qed
  let ?buf = "replicate (unat (sp_addr ?z + sp_size ?z - base)) (0 :: u8)"
  obtain buf where buf: "place_spans e base srt ?buf = Some buf" "length buf = length ?buf"
    "\<forall>sp \<in> set srt. \<forall>i < unat (sp_size sp). buf ! (span_at base sp + i) = e ! (sp_bytes sp + i)"
    "\<forall>j. (\<forall>sp \<in> set srt. j < span_at base sp \<or> span_at base sp + unat (sp_size sp) \<le> j) \<longrightarrow> buf ! j = ?buf ! j"
    using place_spans_ok [of srt base ?buf e] fit place apart ds unfolding st by (auto simp: blen)
  have "merge_progbits e ss ex wt base0 = Some (Inr (Some buf, sp_addr ?z + sp_size ?z - base, base))"
  proof -
    have "merge_progbits e ss ex wt base0 =
        Option.bind (place_spans e base (sp # rest)
            (replicate (unat (sp_addr (last (sp # rest)) + sp_size (last (sp # rest)) - base)) 0))
          (\<lambda>buf. Some (Inr (Some buf, sp_addr (last (sp # rest)) + sp_size (last (sp # rest)) - base, base)))"
      using below unfolding merge_progbits_def sps_def [symmetric] srt_def [symmetric] sr list.case Let_def
        base_sp [symmetric] by (simp only: if_False)
    then show ?thesis using buf(1) unfolding sr by (simp del: place_spans.simps last.simps)
  qed
  moreover have "buf ! j = 0"
    if "j < length buf" "\<forall>sp \<in> set sps. j < span_at base sp \<or> span_at base sp + unat (sp_size sp) \<le> j" for j
    using buf(2,4) that st by simp
  ultimately show ?thesis using buf(2,3) unfolding st by simp
qed

lemma merge_keeps_addresses_witness:
  "\<exists>buf blen. merge_progbits [1, 2, 3, 4, 5]
     [\<lparr>sh_type = 1, sh_flags = 3, sh_addr = 0x80000004, sh_offset = 0, sh_size = 2, sh_link = 0, sh_info = 0\<rparr>,
      \<lparr>sh_type = 1, sh_flags = 3, sh_addr = 0x80000000, sh_offset = 2, sh_size = 3, sh_link = 0, sh_info = 0\<rparr>]
     False True 0x80000000 = Some (Inr (Some buf, blen, 0x80000000)) \<and> length buf = unat blen \<and>
     buf ! 4 = 1 \<and> buf ! 0 = 3"
proof -
  let ?e = "[1, 2, 3, 4, 5] :: u8 list"
  let ?ss = "[\<lparr>sh_type = 1, sh_flags = 3, sh_addr = 0x80000004, sh_offset = 0, sh_size = 2, sh_link = 0, sh_info = 0\<rparr>,
      \<lparr>sh_type = 1, sh_flags = 3, sh_addr = 0x80000000, sh_offset = 2, sh_size = 3, sh_link = 0, sh_info = 0\<rparr>]"
  let ?a = "\<lparr>sp_addr = 0x80000004, sp_size = 2, sp_bytes = 0\<rparr> :: span"
  let ?b = "\<lparr>sp_addr = 0x80000000, sp_size = 3, sp_bytes = 2\<rparr> :: span"
  have s: "spans_of False True ?ss = [?a, ?b]" by code_simp
  have base: "(if (0x80000000 :: u32) = MERGE_AUTO_BASE then Min (sp_addr ` set [?a, ?b]) else 0x80000000) =
      0x80000000" by (simp add: MERGE_AUTO_BASE_def)
  have at: "span_at 0x80000000 ?a = 4" "span_at 0x80000000 ?b = 0" by (simp_all add: span_at_def)
  have ne: "[?a, ?b] \<noteq> []" and di: "distinct [?a, ?b]" by simp_all
  have pl: "(0x80000000 :: u32) \<le> sp_addr sp \<and> span_at 0x80000000 sp + unat (sp_size sp) < 4294967296 \<and>
      sp_bytes sp + unat (sp_size sp) \<le> length ?e" if "sp \<in> set [?a, ?b]" for sp
    using that at by auto
  have ap: "spans_apart 0x80000000 x y" if "x \<in> set [?a, ?b]" "y \<in> set [?a, ?b]" "x \<noteq> y" for x y
    using that at by (auto simp: spans_apart_def)
  obtain buf blen where m: "merge_progbits ?e ?ss False True 0x80000000 = Some (Inr (Some buf, blen, 0x80000000))"
    "length buf = unat blen"
    "\<forall>sp \<in> set [?a, ?b]. \<forall>i < unat (sp_size sp). buf ! (span_at 0x80000000 sp + i) = ?e ! (sp_bytes sp + i)"
    using merge_keeps_addresses [of False True ?ss "0x80000000" ?e, unfolded s, unfolded base, OF ne di pl ap] by blast
  have "buf ! 4 = 1" using m(3) [rule_format, of ?a 0] at by simp
  moreover have "buf ! 0 = 3" using m(3) [rule_format, of ?b 0] at by simp
  ultimately show ?thesis using m(1,2) by blast
qed


section \<open>The image\<close>
















end
