(* ===== verification/Purg_Types.thy ===== *)
theory Purg_Types
  imports Prelude
begin

text \<open>
  The data of \<open>emu/purg.c\<close>, the mechanically flattened atoomnetmarc engine that \<open>purv.c\<close> was
  distilled from: the packed bit-field views of an instruction word, the decoder unions that put
  split immediates back together, the symbolic registers and the encoding constants.

  A packed struct of bit fields is laid out from bit 0 upwards, as the little-endian ABI the engine
  is built for does. A field of \<open>n\<close> bits is an \<open>n\<close>-bit word; a signed one is extended where the
  code reads it into a wider signed variable.
\<close>

section \<open>Bit-field views of an instruction\<close>

definition bits_at :: "nat \<Rightarrow> u32 \<Rightarrow> 'a::len word" where
  "bits_at n w = ucast (drop_bit n w)"

lemma bit_bits_at: "bit (bits_at n w :: 'a::len word) i \<longleftrightarrow> i < LENGTH('a) \<and> bit w (n + i)"
  by (auto simp: bits_at_def bit_simps ac_simps)

record RiscvInstructionTypeB_t =
  btype_opcode :: "7 word"
  btype_imm11 :: "1 word"
  btype_imm4_1 :: "4 word"
  btype_funct3 :: "3 word"
  btype_rs1 :: "5 word"
  btype_rs2 :: "5 word"
  btype_imm10_5 :: "6 word"
  btype_imm12 :: "1 word"

definition btype :: "u32 \<Rightarrow> RiscvInstructionTypeB_t" where
  "btype w = \<lparr>btype_opcode = bits_at 0 w, btype_imm11 = bits_at 7 w,
     btype_imm4_1 = bits_at 8 w, btype_funct3 = bits_at 12 w, btype_rs1 = bits_at 15 w,
     btype_rs2 = bits_at 20 w, btype_imm10_5 = bits_at 25 w, btype_imm12 = bits_at 31 w\<rparr>"

record RiscvInstructionTypeCR_t =
  crtype_op :: "2 word"
  crtype_rs2 :: "5 word"
  crtype_rd :: "5 word"
  crtype_funct4 :: "4 word"

definition crtype :: "u32 \<Rightarrow> RiscvInstructionTypeCR_t" where
  "crtype w = \<lparr>crtype_op = bits_at 0 w, crtype_rs2 = bits_at 2 w,
     crtype_rd = bits_at 7 w, crtype_funct4 = bits_at 12 w\<rparr>"

record RiscvInstructionTypeCI_t =
  citype_op :: "2 word"
  citype_imm4_0 :: "5 word"
  citype_rd :: "5 word"
  citype_imm5 :: "1 word"
  citype_funct3 :: "3 word"

definition citype :: "u32 \<Rightarrow> RiscvInstructionTypeCI_t" where
  "citype w = \<lparr>citype_op = bits_at 0 w, citype_imm4_0 = bits_at 2 w,
     citype_rd = bits_at 7 w, citype_imm5 = bits_at 12 w, citype_funct3 = bits_at 13 w\<rparr>"

record RiscvInstructionTypeCIAddi16sp_t =
  ciaddi16sp_op :: "2 word"
  ciaddi16sp_imm5 :: "1 word"
  ciaddi16sp_imm8_7 :: "2 word"
  ciaddi16sp_imm6 :: "1 word"
  ciaddi16sp_imm4 :: "1 word"
  ciaddi16sp_rd :: "5 word"
  ciaddi16sp_imm9 :: "1 word"
  ciaddi16sp_funct3 :: "3 word"

definition ciaddi16sp :: "u32 \<Rightarrow> RiscvInstructionTypeCIAddi16sp_t" where
  "ciaddi16sp w = \<lparr>ciaddi16sp_op = bits_at 0 w, ciaddi16sp_imm5 = bits_at 2 w,
     ciaddi16sp_imm8_7 = bits_at 3 w, ciaddi16sp_imm6 = bits_at 5 w,
     ciaddi16sp_imm4 = bits_at 6 w, ciaddi16sp_rd = bits_at 7 w,
     ciaddi16sp_imm9 = bits_at 12 w, ciaddi16sp_funct3 = bits_at 13 w\<rparr>"

record RiscvInstructionTypeCILui_t =
  cilui_op :: "2 word"
  cilui_imm16_12 :: "5 word"
  cilui_rd :: "5 word"
  cilui_imm17 :: "1 word"
  cilui_funct3 :: "3 word"

definition cilui :: "u32 \<Rightarrow> RiscvInstructionTypeCILui_t" where
  "cilui w = \<lparr>cilui_op = bits_at 0 w, cilui_imm16_12 = bits_at 2 w,
     cilui_rd = bits_at 7 w, cilui_imm17 = bits_at 12 w, cilui_funct3 = bits_at 13 w\<rparr>"

record RiscvInstructionTypeCILwsp_t =
  cilwsp_op :: "2 word"
  cilwsp_imm7_6 :: "2 word"
  cilwsp_imm4_2 :: "3 word"
  cilwsp_rd :: "5 word"
  cilwsp_imm5 :: "1 word"
  cilwsp_funct3 :: "3 word"

definition cilwsp :: "u32 \<Rightarrow> RiscvInstructionTypeCILwsp_t" where
  "cilwsp w = \<lparr>cilwsp_op = bits_at 0 w, cilwsp_imm7_6 = bits_at 2 w,
     cilwsp_imm4_2 = bits_at 4 w, cilwsp_rd = bits_at 7 w, cilwsp_imm5 = bits_at 12 w,
     cilwsp_funct3 = bits_at 13 w\<rparr>"

record RiscvInstructionTypeCSS_t =
  csstype_op :: "2 word"
  csstype_rs2 :: "5 word"
  csstype_imm7_6 :: "2 word"
  csstype_imm5_2 :: "4 word"
  csstype_funct3 :: "3 word"

definition csstype :: "u32 \<Rightarrow> RiscvInstructionTypeCSS_t" where
  "csstype w = \<lparr>csstype_op = bits_at 0 w, csstype_rs2 = bits_at 2 w,
     csstype_imm7_6 = bits_at 7 w, csstype_imm5_2 = bits_at 9 w,
     csstype_funct3 = bits_at 13 w\<rparr>"

record RiscvInstructionTypeCIW_t =
  ciwtype_op :: "2 word"
  ciwtype_rdp :: "3 word"
  ciwtype_imm3 :: "1 word"
  ciwtype_imm2 :: "1 word"
  ciwtype_imm9_6 :: "4 word"
  ciwtype_imm5_4 :: "2 word"
  ciwtype_funct3 :: "3 word"

definition ciwtype :: "u32 \<Rightarrow> RiscvInstructionTypeCIW_t" where
  "ciwtype w = \<lparr>ciwtype_op = bits_at 0 w, ciwtype_rdp = bits_at 2 w,
     ciwtype_imm3 = bits_at 5 w, ciwtype_imm2 = bits_at 6 w, ciwtype_imm9_6 = bits_at 7 w,
     ciwtype_imm5_4 = bits_at 11 w, ciwtype_funct3 = bits_at 13 w\<rparr>"

record RiscvInstructionTypeCL_t =
  cltype_op :: "2 word"
  cltype_rdp :: "3 word"
  cltype_imm6 :: "1 word"
  cltype_imm2 :: "1 word"
  cltype_rs1p :: "3 word"
  cltype_imm5_3 :: "3 word"
  cltype_funct3 :: "3 word"

definition cltype :: "u32 \<Rightarrow> RiscvInstructionTypeCL_t" where
  "cltype w = \<lparr>cltype_op = bits_at 0 w, cltype_rdp = bits_at 2 w,
     cltype_imm6 = bits_at 5 w, cltype_imm2 = bits_at 6 w, cltype_rs1p = bits_at 7 w,
     cltype_imm5_3 = bits_at 10 w, cltype_funct3 = bits_at 13 w\<rparr>"

record RiscvInstructionTypeCS_t =
  cstype_op :: "2 word"
  cstype_rs2p :: "3 word"
  cstype_imm6 :: "1 word"
  cstype_imm2 :: "1 word"
  cstype_rs1p :: "3 word"
  cstype_imm5_3 :: "3 word"
  cstype_funct3 :: "3 word"

definition cstype :: "u32 \<Rightarrow> RiscvInstructionTypeCS_t" where
  "cstype w = \<lparr>cstype_op = bits_at 0 w, cstype_rs2p = bits_at 2 w,
     cstype_imm6 = bits_at 5 w, cstype_imm2 = bits_at 6 w, cstype_rs1p = bits_at 7 w,
     cstype_imm5_3 = bits_at 10 w, cstype_funct3 = bits_at 13 w\<rparr>"

record RiscvInstructionTypeCA_t =
  catype_op :: "2 word"
  catype_rs2p :: "3 word"
  catype_funct2 :: "2 word"
  catype_rdp :: "3 word"
  catype_funct6 :: "6 word"

definition catype :: "u32 \<Rightarrow> RiscvInstructionTypeCA_t" where
  "catype w = \<lparr>catype_op = bits_at 0 w, catype_rs2p = bits_at 2 w,
     catype_funct2 = bits_at 5 w, catype_rdp = bits_at 7 w,
     catype_funct6 = bits_at 10 w\<rparr>"

record RiscvInstructionTypeCB_t =
  cbtype_op :: "2 word"
  cbtype_imm5 :: "1 word"
  cbtype_imm2_1 :: "2 word"
  cbtype_imm7_6 :: "2 word"
  cbtype_rs1p :: "3 word"
  cbtype_imm4_3 :: "2 word"
  cbtype_imm8 :: "1 word"
  cbtype_funct3 :: "3 word"

definition cbtype :: "u32 \<Rightarrow> RiscvInstructionTypeCB_t" where
  "cbtype w = \<lparr>cbtype_op = bits_at 0 w, cbtype_imm5 = bits_at 2 w,
     cbtype_imm2_1 = bits_at 3 w, cbtype_imm7_6 = bits_at 5 w, cbtype_rs1p = bits_at 7 w,
     cbtype_imm4_3 = bits_at 10 w, cbtype_imm8 = bits_at 12 w,
     cbtype_funct3 = bits_at 13 w\<rparr>"

record RiscvInstructionTypeCBImm_t =
  cbimm_op :: "2 word"
  cbimm_imm4_0 :: "5 word"
  cbimm_rdp :: "3 word"
  cbimm_funct2 :: "2 word"
  cbimm_imm5 :: "1 word"
  cbimm_funct3 :: "3 word"

definition cbimm :: "u32 \<Rightarrow> RiscvInstructionTypeCBImm_t" where
  "cbimm w = \<lparr>cbimm_op = bits_at 0 w, cbimm_imm4_0 = bits_at 2 w,
     cbimm_rdp = bits_at 7 w, cbimm_funct2 = bits_at 10 w, cbimm_imm5 = bits_at 12 w,
     cbimm_funct3 = bits_at 13 w\<rparr>"

record RiscvInstructionTypeCJ_t =
  cjtype_op :: "2 word"
  cjtype_imm5 :: "1 word"
  cjtype_imm3_1 :: "3 word"
  cjtype_imm7 :: "1 word"
  cjtype_imm6 :: "1 word"
  cjtype_imm10 :: "1 word"
  cjtype_imm9_8 :: "2 word"
  cjtype_imm4 :: "1 word"
  cjtype_imm11 :: "1 word"
  cjtype_funct3 :: "3 word"

definition cjtype :: "u32 \<Rightarrow> RiscvInstructionTypeCJ_t" where
  "cjtype w = \<lparr>cjtype_op = bits_at 0 w, cjtype_imm5 = bits_at 2 w,
     cjtype_imm3_1 = bits_at 3 w, cjtype_imm7 = bits_at 6 w, cjtype_imm6 = bits_at 7 w,
     cjtype_imm10 = bits_at 8 w, cjtype_imm9_8 = bits_at 9 w, cjtype_imm4 = bits_at 11 w,
     cjtype_imm11 = bits_at 12 w, cjtype_funct3 = bits_at 13 w\<rparr>"

record RiscvInstructionOpcodeC_t =
  copcode_op :: "2 word"
  copcode_funct3 :: "3 word"

definition copcode :: "u32 \<Rightarrow> RiscvInstructionOpcodeC_t" where
  "copcode w = \<lparr>copcode_op = bits_at 0 w, copcode_funct3 = bits_at 13 w\<rparr>"

record RiscvInstructionTypeI_t =
  itype_opcode :: "7 word"
  itype_rd :: "5 word"
  itype_funct3 :: "3 word"
  itype_rs1 :: "5 word"
  itype_imm :: "12 word"

definition itype :: "u32 \<Rightarrow> RiscvInstructionTypeI_t" where
  "itype w = \<lparr>itype_opcode = bits_at 0 w, itype_rd = bits_at 7 w,
     itype_funct3 = bits_at 12 w, itype_rs1 = bits_at 15 w, itype_imm = bits_at 20 w\<rparr>"

record RiscvInstructionTypeIStystem_t =
  itypesystem_opcode :: "7 word"
  itypesystem_rd :: "5 word"
  itypesystem_funct3 :: "3 word"
  itypesystem_rs1 :: "5 word"
  itypesystem_funct12 :: "12 word"

definition itypesystem :: "u32 \<Rightarrow> RiscvInstructionTypeIStystem_t" where
  "itypesystem w = \<lparr>itypesystem_opcode = bits_at 0 w, itypesystem_rd = bits_at 7 w,
     itypesystem_funct3 = bits_at 12 w, itypesystem_rs1 = bits_at 15 w,
     itypesystem_funct12 = bits_at 20 w\<rparr>"

record RiscvInstructionTypeIShiftByConstant_t =
  itypeshiftbyconstant_opcode :: "7 word"
  itypeshiftbyconstant_rd :: "5 word"
  itypeshiftbyconstant_funct3 :: "3 word"
  itypeshiftbyconstant_rs1 :: "5 word"
  itypeshiftbyconstant_shamt :: "5 word"
  itypeshiftbyconstant_imm11_5 :: "7 word"

definition itypeshiftbyconstant :: "u32 \<Rightarrow> RiscvInstructionTypeIShiftByConstant_t" where
  "itypeshiftbyconstant w = \<lparr>itypeshiftbyconstant_opcode = bits_at 0 w,
     itypeshiftbyconstant_rd = bits_at 7 w, itypeshiftbyconstant_funct3 = bits_at 12 w,
     itypeshiftbyconstant_rs1 = bits_at 15 w, itypeshiftbyconstant_shamt = bits_at 20 w,
     itypeshiftbyconstant_imm11_5 = bits_at 25 w\<rparr>"

record RiscvInstructionTypeIMiscMemt_t =
  itypemiscmem_opcode :: "7 word"
  itypemiscmem_rd :: "5 word"
  itypemiscmem_funct3 :: "3 word"
  itypemiscmem_rs1 :: "5 word"
  itypemiscmem_sw :: "1 word"
  itypemiscmem_sr :: "1 word"
  itypemiscmem_so :: "1 word"
  itypemiscmem_si :: "1 word"
  itypemiscmem_pw :: "1 word"
  itypemiscmem_pr :: "1 word"
  itypemiscmem_po :: "1 word"
  itypemiscmem_pi :: "1 word"
  itypemiscmem_fm :: "4 word"

definition itypemiscmem :: "u32 \<Rightarrow> RiscvInstructionTypeIMiscMemt_t" where
  "itypemiscmem w = \<lparr>itypemiscmem_opcode = bits_at 0 w, itypemiscmem_rd = bits_at 7 w,
     itypemiscmem_funct3 = bits_at 12 w, itypemiscmem_rs1 = bits_at 15 w,
     itypemiscmem_sw = bits_at 20 w, itypemiscmem_sr = bits_at 21 w,
     itypemiscmem_so = bits_at 22 w, itypemiscmem_si = bits_at 23 w,
     itypemiscmem_pw = bits_at 24 w, itypemiscmem_pr = bits_at 25 w,
     itypemiscmem_po = bits_at 26 w, itypemiscmem_pi = bits_at 27 w,
     itypemiscmem_fm = bits_at 28 w\<rparr>"

record RiscvInstructionTypeJ_t =
  jtype_opcode :: "7 word"
  jtype_rd :: "5 word"
  jtype_imm19_12 :: "8 word"
  jtype_imm11 :: "1 word"
  jtype_imm10_1 :: "10 word"
  jtype_imm20 :: "1 word"

definition jtype :: "u32 \<Rightarrow> RiscvInstructionTypeJ_t" where
  "jtype w = \<lparr>jtype_opcode = bits_at 0 w, jtype_rd = bits_at 7 w,
     jtype_imm19_12 = bits_at 12 w, jtype_imm11 = bits_at 20 w, jtype_imm10_1 = bits_at 21 w,
     jtype_imm20 = bits_at 31 w\<rparr>"

record RiscvInstructionTypeR_t =
  rtype_opcode :: "7 word"
  rtype_rd :: "5 word"
  rtype_funct3 :: "3 word"
  rtype_rs1 :: "5 word"
  rtype_rs2 :: "5 word"
  rtype_funct7 :: "7 word"

definition rtype :: "u32 \<Rightarrow> RiscvInstructionTypeR_t" where
  "rtype w = \<lparr>rtype_opcode = bits_at 0 w, rtype_rd = bits_at 7 w,
     rtype_funct3 = bits_at 12 w, rtype_rs1 = bits_at 15 w, rtype_rs2 = bits_at 20 w,
     rtype_funct7 = bits_at 25 w\<rparr>"

record RiscvInstructionTypeS_t =
  stype_opcode :: "7 word"
  stype_imm4_0 :: "5 word"
  stype_funct3 :: "3 word"
  stype_rs1 :: "5 word"
  stype_rs2 :: "5 word"
  stype_imm11_5 :: "7 word"

definition stype :: "u32 \<Rightarrow> RiscvInstructionTypeS_t" where
  "stype w = \<lparr>stype_opcode = bits_at 0 w, stype_imm4_0 = bits_at 7 w,
     stype_funct3 = bits_at 12 w, stype_rs1 = bits_at 15 w, stype_rs2 = bits_at 20 w,
     stype_imm11_5 = bits_at 25 w\<rparr>"

record RiscvInstructionTypeU_t =
  utype_opcode :: "7 word"
  utype_rd :: "5 word"
  utype_imm31_12 :: "20 word"

definition utype :: "u32 \<Rightarrow> RiscvInstructionTypeU_t" where
  "utype w = \<lparr>utype_opcode = bits_at 0 w, utype_rd = bits_at 7 w,
     utype_imm31_12 = bits_at 12 w\<rparr>"

text \<open>The opcode and the two halves.\<close>

definition opcode :: "u32 \<Rightarrow> 7 word" where
  "opcode w = bits_at 0 w"

definition inst_L :: "u32 \<Rightarrow> u16" where
  "inst_L w = bits_at 0 w"

definition inst_H :: "u32 \<Rightarrow> u16" where
  "inst_H w = bits_at 16 w"

section \<open>Decoder unions\<close>

text \<open>
  Each is written field by field and read through its second member; the result is that member
  converted to 32 bits.
\<close>

definition RiscvInstructionTypeBDecoderImm :: "1 word \<Rightarrow> 4 word \<Rightarrow> 6 word \<Rightarrow> 1 word \<Rightarrow> 1 word \<Rightarrow> u32" where
  "RiscvInstructionTypeBDecoderImm imm0 imm4_1 imm10_5 imm11 imm12 =
     scast (ucast imm0 OR push_bit 1 (ucast imm4_1) OR
       push_bit 5 (ucast imm10_5) OR push_bit 11 (ucast imm11) OR push_bit 12 (ucast imm12) :: 13
    word)"

definition RiscvInstructionTypeCIDecoderImm :: "5 word \<Rightarrow> 1 word \<Rightarrow> u32" where
  "RiscvInstructionTypeCIDecoderImm imm4_0 imm5 =
     scast (ucast imm4_0 OR push_bit 5 (ucast imm5) :: 6 word)"

definition RiscvInstructionTypeCIAddi16spDecoderImm :: "1 word \<Rightarrow> 1 word \<Rightarrow> 1 word \<Rightarrow> 2 word \<Rightarrow> 1 word \<Rightarrow> u32" where
  "RiscvInstructionTypeCIAddi16spDecoderImm imm4 imm5 imm6 imm8_7 imm9 =
     scast (push_bit 4 (ucast imm4) OR push_bit 5 (ucast imm5) OR
       push_bit 6 (ucast imm6) OR push_bit 7 (ucast imm8_7) OR push_bit 9 (ucast imm9) :: 10 word)"

definition RiscvInstructionTypeCILuiDecoderImm :: "5 word \<Rightarrow> 1 word \<Rightarrow> u32" where
  "RiscvInstructionTypeCILuiDecoderImm imm16_12 imm17 =
     scast (push_bit 12 (ucast imm16_12) OR push_bit 17 (ucast imm17) :: 18 word)"

definition RiscvInstructionTypeCILwspDecoderImm :: "3 word \<Rightarrow> 1 word \<Rightarrow> 2 word \<Rightarrow> u32" where
  "RiscvInstructionTypeCILwspDecoderImm imm4_2 imm5 imm7_6 =
     ucast (push_bit 2 (ucast imm4_2) OR
       push_bit 5 (ucast imm5) OR push_bit 6 (ucast imm7_6) :: 8 word)"

definition RiscvInstructionTypeCSSDecoderImm :: "2 word \<Rightarrow> 4 word \<Rightarrow> 2 word \<Rightarrow> u32" where
  "RiscvInstructionTypeCSSDecoderImm imm1_0 imm5_2 imm7_6 =
     ucast (ucast imm1_0 OR push_bit 2 (ucast imm5_2) OR push_bit 6 (ucast imm7_6) :: 8 word)"

definition RiscvInstructionTypeCIWDecoderImm :: "2 word \<Rightarrow> 1 word \<Rightarrow> 1 word \<Rightarrow> 2 word \<Rightarrow> 4 word \<Rightarrow> u32" where
  "RiscvInstructionTypeCIWDecoderImm imm1_0 imm2 imm3 imm5_4 imm9_6 =
     ucast (ucast imm1_0 OR push_bit 2 (ucast imm2) OR
       push_bit 3 (ucast imm3) OR push_bit 4 (ucast imm5_4) OR push_bit 6 (ucast imm9_6) :: 10
    word)"

definition RiscvInstructionTypeCLDecoderImm :: "1 word \<Rightarrow> 3 word \<Rightarrow> 1 word \<Rightarrow> u32" where
  "RiscvInstructionTypeCLDecoderImm imm2 imm5_3 imm6 =
     ucast (push_bit 2 (ucast imm2) OR
       push_bit 3 (ucast imm5_3) OR push_bit 6 (ucast imm6) :: 7 word)"

definition RiscvInstructionTypeCSDecoderImm :: "1 word \<Rightarrow> 3 word \<Rightarrow> 1 word \<Rightarrow> u32" where
  "RiscvInstructionTypeCSDecoderImm imm2 imm5_3 imm6 =
     ucast (push_bit 2 (ucast imm2) OR
       push_bit 3 (ucast imm5_3) OR push_bit 6 (ucast imm6) :: 7 word)"

definition RiscvInstructionTypeCADecoderFunct6Funct2 :: "2 word \<Rightarrow> 6 word \<Rightarrow> u32" where
  "RiscvInstructionTypeCADecoderFunct6Funct2 funct2 funct6 =
     ucast (ucast funct2 OR push_bit 2 (ucast funct6) :: 8 word)"

definition RiscvInstructionTypeCBDecoderImm :: "2 word \<Rightarrow> 2 word \<Rightarrow> 1 word \<Rightarrow> 2 word \<Rightarrow> 1 word \<Rightarrow> u32" where
  "RiscvInstructionTypeCBDecoderImm imm2_1 imm4_3 imm5 imm7_6 imm8 =
     scast (push_bit 1 (ucast imm2_1) OR push_bit 3 (ucast imm4_3) OR
       push_bit 5 (ucast imm5) OR push_bit 6 (ucast imm7_6) OR push_bit 8 (ucast imm8) :: 9 word)"

definition RiscvInstructionTypeCBImmDecoderImm :: "5 word \<Rightarrow> 1 word \<Rightarrow> u32" where
  "RiscvInstructionTypeCBImmDecoderImm imm4_0 imm5 =
     scast (ucast imm4_0 OR push_bit 5 (ucast imm5) :: 6 word)"

definition RiscvInstructionTypeCBDecoderFunct3Funct2 :: "2 word \<Rightarrow> 3 word \<Rightarrow> u32" where
  "RiscvInstructionTypeCBDecoderFunct3Funct2 funct2 funct3 =
     ucast (ucast funct2 OR push_bit 2 (ucast funct3) :: 5 word)"

definition RiscvInstructionTypeCJDecoderImm :: "3 word \<Rightarrow> 1 word \<Rightarrow> 1 word \<Rightarrow> 1 word \<Rightarrow> 1 word \<Rightarrow> 2 word \<Rightarrow> 1 word \<Rightarrow> 1 word \<Rightarrow> u32" where
  "RiscvInstructionTypeCJDecoderImm imm3_1 imm4 imm5 imm6 imm7 imm9_8 imm10 imm11 =
     scast (push_bit 1 (ucast imm3_1) OR push_bit 4 (ucast imm4) OR push_bit 5 (ucast imm5) OR
    push_bit 6 (ucast imm6) OR
       push_bit 7 (ucast imm7) OR push_bit 8 (ucast imm9_8) OR push_bit 10 (ucast imm10) OR
    push_bit 11 (ucast imm11) :: 12 word)"

definition RiscvInstructionTypeCDecoderOpcode :: "2 word \<Rightarrow> 3 word \<Rightarrow> u32" where
  "RiscvInstructionTypeCDecoderOpcode op funct3 =
     ucast (ucast op OR push_bit 2 (ucast funct3) :: 5 word)"

definition RiscvInstructionTypeIDecoderImm11_7Funct3Imm11_7Funct3 :: "3 word \<Rightarrow> 7 word \<Rightarrow> u32" where
  "RiscvInstructionTypeIDecoderImm11_7Funct3Imm11_7Funct3 funct3 imm11_5 =
     ucast (ucast funct3 OR push_bit 3 (ucast imm11_5) :: 10 word)"

definition RiscvInstructionTypeJDecoderImm :: "10 word \<Rightarrow> 1 word \<Rightarrow> 8 word \<Rightarrow> 1 word \<Rightarrow> u32" where
  "RiscvInstructionTypeJDecoderImm imm10_1 imm11 imm19_12 imm20 =
     scast (push_bit 1 (ucast imm10_1) OR push_bit 11 (ucast imm11) OR
       push_bit 12 (ucast imm19_12) OR push_bit 20 (ucast imm20) :: 21 word)"

definition RiscvInstructionTypeRDecoderFunct7Funct3 :: "3 word \<Rightarrow> 7 word \<Rightarrow> u32" where
  "RiscvInstructionTypeRDecoderFunct7Funct3 funct3 funct7 =
     ucast (ucast funct3 OR push_bit 3 (ucast funct7) :: 10 word)"

definition RiscvInstructionTypeSDecoderImm :: "5 word \<Rightarrow> 7 word \<Rightarrow> u32" where
  "RiscvInstructionTypeSDecoderImm imm4_0 imm11_5 =
     scast (ucast imm4_0 OR push_bit 5 (ucast imm11_5) :: 12 word)"

definition RiscvInstructionTypeUDecoderImm :: "12 word \<Rightarrow> 20 word \<Rightarrow> u32" where
  "RiscvInstructionTypeUDecoderImm imm11_0 imm31_12 =
     ucast (ucast imm11_0 OR push_bit 12 (ucast imm31_12) :: 32 word)"

section \<open>Registers and constants\<close>

text \<open>The symbolic names of \<open>RiscvRegister_u\<close>, in the order of the anonymous struct.\<close>

datatype symreg =
    R_Zero | R_ra | R_sp | R_gp | R_tp | R_t0 | R_t1 | R_t2 | R_s0_fp | R_s1 | R_a0 | R_a1 | R_a2
    | R_a3 | R_a4 | R_a5 | R_a6 | R_a7 | R_s2 | R_s3 | R_s4 | R_s5 | R_s6 | R_s7 | R_s8 | R_s9 |
    R_s10 | R_s11 | R_t3 | R_t4 | R_t5 | R_t6

text \<open>The index a symbolic name has in the array member \<open>x\<close>.\<close>

fun regnum :: "symreg \<Rightarrow> reg" where
  "regnum R_Zero = 0"
| "regnum R_ra = 1"
| "regnum R_sp = 2"
| "regnum R_gp = 3"
| "regnum R_tp = 4"
| "regnum R_t0 = 5"
| "regnum R_t1 = 6"
| "regnum R_t2 = 7"
| "regnum R_s0_fp = 8"
| "regnum R_s1 = 9"
| "regnum R_a0 = 10"
| "regnum R_a1 = 11"
| "regnum R_a2 = 12"
| "regnum R_a3 = 13"
| "regnum R_a4 = 14"
| "regnum R_a5 = 15"
| "regnum R_a6 = 16"
| "regnum R_a7 = 17"
| "regnum R_s2 = 18"
| "regnum R_s3 = 19"
| "regnum R_s4 = 20"
| "regnum R_s5 = 21"
| "regnum R_s6 = 22"
| "regnum R_s7 = 23"
| "regnum R_s8 = 24"
| "regnum R_s9 = 25"
| "regnum R_s10 = 26"
| "regnum R_s11 = 27"
| "regnum R_t3 = 28"
| "regnum R_t4 = 29"
| "regnum R_t5 = 30"
| "regnum R_t6 = 31"

definition ROM_ORIGIN :: u32 where
  "ROM_ORIGIN = 0x20000000"

definition FUNCT3_BRANCH_BEQ :: u32 where
  "FUNCT3_BRANCH_BEQ = 0"

definition FUNCT3_BRANCH_BNE :: u32 where
  "FUNCT3_BRANCH_BNE = 1"

definition FUNCT3_BRANCH_BLT :: u32 where
  "FUNCT3_BRANCH_BLT = 4"

definition FUNCT3_BRANCH_BGE :: u32 where
  "FUNCT3_BRANCH_BGE = 5"

definition FUNCT3_BRANCH_BLTU :: u32 where
  "FUNCT3_BRANCH_BLTU = 6"

definition FUNCT3_BRANCH_BGEU :: u32 where
  "FUNCT3_BRANCH_BGEU = 7"

definition BRANCH_YES :: u32 where
  "BRANCH_YES = 0"

definition BRANCH_NO :: u32 where
  "BRANCH_NO = 1"

definition FUNCT4_MV :: u32 where
  "FUNCT4_MV = 8"

definition FUNCT4_ADD :: u32 where
  "FUNCT4_ADD = 9"

definition FUNCT6_FUNCT2_SUB :: u32 where
  "FUNCT6_FUNCT2_SUB = 0x8c"

definition FUNCT6_FUNCT2_XOR :: u32 where
  "FUNCT6_FUNCT2_XOR = 0x8d"

definition FUNCT6_FUNCT2_OR :: u32 where
  "FUNCT6_FUNCT2_OR = 0x8e"

definition FUNCT6_FUNCT2_AND :: u32 where
  "FUNCT6_FUNCT2_AND = 0x8f"

definition FUNCT3_FUNCT2_SRLI :: u32 where
  "FUNCT3_FUNCT2_SRLI = 0x10"

definition FUNCT3_FUNCT2_SRAI :: u32 where
  "FUNCT3_FUNCT2_SRAI = 0x11"

definition FUNCT3_FUNCT2_ANDI :: u32 where
  "FUNCT3_FUNCT2_ANDI = 0x12"

definition FUNCT3_IMMEDIATE_ADDI :: u32 where
  "FUNCT3_IMMEDIATE_ADDI = 0"

definition FUNCT3_IMMEDIATE_SLTI :: u32 where
  "FUNCT3_IMMEDIATE_SLTI = 2"

definition FUNCT3_IMMEDIATE_SLTIU :: u32 where
  "FUNCT3_IMMEDIATE_SLTIU = 3"

definition FUNCT3_IMMEDIATE_XORI :: u32 where
  "FUNCT3_IMMEDIATE_XORI = 4"

definition FUNCT3_IMMEDIATE_ORI :: u32 where
  "FUNCT3_IMMEDIATE_ORI = 6"

definition FUNCT3_IMMEDIATE_ANDI :: u32 where
  "FUNCT3_IMMEDIATE_ANDI = 7"

definition FUNCT3_IMMEDIATE_FUNCTIONS_1 :: u32 where
  "FUNCT3_IMMEDIATE_FUNCTIONS_1 = 1"

definition FUNCT3_IMMEDIATE_FUNCTIONS_5 :: u32 where
  "FUNCT3_IMMEDIATE_FUNCTIONS_5 = 5"

definition IMM11_5_FUNCT3_IMMEDIATE_SLLI :: u32 where
  "IMM11_5_FUNCT3_IMMEDIATE_SLLI = 1"

definition IMM11_5_FUNCT3_IMMEDIATE_SRLI :: u32 where
  "IMM11_5_FUNCT3_IMMEDIATE_SRLI = 5"

definition IMM11_5_FUNCT3_IMMEDIATE_SRAI :: u32 where
  "IMM11_5_FUNCT3_IMMEDIATE_SRAI = 0x105"

definition FUNCT3_JUMPANDLINKREGISTER_JALR :: u32 where
  "FUNCT3_JUMPANDLINKREGISTER_JALR = 0"

definition FUNCT3_LOAD_LB :: u32 where
  "FUNCT3_LOAD_LB = 0"

definition FUNCT3_LOAD_LH :: u32 where
  "FUNCT3_LOAD_LH = 1"

definition FUNCT3_LOAD_LW :: u32 where
  "FUNCT3_LOAD_LW = 2"

definition FUNCT3_LOAD_LBU :: u32 where
  "FUNCT3_LOAD_LBU = 4"

definition FUNCT3_LOAD_LHU :: u32 where
  "FUNCT3_LOAD_LHU = 5"

definition FUNCT12_ECALL :: u32 where
  "FUNCT12_ECALL = 0"

definition FUNCT12_EBREAK :: u32 where
  "FUNCT12_EBREAK = 1"

definition FUNCT3_FENCE :: u32 where
  "FUNCT3_FENCE = 0"

definition FUNCT3_FENCEI :: u32 where
  "FUNCT3_FENCEI = 1"

definition OPCODE16_QUADRANT_INVALID :: u32 where
  "OPCODE16_QUADRANT_INVALID = 3"

definition OPCODE16_ADDI4SPN :: u32 where
  "OPCODE16_ADDI4SPN = 0"

definition OPCODE16_LW :: u32 where
  "OPCODE16_LW = 8"

definition OPCODE16_SW :: u32 where
  "OPCODE16_SW = 0x18"

definition OPCODE16_ADDI :: u32 where
  "OPCODE16_ADDI = 1"

definition OPCODE16_JAL :: u32 where
  "OPCODE16_JAL = 5"

definition OPCODE16_LI :: u32 where
  "OPCODE16_LI = 9"

definition OPCODE16_LUI_ADDI16SP :: u32 where
  "OPCODE16_LUI_ADDI16SP = 0xd"

definition OPCODE16_MISCALU :: u32 where
  "OPCODE16_MISCALU = 0x11"

definition OPCODE16_J :: u32 where
  "OPCODE16_J = 0x15"

definition OPCODE16_BEQZ :: u32 where
  "OPCODE16_BEQZ = 0x19"

definition OPCODE16_BNEZ :: u32 where
  "OPCODE16_BNEZ = 0x1d"

definition OPCODE16_SLLI :: u32 where
  "OPCODE16_SLLI = 2"

definition OPCODE16_LWSP :: u32 where
  "OPCODE16_LWSP = 0xa"

definition OPCODE16_JALR_MV_ADD :: u32 where
  "OPCODE16_JALR_MV_ADD = 0x12"

definition OPCODE16_SWSP :: u32 where
  "OPCODE16_SWSP = 0x1a"

definition OPCODE32_LOAD :: u32 where
  "OPCODE32_LOAD = 3"

definition OPCODE32_MISCMEM :: u32 where
  "OPCODE32_MISCMEM = 0xf"

definition OPCODE32_IMMEDIATE :: u32 where
  "OPCODE32_IMMEDIATE = 0x13"

definition OPCODE32_ADDUPPERIMMEDIATE2PC :: u32 where
  "OPCODE32_ADDUPPERIMMEDIATE2PC = 0x17"

definition OPCODE32_STORE :: u32 where
  "OPCODE32_STORE = 0x23"

definition OPCODE32_OPERATION :: u32 where
  "OPCODE32_OPERATION = 0x33"

definition OPCODE32_LOADUPPERIMMEDIATE :: u32 where
  "OPCODE32_LOADUPPERIMMEDIATE = 0x37"

definition OPCODE32_BRANCH :: u32 where
  "OPCODE32_BRANCH = 0x63"

definition OPCODE32_JUMPANDLINKREGISTER :: u32 where
  "OPCODE32_JUMPANDLINKREGISTER = 0x67"

definition OPCODE32_JUMPANDLINK :: u32 where
  "OPCODE32_JUMPANDLINK = 0x6f"

definition OPCODE32_SYSTEM :: u32 where
  "OPCODE32_SYSTEM = 0x73"

definition FUNCT7_FUNCT3_OPERATION_ADD :: u32 where
  "FUNCT7_FUNCT3_OPERATION_ADD = 0"

definition FUNCT7_FUNCT3_OPERATION_SUB :: u32 where
  "FUNCT7_FUNCT3_OPERATION_SUB = 0x100"

definition FUNCT7_FUNCT3_OPERATION_SLL :: u32 where
  "FUNCT7_FUNCT3_OPERATION_SLL = 1"

definition FUNCT7_FUNCT3_OPERATION_SLT :: u32 where
  "FUNCT7_FUNCT3_OPERATION_SLT = 2"

definition FUNCT7_FUNCT3_OPERATION_SLTU :: u32 where
  "FUNCT7_FUNCT3_OPERATION_SLTU = 3"

definition FUNCT7_FUNCT3_OPERATION_XOR :: u32 where
  "FUNCT7_FUNCT3_OPERATION_XOR = 4"

definition FUNCT7_FUNCT3_OPERATION_SRL :: u32 where
  "FUNCT7_FUNCT3_OPERATION_SRL = 5"

definition FUNCT7_FUNCT3_OPERATION_SRA :: u32 where
  "FUNCT7_FUNCT3_OPERATION_SRA = 0x105"

definition FUNCT7_FUNCT3_OPERATION_OR :: u32 where
  "FUNCT7_FUNCT3_OPERATION_OR = 6"

definition FUNCT7_FUNCT3_OPERATION_AND :: u32 where
  "FUNCT7_FUNCT3_OPERATION_AND = 7"

definition FUNCT7_FUNCT3_OPERATION_MUL :: u32 where
  "FUNCT7_FUNCT3_OPERATION_MUL = 8"

definition FUNCT7_FUNCT3_OPERATION_MULH :: u32 where
  "FUNCT7_FUNCT3_OPERATION_MULH = 9"

definition FUNCT7_FUNCT3_OPERATION_MULHSU :: u32 where
  "FUNCT7_FUNCT3_OPERATION_MULHSU = 0xa"

definition FUNCT7_FUNCT3_OPERATION_MULHU :: u32 where
  "FUNCT7_FUNCT3_OPERATION_MULHU = 0xb"

definition FUNCT7_FUNCT3_OPERATION_DIV :: u32 where
  "FUNCT7_FUNCT3_OPERATION_DIV = 0xc"

definition FUNCT7_FUNCT3_OPERATION_DIVU :: u32 where
  "FUNCT7_FUNCT3_OPERATION_DIVU = 0xd"

definition FUNCT7_FUNCT3_OPERATION_REM :: u32 where
  "FUNCT7_FUNCT3_OPERATION_REM = 0xe"

definition FUNCT7_FUNCT3_OPERATION_REMU :: u32 where
  "FUNCT7_FUNCT3_OPERATION_REMU = 0xf"

definition FUNCT3_STORE_SB :: u32 where
  "FUNCT3_STORE_SB = 0"

definition FUNCT3_STORE_SH :: u32 where
  "FUNCT3_STORE_SH = 1"

definition FUNCT3_STORE_SW :: u32 where
  "FUNCT3_STORE_SW = 2"

lemmas purg_consts = ROM_ORIGIN_def FUNCT3_BRANCH_BEQ_def FUNCT3_BRANCH_BNE_def
    FUNCT3_BRANCH_BLT_def FUNCT3_BRANCH_BGE_def FUNCT3_BRANCH_BLTU_def FUNCT3_BRANCH_BGEU_def
    BRANCH_YES_def BRANCH_NO_def FUNCT4_MV_def FUNCT4_ADD_def FUNCT6_FUNCT2_SUB_def
    FUNCT6_FUNCT2_XOR_def FUNCT6_FUNCT2_OR_def FUNCT6_FUNCT2_AND_def FUNCT3_FUNCT2_SRLI_def
    FUNCT3_FUNCT2_SRAI_def FUNCT3_FUNCT2_ANDI_def FUNCT3_IMMEDIATE_ADDI_def
    FUNCT3_IMMEDIATE_SLTI_def FUNCT3_IMMEDIATE_SLTIU_def FUNCT3_IMMEDIATE_XORI_def
    FUNCT3_IMMEDIATE_ORI_def FUNCT3_IMMEDIATE_ANDI_def FUNCT3_IMMEDIATE_FUNCTIONS_1_def
    FUNCT3_IMMEDIATE_FUNCTIONS_5_def IMM11_5_FUNCT3_IMMEDIATE_SLLI_def
    IMM11_5_FUNCT3_IMMEDIATE_SRLI_def IMM11_5_FUNCT3_IMMEDIATE_SRAI_def
    FUNCT3_JUMPANDLINKREGISTER_JALR_def FUNCT3_LOAD_LB_def FUNCT3_LOAD_LH_def FUNCT3_LOAD_LW_def
    FUNCT3_LOAD_LBU_def FUNCT3_LOAD_LHU_def FUNCT12_ECALL_def FUNCT12_EBREAK_def FUNCT3_FENCE_def
    FUNCT3_FENCEI_def OPCODE16_QUADRANT_INVALID_def OPCODE16_ADDI4SPN_def OPCODE16_LW_def
    OPCODE16_SW_def OPCODE16_ADDI_def OPCODE16_JAL_def OPCODE16_LI_def OPCODE16_LUI_ADDI16SP_def
    OPCODE16_MISCALU_def OPCODE16_J_def OPCODE16_BEQZ_def OPCODE16_BNEZ_def OPCODE16_SLLI_def
    OPCODE16_LWSP_def OPCODE16_JALR_MV_ADD_def OPCODE16_SWSP_def OPCODE32_LOAD_def
    OPCODE32_MISCMEM_def OPCODE32_IMMEDIATE_def OPCODE32_ADDUPPERIMMEDIATE2PC_def
    OPCODE32_STORE_def OPCODE32_OPERATION_def OPCODE32_LOADUPPERIMMEDIATE_def OPCODE32_BRANCH_def
    OPCODE32_JUMPANDLINKREGISTER_def OPCODE32_JUMPANDLINK_def OPCODE32_SYSTEM_def
    FUNCT7_FUNCT3_OPERATION_ADD_def FUNCT7_FUNCT3_OPERATION_SUB_def
    FUNCT7_FUNCT3_OPERATION_SLL_def FUNCT7_FUNCT3_OPERATION_SLT_def
    FUNCT7_FUNCT3_OPERATION_SLTU_def FUNCT7_FUNCT3_OPERATION_XOR_def
    FUNCT7_FUNCT3_OPERATION_SRL_def FUNCT7_FUNCT3_OPERATION_SRA_def
    FUNCT7_FUNCT3_OPERATION_OR_def FUNCT7_FUNCT3_OPERATION_AND_def
    FUNCT7_FUNCT3_OPERATION_MUL_def FUNCT7_FUNCT3_OPERATION_MULH_def
    FUNCT7_FUNCT3_OPERATION_MULHSU_def FUNCT7_FUNCT3_OPERATION_MULHU_def
    FUNCT7_FUNCT3_OPERATION_DIV_def FUNCT7_FUNCT3_OPERATION_DIVU_def
    FUNCT7_FUNCT3_OPERATION_REM_def FUNCT7_FUNCT3_OPERATION_REMU_def FUNCT3_STORE_SB_def
    FUNCT3_STORE_SH_def FUNCT3_STORE_SW_def

lemmas purg_views = btype_def crtype_def citype_def ciaddi16sp_def cilui_def cilwsp_def
    csstype_def ciwtype_def cltype_def cstype_def catype_def cbtype_def cbimm_def cjtype_def
    copcode_def itype_def itypesystem_def itypeshiftbyconstant_def itypemiscmem_def jtype_def
    rtype_def stype_def utype_def opcode_def inst_L_def inst_H_def

lemmas purg_imms = RiscvInstructionTypeBDecoderImm_def RiscvInstructionTypeCIDecoderImm_def
    RiscvInstructionTypeCIAddi16spDecoderImm_def RiscvInstructionTypeCILuiDecoderImm_def
    RiscvInstructionTypeCILwspDecoderImm_def RiscvInstructionTypeCSSDecoderImm_def
    RiscvInstructionTypeCIWDecoderImm_def RiscvInstructionTypeCLDecoderImm_def
    RiscvInstructionTypeCSDecoderImm_def RiscvInstructionTypeCADecoderFunct6Funct2_def
    RiscvInstructionTypeCBDecoderImm_def RiscvInstructionTypeCBImmDecoderImm_def
    RiscvInstructionTypeCBDecoderFunct3Funct2_def RiscvInstructionTypeCJDecoderImm_def
    RiscvInstructionTypeCDecoderOpcode_def
    RiscvInstructionTypeIDecoderImm11_7Funct3Imm11_7Funct3_def
    RiscvInstructionTypeJDecoderImm_def RiscvInstructionTypeRDecoderFunct7Funct3_def
    RiscvInstructionTypeSDecoderImm_def RiscvInstructionTypeUDecoderImm_def

end
