(* ===== verification/Purg.thy ===== *)
theory Purg
  imports Purg_Types "HOL-Library.Signed_Division" "HOL-Library.Monad_Syntax"
begin

text \<open>
  \<open>RiscvEmulatorLoop\<close> of \<open>emu/purg.c\<close>: one call fetches and executes one instruction. The engine
  owns the registers and the program counters; memory and traps are host functions it is linked
  with, here the fields of a record.

  \<open>None\<close> is undefined behaviour of the C code: a null register pointer, or a shift by 32 or more.
\<close>

section \<open>State and host functions\<close>

record 'w gvm =
  trapflag :: bool
  programcounter :: u32
  programcounternext :: u32
  instruction :: u32
  xreg :: "reg \<Rightarrow> u32"
  gworld :: 'w

text \<open>
  \<open>RiscvEmulatorLoad\<close> fills \<open>length\<close> bytes at a destination, whose contents before the call it may
  leave; \<open>RiscvEmulatorStore\<close> reads them from a source. Neither sees the engine's state. The other
  three get the state.
\<close>

record 'w ghooks =
  g_Load :: "'w \<Rightarrow> u32 \<Rightarrow> nat \<Rightarrow> u32 \<Rightarrow> u32 \<times> 'w"
  g_Store :: "'w \<Rightarrow> u32 \<Rightarrow> nat \<Rightarrow> u32 \<Rightarrow> 'w"
  g_IllegalInstruction :: "'w gvm \<Rightarrow> 'w gvm"
  g_HandleECALL :: "'w gvm \<Rightarrow> 'w gvm"
  g_HandleEBREAK :: "'w gvm \<Rightarrow> 'w gvm"

definition set_x :: "'w gvm \<Rightarrow> reg \<Rightarrow> u32 \<Rightarrow> 'w gvm" where
  "set_x g r v = g\<lparr>xreg := (xreg g)(r := v)\<rparr>"

text \<open>\<open>if (rdnum != 0) { *rd = ...; }\<close>\<close>

definition set_rd :: "'w gvm \<Rightarrow> reg \<Rightarrow> u32 \<Rightarrow> 'w gvm" where
  "set_rd g r v = (if r \<noteq> 0 then set_x g r v else g)"

definition raise_illegal :: "'w gvm \<Rightarrow> 'w gvm" where
  "raise_illegal g = g\<lparr>trapflag := True\<rparr>"

definition goto_pc :: "'w gvm \<Rightarrow> u32 \<Rightarrow> 'w gvm" where
  "goto_pc g t = g\<lparr>programcounternext := t\<rparr>"

definition load_x :: "'w ghooks \<Rightarrow> 'w gvm \<Rightarrow> u32 \<Rightarrow> nat \<Rightarrow> reg \<Rightarrow> 'w gvm" where
  "load_x gh g a n r =
     (case g_Load gh (gworld g) a n (xreg g r) of (v, m) \<Rightarrow> set_x (g\<lparr>gworld := m\<rparr>) r v)"

definition store_x :: "'w ghooks \<Rightarrow> 'w gvm \<Rightarrow> u32 \<Rightarrow> nat \<Rightarrow> reg \<Rightarrow> 'w gvm" where
  "store_x gh g a n r = g\<lparr>gworld := g_Store gh (gworld g) a n (xreg g r)\<rparr>"

text \<open>The casts of a \<open>uint32_t\<close>, promoted back.\<close>

definition as_u8 :: "u32 \<Rightarrow> u32" where
  "as_u8 v = ucast (ucast v :: u8)"

definition as_i8 :: "u32 \<Rightarrow> u32" where
  "as_i8 v = scast (ucast v :: u8)"

definition as_u16 :: "u32 \<Rightarrow> u32" where
  "as_u16 v = ucast (ucast v :: u16)"

definition as_i16 :: "u32 \<Rightarrow> u32" where
  "as_i16 v = scast (ucast v :: u16)"

text \<open>Shifts by a variable count.\<close>

definition shift_left :: "u32 \<Rightarrow> u32 \<Rightarrow> u32 option" where
  "shift_left a k = (if k < 32 then Some (push_bit (unat k) a) else None)"

definition shift_right :: "u32 \<Rightarrow> u32 \<Rightarrow> u32 option" where
  "shift_right a k = (if k < 32 then Some (drop_bit (unat k) a) else None)"

definition shift_right_signed :: "u32 \<Rightarrow> u32 \<Rightarrow> u32 option" where
  "shift_right_signed a k = (if k < 32 then Some (signed_drop_bit (unat k) a) else None)"

section \<open>Compressed instructions\<close>

text \<open>
  The locals the first switch fills in; a register number of -1 is \<open>None\<close>, and so is the pointer
  derived from it.
\<close>

record ops16 =
  d_f3f2 :: u32
  d_f6f2 :: u32
  d_rdnum :: "reg option"
  d_rs1num :: "reg option"
  d_rs2num :: "reg option"
  d_imm :: u32

definition ops16_zero :: ops16 where
  "ops16_zero = \<lparr>d_f3f2 = 0, d_f6f2 = 0, d_rdnum = None, d_rs1num = None, d_rs2num = None, d_imm = 0\<rparr>"

definition opfunct3_of :: "u32 \<Rightarrow> u32" where
  "opfunct3_of w = RiscvInstructionTypeCDecoderOpcode (copcode_op (copcode w)) (copcode_funct3 (copcode w))"

text \<open>\<open>rdp + 8\<close>: the three-bit register fields name \<open>x8\<close> to \<open>x15\<close>.\<close>

definition creg :: "3 word \<Rightarrow> reg" where
  "creg r = ucast r + 8"

definition ops16_miscalu :: "u32 \<Rightarrow> ops16" where
  "ops16_miscalu w =
     (let b = cbimm w; c = catype w;
          f32 = RiscvInstructionTypeCBDecoderFunct3Funct2 (cbimm_funct2 b) (cbimm_funct3 b);
          d = ops16_zero\<lparr>d_f3f2 := f32\<rparr>
      in if f32 = FUNCT3_FUNCT2_SRLI \<or> f32 = FUNCT3_FUNCT2_SRAI \<or> f32 = FUNCT3_FUNCT2_ANDI then
           d\<lparr>d_imm := RiscvInstructionTypeCBImmDecoderImm (cbimm_imm4_0 b) (cbimm_imm5 b),
             d_rdnum := Some (creg (cbimm_rdp b))\<rparr>
         else
           (let f62 = RiscvInstructionTypeCADecoderFunct6Funct2 (catype_funct2 c) (catype_funct6 c)
            in if f62 = FUNCT6_FUNCT2_SUB \<or> f62 = FUNCT6_FUNCT2_XOR \<or> f62 = FUNCT6_FUNCT2_OR \<or>
                  f62 = FUNCT6_FUNCT2_AND
               then d\<lparr>d_f6f2 := f62, d_rdnum := Some (creg (catype_rdp c)),
                      d_rs2num := Some (creg (catype_rs2p c))\<rparr>
               else d\<lparr>d_f6f2 := f62\<rparr>))"

definition ops16_of :: "u32 \<Rightarrow> ops16" where
  "ops16_of w =
     (let op = opfunct3_of w
      in if op = OPCODE16_ADDI4SPN then
           (let i = ciwtype w
            in ops16_zero\<lparr>d_imm := RiscvInstructionTypeCIWDecoderImm 0 (ciwtype_imm2 i) (ciwtype_imm3 i)
                            (ciwtype_imm5_4 i) (ciwtype_imm9_6 i),
                          d_rdnum := Some (creg (ciwtype_rdp i))\<rparr>)
         else if op = OPCODE16_MISCALU then ops16_miscalu w
         else if op = OPCODE16_BEQZ \<or> op = OPCODE16_BNEZ then
           (let i = cbtype w
            in ops16_zero\<lparr>d_imm := RiscvInstructionTypeCBDecoderImm (cbtype_imm2_1 i) (cbtype_imm4_3 i)
                            (cbtype_imm5 i) (cbtype_imm7_6 i) (cbtype_imm8 i),
                          d_rs1num := Some (creg (cbtype_rs1p i))\<rparr>)
         else if op = OPCODE16_ADDI \<or> op = OPCODE16_LI \<or> op = OPCODE16_SLLI then
           (let i = citype w
            in ops16_zero\<lparr>d_imm := RiscvInstructionTypeCIDecoderImm (citype_imm4_0 i) (citype_imm5 i),
                          d_rdnum := Some (citype_rd i)\<rparr>)
         else if op = OPCODE16_JAL \<or> op = OPCODE16_J then
           (let i = cjtype w
            in ops16_zero\<lparr>d_imm := RiscvInstructionTypeCJDecoderImm (cjtype_imm3_1 i) (cjtype_imm4 i)
                            (cjtype_imm5 i) (cjtype_imm6 i) (cjtype_imm7 i) (cjtype_imm9_8 i)
                            (cjtype_imm10 i) (cjtype_imm11 i)\<rparr>)
         else if op = OPCODE16_LW then
           (let i = cltype w
            in ops16_zero\<lparr>d_imm := RiscvInstructionTypeCLDecoderImm (cltype_imm2 i) (cltype_imm5_3 i)
                            (cltype_imm6 i),
                          d_rs1num := Some (creg (cltype_rs1p i)), d_rdnum := Some (creg (cltype_rdp i))\<rparr>)
         else if op = OPCODE16_SW then
           (let i = cstype w
            in ops16_zero\<lparr>d_imm := RiscvInstructionTypeCSDecoderImm (cstype_imm2 i) (cstype_imm5_3 i)
                            (cstype_imm6 i),
                          d_rs1num := Some (creg (cstype_rs1p i)), d_rs2num := Some (creg (cstype_rs2p i))\<rparr>)
         else if op = OPCODE16_LWSP then
           (let i = cilwsp w
            in ops16_zero\<lparr>d_imm := RiscvInstructionTypeCILwspDecoderImm (cilwsp_imm4_2 i) (cilwsp_imm5 i)
                            (cilwsp_imm7_6 i),
                          d_rdnum := Some (cilwsp_rd i)\<rparr>)
         else if op = OPCODE16_SWSP then
           (let i = csstype w
            in ops16_zero\<lparr>d_imm := RiscvInstructionTypeCSSDecoderImm 0 (csstype_imm5_2 i) (csstype_imm7_6 i),
                          d_rs2num := Some (csstype_rs2 i)\<rparr>)
         else ops16_zero)"

text \<open>\<open>c.addi16sp\<close> and \<open>c.lui\<close>.\<close>

definition g_lui_addi16sp :: "'w gvm \<Rightarrow> 'w gvm" where
  "g_lui_addi16sp g =
     (let w = instruction g; rdnum = cilui_rd (cilui w)
      in if rdnum = 2 then
           (let i = ciaddi16sp w;
                nzimm = RiscvInstructionTypeCIAddi16spDecoderImm (ciaddi16sp_imm4 i) (ciaddi16sp_imm5 i)
                          (ciaddi16sp_imm6 i) (ciaddi16sp_imm8_7 i) (ciaddi16sp_imm9 i)
            in if nzimm = 0 then g else set_x g rdnum (xreg g rdnum + nzimm))
         else
           (let nzimm = RiscvInstructionTypeCILuiDecoderImm (cilui_imm16_12 (cilui w)) (cilui_imm17 (cilui w))
            in if rdnum = 0 then g else set_x g rdnum nzimm))"

definition g_miscalu :: "ops16 \<Rightarrow> 'w gvm \<Rightarrow> 'w gvm option" where
  "g_miscalu d g =
     (let x = xreg g; imm = d_imm d
      in if d_f3f2 d = FUNCT3_FUNCT2_SRLI then do {
           rd \<leftarrow> d_rdnum d; v \<leftarrow> shift_right (x rd) (as_u8 imm); Some (set_rd g rd v) }
         else if d_f3f2 d = FUNCT3_FUNCT2_SRAI then do {
           rd \<leftarrow> d_rdnum d; v \<leftarrow> shift_right_signed (x rd) (as_u8 imm); Some (set_rd g rd v) }
         else if d_f3f2 d = FUNCT3_FUNCT2_ANDI then do {
           rd \<leftarrow> d_rdnum d; Some (set_rd g rd (x rd AND as_i8 imm)) }
         else if d_f6f2 d = FUNCT6_FUNCT2_SUB then do {
           rd \<leftarrow> d_rdnum d; rs2 \<leftarrow> d_rs2num d; Some (set_rd g rd (x rd - x rs2)) }
         else if d_f6f2 d = FUNCT6_FUNCT2_XOR then do {
           rd \<leftarrow> d_rdnum d; rs2 \<leftarrow> d_rs2num d; Some (set_rd g rd (x rd XOR x rs2)) }
         else if d_f6f2 d = FUNCT6_FUNCT2_OR then do {
           rd \<leftarrow> d_rdnum d; rs2 \<leftarrow> d_rs2num d; Some (set_rd g rd (x rd OR x rs2)) }
         else if d_f6f2 d = FUNCT6_FUNCT2_AND then do {
           rd \<leftarrow> d_rdnum d; rs2 \<leftarrow> d_rs2num d; Some (set_rd g rd (x rd AND x rs2)) }
         else Some (raise_illegal g))"

text \<open>\<open>c.jr\<close>, \<open>c.mv\<close>, \<open>c.ebreak\<close>, \<open>c.jalr\<close>, \<open>c.add\<close>.\<close>

definition g_jalr_mv_add :: "'w ghooks \<Rightarrow> 'w gvm \<Rightarrow> 'w gvm" where
  "g_jalr_mv_add gh g =
     (let i = crtype (instruction g); rdnum = crtype_rd i; rs2num = crtype_rs2 i; x = xreg g
      in if ucast (crtype_funct4 i) = FUNCT4_MV then
           (if rs2num = 0 then goto_pc g (x rdnum AND (0xffffffff - 1)) else set_rd g rdnum (x rs2num))
         else if rdnum = 0 \<and> rs2num = 0 then g_HandleEBREAK gh g
         else if rs2num = 0 then
           goto_pc (set_x g (regnum R_ra) (programcounter g + 2)) (x rdnum AND (0xffffffff - 1))
         else set_rd g rdnum (x rdnum + x rs2num))"

text \<open>The second switch.\<close>

definition g_exec16 :: "'w ghooks \<Rightarrow> 'w gvm \<Rightarrow> 'w gvm option" where
  "g_exec16 gh g =
     (let op = opfunct3_of (instruction g); d = ops16_of (instruction g); imm = d_imm d; x = xreg g;
          sp = x (regnum R_sp); pc = programcounter g
      in if op = OPCODE16_ADDI4SPN then
           (if imm \<noteq> 0 then do { rd \<leftarrow> d_rdnum d; Some (set_rd g rd (sp + as_u16 imm)) }
            else Some (raise_illegal g))
         else if op = OPCODE16_LW then do {
           rs1 \<leftarrow> d_rs1num d; rd \<leftarrow> d_rdnum d; Some (load_x gh g (x rs1 + as_u8 imm) 4 rd) }
         else if op = OPCODE16_SW then do {
           rs1 \<leftarrow> d_rs1num d; rs2 \<leftarrow> d_rs2num d; Some (store_x gh g (x rs1 + as_u8 imm) 4 rs2) }
         else if op = OPCODE16_ADDI then do {
           rd \<leftarrow> d_rdnum d; Some (set_rd g rd (x rd + as_i8 imm)) }
         else if op = OPCODE16_JAL then
           Some (goto_pc (set_x g (regnum R_ra) (pc + 2)) (pc + as_i16 imm))
         else if op = OPCODE16_LI then do { rd \<leftarrow> d_rdnum d; Some (set_rd g rd (as_i8 imm)) }
         else if op = OPCODE16_LUI_ADDI16SP then Some (g_lui_addi16sp g)
         else if op = OPCODE16_MISCALU then g_miscalu d g
         else if op = OPCODE16_J then Some (goto_pc g (pc + as_i16 imm))
         else if op = OPCODE16_BEQZ then do {
           rs1 \<leftarrow> d_rs1num d; Some (if x rs1 = 0 then goto_pc g (pc + as_i16 imm) else g) }
         else if op = OPCODE16_BNEZ then do {
           rs1 \<leftarrow> d_rs1num d; Some (if x rs1 \<noteq> 0 then goto_pc g (pc + as_i16 imm) else g) }
         else if op = OPCODE16_SLLI then do {
           rd \<leftarrow> d_rdnum d;
           if rd \<noteq> 0 then do { v \<leftarrow> shift_left (x rd) (as_u8 imm); Some (set_x g rd v) } else Some g }
         else if op = OPCODE16_LWSP then do {
           rd \<leftarrow> d_rdnum d; Some (if rd = 0 then g else load_x gh g (sp + as_u8 imm) 4 rd) }
         else if op = OPCODE16_JALR_MV_ADD then Some (g_jalr_mv_add gh g)
         else if op = OPCODE16_SWSP then do {
           rs2 \<leftarrow> d_rs2num d; Some (store_x gh g (sp + as_u8 imm) 4 rs2) }
         else Some (raise_illegal g))"

section \<open>32-bit instructions\<close>

definition g_jalr :: "'w gvm \<Rightarrow> 'w gvm" where
  "g_jalr g =
     (let i = itype (instruction g)
      in if ucast (itype_funct3 i) = FUNCT3_JUMPANDLINKREGISTER_JALR then
           (let t = (xreg g (itype_rs1 i) + scast (itype_imm i)) AND (0xffffffff - 1)
            in goto_pc (set_rd g (itype_rd i) (programcounternext g)) t)
         else raise_illegal g)"

text \<open>Opcode \<open>OPERATION\<close>: the ten base operations and the eight of the M extension.\<close>

definition operation_value :: "u32 \<Rightarrow> u32 \<Rightarrow> u32 \<Rightarrow> u32 option" where
  "operation_value f a b =
     (if f = FUNCT7_FUNCT3_OPERATION_ADD then Some (a + b)
      else if f = FUNCT7_FUNCT3_OPERATION_SUB then Some (a - b)
      else if f = FUNCT7_FUNCT3_OPERATION_SLL then Some (push_bit (unat (b AND 31)) a)
      else if f = FUNCT7_FUNCT3_OPERATION_SLT then Some (if sint a < sint b then 1 else 0)
      else if f = FUNCT7_FUNCT3_OPERATION_SLTU then Some (if a < b then 1 else 0)
      else if f = FUNCT7_FUNCT3_OPERATION_XOR then Some (a XOR b)
      else if f = FUNCT7_FUNCT3_OPERATION_SRL then Some (drop_bit (unat (b AND 31)) a)
      else if f = FUNCT7_FUNCT3_OPERATION_SRA then Some (signed_drop_bit (unat (b AND 31)) a)
      else if f = FUNCT7_FUNCT3_OPERATION_OR then Some (a OR b)
      else if f = FUNCT7_FUNCT3_OPERATION_AND then Some (a AND b)
      else if f = FUNCT7_FUNCT3_OPERATION_MUL then Some (a * b)
      else if f = FUNCT7_FUNCT3_OPERATION_MULH then
        Some (ucast (signed_drop_bit 32 (scast a * scast b :: u64)))
      else if f = FUNCT7_FUNCT3_OPERATION_MULHSU then
        Some (ucast (signed_drop_bit 32 (scast a * ucast b :: u64)))
      else if f = FUNCT7_FUNCT3_OPERATION_MULHU then
        Some (ucast (drop_bit 32 (ucast a * ucast b :: u64)))
      else if f = FUNCT7_FUNCT3_OPERATION_DIV then
        Some (if b = 0 then - 1 else if sint a = - 2147483648 \<and> sint b = - 1 then 0x80000000
              else word_of_int (sint a sdiv sint b))
      else if f = FUNCT7_FUNCT3_OPERATION_DIVU then Some (if b = 0 then 0xffffffff else a div b)
      else if f = FUNCT7_FUNCT3_OPERATION_REM then
        Some (if b = 0 then a else if sint a = - 2147483648 \<and> sint b = - 1 then 0
              else word_of_int (sint a smod sint b))
      else if f = FUNCT7_FUNCT3_OPERATION_REMU then Some (if b = 0 then a else a mod b)
      else None)"

definition g_operation :: "'w gvm \<Rightarrow> 'w gvm" where
  "g_operation g =
     (let r = rtype (instruction g);
          f = RiscvInstructionTypeRDecoderFunct7Funct3 (rtype_funct3 r) (rtype_funct7 r)
      in case operation_value f (xreg g (rtype_rs1 r)) (xreg g (rtype_rs2 r)) of
           Some v \<Rightarrow> set_rd g (rtype_rd r) v
         | None \<Rightarrow> raise_illegal g)"

text \<open>
  Opcode \<open>IMMEDIATE\<close>: first the shifts by a constant, under \<open>funct3\<close> 1 and 5, then the rest. An
  unknown shift falls through to the second switch, which does not know it either.
\<close>

definition shift_value :: "u32 \<Rightarrow> u32 \<Rightarrow> u32 \<Rightarrow> u32 option" where
  "shift_value f a shamt =
     (if f = IMM11_5_FUNCT3_IMMEDIATE_SLLI then Some (push_bit (unat (shamt AND 31)) a)
      else if f = IMM11_5_FUNCT3_IMMEDIATE_SRLI then Some (drop_bit (unat (shamt AND 31)) a)
      else if f = IMM11_5_FUNCT3_IMMEDIATE_SRAI then Some (signed_drop_bit (unat (shamt AND 31)) a)
      else None)"

definition immediate_value :: "u32 \<Rightarrow> u32 \<Rightarrow> u32 \<Rightarrow> u32 option" where
  "immediate_value f a imm =
     (if f = FUNCT3_IMMEDIATE_ADDI then Some (a + imm)
      else if f = FUNCT3_IMMEDIATE_SLTI then Some (if sint a < sint imm then 1 else 0)
      else if f = FUNCT3_IMMEDIATE_SLTIU then Some (if a < imm then 1 else 0)
      else if f = FUNCT3_IMMEDIATE_XORI then Some (a XOR imm)
      else if f = FUNCT3_IMMEDIATE_ORI then Some (a OR imm)
      else if f = FUNCT3_IMMEDIATE_ANDI then Some (a AND imm)
      else None)"

definition g_immediate :: "'w gvm \<Rightarrow> 'w gvm" where
  "g_immediate g =
     (let i = itype (instruction g); j = itypeshiftbyconstant (instruction g);
          f3 = ucast (itype_funct3 i) :: u32; a = xreg g (itype_rs1 i);
          first = (if f3 = FUNCT3_IMMEDIATE_FUNCTIONS_1 \<or> f3 = FUNCT3_IMMEDIATE_FUNCTIONS_5 then
                     shift_value (RiscvInstructionTypeIDecoderImm11_7Funct3Imm11_7Funct3
                       (itype_funct3 i) (itypeshiftbyconstant_imm11_5 j)) a
                       (ucast (itypeshiftbyconstant_shamt j))
                   else None)
      in case (case first of Some v \<Rightarrow> Some v | None \<Rightarrow> immediate_value f3 a (scast (itype_imm i))) of
           Some v \<Rightarrow> set_rd g (itype_rd i) v
         | None \<Rightarrow> raise_illegal g)"

definition g_load_len :: "u32 \<Rightarrow> nat option" where
  "g_load_len f =
     (if f = FUNCT3_LOAD_LB then Some 1 else if f = FUNCT3_LOAD_LBU then Some 1
      else if f = FUNCT3_LOAD_LH then Some 2 else if f = FUNCT3_LOAD_LHU then Some 2
      else if f = FUNCT3_LOAD_LW then Some 4 else None)"

definition g_load_ext :: "u32 \<Rightarrow> u32 \<Rightarrow> u32" where
  "g_load_ext f v =
     (if f = FUNCT3_LOAD_LB then as_i8 v else if f = FUNCT3_LOAD_LBU then as_u8 v
      else if f = FUNCT3_LOAD_LH then as_i16 v else if f = FUNCT3_LOAD_LHU then as_u16 v else v)"

definition g_loadop :: "'w ghooks \<Rightarrow> 'w gvm \<Rightarrow> 'w gvm" where
  "g_loadop gh g =
     (let i = itype (instruction g); rdnum = itype_rd i; f = ucast (itype_funct3 i);
          a = scast (itype_imm i) + xreg g (stype_rs1 (stype (instruction g)))
      in case g_load_len f of
           None \<Rightarrow> raise_illegal g
         | Some n \<Rightarrow>
             if rdnum = 0 then g
             else (case g_Load gh (gworld g) a n 0 of
                     (v, m) \<Rightarrow> set_x (g\<lparr>gworld := m\<rparr>) rdnum (g_load_ext f v)))"

definition g_store_len :: "u32 \<Rightarrow> nat option" where
  "g_store_len f =
     (if f = FUNCT3_STORE_SW then Some 4 else if f = FUNCT3_STORE_SH then Some 2
      else if f = FUNCT3_STORE_SB then Some 1 else None)"

definition g_storeop :: "'w ghooks \<Rightarrow> 'w gvm \<Rightarrow> 'w gvm" where
  "g_storeop gh g =
     (let i = stype (instruction g);
          a = RiscvInstructionTypeSDecoderImm (stype_imm4_0 i) (stype_imm11_5 i) + xreg g (stype_rs1 i)
      in case g_store_len (ucast (stype_funct3 i)) of
           None \<Rightarrow> raise_illegal g
         | Some n \<Rightarrow> store_x gh g a n (stype_rs2 i))"

text \<open>\<open>executebranch\<close> after the switch; \<open>None\<close> is the illegal default.\<close>

definition g_executebranch :: "u32 \<Rightarrow> u32 \<Rightarrow> u32 \<Rightarrow> u32 option" where
  "g_executebranch f a b =
     (if f = FUNCT3_BRANCH_BEQ then Some (if a = b then BRANCH_YES else BRANCH_NO)
      else if f = FUNCT3_BRANCH_BNE then Some (if a \<noteq> b then BRANCH_YES else BRANCH_NO)
      else if f = FUNCT3_BRANCH_BGE then Some (if sint a \<ge> sint b then BRANCH_YES else BRANCH_NO)
      else if f = FUNCT3_BRANCH_BGEU then Some (if a \<ge> b then BRANCH_YES else BRANCH_NO)
      else if f = FUNCT3_BRANCH_BLT then Some (if sint a < sint b then BRANCH_YES else BRANCH_NO)
      else if f = FUNCT3_BRANCH_BLTU then Some (if a < b then BRANCH_YES else BRANCH_NO)
      else None)"

definition g_branch :: "'w gvm \<Rightarrow> 'w gvm" where
  "g_branch g =
     (let i = btype (instruction g);
          imm = RiscvInstructionTypeBDecoderImm 0 (btype_imm4_1 i) (btype_imm10_5 i) (btype_imm11 i)
                  (btype_imm12 i)
      in case g_executebranch (ucast (btype_funct3 i)) (xreg g (btype_rs1 i)) (xreg g (btype_rs2 i)) of
           None \<Rightarrow> raise_illegal g
         | Some e \<Rightarrow> if e = BRANCH_YES then goto_pc g (programcounter g + imm) else g)"

definition g_auipc :: "'w gvm \<Rightarrow> 'w gvm" where
  "g_auipc g =
     (let i = utype (instruction g); imm = RiscvInstructionTypeUDecoderImm 0 (utype_imm31_12 i)
      in set_rd g (utype_rd i) (programcounter g + imm))"

definition g_lui :: "'w gvm \<Rightarrow> 'w gvm" where
  "g_lui g =
     (let i = utype (instruction g)
      in set_rd g (utype_rd i) (RiscvInstructionTypeUDecoderImm 0 (utype_imm31_12 i)))"

definition g_jal :: "'w gvm \<Rightarrow> 'w gvm" where
  "g_jal g =
     (let i = jtype (instruction g);
          t = programcounter g + RiscvInstructionTypeJDecoderImm (jtype_imm10_1 i) (jtype_imm11 i)
                (jtype_imm19_12 i) (jtype_imm20 i)
      in goto_pc (set_rd g (jtype_rd i) (programcounternext g)) t)"

definition g_system :: "'w ghooks \<Rightarrow> 'w gvm \<Rightarrow> 'w gvm" where
  "g_system gh g =
     (let i = itypesystem (instruction g)
      in if itypesystem_rd i = 0 \<and> itypesystem_funct3 i = 0 \<and> itypesystem_rs1 i = 0 then
           (if ucast (itypesystem_funct12 i) = FUNCT12_ECALL then g_HandleECALL gh g
            else if ucast (itypesystem_funct12 i) = FUNCT12_EBREAK then g_HandleEBREAK gh g
            else raise_illegal g)
         else raise_illegal g)"

definition g_miscmem :: "'w gvm \<Rightarrow> 'w gvm" where
  "g_miscmem g =
     (let i = itypemiscmem (instruction g); f = ucast (itypemiscmem_funct3 i)
      in if itypemiscmem_rd i = 0 \<and> itypemiscmem_rs1 i = 0 \<and> (f = FUNCT3_FENCE \<or> f = FUNCT3_FENCEI)
         then g else raise_illegal g)"

definition g_exec32 :: "'w ghooks \<Rightarrow> 'w gvm \<Rightarrow> 'w gvm" where
  "g_exec32 gh g =
     (let op = ucast (opcode (instruction g))
      in if op = OPCODE32_JUMPANDLINKREGISTER then g_jalr g
         else if op = OPCODE32_OPERATION then g_operation g
         else if op = OPCODE32_IMMEDIATE then g_immediate g
         else if op = OPCODE32_LOAD then g_loadop gh g
         else if op = OPCODE32_STORE then g_storeop gh g
         else if op = OPCODE32_BRANCH then g_branch g
         else if op = OPCODE32_ADDUPPERIMMEDIATE2PC then g_auipc g
         else if op = OPCODE32_LOADUPPERIMMEDIATE then g_lui g
         else if op = OPCODE32_JUMPANDLINK then g_jal g
         else if op = OPCODE32_SYSTEM then g_system gh g
         else if op = OPCODE32_MISCMEM then g_miscmem g
         else raise_illegal g)"

section \<open>The loop body\<close>

text \<open>The two half words of the instruction, each read in place; and the length found.\<close>

definition put_L :: "u32 \<Rightarrow> u32 \<Rightarrow> u32" where
  "put_L w v = (w AND 0xffff0000) OR (v AND 0xffff)"

definition put_H :: "u32 \<Rightarrow> u32 \<Rightarrow> u32" where
  "put_H w v = (w AND 0xffff) OR push_bit 16 (v AND 0xffff)"

definition g_fetch :: "'w ghooks \<Rightarrow> 'w gvm \<Rightarrow> 'w gvm \<times> nat" where
  "g_fetch gh g0 =
     (let g = g0\<lparr>programcounter := programcounternext g0, instruction := put_H (instruction g0) 0\<rparr>;
          (v, m) = g_Load gh (gworld g) (programcounter g) 2 (ucast (inst_L (instruction g)));
          g1 = g\<lparr>instruction := put_L (instruction g) v, gworld := m,
                 programcounternext := programcounternext g + 2\<rparr>
      in if ucast (copcode_op (copcode (instruction g1))) = OPCODE16_QUADRANT_INVALID then
           (let (u, m') = g_Load gh (gworld g1) (programcounternext g1) 2 (ucast (inst_H (instruction g1)))
            in (g1\<lparr>instruction := put_H (instruction g1) u, gworld := m',
                   programcounternext := programcounternext g1 + 2\<rparr>, 32))
         else (g1, 16))"

definition g_trap_tail :: "'w ghooks \<Rightarrow> 'w gvm \<Rightarrow> 'w gvm" where
  "g_trap_tail gh g =
     (if trapflag g then (g_IllegalInstruction gh g)\<lparr>trapflag := False\<rparr> else g)"

text \<open>Everything after the fetch.\<close>

definition g_execute :: "'w ghooks \<Rightarrow> nat \<Rightarrow> 'w gvm \<Rightarrow> 'w gvm option" where
  "g_execute gh instructionlength g =
     map_option (g_trap_tail gh)
       (if instructionlength = 16 then g_exec16 gh g else Some (g_exec32 gh g))"

definition purg_loop :: "'w ghooks \<Rightarrow> 'w gvm \<Rightarrow> 'w gvm option" where
  "purg_loop gh g = (case g_fetch gh g of (g1, n) \<Rightarrow> g_execute gh n g1)"

section \<open>The public interface\<close>

text \<open>\<open>RiscvEmulatorInit\<close> sets four fields; \<open>RiscvEmulatorCreate\<close> calls it on zeroed storage.\<close>

definition purg_init :: "'w gvm \<Rightarrow> u32 \<Rightarrow> 'w gvm" where
  "purg_init g initial_sp =
     g\<lparr>xreg := (xreg g)(regnum R_sp := initial_sp, regnum R_Zero := 0), programcounter := ROM_ORIGIN,
       programcounternext := ROM_ORIGIN, trapflag := False\<rparr>"

definition purg_create :: "u32 \<Rightarrow> 'w \<Rightarrow> 'w gvm" where
  "purg_create initial_sp w =
     purg_init \<lparr>trapflag = False, programcounter = 0, programcounternext = 0, instruction = 0,
                xreg = (\<lambda>_. 0), gworld = w\<rparr> initial_sp"

definition get_register :: "'w gvm \<Rightarrow> u32 \<Rightarrow> u32" where
  "get_register g index = xreg g (ucast (index AND 31))"

definition set_register :: "'w gvm \<Rightarrow> u32 \<Rightarrow> u32 \<Rightarrow> 'w gvm" where
  "set_register g index value =
     (let i = index AND 31 in if i \<noteq> 0 then set_x g (ucast i) value else g)"

definition get_program_counter :: "'w gvm \<Rightarrow> u32" where
  "get_program_counter g = programcounter g"

definition get_next_program_counter :: "'w gvm \<Rightarrow> u32" where
  "get_next_program_counter g = programcounternext g"

definition set_program_counter :: "'w gvm \<Rightarrow> u32 \<Rightarrow> 'w gvm" where
  "set_program_counter g pc = g\<lparr>programcounter := pc, programcounternext := pc\<rparr>"

definition get_instruction :: "'w gvm \<Rightarrow> u32" where
  "get_instruction g = instruction g"

definition raise_illegal_instruction :: "'w gvm \<Rightarrow> 'w gvm" where
  "raise_illegal_instruction g = g\<lparr>trapflag := True\<rparr>"

end
