(* ===== verification/Purg_Fields.thy ===== *)
theory Purg_Fields
  imports Purg Purv
begin

text \<open>
  The generated engine reads an instruction through bit-field structs and reassembles immediates in
  decoder unions; purv shifts and masks. Here the two readings are shown equal, field by field and
  immediate by immediate, and with them the function tables of the arithmetic encodings.
\<close>

section \<open>Fields and immediates\<close>

lemma scast_bit: "bit (scast (v :: 'a::len word) :: u32) n \<longleftrightarrow>
    n < 32 \<and> bit v (min n (LENGTH('a) - 1))"
  by (auto simp: bit_simps min.commute)

lemma bit_beyond [simp]: "32 \<le> n \<Longrightarrow> \<not> bit (w :: u32) n"
  by (auto dest: bit_imp_le_length)

text \<open>Two words are compared bit by bit at the 32 positions.\<close>

lemma word32_eqI:
  assumes "\<And>n. n \<in> {0, 1, 2, 3, 4, 5, 6, 7, 8, 9, 10, 11, 12, 13, 14, 15, 16, 17, 18, 19, 20, 21, 22,
      23, 24, 25, 26, 27, 28, 29, 30, 31} \<Longrightarrow> bit a n = bit (b :: u32) n"
  shows "a = b"
proof (rule bit_word_eqI)
  fix n assume "n < LENGTH(32)"
  then have "n < 32" by simp
  then have "n \<in> {0, 1, 2, 3, 4, 5, 6, 7, 8, 9, 10, 11, 12, 13, 14, 15, 16, 17, 18, 19, 20, 21, 22,
      23, 24, 25, 26, 27, 28, 29, 30, 31}"
    unfolding insert_iff empty_iff by presburger
  then show "bit a n = bit b n" by (rule assms)
qed

lemma mask_nums:
  "(1 :: u32) = mask 1" "(3 :: u32) = mask 2" "(7 :: u32) = mask 3" "(0xf :: u32) = mask 4"
  "(31 :: u32) = mask 5" "(0x3f :: u32) = mask 6" "(0x7f :: u32) = mask 7" "(0xff :: u32) = mask 8"
  "(0x3ff :: u32) = mask 10" "(0xfff :: u32) = mask 12"
  by (simp_all add: mask_eq_exp_minus_1)

lemma reg_field: "(bits_at n w :: reg) = rfield n w"
  by (simp add: bits_at_def rfield_def)

lemma creg_field: "creg (bits_at n w) = rfieldc n w"
proof -
  have "(ucast (bits_at n w :: 3 word) :: reg) = ucast (drop_bit n w AND 7)"
    unfolding mask_nums by (rule bit_word_eqI) (auto simp: bit_simps bit_bits_at ac_simps)
  then show ?thesis by (simp add: creg_def rfieldc_def)
qed

lemma wide_fields:
  "ucast (bits_at 12 w :: 3 word) = f3_of w"
  "ucast (bits_at 0 w :: 7 word) = w AND 0x7f"
  "ucast (bits_at 20 w :: 12 word) = imm_sys w"
  "ucast (bits_at 20 w :: 5 word) = drop_bit 20 w AND 31"
  "scast (bits_at 20 w :: 12 word) = imm_I w"
  unfolding f3_of_def imm_sys_def imm_I_def mask_nums
  by (rule word32_eqI, elim insertE emptyE; simp add: bit_simps bit_bits_at scast_bit numeral_2_eq_2 [symmetric] del: One_nat_def)+

lemma wide_imms:
  "RiscvInstructionTypeRDecoderFunct7Funct3 (bits_at 12 w) (bits_at 25 w) = push_bit 3 (f7_of w) OR f3_of w"
  "RiscvInstructionTypeIDecoderImm11_7Funct3Imm11_7Funct3 (bits_at 12 w) (bits_at 25 w) =
     push_bit 3 (f7_of w) OR f3_of w"
  "RiscvInstructionTypeSDecoderImm (bits_at 7 w) (bits_at 25 w) = imm_S w"
  "RiscvInstructionTypeBDecoderImm 0 (bits_at 8 w) (bits_at 25 w) (bits_at 7 w) (bits_at 31 w) = imm_B w"
  "RiscvInstructionTypeJDecoderImm (bits_at 21 w) (bits_at 20 w) (bits_at 12 w) (bits_at 31 w) = imm_J w"
  "RiscvInstructionTypeUDecoderImm 0 (bits_at 12 w) = imm_U w"
proof -
  have m: "(0xfffff000 :: u32) = NOT (mask 12)" by (simp add: mask_eq_exp_minus_1)
  show "RiscvInstructionTypeRDecoderFunct7Funct3 (bits_at 12 w) (bits_at 25 w) = push_bit 3 (f7_of w) OR f3_of w"
    unfolding RiscvInstructionTypeRDecoderFunct7Funct3_def f7_of_def f3_of_def mask_nums
    by (rule word32_eqI, elim insertE emptyE; simp add: bit_simps bit_bits_at scast_bit numeral_2_eq_2 [symmetric] del: One_nat_def)
  then show "RiscvInstructionTypeIDecoderImm11_7Funct3Imm11_7Funct3 (bits_at 12 w) (bits_at 25 w) =
     push_bit 3 (f7_of w) OR f3_of w"
    by (simp add: RiscvInstructionTypeRDecoderFunct7Funct3_def
        RiscvInstructionTypeIDecoderImm11_7Funct3Imm11_7Funct3_def)
  show "RiscvInstructionTypeSDecoderImm (bits_at 7 w) (bits_at 25 w) = imm_S w"
    unfolding RiscvInstructionTypeSDecoderImm_def imm_S_def mask_nums
    by (rule word32_eqI, elim insertE emptyE; simp add: bit_simps bit_bits_at scast_bit numeral_2_eq_2 [symmetric] del: One_nat_def)
  show "RiscvInstructionTypeBDecoderImm 0 (bits_at 8 w) (bits_at 25 w) (bits_at 7 w) (bits_at 31 w) = imm_B w"
    unfolding RiscvInstructionTypeBDecoderImm_def imm_B_def mask_nums
    by (rule word32_eqI, elim insertE emptyE; simp add: bit_simps bit_bits_at scast_bit numeral_2_eq_2 [symmetric] bit_sext del: One_nat_def)
  show "RiscvInstructionTypeJDecoderImm (bits_at 21 w) (bits_at 20 w) (bits_at 12 w) (bits_at 31 w) = imm_J w"
    unfolding RiscvInstructionTypeJDecoderImm_def imm_J_def mask_nums
    by (rule word32_eqI, elim insertE emptyE; simp add: bit_simps bit_bits_at scast_bit numeral_2_eq_2 [symmetric] bit_sext del: One_nat_def)
  show "RiscvInstructionTypeUDecoderImm 0 (bits_at 12 w) = imm_U w"
    unfolding RiscvInstructionTypeUDecoderImm_def imm_U_def m
    by (rule word32_eqI, elim insertE emptyE; simp add: bit_simps bit_bits_at scast_bit numeral_2_eq_2 [symmetric] del: One_nat_def)
qed


lemma c_opfunct3: "opfunct3_of w = c_sel w"
  unfolding opfunct3_of_def RiscvInstructionTypeCDecoderOpcode_def copcode_def c_sel_def mask_nums
  by (rule word32_eqI, elim insertE emptyE; simp add: bit_simps bit_bits_at numeral_2_eq_2 [symmetric] del: One_nat_def)

text \<open>The immediates of the compressed forms, as they are after the narrowing casts.\<close>

lemma c_imms:
  "as_i8 (RiscvInstructionTypeCIDecoderImm (bits_at 2 w) (bits_at 12 w)) = c_ci w"
  "as_i8 (RiscvInstructionTypeCBImmDecoderImm (bits_at 2 w) (bits_at 12 w)) = c_ci w"
  "as_u16 (c_addi4spn w) = c_addi4spn w"
  "RiscvInstructionTypeCIWDecoderImm 0 (bits_at 6 w) (bits_at 5 w) (bits_at 11 w) (bits_at 7 w) = c_addi4spn w"
  "as_u8 (RiscvInstructionTypeCLDecoderImm (bits_at 6 w) (bits_at 10 w) (bits_at 5 w)) = c_lw_imm w"
  "as_u8 (RiscvInstructionTypeCSDecoderImm (bits_at 6 w) (bits_at 10 w) (bits_at 5 w)) = c_lw_imm w"
  "as_i16 (RiscvInstructionTypeCJDecoderImm (bits_at 3 w) (bits_at 11 w) (bits_at 2 w) (bits_at 7 w)
     (bits_at 6 w) (bits_at 9 w) (bits_at 8 w) (bits_at 12 w)) = c_cj w"
  "as_i16 (RiscvInstructionTypeCBDecoderImm (bits_at 3 w) (bits_at 10 w) (bits_at 2 w) (bits_at 5 w)
     (bits_at 12 w)) = c_cb w"
  "as_u8 (RiscvInstructionTypeCILwspDecoderImm (bits_at 4 w) (bits_at 12 w) (bits_at 2 w)) = c_lwsp_imm w"
  "as_u8 (RiscvInstructionTypeCSSDecoderImm 0 (bits_at 9 w) (bits_at 7 w)) = c_swsp_imm w"
  "RiscvInstructionTypeCIAddi16spDecoderImm (bits_at 6 w) (bits_at 2 w) (bits_at 5 w) (bits_at 3 w)
     (bits_at 12 w) = c_addi16sp w"
  "RiscvInstructionTypeCILuiDecoderImm (bits_at 2 w) (bits_at 12 w) = c_lui_imm w"
  unfolding purg_imms as_i8_def as_u16_def as_u8_def as_i16_def c_ci_def c_shamt_def c_addi4spn_def
    c_lw_imm_def c_cj_def c_cb_def c_lwsp_imm_def c_swsp_imm_def c_addi16sp_def c_lui_imm_def mask_nums
  by (rule word32_eqI, elim insertE emptyE;
      simp add: bit_simps bit_bits_at scast_bit numeral_2_eq_2 [symmetric] bit_sext del: One_nat_def)+


text \<open>A compressed shift amount without its reserved bit.\<close>

lemma c_shift_amount:
  assumes "\<not> bit w 12"
  shows "as_u8 (RiscvInstructionTypeCIDecoderImm (bits_at 2 w) (bits_at 12 w)) = c_shamt w"
    "as_u8 (RiscvInstructionTypeCBImmDecoderImm (bits_at 2 w) (bits_at 12 w)) = c_shamt w"
    "c_shamt w AND 31 = c_shamt w" "c_shamt w < 32"
proof -
  show "as_u8 (RiscvInstructionTypeCIDecoderImm (bits_at 2 w) (bits_at 12 w)) = c_shamt w"
    using assms unfolding purg_imms as_u8_def c_shamt_def mask_nums
    by (intro word32_eqI, elim insertE emptyE;
        simp add: bit_simps bit_bits_at scast_bit numeral_2_eq_2 [symmetric] del: One_nat_def)
  show "as_u8 (RiscvInstructionTypeCBImmDecoderImm (bits_at 2 w) (bits_at 12 w)) = c_shamt w"
    using assms unfolding purg_imms as_u8_def c_shamt_def mask_nums
    by (intro word32_eqI, elim insertE emptyE;
        simp add: bit_simps bit_bits_at scast_bit numeral_2_eq_2 [symmetric] del: One_nat_def)
  show 31: "c_shamt w AND 31 = c_shamt w"
    using assms unfolding c_shamt_def mask_nums
    by (intro word32_eqI, elim insertE emptyE;
        simp add: bit_simps numeral_2_eq_2 [symmetric] del: One_nat_def)
  have "c_shamt w AND 31 \<le> 31" by (rule word_and_le1)
  then show "c_shamt w < 32" unfolding 31 by (simp add: word_le_nat_alt word_less_nat_alt)
qed

lemmas purg_fields = reg_field creg_field wide_fields [unfolded reg_field]
  wide_imms [unfolded reg_field] c_imms [unfolded reg_field]

section \<open>The function fields of the compressed arithmetic\<close>

lemma and3_cases: "x AND 3 = 0 \<or> x AND 3 = 1 \<or> x AND 3 = 2 \<or> x AND 3 = (3 :: u32)"
proof -
  have "x AND 3 \<le> 3" by (rule word_and_le1)
  then have "unat (x AND 3) \<in> {0, 1, 2, 3}" by (auto simp: word_le_nat_alt)
  then show ?thesis by (auto dest!: arg_cong [where f = "of_nat :: nat \<Rightarrow> u32"])
qed

lemma bit_c_sel: "bit (c_sel w) n \<longleftrightarrow> (if n < 2 then bit w n else n < 5 \<and> bit w (n + 11))"
  unfolding c_sel_def mask_nums by (auto simp: bit_simps ac_simps)

lemma low_bit: "drop_bit n w AND 1 = (if bit w n then 1 else (0 :: u32))"
  unfolding mask_nums
  by (rule word32_eqI, elim insertE emptyE; simp add: bit_simps numeral_2_eq_2 [symmetric] del: One_nat_def)

lemma funct_fields:
  assumes "c_sel w = 17"
  shows "RiscvInstructionTypeCBDecoderFunct3Funct2 (bits_at 10 w) (bits_at 13 w) = 16 OR (drop_bit 10 w AND 3)"
    "RiscvInstructionTypeCADecoderFunct6Funct2 (bits_at 5 w) (bits_at 10 w) =
      0x80 OR push_bit 2 (drop_bit 10 w AND 3) OR (if bit w 12 then 0x10 else 0) OR (drop_bit 5 w AND 3)"
proof -
  have "bit (c_sel w) n = bit (17 :: u32) n" for n using assms by simp
  from this [of 2] this [of 3] this [of 4] have hi: "\<not> bit w 13" "\<not> bit w 14" "bit w 15"
    by (simp_all add: bit_c_sel bit_numeral_rec)
  show "RiscvInstructionTypeCBDecoderFunct3Funct2 (bits_at 10 w) (bits_at 13 w) = 16 OR (drop_bit 10 w AND 3)"
    using hi unfolding purg_imms mask_nums
    by (intro word32_eqI, elim insertE emptyE;
        simp add: bit_simps bit_bits_at numeral_2_eq_2 [symmetric] bit_numeral_rec)
  show "RiscvInstructionTypeCADecoderFunct6Funct2 (bits_at 5 w) (bits_at 10 w) =
      0x80 OR push_bit 2 (drop_bit 10 w AND 3) OR (if bit w 12 then 0x10 else 0) OR (drop_bit 5 w AND 3)"
    using hi unfolding purg_imms mask_nums
    by (intro word32_eqI, elim insertE emptyE;
        simp add: bit_simps bit_bits_at numeral_2_eq_2 [symmetric] bit_numeral_rec)
qed

lemma funct4_field:
  assumes "c_sel w = 18"
  shows "ucast (bits_at 12 w :: 4 word) = (if bit w 12 then 9 else 8 :: u32)"
proof -
  have "bit (c_sel w) n = bit (18 :: u32) n" for n using assms by simp
  from this [of 2] this [of 3] this [of 4] have hi: "\<not> bit w 13" "\<not> bit w 14" "bit w 15"
    by (simp_all add: bit_c_sel bit_numeral_rec)
  then show ?thesis
    by (intro word32_eqI, elim insertE emptyE;
        simp add: bit_simps bit_bits_at numeral_2_eq_2 [symmetric] bit_numeral_rec)
qed

lemma rfieldc_nonzero: "rfieldc n w \<noteq> 0"
proof
  assume "rfieldc n w = 0"
  moreover have "bit (rfieldc n w) 3"
  proof -
    have "rfieldc n w = ucast (drop_bit n w AND 7) OR 8"
      unfolding rfieldc_def mask_nums
      by (rule disjunctive_add) (auto simp: bit_simps bit_numeral_rec split: nat.splits)
    then show ?thesis by (simp add: bit_simps bit_numeral_rec)
  qed
  ultimately show False by simp
qed

section \<open>The encodings both engines read alike\<close>

text \<open>
  Encodings the manual reserves, which the two engines treat differently, and the shift amounts of
  32 and more, which are undefined behaviour in the generated engine, are left out.
\<close>

definition purg_std :: "u32 \<Rightarrow> u32 \<Rightarrow> bool" where
  "purg_std w width =
     (if width = 4 then
        (if w AND 0x7f = 0x33 then
           f7_of w = 0 \<or> f7_of w = 1 \<or> f7_of w = 0x20 \<and> (f3_of w = 0 \<or> f3_of w = 5)
         else if w AND 0x7f = 0x13 then
           (if f3_of w = 1 then f7_of w = 0
            else if f3_of w = 5 then f7_of w = 0 \<or> f7_of w = 0x20 else True)
         else if w AND 0x7f = 0x67 then f3_of w = 0 else True)
      else if c_sel w = 13 then
        (if rfield 7 w = 2 then c_addi16sp w \<noteq> 0 else c_lui_imm w \<noteq> 0)
      else if c_sel w = 2 then \<not> bit w 12
      else if c_sel w = 17 then drop_bit 10 w AND 3 \<noteq> 0 \<and> drop_bit 10 w AND 3 \<noteq> 1 \<or> \<not> bit w 12
      else True)"

lemma f3_zero: "(bits_at 12 w :: 3 word) = 0 \<longleftrightarrow> f3_of w = 0"
  unfolding wide_fields(1) [symmetric] by (auto simp: bit_eq_iff [where 'a = "3 word"] bit_eq_iff [where 'a = "32 word"] bit_simps bit_bits_at dest: bit_imp_le_length)

lemma clear_low: "(- 2 :: u32) = 0xfffffffe"
  by simp

lemma sint_intmin: "sint (a :: u32) = - 2147483648 \<longleftrightarrow> a = 0x80000000"
proof
  assume "sint a = - 2147483648"
  then have "word_of_int (sint a) = (word_of_int (- 2147483648) :: u32)" by simp
  then show "a = 0x80000000" by simp
qed simp

lemma operation_value_std:
  assumes "f7_of w = 0 \<or> f7_of w = 1 \<or> f7_of w = 0x20 \<and> (f3_of w = 0 \<or> f3_of w = 5)"
  shows "operation_value (push_bit 3 (f7_of w) OR f3_of w) a b =
     Some (if f7_of w = 1 then mul_op (f3_of w) a b else alu (f3_of w) (f7_of w) a b)"
proof -
  have m: "(- 1 :: u32) = 0xffffffff" by simp
  from f3_cases [of w] assms show ?thesis
    by (elim disjE conjE; simp add: operation_value_def purg_consts alu_def mul_op_def c_mulh_def
        c_mulhsu_def c_mulhu_def c_div_def c_divu_def c_rem_def c_remu_def sint_intmin m)
qed

lemma immediate_shift_std:
  assumes "f3_of w = 1 \<and> f7_of w = 0 \<or> f3_of w = 5 \<and> (f7_of w = 0 \<or> f7_of w = 0x20)"
  shows "shift_value (push_bit 3 (f7_of w) OR f3_of w) a (s AND 31) = Some (alu (f3_of w) (f7_of w) a (s AND 31))"
  using assms by (elim disjE conjE; simp add: shift_value_def purg_consts alu_def)

lemma immediate_value_std:
  assumes "f3_of w \<noteq> 1" "f3_of w \<noteq> 5"
  shows "immediate_value (f3_of w) a i = Some (alu (f3_of w) 0 a i)"
  using f3_cases [of w] assms by (elim disjE; simp add: immediate_value_def purg_consts alu_def)

lemma executebranch_take:
  "g_executebranch (f3_of w) a b =
     map_option (\<lambda>t. if t then BRANCH_YES else BRANCH_NO) (branch_take (f3_of w) a b)"
  using f3_cases [of w] by (elim disjE; simp add: g_executebranch_def purg_consts branch_take_def)

end
