(* ===== verification/Purg_Equiv.thy ===== *)
theory Purg_Equiv
  imports Purg_Fields Purva_Fused
begin

text \<open>
  One instruction of the generated engine against one action of purv, under the contract
  \<open>purg_host\<close> of the host functions; then the fetch, in half words through the same contract.
\<close>

section \<open>The two states\<close>

text \<open>
  The generated engine keeps the registers, its host the memory: with purv's memory map as its
  host, the two together are a state of purv.
\<close>

definition joined :: "'w vm gvm \<Rightarrow> 'w vm" where
  "joined g = (gworld g)\<lparr>regs := xreg g\<rparr>"

lemma joined_simps [simp]:
  "regs (joined g) = xreg g"
  "joined (set_rd g r v) = wr (joined g) r v"
  "joined (goto_pc g t) = joined g"
  "joined (raise_illegal g) = joined g"
  "joined (g\<lparr>trapflag := b\<rparr>) = joined g"
  by (simp_all add: joined_def set_rd_def set_x_def wr_def goto_pc_def raise_illegal_def)

lemma gvm_fields [simp]:
  "trapflag (set_rd g r v) = trapflag g" "trapflag (goto_pc g t) = trapflag g" "trapflag (raise_illegal g)"
  "trapflag (set_x g r v) = trapflag g"
  "programcounter (raise_illegal g) = programcounter g" "instruction (raise_illegal g) = instruction g"
  "programcounternext (raise_illegal g) = programcounternext g"
  "programcounternext (set_rd g r v) = programcounternext g" "programcounternext (goto_pc g t) = t"
  "programcounternext (set_x g r v) = programcounternext g"
  by (simp_all add: set_rd_def set_x_def goto_pc_def raise_illegal_def)

text \<open>What the engine leaves after the trap test against what purv leaves.\<close>

definition g_agrees :: "'w vm ghooks \<Rightarrow> u32 \<Rightarrow> 'w vm gvm \<Rightarrow> 'w vm \<times> ctl \<Rightarrow> bool" where
  "g_agrees gh nxt g r =
     (let g' = g_trap_tail gh g
      in joined g' = fst r \<and> \<not> trapflag g' \<and>
         programcounternext g' = (case snd r of C_goto t \<Rightarrow> t | C_done \<Rightarrow> nxt | C_out \<Rightarrow> nxt))"

lemma g_agrees_plain:
  assumes "\<not> trapflag g"
  shows "g_agrees gh nxt g r \<longleftrightarrow> joined g = fst r \<and>
     programcounternext g = (case snd r of C_goto t \<Rightarrow> t | C_done \<Rightarrow> nxt | C_out \<Rightarrow> nxt)"
  using assms by (simp add: g_agrees_def g_trap_tail_def)

text \<open>
  What the engine needs of the functions it is linked with: memory that behaves as purv's does
  where purv reads or writes it, and trap functions that do what purv's trap paths do and leave the
  engine's own fields alone.
\<close>

locale purg_host =
  fixes hk :: "'w hooks" and gh :: "'w vm ghooks"
  assumes load_law: "ld_mem hk m a (csize T) = Some (v, m') \<Longrightarrow>
      \<exists>u. g_Load gh m a (unat (csize T)) d = (u, m') \<and> ccast T u = ccast T v"
    and store_law: "n = 1 \<or> n = 2 \<or> n = 4 \<Longrightarrow> st_mem hk m a n v = Some m' \<Longrightarrow>
      g_Store gh m a (unat n) v = m'"
    and illegal_law: "joined (g_IllegalInstruction gh g) =
        fst (exec_illegal hk (programcounter g) (instruction g) (joined g))"
      "programcounternext (g_IllegalInstruction gh g) = programcounternext g"
    and ecall_law: "joined (g_HandleECALL gh g) =
        fst (exec_ecall hk (programcounter g) (instruction g) (joined g))"
      "programcounternext (g_HandleECALL gh g) = programcounternext g"
      "trapflag (g_HandleECALL gh g) = trapflag g"
    and ebreak_law: "joined (g_HandleEBREAK gh g) =
        fst (exec_ebreak hk (programcounter g) (instruction g) (joined g))"
      "programcounternext (g_HandleEBREAK gh g) = programcounternext g"
      "trapflag (g_HandleEBREAK gh g) = trapflag g"

lemma trap_ctl:
  "(case snd (exec_illegal hk p w s) of C_goto t \<Rightarrow> t | C_done \<Rightarrow> n | C_out \<Rightarrow> n) = n"
  "(case snd (exec_ecall hk p w s) of C_goto t \<Rightarrow> t | C_done \<Rightarrow> n | C_out \<Rightarrow> n) = n"
  "(case snd (exec_ebreak hk p w s) of C_goto t \<Rightarrow> t | C_done \<Rightarrow> n | C_out \<Rightarrow> n) = n"
  by (simp_all add: exec_illegal_def exec_ecall_def exec_ebreak_def Let_def split: option.split prod.split)

context purg_host
begin

lemma g_agrees_illegal:
  "programcounternext g = n \<Longrightarrow>
     g_agrees gh n (raise_illegal g) (exec_illegal hk (programcounter g) (instruction g) (joined g))"
  by (simp add: g_agrees_def g_trap_tail_def illegal_law trap_ctl)

lemma g_agrees_ecall:
  "programcounternext g = n \<Longrightarrow> \<not> trapflag g \<Longrightarrow>
     g_agrees gh n (g_HandleECALL gh g) (exec_ecall hk (programcounter g) (instruction g) (joined g))"
  by (simp add: g_agrees_plain ecall_law trap_ctl)

lemma g_agrees_ebreak:
  "programcounternext g = n \<Longrightarrow> \<not> trapflag g \<Longrightarrow>
     g_agrees gh n (g_HandleEBREAK gh g) (exec_ebreak hk (programcounter g) (instruction g) (joined g))"
  by (simp add: g_agrees_plain ebreak_law trap_ctl)

text \<open>A load of the engine, whatever its destination held.\<close>

lemma joined_load:
  assumes "reg_blind hk" "ld_mem hk (joined g) a (csize T) = Some (v, s1)"
  shows "\<exists>u m. g_Load gh (gworld g) a (unat (csize T)) d = (u, m) \<and> ccast T u = ccast T v \<and>
     m\<lparr>regs := xreg g\<rparr> = s1"
proof -
  from assms obtain m where m: "ld_mem hk (gworld g) a (csize T) = Some (v, m)" "m\<lparr>regs := xreg g\<rparr> = s1"
    by (auto simp: joined_def ld_mem_regs)
  with load_law [OF m(1), of d] show ?thesis by blast
qed

lemma joined_store:
  assumes "reg_blind hk" "st_mem hk (joined g) a n v = Some s1" "n = 1 \<or> n = 2 \<or> n = 4"
  shows "(g_Store gh (gworld g) a (unat n) v)\<lparr>regs := xreg g\<rparr> = s1"
proof -
  from assms(1,2) obtain m where m: "st_mem hk (gworld g) a n v = Some m" "m\<lparr>regs := xreg g\<rparr> = s1"
    by (auto simp: joined_def st_mem_regs)
  with store_law [OF assms(3) m(1)] show ?thesis by simp
qed

lemma g_agrees_loadop:
  assumes "reg_blind hk" "programcounternext g = n" "\<not> trapflag g"
    and "exec_load hk (f3_of (instruction g)) (xreg g (rfield 15 (instruction g))) (imm_I (instruction g))
      (rfield 7 (instruction g)) (programcounter g) (instruction g) (joined g) = Some r"
  shows "g_agrees gh n (g_loadop gh g) r"
proof -
  let ?w = "instruction g"
  let ?f = "f3_of ?w" and ?a = "xreg g (rfield 15 ?w) + imm_I ?w" and ?rd = "rfield 7 ?w"
  have len: "g_load_len ?f = (if ?f = 3 \<or> ?f > 5 then None else Some (unat (csize (f3_ty ?f))))"
    "\<not> (?f = 3 \<or> ?f > 5) \<Longrightarrow> g_load_ext ?f v = ccast (f3_ty ?f) v" for v
    using f3_cases [of ?w]
    by (elim disjE; simp add: g_load_len_def g_load_ext_def f3_ty_def purg_consts as_u8_def as_i8_def as_u16_def as_i16_def)+
  have op: "g_loadop gh g =
     (case g_load_len ?f of
           None \<Rightarrow> raise_illegal g
         | Some n \<Rightarrow>
             if ?rd = 0 then g
             else (case g_Load gh (gworld g) ?a n 0 of
                     (v, m) \<Rightarrow> set_x (g\<lparr>gworld := m\<rparr>) ?rd (g_load_ext ?f v)))"
    by (simp add: g_loadop_def itype_def stype_def reg_field wide_fields Let_def add.commute cong: option.case_cong if_cong)
  show ?thesis
  proof (cases "?f = 3 \<or> ?f > 5")
    case True
    with assms(4) g_agrees_illegal [OF assms(2)] show ?thesis by (simp add: op len exec_load_def)
  next
    case False
    show ?thesis
    proof (cases "?rd = 0")
      case True
      with assms False show ?thesis
        by (auto simp: op len g_agrees_plain exec_load_def Let_def)
    next
      case rd: False
      with assms(1,4) False obtain v s1 where
        ld: "ld_mem hk (joined g) ?a (csize (f3_ty ?f)) = Some (v, s1)"
        and r: "r = (wr s1 ?rd (ccast (f3_ty ?f) v), C_done)"
        by (auto simp: exec_load_ld_mem reg_blind_callback)
      from joined_load [OF assms(1) ld, of 0] obtain u m where
        "g_Load gh (gworld g) ?a (unat (csize (f3_ty ?f))) 0 = (u, m)"
        "ccast (f3_ty ?f) u = ccast (f3_ty ?f) v" "s1 = m\<lparr>regs := xreg g\<rparr>"
        by blast
      with assms(2,3) r rd False show ?thesis
        by (simp add: op len g_agrees_plain joined_def set_x_def wr_def)
    qed
  qed
qed

lemma g_agrees_storeop:
  assumes "reg_blind hk" "programcounternext g = n" "\<not> trapflag g"
    and "exec_store hk (f3_of (instruction g)) (xreg g (rfield 15 (instruction g)))
      (xreg g (rfield 20 (instruction g))) (imm_S (instruction g))
      (programcounter g) (instruction g) (joined g) = Some r"
  shows "g_agrees gh n (g_storeop gh g) r"
proof -
  let ?w = "instruction g"
  let ?f = "f3_of ?w" and ?a = "xreg g (rfield 15 ?w) + imm_S ?w" and ?v = "xreg g (rfield 20 ?w)"
  have len: "g_store_len ?f = (if ?f > 2 then None else Some (unat (push_bit (unat ?f) 1 :: u32)))"
    "\<not> ?f > 2 \<Longrightarrow> push_bit (unat ?f) 1 \<in> {1 :: u32, 2, 4}"
    using f3_cases [of ?w] by (elim disjE; simp add: g_store_len_def purg_consts)+
  have op: "g_storeop gh g =
     (case g_store_len ?f of
           None \<Rightarrow> raise_illegal g
         | Some n \<Rightarrow> g\<lparr>gworld := g_Store gh (gworld g) ?a n ?v\<rparr>)"
    by (simp add: g_storeop_def stype_def store_x_def reg_field wide_fields wide_imms [unfolded reg_field] Let_def add.commute
        cong: option.case_cong)
  show ?thesis
  proof (cases "?f > 2")
    case True
    with assms(4) g_agrees_illegal [OF assms(2)] show ?thesis by (simp add: op len exec_store_def)
  next
    case False
    with assms(1,4) obtain s1 where
      st: "st_mem hk (joined g) ?a (push_bit (unat ?f) 1) ?v = Some s1" and r: "r = (s1, C_done)"
      by (auto simp: exec_store_st_mem reg_blind_callback)
    from joined_store [OF assms(1) st] len(2) False
    have "(g_Store gh (gworld g) ?a (unat (push_bit (unat ?f) 1 :: u32)) ?v)\<lparr>regs := xreg g\<rparr> = s1"
      by blast
    with assms(2,3) r False show ?thesis
      by (simp add: op len g_agrees_plain joined_def)
  qed
qed

text \<open>The word accesses of the compressed forms.\<close>

lemma g_agrees_load_x:
  assumes "reg_blind hk" "programcounternext g = n" "\<not> trapflag g" "rd \<noteq> 0"
    and "exec_load hk 2 a i rd p w (joined g) = Some r"
  shows "g_agrees gh n (load_x gh g (a + i) 4 rd) r"
proof -
  from assms(1,4,5) obtain v s1 where ld: "ld_mem hk (joined g) (a + i) (csize Int32) = Some (v, s1)"
    and r: "r = (wr s1 rd v, C_done)"
    by (auto simp: exec_load_ld_mem reg_blind_callback f3_ty_def)
  from joined_load [OF assms(1) ld, of "xreg g rd"] obtain m where
    "g_Load gh (gworld g) (a + i) 4 (xreg g rd) = (v, m)" "s1 = m\<lparr>regs := xreg g\<rparr>"
    by auto
  with assms(2-4) r show ?thesis by (simp add: load_x_def g_agrees_plain joined_def set_x_def wr_def)
qed

lemma g_agrees_store_x:
  assumes "reg_blind hk" "programcounternext g = n" "\<not> trapflag g"
    and "exec_store hk 2 a (xreg g rs) i p w (joined g) = Some r"
  shows "g_agrees gh n (store_x gh g (a + i) 4 rs) r"
proof -
  from assms(1,4) obtain s1 where st: "st_mem hk (joined g) (a + i) 4 (xreg g rs) = Some s1"
    and r: "r = (s1, C_done)"
    by (auto simp: exec_store_st_mem reg_blind_callback)
  from joined_store [OF assms(1) st] have "(g_Store gh (gworld g) (a + i) 4 (xreg g rs))\<lparr>regs := xreg g\<rparr> = s1"
    by simp
  with assms(2,3) r show ?thesis by (simp add: store_x_def g_agrees_plain joined_def)
qed

lemma g_agrees_value:
  "programcounternext g = n \<Longrightarrow> \<not> trapflag g \<Longrightarrow> g_agrees gh n (set_rd g rd v) (wr (joined g) rd v, C_done)"
  by (simp add: g_agrees_plain)

lemma g_agrees_link:
  "\<not> trapflag g \<Longrightarrow> g_agrees gh n (goto_pc (set_rd g rd v) t) (wr (joined g) rd v, C_goto t)"
  by (simp add: g_agrees_plain)

lemma g_agrees_operation:
  assumes "programcounternext g = n" "\<not> trapflag g" "w = instruction g" "w AND 0x7f = 0x33" "purg_std w 4"
    and "exec_action hk (decode32 (xreg g) w) p w 4 (joined g) = Some r"
  shows "g_agrees gh n (g_operation g) r"
proof -
  have "f7_of w = 0 \<or> f7_of w = 1 \<or> f7_of w = 0x20 \<and> (f3_of w = 0 \<or> f3_of w = 5)"
    using assms(4,5) by (simp add: purg_std_def)
  from operation_value_std [OF this] assms(4,6) g_agrees_value [OF assms(1,2)] show ?thesis
    by (auto simp: g_operation_def rtype_def purg_fields Let_def assms(3) [symmetric] decode32_def
        split: if_splits)
qed

lemma g_agrees_immediate:
  assumes "programcounternext g = n" "\<not> trapflag g" "w = instruction g" "w AND 0x7f = 0x13" "purg_std w 4"
    and "exec_action hk (decode32 (xreg g) w) p w 4 (joined g) = Some r"
  shows "g_agrees gh n (g_immediate g) r"
proof -
  note simps = g_immediate_def itype_def itypeshiftbyconstant_def purg_fields Let_def assms(3) [symmetric]
    decode32_def assms(4) purg_consts
  show ?thesis
  proof (cases "f3_of w = 1 \<or> f3_of w = 5")
    case True
    then have "f3_of w = 1 \<and> f7_of w = 0 \<or> f3_of w = 5 \<and> (f7_of w = 0 \<or> f7_of w = 0x20)"
      using assms(4,5) by (auto simp: purg_std_def)
    from immediate_shift_std [OF this] assms(6) True g_agrees_value [OF assms(1,2)] show ?thesis
      by (auto simp: simps)
  next
    case False
    with immediate_value_std [of w] assms(6) g_agrees_value [OF assms(1,2)] show ?thesis
      by (auto simp: simps)
  qed
qed

lemma g_agrees_branch:
  assumes "programcounternext g = n" "\<not> trapflag g" "w = instruction g" "w AND 0x7f = 0x63"
    and "exec_action hk (decode32 (xreg g) w) (programcounter g) w 4 (joined g) = Some r"
  shows "g_agrees gh n (g_branch g) r"
  using assms(4,5) g_agrees_illegal [OF assms(1)] assms(1,2)
  by (auto simp: g_branch_def btype_def purg_fields Let_def assms(3) executebranch_take decode32_def
      BRANCH_YES_def BRANCH_NO_def g_agrees_plain split: option.splits)

lemma g_agrees_system:
  assumes "programcounternext g = n" "\<not> trapflag g" "w = instruction g" "w AND 0x7f = 0x73"
    and "exec_action hk (decode32 (xreg g) w) (programcounter g) w 4 (joined g) = Some r"
  shows "g_agrees gh n (g_system gh g) r"
  using assms(4,5) g_agrees_illegal [OF assms(1)] g_agrees_ecall [OF assms(1,2)] g_agrees_ebreak [OF assms(1,2)]
  by (auto simp: g_system_def itypesystem_def purg_fields f3_zero Let_def assms(3) decode32_def exec_system_def
      FUNCT12_ECALL_def FUNCT12_EBREAK_def)

lemma g_agrees_miscmem:
  assumes "programcounternext g = n" "\<not> trapflag g" "w = instruction g" "w AND 0x7f = 0x0f"
    and "exec_action hk (decode32 (xreg g) w) (programcounter g) w 4 (joined g) = Some r"
  shows "g_agrees gh n (g_miscmem g) r"
  using assms(4,5) g_agrees_illegal [OF assms(1)] assms(1,2)
  by (auto simp: g_miscmem_def itypemiscmem_def purg_fields Let_def assms(3) decode32_def
      FUNCT3_FENCE_def FUNCT3_FENCEI_def g_agrees_plain split: if_splits)

lemma g_agrees_jumps:
  assumes "programcounternext g = n" "\<not> trapflag g" "w = instruction g" "n = programcounter g + 4"
    and "exec_action hk (decode32 (xreg g) w) (programcounter g) w 4 (joined g) = Some r"
  shows "w AND 0x7f = 0x6f \<Longrightarrow> g_agrees gh n (g_jal g) r"
    "w AND 0x7f = 0x67 \<Longrightarrow> purg_std w 4 \<Longrightarrow> g_agrees gh n (g_jalr g) r"
    "w AND 0x7f = 0x37 \<Longrightarrow> g_agrees gh n (g_lui g) r"
    "w AND 0x7f = 0x17 \<Longrightarrow> g_agrees gh n (g_auipc g) r"
  using assms(1,2,4,5) g_agrees_value [OF assms(1,2)] g_agrees_link [OF assms(2)]
  by (auto simp: g_jal_def g_jalr_def g_lui_def g_auipc_def jtype_def itype_def utype_def purg_fields
      Let_def assms(3) decode32_def purg_std_def FUNCT3_JUMPANDLINKREGISTER_JALR_def
      clear_low)

lemma g_agrees_exec32:
  assumes "reg_blind hk" "programcounternext g = n" "\<not> trapflag g" "w = instruction g"
    and "n = programcounter g + 4" "purg_std w 4"
    and "exec_action hk (decode32 (xreg g) w) (programcounter g) w 4 (joined g) = Some r"
  shows "g_agrees gh n (g_exec32 gh g) r"
proof -
  note op = g_exec32_def opcode_def purg_fields Let_def assms(4) [symmetric] purg_consts
  consider "w AND 0x7f = 0x67" | "w AND 0x7f = 0x33" | "w AND 0x7f = 0x13" | "w AND 0x7f = 0x03"
    | "w AND 0x7f = 0x23" | "w AND 0x7f = 0x63" | "w AND 0x7f = 0x17" | "w AND 0x7f = 0x37"
    | "w AND 0x7f = 0x6f" | "w AND 0x7f = 0x73" | "w AND 0x7f = 0x0f"
    | "w AND 0x7f \<notin> {0x67, 0x33, 0x13, 0x03, 0x23, 0x63, 0x17, 0x37, 0x6f, 0x73, 0x0f}"
    by blast
  then show ?thesis
  proof cases
    case 1
    with g_agrees_jumps(2) [OF assms(2-5,7)] assms(6) show ?thesis by (simp add: op)
  next
    case 2
    with g_agrees_operation [OF assms(2-4) _ assms(6,7)] show ?thesis by (simp add: op)
  next
    case 3
    with g_agrees_immediate [OF assms(2-4) _ assms(6,7)] show ?thesis by (simp add: op)
  next
    case 4
    with g_agrees_loadop [OF assms(1-3)] assms(7) show ?thesis
      by (simp add: op decode32_def)
  next
    case 5
    with g_agrees_storeop [OF assms(1-3)] assms(7) show ?thesis
      by (simp add: op decode32_def)
  next
    case 6
    with g_agrees_branch [OF assms(2-4) _ assms(7)] show ?thesis by (simp add: op)
  next
    case 7
    with g_agrees_jumps(4) [OF assms(2-5,7)] show ?thesis by (simp add: op)
  next
    case 8
    with g_agrees_jumps(3) [OF assms(2-5,7)] show ?thesis by (simp add: op)
  next
    case 9
    with g_agrees_jumps(1) [OF assms(2-5,7)] show ?thesis by (simp add: op)
  next
    case 10
    with g_agrees_system [OF assms(2-4) _ assms(7)] show ?thesis by (simp add: op)
  next
    case 11
    with g_agrees_miscmem [OF assms(2-4) _ assms(7)] show ?thesis by (simp add: op)
  next
    case 12
    with g_agrees_illegal [OF assms(2)] assms(7) show ?thesis
      by (auto simp: op decode32_def)
  qed
qed

lemma g_agrees_misc_alu:
  assumes "programcounternext g = n" "\<not> trapflag g" "w = instruction g" "c_sel w = 17" "purg_std w 2"
    and "exec_action hk (decode16_misc_alu (xreg g) w) (programcounter g) w 2 (joined g) = Some r"
  shows "\<exists>g'. g_miscalu (ops16_miscalu w) g = Some g' \<and> g_agrees gh n g' r"
proof -
  let ?k = "drop_bit 10 w AND 3" and ?j = "drop_bit 5 w AND 3"
  note f = funct_fields [OF assms(4)]
  note simps = ops16_miscalu_def cbimm_def catype_def purg_fields f Let_def g_miscalu_def purg_consts
    ops16_zero_def decode16_misc_alu_def alu_def shift_right_def shift_right_signed_def
  have sh: "\<not> bit w 12" if "?k = 0 \<or> ?k = 1" using assms(4,5) that by (auto simp: purg_std_def)
  consider "?k = 0" | "?k = 1" | "?k = 2" | "?k = 3" "bit w 12" | "?k = 3" "\<not> bit w 12"
    using and3_cases by blast
  then show ?thesis
  proof cases
    case 1
    with sh c_shift_amount [of w] assms(6) g_agrees_value [OF assms(1,2)] show ?thesis by (auto simp: simps)
  next
    case 2
    with sh c_shift_amount [of w] assms(6) g_agrees_value [OF assms(1,2)] show ?thesis by (auto simp: simps)
  next
    case 3
    with assms(6) g_agrees_value [OF assms(1,2)] show ?thesis by (auto simp: simps)
  next
    case 4
    with assms(6) g_agrees_illegal [OF assms(1)] and3_cases [of "drop_bit 5 w"] show ?thesis
      by (elim disjE; simp add: simps low_bit assms(3) [symmetric])
  next
    case 5
    with assms(6) g_agrees_value [OF assms(1,2)] and3_cases [of "drop_bit 5 w"] show ?thesis
      by (elim disjE; auto simp: simps low_bit)
  qed
qed

lemma g_agrees_jalr_mv_add:
  assumes "programcounternext g = n" "\<not> trapflag g" "w = instruction g" "c_sel w = 18"
    and "exec_action hk (decode16_cr (xreg g) w) (programcounter g) w 2 (joined g) = Some r"
  shows "g_agrees gh n (g_jalr_mv_add gh g) r"
proof -
  note simps = g_jalr_mv_add_def crtype_def purg_fields funct4_field [OF assms(4)] Let_def FUNCT4_MV_def
    decode16_cr_def alu_def low_bit clear_low assms(3) [symmetric]
  have "goto_pc (set_x g 1 v) t = goto_pc (set_rd g 1 v) t" for v t by (simp add: set_rd_def)
  moreover have "g_agrees gh n (goto_pc g t) (joined g, C_goto t)" "g_agrees gh n g (joined g, C_done)" for t
    using assms(1,2) by (simp_all add: g_agrees_plain)
  moreover have "set_rd g 0 v = g" for v by (simp add: set_rd_def)
  moreover have "wr s 0 v = s" for v and s :: "'w vm" by (simp add: wr_def)
  ultimately show ?thesis
    using assms(5) g_agrees_value [OF assms(1,2)] g_agrees_link [OF assms(2)] g_agrees_ebreak [OF assms(1,2)]
    by (cases "bit w 12"; cases "rfield 2 w = 0"; cases "rfield 7 w = 0"; auto simp: simps)
qed

lemma g_agrees_upper:
  assumes "programcounternext g = n" "\<not> trapflag g" "w = instruction g" "c_sel w = 13" "purg_std w 2"
    and "exec_action hk (decode16 (xreg g) w) (programcounter g) w 2 (joined g) = Some r"
  shows "g_agrees gh n (g_lui_addi16sp g) r"
proof -
  have "rd \<noteq> 0 \<Longrightarrow> g_agrees gh n (set_x g rd v) (wr (joined g) rd v, C_done)" for rd v
    using g_agrees_value [OF assms(1,2), of rd v] by (simp add: set_rd_def)
  moreover have "g_agrees gh n g (wr (joined g) 0 v, C_done)" for v
    using assms(1,2) by (simp add: g_agrees_plain wr_def)
  ultimately show ?thesis
    using assms(4-6)
    by (auto simp: g_lui_addi16sp_def cilui_def ciaddi16sp_def purg_fields Let_def assms(3) [symmetric]
        decode16_def alu_def purg_std_def split: if_splits)
qed

text \<open>The forms whose operands the first switch decodes.\<close>

lemma g_agrees_exec16:
  assumes "reg_blind hk" "programcounternext g = n" "\<not> trapflag g" "w = instruction g"
    and "n = programcounter g + 2" "purg_std w 2"
    and "exec_action hk (decode16 (xreg g) w) (programcounter g) w 2 (joined g) = Some r"
  shows "\<exists>g'. g_exec16 gh g = Some g' \<and> g_agrees gh n g' r"
proof -
  note op = g_exec16_def c_opfunct3 ops16_of_def ops16_zero_def purg_fields Let_def assms(4) [symmetric]
    purg_consts decode16_def
  note views = ciwtype_def citype_def cjtype_def cltype_def cstype_def cbtype_def cilwsp_def csstype_def
  have x1: "set_x g 1 v = set_rd g 1 v" for v by (simp add: set_rd_def)
  have stay: "g_agrees gh n g (joined g, C_done)" "g_agrees gh n (goto_pc g t) (joined g, C_goto t)" for t
    using assms(2,3) by (simp_all add: g_agrees_plain)
  have x0: "wr s 0 v = s" for v and s :: "'w vm" by (simp add: wr_def)
  note facts = g_agrees_value [OF assms(2,3)] g_agrees_link [OF assms(3)] g_agrees_illegal [OF assms(2)] stay
  consider "c_sel w = 0" | "c_sel w = 8" | "c_sel w = 24" | "c_sel w = 1" | "c_sel w = 5" | "c_sel w = 9"
    | "c_sel w = 13" | "c_sel w = 17" | "c_sel w = 21" | "c_sel w = 25" | "c_sel w = 29" | "c_sel w = 2"
    | "c_sel w = 10" | "c_sel w = 18" | "c_sel w = 26"
    | "c_sel w \<notin> {0, 8, 24, 1, 5, 9, 13, 17, 21, 25, 29, 2, 10, 18, 26}"
    by blast
  then show ?thesis
  proof cases
    case 1
    with assms(7) facts show ?thesis by (auto simp: op views alu_def split: if_splits)
  next
    case 2
    with assms(7) g_agrees_load_x [OF assms(1-3) rfieldc_nonzero] show ?thesis
      by (auto simp: op views)
  next
    case 3
    with assms(7) g_agrees_store_x [OF assms(1-3)] show ?thesis by (auto simp: op views)
  next
    case 4
    with assms(7) facts show ?thesis by (auto simp: op views alu_def)
  next
    case 5
    with assms(5,7) facts show ?thesis by (auto simp: op views x1)
  next
    case 6
    with assms(7) facts show ?thesis by (auto simp: op views alu_def)
  next
    case 7
    with g_agrees_upper [OF assms(2-4) _ assms(6,7)] show ?thesis by (auto simp: op)
  next
    case 8
    with assms(7) g_agrees_misc_alu [OF assms(2-4) _ assms(6)] show ?thesis by (auto simp: op)
  next
    case 9
    with assms(7) facts show ?thesis by (auto simp: op views x0)
  next
    case 10
    with assms(7) facts show ?thesis by (auto simp: op views branch_take_def)
  next
    case 11
    with assms(7) facts show ?thesis by (auto simp: op views branch_take_def)
  next
    case 12
    then have "\<not> bit w 12" using assms(6) by (simp add: purg_std_def)
    moreover have "rd \<noteq> 0 \<Longrightarrow> set_x g rd v = set_rd g rd v" for rd v by (simp add: set_rd_def)
    ultimately show ?thesis
      using 12 c_shift_amount [of w] assms(7) facts
      by (cases "rfield 7 w = 0") (auto simp: op views alu_def shift_left_def x0)
  next
    case 13
    show ?thesis
    proof (cases "rfield 7 w = 0")
      case True
      with 13 assms(7) facts show ?thesis by (auto simp: op views exec_load_def)
    next
      case False
      with 13 assms(7) g_agrees_load_x [OF assms(1-3) False] show ?thesis by (auto simp: op views)
    qed
  next
    case 14
    with assms(7) g_agrees_jalr_mv_add [OF assms(2-4)] show ?thesis by (auto simp: op)
  next
    case 15
    with assms(7) g_agrees_store_x [OF assms(1-3)] show ?thesis by (auto simp: op views)
  next
    case 16
    with assms(7) facts show ?thesis by (auto simp: op)
  qed
qed

text \<open>One instruction after its fetch.\<close>

lemma execute_agrees:
  assumes "reg_blind hk" "\<not> trapflag g" "programcounternext g = programcounter g + width"
    and "width = 2 \<or> width = 4" "purg_std (instruction g) width"
    and "exec_action hk (decode (xreg g) (instruction g) width) (programcounter g) (instruction g) width
      (joined g) = Some (s', c)"
  shows "\<exists>g'. g_execute gh (8 * unat width) g = Some g' \<and> joined g' = s' \<and> \<not> trapflag g' \<and>
    programcounternext g' = (case c of C_goto t \<Rightarrow> t | _ \<Rightarrow> programcounter g + width)"
proof -
  have "\<exists>g1. (if 8 * unat width = 16 then g_exec16 gh g else Some (g_exec32 gh g)) = Some g1 \<and>
      g_agrees gh (programcounter g + width) g1 (s', c)"
    using g_agrees_exec16 [OF assms(1,3,2) refl] g_agrees_exec32 [OF assms(1,3,2) refl] assms(4-6)
    by (elim disjE) (simp_all add: decode_def)
  then show ?thesis by (auto simp: g_execute_def g_agrees_def Let_def split: ctl.split)
qed

end

section \<open>The fetch\<close>

text \<open>
  purv fetches from the storage of its read-only region, the generated engine through its host:
  the code region starts at guest address 0 and the writable region does not cover it.
\<close>

definition code_served :: "u8 list \<Rightarrow> 'w vm \<Rightarrow> bool" where
  "code_served bs s \<longleftrightarrow> rg_ptr (readonly s) = Some bs \<and> length bs = unat (rg_len (readonly s)) \<and>
     rg_base (readonly s) = 0 \<and> (\<forall>a. unat a < length bs \<longrightarrow> region_at (writable s) a 2 = None)"

lemma served_half:
  assumes "code_served bs s" "code_at bs q = Some b0" "code_at bs (q + 1) = Some b1"
  shows "ld_mem hk s q 2 = Some (le16 b0 b1, s)"
proof -
  from assms have q: "unat q < length bs" "unat (q + 1) < length bs" "b0 = bs ! unat q" "b1 = bs ! unat (q + 1)"
    and len: "length bs = unat (rg_len (readonly s))"
    by (auto simp: code_served_def code_at_def split: if_splits)
  have "unat q + 1 < 4294967296" using q(1) len unat_lt_32 [of "rg_len (readonly s)"] by linarith
  then have next1: "unat (q + 1) = unat q + 1" using unat_add_small [of q 1] by simp
  have "unat (rg_len (readonly s) - q) = length bs - unat q"
    using q(1) len by (simp add: unat_sub word_le_nat_alt)
  then have at: "region_at (readonly s) q 2 = Some (unat q)"
    using q(1,2) next1 len assms(1)
    by (simp add: region_at_def code_served_def Let_def word_less_nat_alt word_le_nat_alt)
  have "region_rd (readonly s) (unat q) = Some b0" "region_rd (readonly s) (unat q + 1) = Some b1"
    using q next1 assms(1) by (simp_all add: region_rd_def code_served_def)
  with assms(1) at q(1) show ?thesis
    by (simp add: ld_mem_def mem_r_def mem_w_def code_served_def ld_le_def le16_def)
qed

lemma half_words:
  "put_L (put_H i 0) v = v AND 0xffff" "put_H (v AND 0xffff) u = (v AND 0xffff) OR push_bit 16 (u AND 0xffff)"
  "ucast (ucast v :: u16) = v AND 0xffff" "ucast (bits_at 0 v :: 2 word) = v AND 3"
  "le16 b0 b1 AND 0xffff = le16 b0 b1"
proof -
  have m: "(0xffff :: u32) = mask 16" "(0xffff0000 :: u32) = NOT (mask 16)" by (simp_all add: mask_eq_exp_minus_1)
  show "put_L (put_H i 0) v = v AND 0xffff" "put_H (v AND 0xffff) u = (v AND 0xffff) OR push_bit 16 (u AND 0xffff)"
    "ucast (ucast v :: u16) = v AND 0xffff" "ucast (bits_at 0 v :: 2 word) = v AND 3"
    "le16 b0 b1 AND 0xffff = le16 b0 b1"
    unfolding put_L_def put_H_def m mask_nums
    by (rule bit_word_eqI, auto simp: bit_simps bit_bits_at bit_le16)+
qed

lemma fetch_halves:
  assumes "fetch bs p = Some (w, width)"
  obtains b0 b1 where "code_at bs p = Some b0" "code_at bs (p + 1) = Some b1"
    and "le16 b0 b1 AND 3 \<noteq> 3" "w = le16 b0 b1" "width = 2"
  | b0 b1 b2 b3 where "code_at bs p = Some b0" "code_at bs (p + 1) = Some b1" "le16 b0 b1 AND 3 = 3"
    and "code_at bs (p + 2) = Some b2" "code_at bs (p + 2 + 1) = Some b3"
    and "w = le16 b0 b1 OR push_bit 16 (le16 b2 b3)" "width = 4"
proof -
  from assms obtain b0 b1 where b: "code_at bs p = Some b0" "code_at bs (p + 1) = Some b1"
    by (auto simp: fetch_def bind_eq_Some_conv)
  have 3: "p + 2 + 1 = p + 3" by simp
  show thesis
  proof (cases "le16 b0 b1 AND 3 = 3")
    case True
    with assms b obtain b2 b3 where "code_at bs (p + 2) = Some b2" "code_at bs (p + 3) = Some b3"
      "w = le16 b0 b1 OR push_bit 16 (le16 b2 b3)" "width = 4"
      by (auto simp: fetch_def bind_eq_Some_conv Let_def)
    with that(2) b True 3 show thesis by simp
  next
    case False
    with assms b that(1) show thesis by (simp add: fetch_def Let_def)
  qed
qed

context purg_host
begin

lemma fetch_agrees:
  assumes "code_served bs (gworld g)" "fetch bs (programcounternext g) = Some (w, width)"
  shows "g_fetch gh g =
    (g\<lparr>programcounter := programcounternext g, instruction := w,
       programcounternext := programcounternext g + width\<rparr>, 8 * unat width)"
proof -
  let ?p = "programcounternext g"
  have half: "\<exists>u. g_Load gh (gworld g) q 2 d = (u, gworld g) \<and> u AND 0xffff = le16 b0 b1"
    if "code_at bs q = Some b0" "code_at bs (q + 1) = Some b1" for q d b0 b1
    using load_law [of "gworld g" q Uint16 "le16 b0 b1" "gworld g" d] served_half [OF assms(1) that, of hk]
    by (simp add: half_words)
  note simps = g_fetch_def Let_def half_words copcode_def OPCODE16_QUADRANT_INVALID_def
  from assms(2) show ?thesis
  proof (cases rule: fetch_halves)
    case (1 b0 b1)
    from half [OF 1(1,2), of "ucast (inst_L (put_H (instruction g) 0))"] obtain u where
      "g_Load gh (gworld g) ?p 2 (ucast (inst_L (put_H (instruction g) 0))) = (u, gworld g)"
      "u AND 0xffff = le16 b0 b1"
      by blast
    with 1 show ?thesis by (simp add: simps)
  next
    case (2 b0 b1 b2 b3)
    from half [OF 2(1,2), of "ucast (inst_L (put_H (instruction g) 0))"] obtain u where
      u: "g_Load gh (gworld g) ?p 2 (ucast (inst_L (put_H (instruction g) 0))) = (u, gworld g)"
      "u AND 0xffff = le16 b0 b1"
      by blast
    from half [OF 2(4,5), of "ucast (inst_H (le16 b0 b1))"] obtain v where
      "g_Load gh (gworld g) (?p + 2) 2 (ucast (inst_H (le16 b0 b1))) = (v, gworld g)"
      "v AND 0xffff = le16 b2 b3"
      by blast
    with 2 u half_words(2) [of "le16 b0 b1" v] show ?thesis by (simp add: simps)
  qed
qed

text \<open>One call of the engine: fetch and execution.\<close>

lemma loop_agrees:
  assumes "reg_blind hk" "\<not> trapflag g" "code_served bs (joined g)"
    and "fetch bs (programcounternext g) = Some (w, width)" "purg_std w width"
    and "exec_action hk (decode (xreg g) w width) (programcounternext g) w width (joined g) = Some (s', c)"
  shows "\<exists>g'. purg_loop gh g = Some g' \<and> joined g' = s' \<and> \<not> trapflag g' \<and>
    programcounternext g' = (case c of C_goto t \<Rightarrow> t | _ \<Rightarrow> programcounternext g + width)"
proof -
  let ?g = "g\<lparr>programcounter := programcounternext g, instruction := w,
       programcounternext := programcounternext g + width\<rparr>"
  have srv: "code_served bs (gworld g)" using assms(3) by (simp add: code_served_def joined_def)
  have "joined ?g = joined g" by (simp add: joined_def)
  with execute_agrees [OF assms(1), of ?g width s' c] fetch_width [OF assms(4)] assms(2,5,6)
  show ?thesis by (simp add: purg_loop_def fetch_agrees [OF srv assms(4)] cong: ctl.case_cong)
qed

end

end
