(* ===== verification/Purg_Run.thy ===== *)
theory Purg_Run
  imports Purg_Equiv
begin

text \<open>
  The generated engine with purv's memory map and trap paths as its host, runs of it against runs of
  purv, where it leaves C, and the properties.
\<close>

section \<open>purv's memory map as the host\<close>

definition lift_trap ::
  "('w hooks \<Rightarrow> u32 \<Rightarrow> u32 \<Rightarrow> 'w vm \<Rightarrow> 'w vm \<times> ctl) \<Rightarrow> 'w hooks \<Rightarrow> 'w vm gvm \<Rightarrow> 'w vm gvm" where
  "lift_trap f hk g =
     (let s = fst (f hk (programcounter g) (instruction g) (joined g))
      in g\<lparr>gworld := s, xreg := regs s\<rparr>)"

text \<open>
  Host functions made of purv's accesses and trap paths: a load puts the bytes read under what its
  destination held, an access outside both regions without a callback does nothing.
\<close>

definition purg_hooks :: "'w hooks \<Rightarrow> 'w vm ghooks" where
  "purg_hooks hk =
     \<lparr>g_Load = (\<lambda>m a n d. case ld_mem hk m a (of_nat n) of
          None \<Rightarrow> (d, m)
        | Some (v, m') \<Rightarrow> (take_bit (8 * n) v OR (d AND NOT (mask (8 * n))), m')),
      g_Store = (\<lambda>m a n v. case st_mem hk m a (of_nat n) v of None \<Rightarrow> m | Some m' \<Rightarrow> m'),
      g_IllegalInstruction = lift_trap exec_illegal hk,
      g_HandleECALL = lift_trap exec_ecall hk,
      g_HandleEBREAK = lift_trap exec_ebreak hk\<rparr>"

lemma ccast_merge:
  "ccast T (take_bit (8 * unat (csize T)) v OR (d AND NOT (mask (8 * unat (csize T))))) = ccast T v"
  by (cases T; simp; rule bit_word_eqI; auto simp: bit_simps min_def)

lemma joined_lift: "joined (lift_trap f hk g) = fst (f hk (programcounter g) (instruction g) (joined g))"
  "programcounternext (lift_trap f hk g) = programcounternext g" "trapflag (lift_trap f hk g) = trapflag g"
  by (simp_all add: lift_trap_def joined_def Let_def)

interpretation purv_host: purg_host hk "purg_hooks hk" for hk :: "'w hooks"
proof (unfold_locales, goal_cases)
  case (1 m a T v m' d)
  then show ?case by (simp add: purg_hooks_def ccast_merge)
next
  case (2 n m a v m')
  then show ?case by (auto simp: purg_hooks_def)
qed (simp_all add: purg_hooks_def joined_lift)

section \<open>Runs\<close>

text \<open>The caller's loop around \<open>RiscvEmulatorLoop\<close>.\<close>

fun purg_run :: "'w ghooks \<Rightarrow> nat \<Rightarrow> 'w gvm \<Rightarrow> 'w gvm option" where
  "purg_run gh 0 g = Some g"
| "purg_run gh (Suc n) g = do { g' \<leftarrow> purg_loop gh g; purg_run gh n g' }"

definition same_map :: "'w vm \<Rightarrow> 'w vm \<Rightarrow> bool" where
  "same_map s s' \<longleftrightarrow> rg_len (writable s') = rg_len (writable s) \<and> rg_base (writable s') = rg_base (writable s)"

lemma same_map_refl [simp]: "same_map s s" "same_map s (wr s i v)" "same_map s (s\<lparr>pc := p, inst := w\<rparr>)"
  by (simp_all add: same_map_def)

lemma same_map_trans: "same_map a b \<Longrightarrow> same_map b c \<Longrightarrow> same_map a c"
  by (simp add: same_map_def)

lemma same_map_wr8: "wr8 s (WPtr off) i b = Some s' \<Longrightarrow> same_map s s'"
  by (auto simp: same_map_def region_wr_shape)

text \<open>Handlers that move neither the code nor the writable region.\<close>

locale mapped_hooks = trap_hooks +
  assumes trap_map: "h_ecall hk = Some f \<or> h_ebreak hk = Some f \<or> h_illegal hk = Some f \<Longrightarrow>
      f s = (b, s') \<Longrightarrow> same_map s s'"
    and callback_map: "h_callback hk = Some cb \<Longrightarrow> cb s op a v = (r, s') \<Longrightarrow> same_map s s'"
begin

lemma trap_path_map:
  "exec_illegal hk p w s = (s', c) \<Longrightarrow> same_map s s'"
  "exec_ebreak hk p w s = (s', c) \<Longrightarrow> same_map s s'"
  "exec_ecall hk p w s = (s', c) \<Longrightarrow> same_map s s'"
  by (auto simp: exec_illegal_def exec_ebreak_def exec_ecall_def Let_def split: option.splits prod.splits
      intro: same_map_trans [OF same_map_refl(3)] trap_map)

lemma load_map: "exec_load hk f3 a i rd p w s = Some (s', c) \<Longrightarrow> same_map s s'"
  by (auto simp: exec_load_def load_miss_def Let_def
      split: if_splits option.splits prod.splits Option.bind_splits
      dest: trap_path_map callback_map intro: same_map_trans [OF _ same_map_refl(2)])

lemma store_hit_map: "store_hit s (WPtr off) f3 b = Some s' \<Longrightarrow> same_map s s'"
  by (simp add: store_hit_def bind_eq_Some_conv del: wr8.simps split: if_splits)
    (meson same_map_wr8 same_map_trans)+

lemma store_map: "exec_store hk f3 a b i p w s = Some (s', c) \<Longrightarrow> same_map s s'"
  by (auto simp: exec_store_def store_miss_def Let_def bind_eq_Some_conv
      split: if_splits option.splits dest!: mem_xlate_write dest: trap_path_map store_hit_map
      intro: callback_map [OF _ prod.collapse [symmetric]])

lemma action_map: "exec_action hk act p w width s = Some (s', c) \<Longrightarrow> same_map s s'"
  by (cases act) (auto simp: exec_system_def split: if_splits option.splits
      dest: load_map store_map trap_path_map)

lemma action_served:
  assumes "vm_ok s" "code_served bs s" "exec_action hk act p w width s = Some (s', c)"
  shows "vm_ok s' \<and> code_served bs s'"
proof -
  have "readonly s' = readonly s" "vm_ok s'" using exec_action_keeps [OF assms(1,3)] by auto
  moreover have "region_at (writable s') a n = region_at (writable s) a n" for a n
    using action_map [OF assms(3)] by (simp add: same_map_def region_at_def)
  ultimately show ?thesis using assms(2) by (simp add: code_served_def)
qed

end

locale purg_machine = purg_host hk gh + mapped_hooks hk for hk :: "'w hooks" and gh :: "'w vm ghooks"
begin

lemma run_agrees:
  assumes "reg_blind hk" "\<And>p w width. fetch bs p = Some (w, width) \<Longrightarrow> purg_std w width"
    and "\<not> trapflag g" "vm_ok (joined g)" "code_served bs (joined g)"
    and "ref_run hk bs n k (programcounternext g) (joined g) = Some (s', k + n, p', False)"
  shows "\<exists>g'. purg_run gh n g = Some g' \<and> joined g' = s' \<and> programcounternext g' = p'"
  using assms(3-6)
proof (induction n arbitrary: k g)
  case 0
  then show ?case by simp
next
  case (Suc n)
  let ?p = "programcounternext g"
  from Suc.prems(4) obtain w width where f: "fetch bs ?p = Some (w, width)" by (auto split: option.splits)
  with Suc.prems(4) obtain s1 c where
    e: "exec_action hk (decode (xreg g) w width) ?p w width (joined g) = Some (s1, c)"
    by (auto split: option.splits)
  from loop_agrees [OF assms(1) Suc.prems(1,3) f assms(2) [OF f] e] obtain g1 where
    g1: "purg_loop gh g = Some g1" "joined g1 = s1" "\<not> trapflag g1"
      "programcounternext g1 = (case c of C_goto t \<Rightarrow> t | _ \<Rightarrow> ?p + width)"
    by blast
  have s1: "vm_ok (joined g1)" "code_served bs (joined g1)"
    using action_served [OF Suc.prems(2,3) e] g1(2) by simp_all
  have "ref_run hk bs n (Suc k) (programcounternext g1) (joined g1) = Some (s', Suc k + n, p', False)"
    using Suc.prems(4) f e g1(2,4) by (cases c) simp_all
  from Suc.IH [OF g1(3) s1 this] g1(1) show ?case by simp
qed

end

interpretation purv_machine: purg_machine "init_hooks :: 'w hooks" "purg_hooks init_hooks"
  by unfold_locales (auto simp: init_hooks_def default_callback_def)

section \<open>Undefined behaviour and \<open>x0\<close>\<close>






text \<open>Trap functions that leave \<open>x0\<close> zero.\<close>

definition x0_kept :: "'w ghooks \<Rightarrow> bool" where
  "x0_kept gh \<longleftrightarrow> (\<forall>g. xreg g 0 = 0 \<longrightarrow> xreg (g_IllegalInstruction gh g) 0 = 0 \<and>
     xreg (g_HandleECALL gh g) 0 = 0 \<and> xreg (g_HandleEBREAK gh g) 0 = 0)"

lemma xreg_0 [simp]:
  "xreg (set_rd g r v) 0 = xreg g 0" "r \<noteq> 0 \<Longrightarrow> xreg (set_x g r v) 0 = xreg g 0"
  "xreg (goto_pc g t) = xreg g" "xreg (raise_illegal g) = xreg g" "xreg (store_x gh g a n r) = xreg g"
  "r \<noteq> 0 \<Longrightarrow> xreg (load_x gh g a n r) 0 = xreg g 0"
  by (simp_all add: set_rd_def set_x_def goto_pc_def raise_illegal_def store_x_def load_x_def split: prod.split)

lemma miscalu_x0: "g_miscalu d g = Some g' \<Longrightarrow> xreg g' 0 = xreg g 0"
  by (auto simp: g_miscalu_def Let_def split: if_splits Option.bind_splits)

lemma jalr_mv_add_x0: "x0_kept gh \<Longrightarrow> xreg g 0 = 0 \<Longrightarrow> xreg (g_jalr_mv_add gh g) 0 = 0"
  by (simp add: g_jalr_mv_add_def Let_def x0_kept_def)

lemma exec16_x0:
  assumes "x0_kept gh" "xreg g 0 = 0" "g_exec16 gh g = Some g'"
  shows "xreg g' 0 = 0"
proof -
  define w where "w = instruction g"
  note op = g_exec16_def c_opfunct3 ops16_of_def ops16_zero_def purg_fields Let_def w_def [symmetric]
    purg_consts ciwtype_def citype_def cjtype_def cltype_def cstype_def cbtype_def cilwsp_def csstype_def
  consider "c_sel w = 8" | "c_sel w = 2" | "c_sel w = 10" | "c_sel w = 13"
    | "c_sel w = 17" | "c_sel w = 18" | "c_sel w \<notin> {8, 2, 10, 13, 17, 18}"
    by blast
  then show ?thesis
  proof cases
    case 1
    with assms rfieldc_nonzero show ?thesis by (auto simp: op)
  next
    case 2
    with assms show ?thesis by (auto simp: op split: if_splits Option.bind_splits)
  next
    case 3
    with assms show ?thesis by (auto simp: op split: if_splits)
  next
    case 4
    with assms show ?thesis by (auto simp: op g_lui_addi16sp_def cilui_def split: if_splits)
  next
    case 5
    with assms show ?thesis by (auto simp: op dest: miscalu_x0)
  next
    case 6
    with assms jalr_mv_add_x0 show ?thesis by (auto simp: op)
  next
    case 7
    with assms show ?thesis by (auto simp: op split: if_splits)
  qed
qed

lemma exec32_x0:
  assumes "x0_kept gh" "xreg g 0 = 0"
  shows "xreg (g_exec32 gh g) 0 = 0"
proof -
  have "xreg (g_loadop gh g) 0 = 0"
    using assms(2) by (auto simp: g_loadop_def Let_def split: option.split prod.split)
  moreover have "xreg (g_jalr g) 0 = 0" "xreg (g_branch g) 0 = 0" "xreg (g_auipc g) 0 = 0"
    "xreg (g_lui g) 0 = 0" "xreg (g_jal g) 0 = 0" "xreg (g_miscmem g) 0 = 0"
    "xreg (g_operation g) 0 = 0" "xreg (g_immediate g) 0 = 0" "xreg (g_storeop gh g) 0 = 0"
    using assms(2)
    by (simp_all add: g_jalr_def g_branch_def g_auipc_def g_lui_def g_jal_def g_miscmem_def g_operation_def
        g_immediate_def g_storeop_def Let_def split: option.split)
  moreover have "xreg (g_system gh g) 0 = 0"
    using assms by (simp add: g_system_def Let_def x0_kept_def)
  ultimately show ?thesis using assms(2) by (simp add: g_exec32_def Let_def)
qed

lemma loop_x0:
  assumes "x0_kept gh" "xreg g 0 = 0" "purg_loop gh g = Some g'"
  shows "xreg g' 0 = 0"
proof -
  obtain g1 n where f: "g_fetch gh g = (g1, n)" by fastforce
  have "xreg g1 0 = 0"
    using f assms(2) by (auto simp: g_fetch_def Let_def split: prod.splits if_splits)
  moreover have "xreg (g_trap_tail gh g2) 0 = 0" if "xreg g2 0 = 0" for g2
    using assms(1) that by (simp add: g_trap_tail_def x0_kept_def)
  ultimately show ?thesis
    using assms(3) f exec16_x0 [OF assms(1)] exec32_x0 [OF assms(1)]
    by (auto simp: purg_loop_def g_execute_def split: if_splits)
qed

section \<open>Properties\<close>

text \<open>
  C28: one call of the generated engine is one instruction of purv. With purv's memory map and trap
  paths behind its host functions, code that its loads reach, and an instruction outside the
  reserved encodings the two engines treat differently, \<open>RiscvEmulatorLoop\<close> of purg.c fetches the
  instruction in half words, decodes it through its bit-field views and ends in purv's state,
  memory, registers and trap fields, with the next program counter where purv continues (behind the
  instruction when a handler asked purv to stop).
\<close>

theorem purg_step_is_purv:
  assumes "reg_blind hk" "\<not> trapflag g" "code_served bs (joined g)"
    and "fetch bs (programcounternext g) = Some (w, width)" "purg_std w width"
    and "exec_action hk (decode (xreg g) w width) (programcounternext g) w width (joined g) = Some (s', c)"
  shows "\<exists>g'. purg_loop (purg_hooks hk) g = Some g' \<and> joined g' = s' \<and> \<not> trapflag g' \<and>
    programcounternext g' = (case c of C_goto t \<Rightarrow> t | _ \<Rightarrow> programcounternext g + width)"
  by (rule purv_host.loop_agrees [OF assms])

text \<open>A store through \<open>sp\<close>: \<open>c.swsp a0, 4\<close>.\<close>

definition purg_demo :: "unit vm gvm" where
  "purg_demo =
     \<lparr>trapflag = False, programcounter = 0, programcounternext = 0, instruction = 0,
      xreg = (\<lambda>_. 0)(2 := 0x100, 10 := 0xabcd),
      gworld = \<lparr>pc = 0, inst = 0, regs = (\<lambda>_. 0),
        readonly = \<lparr>rg_ptr = Some [0x2a, 0xc2], rg_len = 2, rg_base = 0\<rparr>,
        writable = \<lparr>rg_ptr = Some [0, 0, 0, 0, 0, 0, 0, 0], rg_len = 8, rg_base = 0x100\<rparr>, world = ()\<rparr>\<rparr>"

lemma word_below_2: "unat (a :: u32) < 2 \<Longrightarrow> a = 0 \<or> a = 1"
  by (drule less_2_cases) (auto dest!: arg_cong [where f = "of_nat :: nat \<Rightarrow> u32"])

lemma purg_demo_served: "code_served [0x2a, 0xc2] (joined purg_demo)"
proof -
  have "region_at \<lparr>rg_ptr = Some [0, 0, 0, 0, 0, 0, 0, 0], rg_len = 8, rg_base = 0x100\<rparr> a 2 = None"
    if "unat a < 2" for a :: u32
  proof -
    from that have "a = 0 \<or> a = 1" by (rule word_below_2)
    then show ?thesis by (auto simp: region_at_def)
  qed
  then show ?thesis by (simp add: code_served_def joined_def purg_demo_def)
qed

lemma init_reg_blind: "reg_blind init_hooks"
  by (simp add: reg_blind_def init_hooks_def default_callback_def)

lemma purg_step_is_purv_witness:
  "\<exists>g'. purg_loop (purg_hooks init_hooks) purg_demo = Some g' \<and>
     joined g' = (joined purg_demo)\<lparr>writable :=
       \<lparr>rg_ptr = Some [0, 0, 0, 0, 0xcd, 0xab, 0, 0], rg_len = 8, rg_base = 0x100\<rparr>\<rparr> \<and>
     \<not> trapflag g' \<and>
     programcounternext g' = (case C_done of C_goto t \<Rightarrow> t | _ \<Rightarrow> programcounternext purg_demo + 2)"
proof (rule purg_step_is_purv [OF init_reg_blind _ purg_demo_served])
  show "fetch [0x2a, 0xc2] (programcounternext purg_demo) = Some (0xc22a, 2)"
    by (simp add: purg_demo_def fetch_def code_at_def le16_def)
  show "purg_std 0xc22a 2" by (simp add: purg_std_def c_sel_def)
  show "exec_action init_hooks (decode (xreg purg_demo) 0xc22a 2) (programcounternext purg_demo) 0xc22a 2
      (joined purg_demo) = Some ((joined purg_demo)\<lparr>writable :=
       \<lparr>rg_ptr = Some [0, 0, 0, 0, 0xcd, 0xab, 0, 0], rg_len = 8, rg_base = 0x100\<rparr>\<rparr>, C_done)"
  proof -
    let ?s = "joined purg_demo"
    have "decode (xreg purg_demo) 0xc22a 2 = A_store 2 0x100 0xabcd 4"
      by (simp add: decode_def decode16_def c_sel_def Let_def c_swsp_imm_def rfield_def purg_demo_def)
    moreover have "mem_xlate ?s 0x104 4 True = Some (WPtr 4)"
      by (simp add: purg_demo_def joined_def mem_xlate_def region_at_def)
    moreover have "store_hit ?s (WPtr 4) 2 0xabcd = Some (?s\<lparr>writable :=
       \<lparr>rg_ptr = Some [0, 0, 0, 0, 0xcd, 0xab, 0, 0], rg_len = 8, rg_base = 0x100\<rparr>\<rparr>)"
      by (simp add: purg_demo_def joined_def store_hit_def region_wr_def byte_of_def)
    ultimately show ?thesis by (simp add: exec_store_def)
  qed
qed (simp add: purg_demo_def)

text \<open>
  C12: the generated engine runs programs as purv does. When purv's reference loop executes \<open>n\<close>
  instructions of a program without reserved encodings and no handler stops it, \<open>n\<close> calls of the
  generated engine, started in the same state, end in the same registers and memory (purv writes
  the pc field of its state at the end of a run, the generated engine's host never does) and at the
  same program counter.
\<close>

theorem purg_run_is_purv:
  assumes "mapped_hooks hk" "reg_blind hk"
    and "\<forall>p w width. fetch bs p = Some (w, width) \<longrightarrow> purg_std w width"
    and "\<not> trapflag g" "vm_ok (joined g)" "code_served bs (joined g)"
    and "pc (joined g) = programcounternext g" "ref_loop hk (joined g) n = Some (s', n, False)"
  shows "\<exists>g'. purg_run (purg_hooks hk) n g = Some g' \<and> same_but_pc s' (joined g') \<and>
    programcounternext g' = pc s'"
proof -
  have m: "purg_machine hk (purg_hooks hk)"
    by (rule purg_machine.intro [OF purv_host.purg_host_axioms assms(1)])
  have "rg_ptr (readonly (joined g)) = Some bs" using assms(6) by (simp add: code_served_def)
  with assms(7,8) obtain s2 p' where
    r: "ref_run hk bs n 0 (programcounternext g) (joined g) = Some (s2, n, p', False)" "s' = s2\<lparr>pc := p'\<rparr>"
    by (auto simp: ref_loop_def split: option.splits)
  with purg_machine.run_agrees [OF m assms(2) _ assms(4-6), of n 0 s2 p'] assms(3) obtain g' where
    "purg_run (purg_hooks hk) n g = Some g'" "joined g' = s2" "programcounternext g' = p'"
    by auto
  with r(2) show ?thesis by (simp add: same_but_pc_def)
qed

definition purg_loop_demo :: "unit vm gvm" where
  "purg_loop_demo =
     \<lparr>trapflag = False, programcounter = 0, programcounternext = 0, instruction = 0,
      xreg = regs loop_demo, gworld = loop_demo\<rparr>"

lemma purg_loop_demo_joined: "joined purg_loop_demo = loop_demo"
  by (simp add: joined_def purg_loop_demo_def)

lemma purg_run_is_purv_witness:
  "\<exists>g'. purg_run (purg_hooks init_hooks) 3 purg_loop_demo = Some g' \<and>
     same_but_pc loop_demo (joined g') \<and> programcounternext g' = pc loop_demo"
proof (rule purg_run_is_purv [where bs = "[0x01, 0xa0]", OF purv_machine.mapped_hooks_axioms init_reg_blind])
  show "\<forall>p w width. fetch [0x01, 0xa0] p = Some (w, width) \<longrightarrow> purg_std w width"
  proof (intro allI impI)
    fix p w width assume f: "fetch [0x01, 0xa0] p = Some (w, width)"
    then have "unat p < 2" using fetch_in_bounds [OF f] by simp
    then have "p = 0 \<or> p = 1" by (rule word_below_2)
    with f show "purg_std w width"
      by (auto simp: fetch_def code_at_def le16_def purg_std_def c_sel_def)
  qed
  have "region_at \<lparr>rg_ptr = None, rg_len = 0, rg_base = 0\<rparr> a 2 = None" for a
    by (simp add: region_at_def)
  then show "code_served [0x01, 0xa0] (joined purg_loop_demo)"
    by (simp add: purg_loop_demo_joined code_served_def loop_demo_def riscv_init_def)
  have "loop_demo\<lparr>pc := 0\<rparr> = loop_demo" "pc loop_demo = 0" by (simp_all add: loop_demo_def riscv_init_def)
  moreover have "rg_ptr (readonly loop_demo) = Some [0x01, 0xa0]" by (simp add: loop_demo_def riscv_init_def)
  moreover have "programcounternext purg_loop_demo = 0" by (simp add: purg_loop_demo_def)
  ultimately show "ref_loop init_hooks (joined purg_loop_demo) 3 = Some (loop_demo, 3, False)"
    and "pc (joined purg_loop_demo) = programcounternext purg_loop_demo"
    using loop_demo_run [of 3 0]
    by (simp_all add: purg_loop_demo_joined ref_loop_def)
  show "vm_ok (joined purg_loop_demo)" by (simp add: purg_loop_demo_joined loop_demo_ok)
qed (simp add: purg_loop_demo_def)


text \<open>
  \<open>x0\<close> stays zero. No instruction of the generated engine writes a nonzero value to \<open>x0\<close>,
  whatever the memory functions deliver (a load writes straight into the register it names), and
  neither does \<open>RiscvEmulatorSetRegister\<close>.
\<close>

theorem purg_x0_zero:
  assumes "x0_kept gh" "xreg g 0 = 0"
  shows "pred_option (\<lambda>g'. xreg g' 0 = 0) (purg_loop gh g) \<and> xreg (set_register g index v) 0 = 0"
proof -
  have "i AND 31 \<noteq> 0 \<Longrightarrow> ucast (i AND 31) \<noteq> (0 :: reg)" for i :: u32
  proof (erule contrapos_nn)
    assume z: "ucast (i AND 31) = (0 :: reg)"
    show "i AND 31 = 0"
    proof (rule bit_word_eqI)
      fix n assume "n < LENGTH(32)"
      have "bit (ucast (i AND 31) :: reg) n = (n < 5 \<and> bit i n)"
        unfolding mask_nums by (auto simp: bit_simps)
      with z show "bit (i AND 31) n = bit 0 n" unfolding mask_nums by (auto simp: bit_simps)
    qed
  qed
  then show ?thesis
    using loop_x0 [OF assms] assms(2) by (auto simp: pred_option_def set_register_def Let_def)
qed

lemma purg_x0_zero_witness:
  "pred_option (\<lambda>g'. xreg g' 0 = 0) (purg_loop (purg_hooks init_hooks) purg_demo) \<and>
     xreg (set_register purg_demo 32 7) 0 = 0"
  by (rule purg_x0_zero)
    (simp_all add: x0_kept_def purg_hooks_def lift_trap_def init_hooks_def exec_illegal_def exec_ecall_def
      exec_ebreak_def joined_def Let_def purg_demo_def)

end
