(* ===== verification/Gdbstub.thy ===== *)
theory Gdbstub
  imports Purv_Loop
begin

text \<open>
  The GDB Remote Serial Protocol server \<open>emu/gdbstub.c\<close>: packet framing on a byte stream, register
  and memory access, breakpoints, the undo ring for reverse execution, and the packet handlers.

  The connection is the list of bytes the peer will have sent (its end is EOF) and the list of bytes
  written so far. Whether a write succeeds and what \<open>poll\<close> answers is the operating system's: both
  are part of the state. A \<open>char *\<close> into the receive buffer is the suffix of the buffer it points
  to; \<open>None\<close> is a read past the buffer's end, or an access of the engine outside a host buffer.
\<close>

section \<open>Characters\<close>

definition asc :: "string \<Rightarrow> u8 list" where
  "asc = map of_char"

definition hexd :: "u8 list" where
  "hexd = asc ''0123456789abcdef''"

definition hexval :: "u8 \<Rightarrow> int" where
  "hexval c =
     (if c \<ge> 0x30 \<and> c \<le> 0x39 then uint c - 0x30
      else if c \<ge> 0x61 \<and> c \<le> 0x66 then uint c - 0x61 + 10
      else if c \<ge> 0x41 \<and> c \<le> 0x46 then uint c - 0x41 + 10
      else - 1)"

text \<open>\<open>hexd[b >> 4]\<close>, \<open>hexd[b & 0xf]\<close>.\<close>

definition hex2 :: "u8 \<Rightarrow> u8 list" where
  "hex2 b = [hexd ! unat (drop_bit 4 b), hexd ! unat (b AND 0xf)]"

text \<open>\<open>(uint8_t)((hexval(h1) << 4) | hexval(h2))\<close>\<close>

definition hexbyte :: "u8 \<Rightarrow> u8 \<Rightarrow> u8" where
  "hexbyte h1 h2 = word_of_int ((hexval h1 * 16) OR hexval h2)"

text \<open>A NUL-terminated string as its bytes.\<close>

definition cstr :: "u8 list \<Rightarrow> u8 list" where
  "cstr p = takeWhile (\<lambda>c. c \<noteq> 0) p"

section \<open>State\<close>

definition GDB_NREG :: nat where
  "GDB_NREG = 33"

definition GDB_MAX_BP :: nat where
  "GDB_MAX_BP = 64"

definition GDB_BUF :: nat where
  "GDB_BUF = 4200"

definition HIST_FRAMES :: nat where
  "HIST_FRAMES = 65536"

definition FRAME_WRITES :: nat where
  "FRAME_WRITES = 4"

text \<open>\<open>Frame\<close>: the registers and the pc before a step, and the memory it overwrote, oldest first.\<close>

record frame =
  fr_reg :: "u32 list"
  fr_w :: "(u32 \<times> u8 list) list"
  fr_overflow :: bool

text \<open>
  The globals of the file and the locals of \<open>RiscvEmulatorGdbServe\<close> that outlive a packet.
  \<open>g_hist\<close> is \<open>None\<close> when its allocation failed; \<open>g_cur\<close> is the slot being filled.
\<close>

record gdb =
  rx :: "u8 list"
  tx :: "u8 list"
  wr_ok :: bool
  polls :: "bool list"
  g_noack :: bool
  g_bp :: "u32 list"
  g_hist :: "(nat \<Rightarrow> frame) option"
  g_head :: nat
  g_count :: nat
  g_cur :: "nat option"
  gbuf :: "u8 list"
  exited :: bool
  wmsg :: "u8 list"

section \<open>Raw input and output\<close>

definition gdb_read_byte :: "gdb \<Rightarrow> u8 option \<times> gdb" where
  "gdb_read_byte g = (case rx g of [] \<Rightarrow> (None, g) | c # r \<Rightarrow> (Some c, g\<lparr>rx := r\<rparr>))"

definition gdb_write_all :: "gdb \<Rightarrow> u8 list \<Rightarrow> bool \<times> gdb" where
  "gdb_write_all g p =
     (if p = [] then (True, g) else if wr_ok g then (True, g\<lparr>tx := tx g @ p\<rparr>) else (False, g))"

definition gdb_pollin :: "gdb \<Rightarrow> bool \<times> gdb" where
  "gdb_pollin g = (case polls g of [] \<Rightarrow> (False, g) | b # bs \<Rightarrow> (b, g\<lparr>polls := bs\<rparr>))"

section \<open>Packet framing\<close>

text \<open>\<open>do { c = gdb_read_byte(fd); ... } while (c != '$')\<close>; \<open>None\<close> is EOF.\<close>

fun recv_skip :: "u8 list \<Rightarrow> u8 list option" where
  "recv_skip [] = None"
| "recv_skip (c # r) = (if c = 0x24 then Some r else recv_skip r)"

text \<open>The body up to \<open>#\<close>: what was stored, the checksum, the rest. Bytes that do not fit are dropped.\<close>

fun recv_body :: "nat \<Rightarrow> u8 list \<Rightarrow> u8 list \<Rightarrow> u8 \<Rightarrow> (u8 list \<times> u8 \<times> u8 list) option" where
  "recv_body mx [] acc cs = None"
| "recv_body mx (c # r) acc cs =
     (if c = 0x23 then Some (acc, cs, r)
      else recv_body mx r (if length acc + 1 < mx then acc @ [c] else acc) (cs + c))"

lemma recv_skip_length: "recv_skip r = Some r' \<Longrightarrow> length r' < length r"
  by (induction r) (auto split: if_splits)

lemma recv_body_length: "recv_body mx r acc cs = Some (b, s, r') \<Longrightarrow> length r' < length r"
  by (induction r arbitrary: acc cs) (force split: if_splits)+

lemma gdb_write_rx [simp]: "rx (snd (gdb_write_all g p)) = rx g"
  by (simp add: gdb_write_all_def)

function gdb_recv :: "gdb \<Rightarrow> nat option \<times> gdb" where
  "gdb_recv g =
     (case recv_skip (rx g) of
        None \<Rightarrow> (None, g\<lparr>rx := []\<rparr>)
      | Some r \<Rightarrow>
          (case recv_body GDB_BUF r [] 0 of
             Some (body, cs, h1 # h2 # r') \<Rightarrow>
               (let g1 = g\<lparr>rx := r', gbuf := body @ [0] @ drop (length body + 1) (gbuf g)\<rparr>
                in if \<not> g_noack g \<and> hexbyte h1 h2 \<noteq> cs then gdb_recv (snd (gdb_write_all g1 [0x2d]))
                   else if \<not> g_noack g then (Some (length body), snd (gdb_write_all g1 [0x2b]))
                   else (Some (length body), g1))
           | _ \<Rightarrow> (None, g\<lparr>rx := []\<rparr>)))"
  by pat_completeness auto
termination
  by (relation "measure (\<lambda>g. length (rx g))") (auto dest!: recv_skip_length recv_body_length)

declare gdb_recv.simps [simp del]

text \<open>\<open>gdb_send\<close>: the frame, and the wait for the peer's acknowledgement.\<close>

definition send_frame :: "u8 list \<Rightarrow> u8 list" where
  "send_frame data =
     (let d = take (GDB_BUF - 4) (cstr data); cs = sum_list d
      in [0x24] @ d @ [0x23] @ hex2 cs)"

function send_loop :: "u8 list \<Rightarrow> gdb \<Rightarrow> gdb" where
  "send_loop fr g =
     (case gdb_write_all g fr of
        (False, g1) \<Rightarrow> g1
      | (True, g1) \<Rightarrow>
          if g_noack g1 then g1
          else (case rx g1 of
                  [] \<Rightarrow> g1
                | a # r \<Rightarrow> if a = 0x2d then send_loop fr (g1\<lparr>rx := r\<rparr>) else g1\<lparr>rx := r\<rparr>))"
  by pat_completeness auto
termination
  by (relation "measure (\<lambda>(fr, g). length (rx g))")
    (auto simp: gdb_write_all_def split: if_splits)

declare send_loop.simps [simp del]

definition gdb_send :: "gdb \<Rightarrow> u8 list \<Rightarrow> gdb" where
  "gdb_send g data = send_loop (send_frame data) g"

section \<open>Hex\<close>

fun parse_hex_from :: "u32 \<Rightarrow> u8 list \<Rightarrow> (u32 \<times> u8 list) option" where
  "parse_hex_from v [] = None"
| "parse_hex_from v (c # r) =
     (if hexval c \<ge> 0 then parse_hex_from (push_bit 4 v OR word_of_int (hexval c)) r
      else Some (v, c # r))"

definition parse_hex :: "u8 list \<Rightarrow> (u32 \<times> u8 list) option" where
  "parse_hex p = parse_hex_from 0 p"

fun reg_from_hex_loop :: "nat \<Rightarrow> nat \<Rightarrow> u8 list \<Rightarrow> u32 \<Rightarrow> u32 option" where
  "reg_from_hex_loop 0 i p v = Some v"
| "reg_from_hex_loop (Suc n) i (hi # lo # p) v =
     (if hexval hi < 0 \<or> hexval lo < 0 then Some v
      else reg_from_hex_loop n (i + 1) p
             (v OR push_bit (8 * i) (word_of_int ((hexval hi * 16) OR hexval lo))))"
| "reg_from_hex_loop (Suc n) i p v = None"

definition reg_from_hex :: "u8 list \<Rightarrow> u32 option" where
  "reg_from_hex p = reg_from_hex_loop 4 0 p 0"

definition reg_to_hex :: "u32 \<Rightarrow> u8 list" where
  "reg_to_hex v = concat (map (\<lambda>i. hex2 (byte_of i v)) [0..<4])"

section \<open>Registers and memory\<close>

definition reg_get :: "'w vm \<Rightarrow> u32 \<Rightarrow> u32" where
  "reg_get s i = (if i < 32 then regs s (ucast (i AND 31)) else pc s)"

definition reg_set :: "'w vm \<Rightarrow> u32 \<Rightarrow> u32 \<Rightarrow> 'w vm" where
  "reg_set s i v =
     (if i \<ge> 32 then s\<lparr>pc := v\<rparr>
      else if i \<noteq> 0 then s\<lparr>regs := (regs s)(ucast i := v)\<rparr> else s)"

definition byte_at :: "'w vm \<Rightarrow> u32 \<Rightarrow> bool \<Rightarrow> hptr option" where
  "byte_at s a write =
     (let rel = a - rg_base (writable s)
      in if rel < rg_len (writable s) then Some (WPtr (unat rel))
         else if write then None
         else (let rel' = a - rg_base (readonly s)
               in if rel' < rg_len (readonly s) then Some (RPtr (unat rel')) else None))"

fun mem_read :: "'w vm \<Rightarrow> u32 \<Rightarrow> nat \<Rightarrow> u8 list option" where
  "mem_read s addr 0 = Some []"
| "mem_read s addr (Suc n) = do {
     b \<leftarrow> (case byte_at s addr False of Some p \<Rightarrow> rd8 s p 0 | None \<Rightarrow> Some 0);
     bs \<leftarrow> mem_read s (addr + 1) n;
     Some (b # bs) }"

fun mem_write :: "'w vm \<Rightarrow> u32 \<Rightarrow> u8 list \<Rightarrow> 'w vm option" where
  "mem_write s addr [] = Some s"
| "mem_write s addr (b # bs) = do {
     s' \<leftarrow> (case byte_at s addr True of Some p \<Rightarrow> wr8 s p 0 b | None \<Rightarrow> Some s);
     mem_write s' (addr + 1) bs }"

section \<open>Breakpoints\<close>

definition bp_hit :: "gdb \<Rightarrow> u32 \<Rightarrow> bool" where
  "bp_hit g addr = (addr \<in> set (g_bp g))"

definition bp_add :: "gdb \<Rightarrow> u32 \<Rightarrow> gdb" where
  "bp_add g addr =
     (if bp_hit g addr \<or> length (g_bp g) \<ge> GDB_MAX_BP then g else g\<lparr>g_bp := g_bp g @ [addr]\<rparr>)"

text \<open>\<open>g_bp[i] = g_bp[--g_nbp]\<close> at the first match.\<close>

fun bp_remove :: "u32 \<Rightarrow> u32 list \<Rightarrow> nat \<Rightarrow> nat \<Rightarrow> u32 list" where
  "bp_remove addr bs i 0 = bs"
| "bp_remove addr bs i (Suc n) =
     (if bs ! i = addr then butlast (bs[i := last bs]) else bp_remove addr bs (i + 1) n)"

definition bp_del :: "gdb \<Rightarrow> u32 \<Rightarrow> gdb" where
  "bp_del g addr = g\<lparr>g_bp := bp_remove addr (g_bp g) 0 (length (g_bp g))\<rparr>"

section \<open>The undo ring\<close>

definition frame_upd :: "gdb \<Rightarrow> nat \<Rightarrow> frame \<Rightarrow> gdb" where
  "frame_upd g i f = g\<lparr>g_hist := map_option (\<lambda>h. h(i := f)) (g_hist g)\<rparr>"

text \<open>\<open>RiscvEmulatorGdbRecordStore\<close>: called with the bytes about to be overwritten.\<close>

definition record_store :: "gdb \<Rightarrow> u32 \<Rightarrow> u8 list \<Rightarrow> gdb" where
  "record_store g address old =
     (case (g_cur g, g_hist g) of
        (Some i, Some h) \<Rightarrow>
          (let f = h i
           in if length (fr_w f) \<ge> FRAME_WRITES \<or> length old > 8 then frame_upd g i (f\<lparr>fr_overflow := True\<rparr>)
              else frame_upd g i (f\<lparr>fr_w := fr_w f @ [(address, old)]\<rparr>))
      | _ \<Rightarrow> g)"

definition gdb_step_one :: "'w hooks \<Rightarrow> 'w vm \<Rightarrow> 'w vm option" where
  "gdb_step_one hk s = map_option fst (riscv_loop hk s 1)"

definition reg_file :: "'w vm \<Rightarrow> u32 list" where
  "reg_file s = map (\<lambda>i. regs s (of_nat i)) [0..<32] @ [pc s]"

text \<open>
  The slot a step records into: the one after the newest, which is the oldest when the ring is full.
\<close>

definition hist_push :: "gdb \<Rightarrow> frame \<Rightarrow> gdb" where
  "hist_push g f =
     (let i = (g_head g + g_count g) mod HIST_FRAMES;
          g1 = (if g_count g = HIST_FRAMES then g\<lparr>g_head := (g_head g + 1) mod HIST_FRAMES\<rparr>
                else g\<lparr>g_count := g_count g + 1\<rparr>)
      in (frame_upd g1 i f)\<lparr>g_cur := Some i\<rparr>)"

definition step_record :: "'w hooks \<Rightarrow> gdb \<Rightarrow> 'w vm \<Rightarrow> (gdb \<times> 'w vm) option" where
  "step_record hk g s =
     (case g_hist g of
        None \<Rightarrow> map_option (\<lambda>s'. (g, s')) (gdb_step_one hk s)
      | Some h \<Rightarrow>
          (let g' = hist_push g \<lparr>fr_reg = reg_file s, fr_w = [], fr_overflow = False\<rparr>
           in map_option (\<lambda>s'. (g'\<lparr>g_cur := None\<rparr>, s')) (gdb_step_one hk s)))"

text \<open>The recorded memory, put back from the last write to the first.\<close>

fun undo_writes :: "(u32 \<times> u8 list) list \<Rightarrow> 'w vm \<Rightarrow> 'w vm option" where
  "undo_writes [] s = Some s"
| "undo_writes ((a, old) # ws) s = do { s' \<leftarrow> mem_write s a old; undo_writes ws s' }"

definition restore_regs :: "u32 list \<Rightarrow> 'w vm \<Rightarrow> 'w vm" where
  "restore_regs r s =
     s\<lparr>regs := (\<lambda>i. if i = 0 then regs s 0 else r ! unat i), pc := r ! 32\<rparr>"

text \<open>The newest slot, taken off the ring.\<close>

definition hist_pop :: "gdb \<Rightarrow> (frame \<times> gdb) option" where
  "hist_pop g =
     (case g_hist g of
        None \<Rightarrow> None
      | Some h \<Rightarrow>
          if g_count g = 0 then None
          else Some (h ((g_head g + g_count g - 1) mod HIST_FRAMES), g\<lparr>g_count := g_count g - 1\<rparr>))"

text \<open>0 at the start of the history, -1 for a frame that cannot be undone, 1 for an undone step.\<close>

definition step_reverse :: "gdb \<Rightarrow> 'w vm \<Rightarrow> (int \<times> gdb \<times> 'w vm) option" where
  "step_reverse g s =
     (if g_count g = 0 then Some (0, g, s)
      else (case hist_pop g of
              None \<Rightarrow> None
            | Some (f, g') \<Rightarrow>
                if fr_overflow f then Some (- 1, g', s)
                else map_option (\<lambda>s'. (1, g', restore_regs (fr_reg f) s')) (undo_writes (rev (fr_w f)) s)))"

section \<open>Target description\<close>

definition reg_names :: "string list" where
  "reg_names =
     [''zero'', ''ra'', ''sp'', ''gp'', ''tp'', ''t0'', ''t1'', ''t2'', ''fp'', ''s1'', ''a0'', ''a1'', ''a2'', ''a3'',
      ''a4'', ''a5'', ''a6'', ''a7'', ''s2'', ''s3'', ''s4'', ''s5'', ''s6'', ''s7'', ''s8'', ''s9'', ''s10'', ''s11'',
      ''t3'', ''t4'', ''t5'', ''t6'']"

text \<open>\<open>%d\<close> of a number below 100.\<close>

definition dec :: "nat \<Rightarrow> u8 list" where
  "dec n = (if n < 10 then [of_nat (0x30 + n)] else [of_nat (0x30 + n div 10), of_nat (0x30 + n mod 10)])"

definition target_xml :: "u8 list" where
  "target_xml =
     asc ''<?xml version=\"1.0\"?>\<newline><!DOCTYPE target SYSTEM \"gdb-target.dtd\">\<newline><target version=\"1.0\">\<newline>'' @
     asc ''<architecture>riscv:rv32</architecture>\<newline><feature name=\"org.gnu.gdb.riscv.cpu\">\<newline>'' @
     concat (map (\<lambda>i. asc ''<reg name=\"'' @ asc (reg_names ! i) @ asc ''\" bitsize=\"32\" regnum=\"'' @
                      dec i @ asc ''\"/>\<newline>'') [0..<32]) @
     asc ''<reg name=\"pc\" bitsize=\"32\" type=\"code_ptr\" regnum=\"32\"/>\<newline></feature>\<newline></target>\<newline>''"

section \<open>Execution control\<close>

datatype stop = STOP_TRAP | STOP_INT | STOP_EXIT

text \<open>\<open>"T%02x20:%s;02:%s;thread:1;"\<close>\<close>

definition send_stop :: "gdb \<Rightarrow> 'w vm \<Rightarrow> u8 \<Rightarrow> gdb" where
  "send_stop g s sig =
     gdb_send g (asc ''T'' @ hex2 sig @ asc ''20:'' @ reg_to_hex (reg_get s 32) @ asc '';02:'' @
                 reg_to_hex (reg_get s 2) @ asc '';thread:1;'')"

text \<open>\<open>(++tick & 0x3ff) == 0 && gdb_pollin(fd) && gdb_read_byte(fd) == 0x03\<close>\<close>

definition interrupted :: "u32 \<Rightarrow> gdb \<Rightarrow> bool \<times> gdb" where
  "interrupted tick g =
     (if tick AND 0x3ff = 0 then
        (case gdb_pollin g of (ready, g2) \<Rightarrow>
           if ready then (case gdb_read_byte g2 of (c, g3) \<Rightarrow> (c = Some 3, g3)) else (False, g2))
      else (False, g))"

text \<open>
  \<open>gdb_run\<close>: a \<open>continue\<close> may never stop, which is the result \<open>None\<close>. The host's \<open>halted\<close> flag is
  read from the state its handlers change.
\<close>

partial_function (option) gdb_run ::
  "'w hooks \<Rightarrow> ('w vm \<Rightarrow> bool) \<Rightarrow> bool \<Rightarrow> u32 \<Rightarrow> gdb \<Rightarrow> 'w vm \<Rightarrow> (stop \<times> gdb \<times> 'w vm) option" where
  "gdb_run hk halted cont tick g s =
     (case step_record hk g s of
        None \<Rightarrow> None
      | Some (g1, s1) \<Rightarrow>
          if halted s1 then Some (STOP_EXIT, g1, s1)
          else if \<not> cont then Some (STOP_TRAP, g1, s1)
          else if bp_hit g1 (pc s1) then Some (STOP_TRAP, g1, s1)
          else (case interrupted (tick + 1) g1 of (stop, g2) \<Rightarrow>
                  if stop then Some (STOP_INT, g2, s1) else gdb_run hk halted cont (tick + 1) g2 s1))"

function gdb_reverse :: "bool \<Rightarrow> gdb \<Rightarrow> 'w vm \<Rightarrow> (gdb \<times> 'w vm) option" where
  "gdb_reverse cont g s =
     (case step_reverse g s of
        None \<Rightarrow> None
      | Some (r, g1, s1) \<Rightarrow>
          if r = 0 then Some (g1, s1)
          else if \<not> cont then Some (g1, s1)
          else if bp_hit g1 (pc s1) then Some (g1, s1)
          else gdb_reverse cont g1 s1)"
  by pat_completeness auto
termination
  by (relation "measure (\<lambda>(cont, g, s). g_count g)")
    (auto simp: step_reverse_def hist_pop_def split: if_splits option.splits)

declare gdb_reverse.simps [simp del]

section \<open>Queries\<close>

text \<open>\<open>strchr(p, ':')\<close> within the string, as the suffix found.\<close>

definition find_colon :: "u8 list \<Rightarrow> u8 list option" where
  "find_colon p =
     (case dropWhile (\<lambda>c. c \<noteq> 0x3a \<and> c \<noteq> 0) p of c # r \<Rightarrow> if c = 0x3a then Some (c # r) else None | [] \<Rightarrow> None)"

definition skip_char :: "u8 \<Rightarrow> u8 list \<Rightarrow> u8 list option" where
  "skip_char c p = (case p of [] \<Rightarrow> None | d # r \<Rightarrow> Some (if d = c then r else d # r))"

definition xfer_features :: "gdb \<Rightarrow> gdb option" where
  "xfer_features g =
     (let p = drop 20 (gbuf g)
      in case find_colon p of
           None \<Rightarrow> Some (gdb_send g (asc ''E00''))
         | Some colon \<Rightarrow>
             if take 10 (cstr p) \<noteq> asc ''target.xml'' then Some (gdb_send g (asc ''E00''))
             else do {
               (off, q) \<leftarrow> parse_hex (tl colon);
               q' \<leftarrow> skip_char 0x2c q;
               (want, _) \<leftarrow> parse_hex q';
               let total = (of_nat (length target_xml) :: u32);
               if off \<ge> total then Some (gdb_send g (asc ''l''))
               else (let chunk = min (min (total - off) want) (of_nat (GDB_BUF - 8))
                     in Some (gdb_send g ((if off + chunk < total then asc ''m'' else asc ''l'') @
                                take (unat chunk) (drop (unat off) target_xml)))) })"

definition handle_q :: "gdb \<Rightarrow> gdb option" where
  "handle_q g =
     (let b = cstr (gbuf g)
      in if take 10 b = asc ''qSupported'' then
           Some (gdb_send g (asc ''PacketSize=1000;qXfer:features:read+;ReverseStep+;ReverseContinue+;'' @
                             asc ''vContSupported+;QStartNoAckMode+''))
         else if b = asc ''qAttached'' then Some (gdb_send g (asc ''1''))
         else if b = asc ''qC'' then Some (gdb_send g (asc ''QC1''))
         else if b = asc ''qfThreadInfo'' then Some (gdb_send g (asc ''m1''))
         else if b = asc ''qsThreadInfo'' then Some (gdb_send g (asc ''l''))
         else if take 20 b = asc ''qXfer:features:read:'' then xfer_features g
         else Some (gdb_send g []))"

section \<open>Packet handlers\<close>

text \<open>\<open>g\<close>: the whole register file.\<close>

definition regs_reply :: "'w vm \<Rightarrow> u8 list" where
  "regs_reply s = concat (map (\<lambda>i. reg_to_hex (reg_get s (of_nat i))) [0..<GDB_NREG])"

text \<open>\<open>G\<close>: as long as eight characters of the \<open>n\<close> received and the NUL are left.\<close>

fun regs_write :: "nat \<Rightarrow> nat \<Rightarrow> u8 list \<Rightarrow> nat \<Rightarrow> 'w vm \<Rightarrow> 'w vm option" where
  "regs_write 0 i p left s = Some s"
| "regs_write (Suc k) i p left s =
     (if left \<ge> 8 then do {
        v \<leftarrow> reg_from_hex p;
        regs_write k (i + 1) (drop 8 p) (left - 8) (reg_set s (of_nat i) v) }
      else Some s)"

definition read_mem_reply :: "'w vm \<Rightarrow> u8 list \<Rightarrow> u8 list option" where
  "read_mem_reply s p = do {
     (addr, q) \<leftarrow> parse_hex p;
     q' \<leftarrow> skip_char 0x2c q;
     (len, _) \<leftarrow> parse_hex q';
     let n = (if len > of_nat ((GDB_BUF - 8) div 2) then (GDB_BUF - 8) div 2 else unat len);
     bs \<leftarrow> mem_read s addr n;
     Some (concat (map hex2 bs)) }"

text \<open>The loop of \<open>M\<close>: it ends at the first character that is not a hex digit, two at a time.\<close>

fun write_mem_loop :: "nat \<Rightarrow> u32 \<Rightarrow> u8 list \<Rightarrow> 'w vm \<Rightarrow> 'w vm option" where
  "write_mem_loop 0 addr p s = Some s"
| "write_mem_loop (Suc n) addr [] s = None"
| "write_mem_loop (Suc n) addr (c # p) s =
     (if hexval c < 0 then Some s
      else (case p of
              [] \<Rightarrow> None
            | d # p' \<Rightarrow> do {
                s' \<leftarrow> mem_write s addr [hexbyte c d];
                write_mem_loop n (addr + 1) p' s' }))"

definition write_mem :: "'w vm \<Rightarrow> u8 list \<Rightarrow> 'w vm option" where
  "write_mem s p = do {
     (addr, q) \<leftarrow> parse_hex p;
     q1 \<leftarrow> skip_char 0x2c q;
     (len, q2) \<leftarrow> parse_hex q1;
     q3 \<leftarrow> skip_char 0x3a q2;
     write_mem_loop (unat len) addr q3 s }"

text \<open>What \<open>c\<close>, \<open>s\<close> and \<open>vCont;\<close> do with the outcome of a run.\<close>

definition report_run :: "('w vm \<Rightarrow> u32) \<Rightarrow> stop \<times> gdb \<times> 'w vm \<Rightarrow> gdb \<times> 'w vm" where
  "report_run exitcode r =
     (case r of (st, g, s) \<Rightarrow>
        if st = STOP_EXIT then
          (let m = asc ''W'' @ hex2 (ucast (exitcode s AND 0xff))
           in (gdb_send (g\<lparr>exited := True, wmsg := m\<rparr>) m, s))
        else (send_stop g s (if st = STOP_INT then 2 else 5), s))"

text \<open>One packet of \<open>n\<close> bytes in the buffer; \<open>False\<close> ends the session.\<close>

definition handle ::
  "'w hooks \<Rightarrow> ('w vm \<Rightarrow> bool) \<Rightarrow> ('w vm \<Rightarrow> u32) \<Rightarrow> nat \<Rightarrow> gdb \<Rightarrow> 'w vm \<Rightarrow> (bool \<times> gdb \<times> 'w vm) option" where
  "handle hk halted exitcode n g s =
     (let b = gbuf g; c = b ! 0; c1 = b ! 1; ok = (\<lambda>s'. Some (True, gdb_send g (asc ''OK''), s'));
          empty = Some (True, gdb_send g [], s);
          run = (\<lambda>cont s0. map_option (\<lambda>r. case report_run exitcode r of (g', s') \<Rightarrow> (True, g', s'))
                             (gdb_run hk halted cont 0 g s0))
      in if c = 0x3f then
           Some (True, (if exited g then gdb_send g (wmsg g) else send_stop g s 5), s)
         else if c = 0x67 then Some (True, gdb_send g (regs_reply s), s)
         else if c = 0x47 then do { s' \<leftarrow> regs_write GDB_NREG 0 (drop 1 b) n s; ok s' }
         else if c = 0x70 then do {
           (i, _) \<leftarrow> parse_hex (drop 1 b);
           Some (True, gdb_send g (if i < of_nat GDB_NREG then reg_to_hex (reg_get s i) else asc ''00000000''), s) }
         else if c = 0x50 then do {
           (i, q) \<leftarrow> parse_hex (drop 1 b);
           q' \<leftarrow> skip_char 0x3d q;
           if i < of_nat GDB_NREG then do { v \<leftarrow> reg_from_hex q'; ok (reg_set s i v) } else ok s }
         else if c = 0x6d then do {
           r \<leftarrow> read_mem_reply s (drop 1 b);
           Some (True, gdb_send g r, s) }
         else if c = 0x4d then do { s' \<leftarrow> write_mem s (drop 1 b); ok s' }
         else if c = 0x63 \<or> c = 0x73 then
           (if exited g then Some (True, gdb_send g (wmsg g), s)
            else if c1 \<noteq> 0 then do { (a, _) \<leftarrow> parse_hex (drop 1 b); run (c = 0x63) (s\<lparr>pc := a\<rparr>) }
            else run (c = 0x63) s)
         else if c = 0x62 then
           (if c1 = 0x73 \<or> c1 = 0x63 then do {
              (g', s') \<leftarrow> gdb_reverse (c1 = 0x63) g s;
              Some (True, send_stop g' s' 5, s') }
            else empty)
         else if c = 0x76 then
           (if cstr b = asc ''vCont?'' then Some (True, gdb_send g (asc ''vCont;c;C;s;S''), s)
            else if take 6 (cstr b) = asc ''vCont;'' then
              (if exited g then Some (True, gdb_send g (wmsg g), s)
               else run (b ! 6 = 0x63 \<or> b ! 6 = 0x43) s)
            else empty)
         else if c = 0x51 then
           (if cstr b = asc ''QStartNoAckMode''
            then Some (True, (gdb_send g (asc ''OK''))\<lparr>g_noack := True\<rparr>, s) else empty)
         else if c = 0x5a \<or> c = 0x7a then
           (if c1 \<noteq> 0x30 \<and> c1 \<noteq> 0x31 then empty
            else do {
              q \<leftarrow> skip_char 0x2c (drop 2 b);
              (addr, _) \<leftarrow> parse_hex q;
              Some (True, gdb_send (if c = 0x5a then bp_add g addr else bp_del g addr) (asc ''OK''), s) })
         else if c = 0x71 then map_option (\<lambda>g'. (True, g', s)) (handle_q g)
         else if c = 0x48 \<or> c = 0x54 \<or> c = 0x21 then ok s
         else if c = 0x44 then Some (False, gdb_send g (asc ''OK''), s)
         else if c = 0x6b then Some (False, g, s)
         else empty)"

section \<open>The session\<close>

partial_function (option) serve_loop ::
  "'w hooks \<Rightarrow> ('w vm \<Rightarrow> bool) \<Rightarrow> ('w vm \<Rightarrow> u32) \<Rightarrow> gdb \<Rightarrow> 'w vm \<Rightarrow> (gdb \<times> 'w vm) option" where
  "serve_loop hk halted exitcode g s =
     (case gdb_recv g of (r, g1) \<Rightarrow>
        (case r of
           None \<Rightarrow> Some (g1, s)
         | Some n \<Rightarrow>
             if n = 0 then serve_loop hk halted exitcode (gdb_send g1 []) s
             else (case handle hk halted exitcode n g1 s of
                     None \<Rightarrow> None
                   | Some (again, g2, s2) \<Rightarrow>
                       if again then serve_loop hk halted exitcode g2 s2 else Some (g2, s2))))"

text \<open>
  \<open>RiscvEmulatorGdbServe\<close>: the state reset at the start of a session. The history survives from an
  earlier session when there was one; \<open>fresh\<close> is what its first allocation gives.
\<close>

definition gdb_session :: "(nat \<Rightarrow> frame) option \<Rightarrow> gdb \<Rightarrow> gdb" where
  "gdb_session fresh g =
     g\<lparr>g_bp := [], g_noack := False, g_head := 0, g_count := 0, g_cur := None, exited := False,
       wmsg := asc ''S05'', g_hist := (case g_hist g of None \<Rightarrow> fresh | Some h \<Rightarrow> Some h)\<rparr>"

definition gdb_serve ::
  "'w hooks \<Rightarrow> ('w vm \<Rightarrow> bool) \<Rightarrow> ('w vm \<Rightarrow> u32) \<Rightarrow> (nat \<Rightarrow> frame) option \<Rightarrow> gdb \<Rightarrow> 'w vm
     \<Rightarrow> (gdb \<times> 'w vm) option" where
  "gdb_serve hk halted exitcode fresh g s = serve_loop hk halted exitcode (gdb_session fresh g) s"

end
