(* ===== verification/Gdb_Wire.thy ===== *)
theory Gdb_Wire
  imports Gdbstub Guest_Mem
begin

text \<open>
  The wire side of the gdb server: hex digits, packet framing with resends, and the packets that
  read and write guest memory, from the bytes of a session to the guest's byte map.
\<close>

section \<open>Hex digits\<close>

lemma hexd_digits: "hexd ! 0 = 0x30" "length hexd = 16"
  by (simp_all add: hexd_def asc_def)

lemma hexd_all:
  "list_all (\<lambda>i. hexval (hexd ! i) = int i \<and> hexd ! i \<noteq> 0x23 \<and> hexd ! i \<noteq> 0) [0..<16]"
  by (simp add: hexd_def asc_def hexval_def upt_rec)

lemma hexval_hexd: "i < 16 \<Longrightarrow> hexval (hexd ! i) = int i"
  using hexd_all by (simp add: list_all_iff)

lemma hexd_plain: "i < 16 \<Longrightarrow> hexd ! i \<noteq> 0x23 \<and> hexd ! i \<noteq> 0"
  using hexd_all by (simp add: list_all_iff)

lemma low_nibble: "b AND 0xf = take_bit 4 (b :: u8)"
  by (simp add: take_bit_eq_mask mask_eq_exp_minus_1)

lemma nibbles: "unat (drop_bit 4 (b :: u8)) < 16" "unat (b AND 0xf) < 16"
  by (simp_all add: low_nibble unsigned_take_bit_eq take_bit_nat_def unsigned_drop_bit_eq
      drop_bit_nat_def div_less_iff_less_mult)

lemma hexbyte_hex2:
  "hexbyte (hexd ! unat (drop_bit 4 b)) (hexd ! unat (b AND 0xf)) = b"
proof -
  have "int (unat (drop_bit 4 b)) * 16 = push_bit 4 (uint (drop_bit 4 b))"
    by (simp add: push_bit_eq_mult)
  moreover have "word_of_int (push_bit 4 (uint (drop_bit 4 b)) OR uint (take_bit 4 b)) = b"
    by (rule bit_word_eqI) (auto simp: bit_simps bit_word_of_int_iff)
  ultimately show ?thesis
    unfolding hexbyte_def hexval_hexd [OF nibbles(1)] hexval_hexd [OF nibbles(2)]
    by (simp add: low_nibble)
qed

lemma hex2_plain: "c \<in> set (hex2 b) \<Longrightarrow> c \<noteq> 0x23 \<and> c \<noteq> 0"
  using hexd_plain [OF nibbles(1)] hexd_plain [OF nibbles(2)] by (auto simp: hex2_def)

section \<open>Framing\<close>

lemma recv_skip_junk: "0x24 \<notin> set junk \<Longrightarrow> recv_skip (junk @ 0x24 # r) = Some r"
  by (induction junk) auto

lemma recv_body_frame:
  assumes "0x23 \<notin> set d" "length acc < mx"
  shows "recv_body mx (d @ 0x23 # r) acc cs = Some (acc @ take (mx - 1 - length acc) d, cs + sum_list d, r)"
  using assms
proof (induction d arbitrary: acc cs)
  case (Cons c d)
  show ?case
  proof (cases "length acc + 1 < mx")
    case True
    then have "mx - Suc (length acc) = Suc (mx - Suc (Suc (length acc)))" by simp
    with True Cons.prems Cons.IH [of "acc @ [c]"] show ?thesis by (simp add: algebra_simps)
  next
    case False
    with Cons.prems have "mx - Suc (length acc) = 0" by simp
    with False Cons.prems Cons.IH [of acc] show ?thesis by (simp add: algebra_simps)
  qed
qed simp

text \<open>A frame as it may arrive: bytes outside a frame, a body, two checksum characters.\<close>

type_synonym frame_bytes = "u8 list \<times> u8 list \<times> u8 \<times> u8"

definition on_wire :: "frame_bytes \<Rightarrow> u8 list" where
  "on_wire f = (case f of (junk, d, h1, h2) \<Rightarrow> junk @ [0x24] @ d @ [0x23, h1, h2])"

text \<open>A damaged frame: its checksum is not that of its body.\<close>

definition damaged :: "frame_bytes \<Rightarrow> bool" where
  "damaged f = (case f of (junk, d, h1, h2) \<Rightarrow>
     0x24 \<notin> set junk \<and> 0x23 \<notin> set d \<and> hexbyte h1 h2 \<noteq> sum_list d)"

text \<open>What a packet's body must be to fit the buffers and the framing.\<close>

definition sendable :: "u8 list \<Rightarrow> bool" where
  "sendable d = (0x23 \<notin> set d \<and> 0 \<notin> set d \<and> length d \<le> GDB_BUF - 4)"

lemma cstr_plain: "0 \<notin> set d \<Longrightarrow> cstr d = d"
  unfolding cstr_def by (subst takeWhile_eq_all_conv) auto

lemma cstr_nul: "0 \<notin> set d \<Longrightarrow> cstr (d @ 0 # r) = d"
  unfolding cstr_def by (subst takeWhile_append2) auto

lemma send_frame_sendable:
  "sendable d \<Longrightarrow> send_frame d = [0x24] @ d @ [0x23] @ hex2 (sum_list d)"
  by (simp add: sendable_def send_frame_def cstr_plain)

lemma gdb_recv_frame:
  assumes "0x24 \<notin> set junk" "0x23 \<notin> set d" "rx g = on_wire (junk, d, h1, h2) @ rest" "wr_ok g"
  shows "gdb_recv g =
    (let b = take (GDB_BUF - 1) d;
         g1 = g\<lparr>rx := rest, gbuf := b @ [0] @ drop (length b + 1) (gbuf g)\<rparr>
     in if \<not> g_noack g \<and> hexbyte h1 h2 \<noteq> sum_list d then gdb_recv (g1\<lparr>tx := tx g @ [0x2d]\<rparr>)
        else if \<not> g_noack g then (Some (length b), g1\<lparr>tx := tx g @ [0x2b]\<rparr>)
        else (Some (length b), g1))"
  using assms recv_skip_junk [OF assms(1), of "d @ 0x23 # h1 # h2 # rest"]
    recv_body_frame [OF assms(2), of "[]" GDB_BUF "h1 # h2 # rest" 0]
  by (subst gdb_recv.simps) (simp add: on_wire_def gdb_write_all_def Let_def GDB_BUF_def)

lemma gdb_recv_damaged:
  assumes "damaged f" "rx g = on_wire f @ rest" "wr_ok g" "\<not> g_noack g"
  shows "\<exists>b. gdb_recv g = gdb_recv (g\<lparr>rx := rest, gbuf := b, tx := tx g @ [0x2d]\<rparr>)"
proof -
  obtain junk d h1 h2 where f: "f = (junk, d, h1, h2)" by (cases f)
  show ?thesis
    by (subst gdb_recv_frame [of junk d g h1 h2 rest]) (use assms in \<open>auto simp: f damaged_def\<close>)
qed

lemma gdb_recv_send_frame:
  assumes "0x24 \<notin> set junk" "sendable d" "rx g = junk @ send_frame d @ rest" "wr_ok g"
  shows "gdb_recv g = (Some (length d), g\<lparr>rx := rest, gbuf := d @ [0] @ drop (length d + 1) (gbuf g),
           tx := (if g_noack g then tx g else tx g @ [0x2b])\<rparr>)"
proof -
  have "take (GDB_BUF - 1) d = d" using assms(2) by (simp add: sendable_def GDB_BUF_def)
  moreover have "send_frame d = [0x24] @ d @ [0x23] @
      [hexd ! unat (drop_bit 4 (sum_list d)), hexd ! unat (sum_list d AND 0xf)]"
    using send_frame_sendable [OF assms(2)] by (simp add: hex2_def)
  ultimately show ?thesis
    using assms gdb_recv_frame [of junk d g _ _ rest] hexbyte_hex2 [of "sum_list d"]
    by (auto simp: sendable_def on_wire_def Let_def)
qed

lemma gdb_recv_resends:
  assumes "list_all damaged fs" "0x24 \<notin> set junk" "sendable d" "wr_ok g" "\<not> g_noack g"
    and "rx g = concat (map on_wire fs) @ junk @ send_frame d @ rest"
  shows "\<exists>b. gdb_recv g = (Some (length d), g\<lparr>rx := rest, gbuf := d @ 0 # b,
           tx := tx g @ replicate (length fs) 0x2d @ [0x2b]\<rparr>)"
  using assms(1,4-)
proof (induction fs arbitrary: g)
  case Nil
  with gdb_recv_send_frame [OF assms(2,3), of g rest] show ?case by auto
next
  case (Cons f fs)
  let ?r = "concat (map on_wire fs) @ junk @ send_frame d @ rest"
  obtain b where b: "gdb_recv g = gdb_recv (g\<lparr>rx := ?r, gbuf := b, tx := tx g @ [0x2d]\<rparr>)"
    using gdb_recv_damaged [of f g ?r] Cons.prems by auto
  show ?case
    using Cons.IH [of "g\<lparr>rx := ?r, gbuf := b, tx := tx g @ [0x2d]\<rparr>"] Cons.prems by (auto simp: b)
qed

text \<open>The sending side: once per request of the peer to send again, and once more.\<close>

lemma gdb_send_acked:
  assumes "wr_ok g" "\<not> g_noack g" "rx g = replicate n 0x2d @ a # rest" "a \<noteq> 0x2d"
  shows "gdb_send g d = g\<lparr>rx := rest, tx := tx g @ concat (replicate (Suc n) (send_frame d))\<rparr>"
proof -
  have ne: "send_frame d \<noteq> []" by (simp add: send_frame_def Let_def)
  have "send_loop (send_frame d) g = g\<lparr>rx := rest, tx := tx g @ concat (replicate (Suc n) (send_frame d))\<rparr>"
    using assms(1-3)
  proof (induction n arbitrary: g)
    case 0
    then show ?case using ne assms(4) by (subst send_loop.simps) (simp add: gdb_write_all_def)
  next
    case (Suc n)
    then have "send_loop (send_frame d) g =
        send_loop (send_frame d) (g\<lparr>tx := tx g @ send_frame d, rx := replicate n 0x2d @ a # rest\<rparr>)"
      using ne by (subst send_loop.simps) (simp add: gdb_write_all_def)
    with Suc.IH [of "g\<lparr>tx := tx g @ send_frame d, rx := replicate n 0x2d @ a # rest\<rparr>"] Suc.prems
    show ?case by simp
  qed
  then show ?thesis by (simp add: gdb_send_def)
qed

section \<open>Numbers and memory in packets\<close>

lemma parse_hex_end: "hexval c < 0 \<Longrightarrow> parse_hex_from v (c # r) = Some (v, c # r)"
  by simp

lemma parse_hex_hex2:
  "parse_hex_from v (hex2 b @ r) = parse_hex_from (push_bit 8 v OR ucast b) r"
proof -
  have "push_bit 4 (push_bit 4 v OR word_of_int (int (unat (drop_bit 4 b)))) OR
      word_of_int (int (unat (b AND 0xf))) = push_bit 8 v OR (ucast b :: u32)"
    unfolding low_nibble
    by (rule bit_word_eqI) (auto simp: bit_simps bit_word_of_int_iff dest: bit_imp_le_length)
  then show ?thesis by (simp add: hex2_def hexval_hexd nibbles)
qed

text \<open>A word as gdb writes it: most significant digit first.\<close>

definition hex32 :: "u32 \<Rightarrow> u8 list" where
  "hex32 v = concat (map hex2 [byte_of 3 v, byte_of 2 v, byte_of 1 v, byte_of 0 v])"

lemma parse_hex_hex32:
  assumes "hexval c < 0"
  shows "parse_hex (hex32 v @ c # r) = Some (v, c # r)"
proof -
  have "push_bit 8 (push_bit 8 (push_bit 8 (ucast (byte_of 3 v)) OR ucast (byte_of 2 v)) OR
      ucast (byte_of 1 v)) OR ucast (byte_of 0 v) = v"
    using le32_bytes [of v] by (simp add: le32_def push_bit_or ac_simps)
  then show ?thesis
    using assms by (simp add: parse_hex_def hex32_def parse_hex_hex2)
qed

lemma mem_read_guest:
  "vm_ok s \<Longrightarrow> mem_read s a n = Some (map (\<lambda>i. the (guest_byte s (a + of_nat i))) [0..<n])"
proof (induction n arbitrary: a)
  case (Suc n)
  have "(case byte_at s a False of Some p \<Rightarrow> rd8 s p 0 | None \<Rightarrow> Some 0) = guest_byte s a"
    by (simp add: byte_at_def guest_byte_def Let_def)
  moreover have "map (\<lambda>i. the (guest_byte s (a + of_nat i))) [0..<Suc n] =
      the (guest_byte s a) # map (\<lambda>i. the (guest_byte s (a + 1 + of_nat i))) [0..<n]"
    by (subst upt_conv_Cons) (simp_all add: map_Suc_upt [symmetric] comp_def algebra_simps del: upt_Suc)
  ultimately show ?case
    using Suc guest_byte_total [OF Suc.prems, of a] by auto
qed simp

text \<open>Whether an address is in the writable region.\<close>

definition in_writable :: "'w vm \<Rightarrow> u32 \<Rightarrow> bool" where
  "in_writable s a = (a - rg_base (writable s) < rg_len (writable s))"

lemma poke_byte:
  assumes "vm_ok s"
  obtains s' where "mem_write s a [b] = Some s'" "vm_ok s'" "store_frame s s'"
    "rg_base (writable s') = rg_base (writable s)" "rg_len (writable s') = rg_len (writable s)"
    "guest_byte s' = (if in_writable s a then (guest_byte s)(a \<mapsto> b) else guest_byte s)"
proof (cases "in_writable s a")
  case False
  then show ?thesis using that [of s] assms by (simp add: byte_at_def in_writable_def store_frame_def)
next
  case True
  let ?q = "WPtr (unat (a - rg_base (writable s)))"
  have x: "mem_xlate s a 1 True = Some ?q"
    using True by (auto simp: mem_xlate_def region_at_def in_writable_def Let_def word_less_nat_alt
        word_le_nat_alt unat_sub)
  obtain s' where s': "wr8 s ?q 0 b = Some s'" using mem_xlate_wr [OF assms x, of 0 b] by auto
  have "guest_byte s' = (guest_byte s)(a \<mapsto> b)"
    using guest_byte_wr8 [OF x _ s'] by auto
  moreover have "vm_ok s'" using vm_ok_wr8 [OF _ assms] s' by blast
  moreover have "store_frame s s'"
    using wr8_frame [OF s'] regions_disjoint_wr8 [OF s'] by (simp add: store_frame_def)
  moreover have "rg_base (writable s') = rg_base (writable s) \<and> rg_len (writable s') = rg_len (writable s)"
    using s' by (auto dest: region_wr_shape)
  moreover have "mem_write s a [b] = Some s'"
    using True s' by (simp add: byte_at_def in_writable_def)
  ultimately show ?thesis using True that by auto
qed

text \<open>Bytes written to guest memory, those outside the writable region dropped.\<close>

definition guest_poke :: "(u32 \<Rightarrow> bool) \<Rightarrow> (u32 \<Rightarrow> u8 option) \<Rightarrow> u32 \<Rightarrow> u8 list \<Rightarrow> u32 \<Rightarrow> u8 option" where
  "guest_poke w m a bs =
     (\<lambda>x. if unat (x - a) < length bs \<and> w x then Some (bs ! unat (x - a)) else m x)"

lemma guest_poke_Cons:
  assumes "length bs < 4294967295"
  shows "guest_poke w m a (b # bs) = guest_poke w (if w a then m(a \<mapsto> b) else m) (a + 1) bs"
proof
  fix x
  have "unat (- 1 :: u32) = 4294967295" by (rule trans [OF arg_cong [where f = unat and y = 4294967295]]) simp_all
  then have first: "unat (x - (a + 1)) = 4294967295" if "x = a"
    using that by simp
  have later: "unat (x - a) = Suc (unat (x - (a + 1)))" if "x \<noteq> a"
  proof -
    have "x - a \<noteq> 0" using that by simp
    then have "unat (x - a - 1) = unat (x - a) - 1" "unat (x - a) \<noteq> 0"
      by (simp_all add: unat_minus_one unat_eq_0)
    then show ?thesis by (simp add: diff_diff_eq add.commute)
  qed
  show "guest_poke w m a (b # bs) x = guest_poke w (if w a then m(a \<mapsto> b) else m) (a + 1) bs x"
    using assms first later by (cases "x = a") (auto simp: guest_poke_def)
qed

lemma write_mem_loop_hex:
  assumes "vm_ok s" "length bs < 4294967296"
  shows "\<exists>s'. write_mem_loop (length bs) a (concat (map hex2 bs) @ r) s = Some s' \<and> vm_ok s' \<and>
    store_frame s s' \<and> in_writable s' = in_writable s \<and>
    guest_byte s' = guest_poke (in_writable s) (guest_byte s) a bs"
  using assms
proof (induction bs arbitrary: s a)
  case Nil
  then show ?case by (simp add: store_frame_def guest_poke_def)
next
  case (Cons b bs)
  from poke_byte [OF Cons.prems(1), of a b] obtain s1 where s1: "mem_write s a [b] = Some s1" "vm_ok s1"
    "store_frame s s1" "rg_base (writable s1) = rg_base (writable s)"
    "rg_len (writable s1) = rg_len (writable s)"
    "guest_byte s1 = (if in_writable s a then (guest_byte s)(a \<mapsto> b) else guest_byte s)" by blast
  then have w: "in_writable s1 = in_writable s" by (auto simp: in_writable_def)
  obtain s' where s': "write_mem_loop (length bs) (a + 1) (concat (map hex2 bs) @ r) s1 = Some s'"
    "vm_ok s'" "store_frame s1 s'" "in_writable s' = in_writable s1"
    "guest_byte s' = guest_poke (in_writable s1) (guest_byte s1) (a + 1) bs"
    using Cons.IH [OF s1(2), of "a + 1"] Cons.prems(2) by auto
  have "write_mem_loop (length (b # bs)) a (concat (map hex2 (b # bs)) @ r) s = Some s'"
    using s1(1) s'(1) hexbyte_hex2 [of b] by (simp add: hex2_def hexval_hexd nibbles)
  moreover have "guest_byte s' = guest_poke (in_writable s) (guest_byte s) a (b # bs)"
    unfolding s'(5) w s1(6) using guest_poke_Cons [of bs "in_writable s"] Cons.prems(2) by simp
  ultimately show ?case using s'(2-4) w store_frame_trans [OF s1(3)] by metis
qed

text \<open>
  With an odd number of digits the loop of \<open>M\<close> steps over the NUL that ends the packet: the last
  digit is paired with it, and the next byte comes from what an earlier packet left behind it.
\<close>

lemma odd_digits_read_stale:
  "write_mem_loop (Suc (Suc 0)) a [0x34, 0, 0x35, 0x36] s = mem_write s a [0xff, 0x56]"
proof -
  have "hexval 0x34 = 4" "hexval 0x35 = 5" "hexbyte 0x34 0 = 0xff" "hexbyte 0x35 0x36 = 0x56"
    by (simp_all add: hexval_def hexbyte_def)
  then show ?thesis
    by (cases "byte_at s a True") (simp_all split: bind_splits)
qed

section \<open>The packets \<open>M\<close> and \<open>m\<close>\<close>

definition poke_packet :: "u32 \<Rightarrow> u8 list \<Rightarrow> u8 list" where
  "poke_packet a bs = [0x4d] @ hex32 a @ [0x2c] @ hex32 (of_nat (length bs)) @ [0x3a] @ concat (map hex2 bs)"

definition peek_packet :: "u32 \<Rightarrow> nat \<Rightarrow> u8 list" where
  "peek_packet a n = [0x6d] @ hex32 a @ [0x2c] @ hex32 (of_nat n)"

lemma hexval_separators: "hexval 0x2c < 0" "hexval 0x3a < 0" "hexval 0 < 0"
  by (simp_all add: hexval_def)

lemma handle_poke:
  assumes "gbuf g = poke_packet a bs @ 0 # r" "vm_ok s" "length bs < 4294967296"
  shows "\<exists>s'. handle hk halted ec k g s = Some (True, gdb_send g (asc ''OK''), s') \<and> vm_ok s' \<and>
    store_frame s s' \<and> in_writable s' = in_writable s \<and>
    guest_byte s' = guest_poke (in_writable s) (guest_byte s) a bs"
proof -
  obtain s' where s': "write_mem_loop (length bs) a (concat (map hex2 bs) @ 0 # r) s = Some s'"
    and rest: "vm_ok s'" "store_frame s s'" "in_writable s' = in_writable s"
      "guest_byte s' = guest_poke (in_writable s) (guest_byte s) a bs"
    using write_mem_loop_hex [OF assms(2,3)] by blast
  have "unat (of_nat (length bs) :: u32) = length bs" using assms(3) by (simp add: unat_of_nat)
  then have "write_mem s (drop 1 (gbuf g)) = Some s'"
    using s' by (simp add: assms(1) poke_packet_def write_mem_def parse_hex_hex32 hexval_separators skip_char_def)
  moreover have "gbuf g ! 0 = 0x4d" by (simp add: assms(1) poke_packet_def)
  ultimately show ?thesis using rest by (simp add: handle_def Let_def)
qed

lemma handle_peek:
  assumes "gbuf g = peek_packet a n @ 0 # r" "vm_ok s" "n \<le> 2096"
  shows "handle hk halted ec k g s =
    Some (True, gdb_send g (concat (map (\<lambda>i. hex2 (the (guest_byte s (a + of_nat i)))) [0..<n])), s)"
proof -
  have n: "unat (of_nat n :: u32) = n" using assms(3) by (simp add: unat_of_nat)
  then have "\<not> of_nat ((GDB_BUF - 8) div 2) < (of_nat n :: u32)"
    using assms(3) by (simp add: GDB_BUF_def word_less_nat_alt)
  then have "read_mem_reply s (drop 1 (gbuf g)) =
      Some (concat (map (\<lambda>i. hex2 (the (guest_byte s (a + of_nat i)))) [0..<n]))"
    using n by (simp add: assms(1) peek_packet_def read_mem_reply_def parse_hex_hex32 hexval_separators
        skip_char_def mem_read_guest [OF assms(2)] comp_def)
  moreover have "gbuf g ! 0 = 0x6d" by (simp add: assms(1) peek_packet_def)
  ultimately show ?thesis by (simp add: handle_def Let_def)
qed

lemma length_hex [simp]: "length (hex2 b) = 2" "length (concat (map hex2 bs)) = 2 * length bs"
  "length (hex32 v) = 8"
  by (induction bs) (simp_all add: hex2_def hex32_def)

lemma hex_plain: "c \<in> set (concat (map hex2 bs)) \<Longrightarrow> c \<noteq> 0x23 \<and> c \<noteq> 0"
  using hex2_plain by auto

lemma hex32_plain: "c \<in> set (hex32 v) \<Longrightarrow> c \<noteq> 0x23 \<and> c \<noteq> 0"
  unfolding hex32_def by (rule hex_plain)

lemma sendable_packets:
  "length bs \<le> 2088 \<Longrightarrow> sendable (poke_packet a bs)" "sendable (peek_packet a n)"
  "length bs \<le> 2088 \<Longrightarrow> sendable (concat (map hex2 bs))"
  using hex_plain [of _ bs] hex32_plain
  by (auto simp: sendable_def poke_packet_def peek_packet_def GDB_BUF_def simp del: set_concat)

lemma session_start_io [simp]:
  "rx (gdb_session fresh g) = rx g" "tx (gdb_session fresh g) = tx g"
  "wr_ok (gdb_session fresh g) = wr_ok g" "\<not> g_noack (gdb_session fresh g)"
  by (simp_all add: gdb_session_def)

text \<open>The server with a packet in its buffer, acknowledged.\<close>

definition with_packet :: "gdb \<Rightarrow> u8 list \<Rightarrow> u8 list \<Rightarrow> gdb" where
  "with_packet g d rest =
     g\<lparr>rx := rest, gbuf := d @ 0 # drop (length d + 1) (gbuf g), tx := tx g @ [0x2b]\<rparr>"

lemma with_packet_simps [simp]:
  "gbuf (with_packet g d rest) = d @ 0 # drop (length d + 1) (gbuf g)" "rx (with_packet g d rest) = rest"
  "wr_ok (with_packet g d rest) = wr_ok g" "g_noack (with_packet g d rest) = g_noack g"
  "tx (with_packet g d rest) = tx g @ [0x2b]"
  by (simp_all add: with_packet_def)

lemma serve_loop_step:
  assumes "sendable d" "d \<noteq> []" "rx g = send_frame d @ rest" "wr_ok g" "\<not> g_noack g"
  shows "serve_loop hk halted ec g s =
       (case handle hk halted ec (length d) (with_packet g d rest) s of
          None \<Rightarrow> None
        | Some (again, g2, s2) \<Rightarrow> if again then serve_loop hk halted ec g2 s2 else Some (g2, s2))"
proof -
  have "gdb_recv g = (Some (length d), with_packet g d rest)"
    using gdb_recv_send_frame [of "[]" d g rest] assms by (simp add: with_packet_def)
  then show ?thesis
    using assms(2) by (simp add: serve_loop.simps [of _ _ _ g])
qed

lemma serve_loop_eof: "rx g = [] \<Longrightarrow> serve_loop hk halted ec g s = Some (g\<lparr>rx := []\<rparr>, s)"
  by (simp add: serve_loop.simps [of _ _ _ g] gdb_recv.simps [of g])

lemma gdb_send_ack:
  "wr_ok g \<Longrightarrow> \<not> g_noack g \<Longrightarrow> rx g = 0x2b # rest \<Longrightarrow>
     gdb_send g d = g\<lparr>rx := rest, tx := tx g @ send_frame d\<rparr>"
  using gdb_send_acked [of g 0 "0x2b" rest d] by simp

section \<open>Properties\<close>

text \<open>
  C32: the packet framing of the gdb server recovers from damaged frames. After any number of
  frames whose checksum is wrong, each preceded by stray bytes, a body framed by \<open>gdb_send\<close> is
  received as it was sent: its length is returned, it stands NUL-terminated in the buffer, what
  follows it is unread, and the peer has been sent one \<open>-\<close> per damaged frame and then \<open>+\<close>.
\<close>

theorem gdb_packet_roundtrip:
  assumes "sendable d" "list_all damaged fs" "0x24 \<notin> set junk" "wr_ok g" "\<not> g_noack g"
    and "rx g = concat (map on_wire fs) @ junk @ send_frame d @ rest"
  shows "case gdb_recv g of (r, g') \<Rightarrow>
    r = Some (length d) \<and> cstr (gbuf g') = d \<and> rx g' = rest \<and>
    tx g' = tx g @ replicate (length fs) 0x2d @ [0x2b]"
proof -
  obtain b where "gdb_recv g = (Some (length d), g\<lparr>rx := rest, gbuf := d @ 0 # b,
      tx := tx g @ replicate (length fs) 0x2d @ [0x2b]\<rparr>)"
    using gdb_recv_resends [OF assms(2,3,1,4,5,6)] by blast
  moreover have "cstr (d @ 0 # b) = d" using assms(1) by (simp add: sendable_def cstr_nul)
  ultimately show ?thesis by simp
qed

definition wire_demo :: gdb where
  "wire_demo = \<lparr>rx = [0x2b, 0x24, 0x67, 0x23, 0x30, 0x30] @ [3] @ send_frame [0x67] @ [0x2b], tx = [],
     wr_ok = True, polls = [], g_noack = False, g_bp = [], g_hist = None, g_head = 0, g_count = 0,
     g_cur = None, gbuf = replicate 8 0, exited = False, wmsg = []\<rparr>"

lemma gdb_packet_roundtrip_witness:
  "case gdb_recv wire_demo of (r, g') \<Rightarrow>
    r = Some (length [0x67 :: u8]) \<and> cstr (gbuf g') = [0x67] \<and> rx g' = [0x2b] \<and>
    tx g' = tx wire_demo @ replicate (length [([0x2b :: u8], [0x67 :: u8], 0x30 :: u8, 0x30 :: u8)]) 0x2d @ [0x2b]"
  by (rule gdb_packet_roundtrip [where junk = "[3]"])
    (simp_all add: sendable_def damaged_def hexbyte_def hexval_def wire_demo_def on_wire_def GDB_BUF_def)

text \<open>
  C31: a debugger that writes guest memory reads back what it wrote. In a session of two
  acknowledged packets, \<open>M\<close> with at most 2088 bytes at writable addresses and \<open>m\<close> of the same
  range, the server answers \<open>OK\<close> and the bytes in hex; the guest's byte map has exactly those
  bytes replaced, and registers, pc, code and host state are as before.
\<close>

theorem gdb_poke_peek:
  assumes "vm_ok s" "length bs \<le> 2088" "list_all (\<lambda>i. in_writable s (a + of_nat i)) [0..<length bs]"
    and "wr_ok g" "rx g = send_frame (poke_packet a bs) @ [0x2b] @ send_frame (peek_packet a (length bs)) @ [0x2b]"
  shows "\<exists>g' s'. gdb_serve hk halted ec fresh g s = Some (g', s') \<and>
    tx g' = tx g @ [0x2b] @ send_frame (asc ''OK'') @ [0x2b] @ send_frame (concat (map hex2 bs)) \<and>
    guest_byte s' = guest_poke (in_writable s) (guest_byte s) a bs \<and> vm_ok s' \<and> store_frame s s'"
proof -
  have ne: "poke_packet a bs \<noteq> []" "peek_packet a (length bs) \<noteq> []"
    by (simp_all add: poke_packet_def peek_packet_def)
  let ?peek = "send_frame (peek_packet a (length bs)) @ [0x2b]"
  let ?g = "gdb_session fresh g" and ?g1 = "with_packet (gdb_session fresh g) (poke_packet a bs) (0x2b # ?peek)"
  have run1: "serve_loop hk halted ec ?g s =
       (case handle hk halted ec (length (poke_packet a bs)) ?g1 s of
          None \<Rightarrow> None
        | Some (again, g2, s2) \<Rightarrow> if again then serve_loop hk halted ec g2 s2 else Some (g2, s2))"
    by (rule serve_loop_step [OF sendable_packets(1) [OF assms(2)] ne(1)]) (use assms(4,5) in simp_all)
  have len: "length bs < 4294967296" using assms(2) by simp
  obtain s' where s': "handle hk halted ec (length (poke_packet a bs)) ?g1 s = Some (True, gdb_send ?g1 (asc ''OK''), s')"
    "vm_ok s'" "store_frame s s'" "guest_byte s' = guest_poke (in_writable s) (guest_byte s) a bs"
    using handle_poke [OF with_packet_simps(1) assms(1) len] by blast
  let ?g2 = "?g1\<lparr>rx := ?peek, tx := tx ?g1 @ send_frame (asc ''OK'')\<rparr>"
  let ?g3 = "with_packet ?g2 (peek_packet a (length bs)) [0x2b]"
  have g2: "gdb_send ?g1 (asc ''OK'') = ?g2" by (rule gdb_send_ack) (use assms(4) in simp_all)
  have run2: "serve_loop hk halted ec ?g2 s' =
       (case handle hk halted ec (length (peek_packet a (length bs))) ?g3 s' of
          None \<Rightarrow> None
        | Some (again, g2, s2) \<Rightarrow> if again then serve_loop hk halted ec g2 s2 else Some (g2, s2))"
    by (rule serve_loop_step [OF sendable_packets(2) ne(2)]) (use assms(4) in simp_all)
  have "map (\<lambda>i. hex2 (the (guest_byte s' (a + of_nat i)))) [0..<length bs] = map hex2 bs"
  proof (rule nth_equalityI)
    fix i assume "i < length (map (\<lambda>i. hex2 (the (guest_byte s' (a + of_nat i)))) [0..<length bs])"
    then have i: "i < length bs" "unat (of_nat i :: u32) = i" using len by (simp_all add: unat_of_nat)
    then have "in_writable s (a + of_nat i)" using assms(3) by (simp add: list_all_iff)
    with i show "map (\<lambda>i. hex2 (the (guest_byte s' (a + of_nat i)))) [0..<length bs] ! i = map hex2 bs ! i"
      by (simp add: s'(4) guest_poke_def)
  qed simp
  then have "handle hk halted ec (length (peek_packet a (length bs))) ?g3 s' =
      Some (True, gdb_send ?g3 (concat (map hex2 bs)), s')"
    using handle_peek [OF with_packet_simps(1) s'(2), of "length bs"] assms(2) by simp
  moreover have "gdb_send ?g3 (concat (map hex2 bs)) =
      ?g3\<lparr>rx := [], tx := tx ?g3 @ send_frame (concat (map hex2 bs))\<rparr>"
    by (rule gdb_send_ack) (use assms(4) in simp_all)
  ultimately have "gdb_serve hk halted ec fresh g s =
      Some (?g3\<lparr>rx := [], tx := tx ?g3 @ send_frame (concat (map hex2 bs))\<rparr>, s')"
    using run1 run2 s'(1) g2 by (simp add: serve_loop_eof gdb_serve_def)
  then show ?thesis using s'(2-4) by simp
qed

lemma gdb_poke_peek_witness:
  "\<exists>g' s'. gdb_serve init_hooks (\<lambda>_. False) (\<lambda>_. 0) None
       (wire_demo\<lparr>rx := send_frame (poke_packet 0x80000002 [7, 9]) @ [0x2b] @
                        send_frame (peek_packet 0x80000002 (length [7 :: u8, 9])) @ [0x2b]\<rparr>) mem_demo = Some (g', s') \<and>
    tx g' = tx (wire_demo\<lparr>rx := send_frame (poke_packet 0x80000002 [7, 9]) @ [0x2b] @
                        send_frame (peek_packet 0x80000002 (length [7 :: u8, 9])) @ [0x2b]\<rparr>) @
      [0x2b] @ send_frame (asc ''OK'') @ [0x2b] @ send_frame (concat (map hex2 [7, 9])) \<and>
    guest_byte s' = guest_poke (in_writable mem_demo) (guest_byte mem_demo) 0x80000002 [7, 9] \<and> vm_ok s' \<and>
    store_frame mem_demo s'"
  by (rule gdb_poke_peek [OF mem_demo_ok])
    (simp_all add: in_writable_def mem_demo_def riscv_init_def RISCV_HALF_def wire_demo_def upt_rec)

end
