(* ===== verification/Gdb_Run.thy ===== *)
theory Gdb_Run
  imports Gdb_Wire
begin

text \<open>
  The execution side of the gdb server: the undo ring as a bounded stack, reverse execution,
  \<open>continue\<close> up to a breakpoint, the breakpoint set, and the invariant every packet keeps.
\<close>

section \<open>A bounded stack\<close>

lemma drop_bounded:
  assumes "0 < b"
  shows "drop (min b (length xs) + 1 - b) (drop (length xs - b) xs @ [x]) = drop (Suc (length xs) - b) (xs @ [x])"
proof (cases "length xs < b")
  case False
  then have "Suc (length xs) - b = Suc (length xs - b)" "length xs - b < length xs"
    using assms by auto
  with False show ?thesis by (simp add: min_def)
qed simp

text \<open>
  What reverse execution asks of the history: pushing appends and drops the oldest entries beyond
  the bound, popping removes the newest.
\<close>

locale bounded_stack =
  fixes stack_of :: "'g \<Rightarrow> 'f list"
    and stack_ok :: "'g \<Rightarrow> bool"
    and push :: "'g \<Rightarrow> 'f \<Rightarrow> 'g"
    and pop :: "'g \<Rightarrow> ('f \<times> 'g) option"
    and bound :: nat
  assumes push_ok: "stack_ok g \<Longrightarrow> stack_ok (push g f)"
    and push_stack: "stack_ok g \<Longrightarrow> stack_of (push g f) = drop (length (stack_of g) + 1 - bound) (stack_of g @ [f])"
    and pop_empty: "stack_ok g \<Longrightarrow> stack_of g = [] \<Longrightarrow> pop g = None"
    and pop_stack: "stack_ok g \<Longrightarrow> stack_of g \<noteq> [] \<Longrightarrow>
      \<exists>g'. pop g = Some (last (stack_of g), g') \<and> stack_ok g' \<and> stack_of g' = butlast (stack_of g)"
    and stack_bound: "stack_ok g \<Longrightarrow> length (stack_of g) \<le> bound"
    and bound_pos: "0 < bound"
begin

lemma foldl_push:
  assumes "stack_ok g"
  shows "stack_ok (foldl push g fs) \<and>
    stack_of (foldl push g fs) = drop (length (stack_of g) + length fs - bound) (stack_of g @ fs)"
  using assms
proof (induction fs rule: rev_induct)
  case Nil
  then show ?case using stack_bound [of g] by simp
next
  case (snoc f fs)
  let ?g = "foldl push g fs"
  have ok: "stack_ok ?g" "stack_of ?g = drop (length (stack_of g) + length fs - bound) (stack_of g @ fs)"
    using snoc by simp_all
  then have len: "length (stack_of ?g) = min bound (length (stack_of g) + length fs)" by auto
  have "stack_of (push ?g f) =
      drop (length (stack_of ?g) + 1 - bound) (stack_of ?g @ [f])"
    by (rule push_stack [OF ok(1)])
  also have "\<dots> = drop (length (stack_of g) + Suc (length fs) - bound) (stack_of g @ fs @ [f])"
    unfolding len unfolding ok(2) using drop_bounded [OF bound_pos, of "stack_of g @ fs" f] by simp
  finally show ?case using push_ok [OF ok(1)] by simp
qed

text \<open>As many of the newest entries as the bound allows come back, newest first.\<close>

fun pops :: "nat \<Rightarrow> 'g \<Rightarrow> ('f list \<times> 'g) option" where
  "pops 0 g = Some ([], g)"
| "pops (Suc n) g = (case pop g of None \<Rightarrow> None
     | Some (f, g') \<Rightarrow> map_option (\<lambda>r. (f # fst r, snd r)) (pops n g'))"

lemma pops_stack:
  "stack_ok g \<Longrightarrow> n \<le> length (stack_of g) \<Longrightarrow>
     \<exists>g'. pops n g = Some (rev (drop (length (stack_of g) - n) (stack_of g)), g') \<and> stack_ok g' \<and>
       stack_of g' = take (length (stack_of g) - n) (stack_of g)"
proof (induction n arbitrary: g)
  case (Suc n)
  then have ne: "stack_of g \<noteq> []" by auto
  obtain g1 where g1: "pop g = Some (last (stack_of g), g1)" "stack_ok g1" "stack_of g1 = butlast (stack_of g)"
    using pop_stack [OF Suc.prems(1) ne] by blast
  obtain xs x where s: "stack_of g = xs @ [x]" using ne by (metis rev_exhaust)
  show ?case
    using Suc.IH [OF g1(2)] Suc.prems(2) g1 by (auto simp: s Suc_diff_le)
qed simp

theorem pops_pushes:
  assumes "stack_ok g" "length fs \<le> bound"
  shows "\<exists>g'. pops (length fs) (foldl push g fs) = Some (rev fs, g') \<and> stack_ok g'"
proof -
  let ?g = "foldl push g fs" and ?k = "length (stack_of g) + length fs - bound"
  have ok: "stack_ok ?g" "stack_of ?g = drop ?k (stack_of g @ fs)"
    using foldl_push [OF assms(1)] by simp_all
  have k: "?k \<le> length (stack_of g)" using assms(2) by simp
  then have len: "length (stack_of ?g) = length (stack_of g) - ?k + length fs" using ok(2) by simp
  have "drop (length (stack_of ?g) - length fs) (stack_of ?g) = fs"
    unfolding len using ok(2) k by simp
  then show ?thesis using pops_stack [OF ok(1), of "length fs"] len by auto
qed

end

section \<open>The undo ring is a bounded stack\<close>

definition history :: "gdb \<Rightarrow> frame list" where
  "history g = (case g_hist g of
     None \<Rightarrow> []
   | Some h \<Rightarrow> map (\<lambda>i. h ((g_head g + i) mod HIST_FRAMES)) [0..<g_count g])"

definition ring_ok :: "gdb \<Rightarrow> bool" where
  "ring_ok g = (g_hist g \<noteq> None \<and> g_count g \<le> HIST_FRAMES \<and> g_head g < HIST_FRAMES)"

text \<open>What a recorded step does to the ring: the slot pointer is only set while the step runs.\<close>

definition ring_push :: "gdb \<Rightarrow> frame \<Rightarrow> gdb" where
  "ring_push g f = (hist_push g f)\<lparr>g_cur := None\<rparr>"

lemma frames_pos [simp]: "0 < HIST_FRAMES"
  by (simp add: HIST_FRAMES_def)

lemma mod_slots_differ:
  assumes "a < b" "b - a < (n :: nat)"
  shows "(k + a) mod n \<noteq> (k + b) mod n"
proof
  assume "(k + a) mod n = (k + b) mod n"
  then have "n dvd b - a" using assms(1) mod_eq_dvd_iff_nat [of "k + a" "k + b" n] by simp
  then show False using assms by (simp add: dvd_imp_le leD)
qed

lemma ring_push_history:
  assumes "ring_ok g"
  shows "history (ring_push g f) = drop (length (history g) + 1 - HIST_FRAMES) (history g @ [f])"
proof -
  obtain h where h: "g_hist g = Some h" using assms by (auto simp: ring_ok_def)
  let ?n = HIST_FRAMES and ?i = "(g_head g + g_count g) mod HIST_FRAMES"
  have le: "g_count g \<le> ?n" "g_head g < ?n" using assms by (auto simp: ring_ok_def)
  have len: "length (history g) = g_count g" by (simp add: history_def h)
  show ?thesis
  proof (cases "g_count g = ?n")
    case False
    then have "history (ring_push g f) = map (\<lambda>j. (h(?i := f)) ((g_head g + j) mod ?n)) [0..<g_count g] @ [f]"
      by (simp add: history_def ring_push_def hist_push_def frame_upd_def h Let_def)
    also have "map (\<lambda>j. (h(?i := f)) ((g_head g + j) mod ?n)) [0..<g_count g] = history g"
      using False le mod_slots_differ [of _ "g_count g" ?n "g_head g"] by (auto simp: history_def h)
    finally show ?thesis using False le len by simp
  next
    case True
    have i: "?i = g_head g" using True le by simp
    have "history (ring_push g f) =
        map (\<lambda>j. (h(g_head g := f)) ((Suc (g_head g) mod ?n + j) mod ?n)) [0..<?n]"
      using i by (simp add: history_def ring_push_def hist_push_def frame_upd_def h Let_def True)
    also have "\<dots> = map (\<lambda>j. if j = ?n - 1 then f else h ((g_head g + (j + 1)) mod ?n)) [0..<?n]"
    proof (rule map_cong [OF refl])
      fix j assume "j \<in> set [0..<?n]"
      then have j: "j < ?n" by simp
      then have "j \<noteq> ?n - 1 \<Longrightarrow> j + 1 < ?n" by arith
      moreover have "(Suc (g_head g) mod ?n + j) mod ?n = (g_head g + (j + 1)) mod ?n"
        by (simp add: mod_simps)
      moreover have "(g_head g + (j + 1)) mod ?n = g_head g \<longleftrightarrow> j = ?n - 1"
        using j le mod_slots_differ [of 0 "j + 1" ?n "g_head g"] calculation(1) by (cases "j = ?n - 1") auto
      ultimately show "(h(g_head g := f)) ((Suc (g_head g) mod ?n + j) mod ?n) =
          (if j = ?n - 1 then f else h ((g_head g + (j + 1)) mod ?n))" by simp
    qed
    also have "\<dots> = drop 1 (history g @ [f])"
      by (rule nth_equalityI) (auto simp: history_def h True nth_append)
    finally show ?thesis using len True by simp
  qed
qed

lemma hist_pop_history:
  assumes "ring_ok g" "history g \<noteq> []"
  shows "\<exists>g'. hist_pop g = Some (last (history g), g') \<and> ring_ok g' \<and> history g' = butlast (history g)"
proof -
  obtain h where h: "g_hist g = Some h" using assms by (auto simp: ring_ok_def)
  have c: "g_count g \<noteq> 0" using assms(2) by (simp add: history_def h)
  then obtain k where k: "g_count g = Suc k" by (auto simp: gr0_conv_Suc)
  show ?thesis using assms(1) by (simp add: hist_pop_def history_def h k ring_ok_def)
qed

interpretation ring: bounded_stack history ring_ok ring_push hist_pop HIST_FRAMES
proof unfold_locales
  show "ring_ok (ring_push g f)" if "ring_ok g" for g f
    using that by (auto simp: ring_ok_def ring_push_def hist_push_def frame_upd_def Let_def)
  show "hist_pop g = None" if "ring_ok g" "history g = []" for g
    using that by (auto simp: hist_pop_def history_def ring_ok_def)
  show "length (history g) \<le> HIST_FRAMES" if "ring_ok g" for g
    using that by (auto simp: history_def ring_ok_def)
qed (simp_all add: ring_push_history hist_pop_history)

section \<open>Recorded and reversed steps\<close>

definition frame_of :: "'w vm \<Rightarrow> frame" where
  "frame_of s = \<lparr>fr_reg = reg_file s, fr_w = [], fr_overflow = False\<rparr>"

lemma step_record_ring:
  "ring_ok g \<Longrightarrow> step_record hk g s = map_option (\<lambda>s'. (ring_push g (frame_of s), s')) (gdb_step_one hk s)"
  by (auto simp: ring_ok_def step_record_def ring_push_def frame_of_def Let_def)

text \<open>\<open>n\<close> packets \<open>s\<close>, and \<open>n\<close> packets \<open>bs\<close>.\<close>

fun record_steps :: "nat \<Rightarrow> 'w hooks \<Rightarrow> gdb \<Rightarrow> 'w vm \<Rightarrow> (gdb \<times> 'w vm) option" where
  "record_steps 0 hk g s = Some (g, s)"
| "record_steps (Suc n) hk g s = do { (g', s') \<leftarrow> step_record hk g s; record_steps n hk g' s' }"

fun reverse_steps :: "nat \<Rightarrow> gdb \<Rightarrow> 'w vm \<Rightarrow> (gdb \<times> 'w vm) option" where
  "reverse_steps 0 g s = Some (g, s)"
| "reverse_steps (Suc n) g s = do { (g', s') \<leftarrow> gdb_reverse False g s; reverse_steps n g' s' }"

lemma record_steps_frames:
  assumes "record_steps n hk g s = Some (gn, sn)" "ring_ok g"
  shows "\<exists>ss. length ss = n \<and> gn = foldl ring_push g (map frame_of ss) \<and> hd (ss @ [sn]) = s"
  using assms
proof (induction n arbitrary: g s)
  case (Suc n)
  obtain s' where s': "gdb_step_one hk s = Some s'" "record_steps n hk (ring_push g (frame_of s)) s' = Some (gn, sn)"
    using Suc.prems step_record_ring [OF Suc.prems(2), of hk s] by (auto split: bind_splits)
  then obtain ss where "length ss = n" "gn = foldl ring_push (ring_push g (frame_of s)) (map frame_of ss)" "hd (ss @ [sn]) = s'"
    using Suc.IH [OF s'(2) ring.push_ok [OF Suc.prems(2)]] by blast
  then show ?case by (intro exI [of _ "s # ss"]) simp
qed simp

lemma record_steps_total:
  assumes "trap_hooks hk" "vm_ok s" "ring_ok g"
  shows "\<exists>gn sn. record_steps n hk g s = Some (gn, sn) \<and> vm_ok sn"
  using assms(2,3)
proof (induction n arbitrary: g s)
  case (Suc n)
  obtain s' k where "riscv_loop hk s 1 = Some (s', k)" "vm_ok s'"
    using trap_hooks.riscv_loop_ok [OF assms(1) Suc.prems(1)] by blast
  with Suc.IH [OF _ ring.push_ok [OF Suc.prems(2)], of s'] show ?case
    by (simp add: step_record_ring [OF Suc.prems(2)] gdb_step_one_def)
qed simp

lemma reg_file_reg [simp]: "reg_file s ! unat (i :: reg) = regs s i" "reg_file s ! 32 = pc s"
proof -
  have "unat i < 32" using unsigned_less [where w = i and ?'a = nat] by simp
  then show "reg_file s ! unat i = regs s i" by (simp add: reg_file_def nth_append)
qed (simp add: reg_file_def nth_append)

lemma gdb_reverse_frame:
  assumes "hist_pop g = Some (frame_of s0, g')"
  shows "gdb_reverse False g s = Some (g', s\<lparr>regs := (regs s0)(0 := regs s 0), pc := pc s0\<rparr>)"
proof -
  have "(\<lambda>i. if i = 0 then regs s 0 else reg_file s0 ! unat i) = (regs s0)(0 := regs s 0)" by auto
  then have "restore_regs (reg_file s0) s = s\<lparr>regs := (regs s0)(0 := regs s 0), pc := pc s0\<rparr>"
    by (simp add: restore_regs_def)
  moreover have "g_count g \<noteq> 0" using assms by (auto simp: hist_pop_def split: option.splits if_splits)
  ultimately show ?thesis
    using assms by (simp add: gdb_reverse.simps [of False g s] step_reverse_def frame_of_def)
qed

lemma reverse_steps_pops:
  assumes "ring.pops (length ss) g = Some (map frame_of ss, g')"
  shows "reverse_steps (length ss) g s = Some (g', if ss = [] then s
      else s\<lparr>regs := (regs (last ss))(0 := regs s 0), pc := pc (last ss)\<rparr>)"
  using assms
proof (induction ss arbitrary: g s)
  case (Cons s0 ss)
  then obtain g1 where g1: "hist_pop g = Some (frame_of s0, g1)" "ring.pops (length ss) g1 = Some (map frame_of ss, g')"
    by (auto split: option.splits)
  with Cons.IH [OF g1(2)] show ?case by (auto simp: gdb_reverse_frame)
qed simp

section \<open>Forward\<close>

text \<open>
  Where a \<open>continue\<close> stops, counted in steps: at the first state that has halted or whose pc is
  in the set, if it is among the first \<open>n\<close>.
\<close>

fun first_stop :: "nat \<Rightarrow> 'w hooks \<Rightarrow> ('w vm \<Rightarrow> bool) \<Rightarrow> u32 set \<Rightarrow> 'w vm \<Rightarrow> (stop \<times> 'w vm) option" where
  "first_stop 0 hk halted bps s = None"
| "first_stop (Suc n) hk halted bps s =
     (case gdb_step_one hk s of
        None \<Rightarrow> None
      | Some s' \<Rightarrow>
          if halted s' then Some (STOP_EXIT, s')
          else if pc s' \<in> bps then Some (STOP_TRAP, s')
          else first_stop n hk halted bps s')"

text \<open>The connection and the breakpoints, which stepping leaves alone.\<close>

definition same_peer :: "gdb \<Rightarrow> gdb \<Rightarrow> bool" where
  "same_peer g g' = (rx g' = rx g \<and> tx g' = tx g \<and> wr_ok g' = wr_ok g \<and> g_noack g' = g_noack g \<and>
     g_bp g' = g_bp g \<and> gbuf g' = gbuf g \<and> exited g' = exited g \<and> wmsg g' = wmsg g)"

lemma same_peer_refl [simp]: "same_peer g g"
  by (simp add: same_peer_def)

lemma hist_push_peer:
  "same_peer g ((hist_push g f)\<lparr>g_cur := None\<rparr>)" "polls (hist_push g f) = polls g"
  by (cases "g_count g = HIST_FRAMES", simp_all add: hist_push_def frame_upd_def same_peer_def Let_def)+

lemma step_record_peer:
  assumes "step_record hk g s = Some (g', s')"
  shows "gdb_step_one hk s = Some s' \<and> same_peer g g' \<and> polls g' = polls g"
  using assms hist_push_peer by (auto simp: step_record_def Let_def split: option.splits)

lemma step_record_some: "gdb_step_one hk s = Some s' \<Longrightarrow> \<exists>g'. step_record hk g s = Some (g', s')"
  by (cases "g_hist g") (simp_all add: step_record_def Let_def)

lemma same_peer_trans: "same_peer g g1 \<Longrightarrow> same_peer g1 g2 \<Longrightarrow> same_peer g g2"
  by (simp add: same_peer_def)

lemma interrupted_quiet:
  assumes "True \<notin> set (polls g)"
  obtains g' where "interrupted tick g = (False, g')" "same_peer g g'" "True \<notin> set (polls g')"
  using assms that by (cases "tick AND 0x3ff = 0"; cases "polls g")
    (auto simp: interrupted_def gdb_pollin_def same_peer_def)

lemma gdb_run_first_stop:
  assumes "first_stop n hk halted (set (g_bp g)) s = Some (r, s')" "True \<notin> set (polls g)"
  shows "\<exists>g'. gdb_run hk halted True tick g s = Some (r, g', s') \<and> same_peer g g'"
  using assms
proof (induction n arbitrary: tick g s)
  case (Suc n)
  obtain s1 where s1: "gdb_step_one hk s = Some s1" using Suc.prems(1) by (auto split: option.splits)
  obtain g1 where g1: "step_record hk g s = Some (g1, s1)" using step_record_some [OF s1] by blast
  note peer = step_record_peer [OF g1]
  have bp: "bp_hit g1 (pc s1) \<longleftrightarrow> pc s1 \<in> set (g_bp g)"
    using peer by (simp add: bp_hit_def same_peer_def)
  note run = gdb_run.simps [of hk halted True tick g s]
  show ?case
  proof (cases "halted s1 \<or> pc s1 \<in> set (g_bp g)")
    case True
    with Suc.prems(1) s1 have "r = (if halted s1 then STOP_EXIT else STOP_TRAP) \<and> s' = s1"
      by (auto split: if_splits)
    with True peer g1 bp show ?thesis by (auto simp: run)
  next
    case False
    obtain g2 where g2: "interrupted (tick + 1) g1 = (False, g2)" "same_peer g1 g2" "True \<notin> set (polls g2)"
      using interrupted_quiet [of g1 "tick + 1"] peer Suc.prems(2) by auto
    have "set (g_bp g2) = set (g_bp g)" using peer g2(2) by (simp add: same_peer_def)
    then obtain g' where "gdb_run hk halted True (tick + 1) g2 s1 = Some (r, g', s')" "same_peer g2 g'"
      using Suc.IH [of g2 s1 "tick + 1"] Suc.prems(1) s1 False g2(3) by auto
    with False g1 bp g2 peer show ?thesis using same_peer_trans by (auto simp: run)
  qed
qed simp

text \<open>\<open>n\<close> steps without a reason to stop.\<close>

fun quiet_steps :: "nat \<Rightarrow> 'w hooks \<Rightarrow> ('w vm \<Rightarrow> bool) \<Rightarrow> u32 set \<Rightarrow> 'w vm \<Rightarrow> 'w vm option" where
  "quiet_steps 0 hk halted bps s = Some s"
| "quiet_steps (Suc n) hk halted bps s =
     (case gdb_step_one hk s of
        None \<Rightarrow> None
      | Some s' \<Rightarrow> if halted s' \<or> pc s' \<in> bps then None else quiet_steps n hk halted bps s')"

lemma tick_polls:
  assumes "t < 1024"
  shows "(of_nat t :: u32) AND 0x3ff = 0 \<longleftrightarrow> t = 0"
proof -
  have "(of_nat t :: u32) AND 0x3ff = take_bit 10 (of_nat t)"
    by (simp add: take_bit_eq_mask mask_eq_exp_minus_1)
  also have "\<dots> = of_nat t" using assms by (simp add: take_bit_of_nat take_bit_nat_eq_self)
  finally show ?thesis using assms by (simp add: unat_eq_0 [symmetric] unat_of_nat)
qed

lemma gdb_run_interrupted:
  assumes "quiet_steps (Suc n) hk halted (set (g_bp g)) s = Some s'" "t + Suc n = 1024"
    and "polls g = True # ps" "rx g = 3 # r"
  shows "\<exists>g'. gdb_run hk halted True (of_nat t) g s = Some (STOP_INT, g', s') \<and> rx g' = r \<and> tx g' = tx g"
  using assms
proof (induction n arbitrary: t g s)
  case 0
  then obtain g1 where g1: "step_record hk g s = Some (g1, s')" and quiet: "\<not> halted s'" "pc s' \<notin> set (g_bp g)"
    using step_record_some [of hk s _ g] by (auto split: option.splits if_splits)
  note peer = step_record_peer [OF g1]
  have t: "(of_nat t + 1 :: u32) = 1024" using 0 by (simp add: of_nat_eq_iff flip: of_nat_Suc)
  have int: "interrupted (of_nat t + 1) g1 = (True, g1\<lparr>polls := ps, rx := r\<rparr>)"
    using peer 0 unfolding t by (simp add: interrupted_def gdb_pollin_def gdb_read_byte_def same_peer_def)
  show ?case
    using g1 quiet int peer by (simp add: gdb_run.simps [of hk halted True "of_nat t" g s] bp_hit_def same_peer_def)
next
  case (Suc n)
  then obtain s1 where s1: "gdb_step_one hk s = Some s1" "\<not> halted s1" "pc s1 \<notin> set (g_bp g)"
      "quiet_steps (Suc n) hk halted (set (g_bp g)) s1 = Some s'"
    by (auto split: option.splits if_splits)
  obtain g1 where g1: "step_record hk g s = Some (g1, s1)" using step_record_some [OF s1(1)] by blast
  note peer = step_record_peer [OF g1]
  have "(of_nat t + 1 :: u32) AND 0x3ff \<noteq> 0" using tick_polls [of "t + 1"] Suc.prems(2) by (simp add: add.commute)
  then have int: "interrupted (of_nat t + 1) g1 = (False, g1)" by (simp add: interrupted_def)
  have "\<exists>g'. gdb_run hk halted True (of_nat (Suc t)) g1 s1 = Some (STOP_INT, g', s') \<and> rx g' = r \<and> tx g' = tx g1"
    by (rule Suc.IH) (use Suc.prems s1(4) peer in \<open>simp_all add: same_peer_def\<close>)
  with g1 s1(2,3) int peer show ?case
    by (simp add: gdb_run.simps [of hk halted True "of_nat t" g s] bp_hit_def same_peer_def add.commute)
qed

section \<open>Breakpoints\<close>

lemma bp_remove_set:
  assumes "distinct bs" "i + n = length bs" "a \<notin> set (take i bs)"
  shows "set (bp_remove a bs i n) = set bs - {a} \<and> distinct (bp_remove a bs i n) \<and>
    length (bp_remove a bs i n) \<le> length bs"
  using assms(2,3)
proof (induction n arbitrary: i)
  case (Suc n)
  then have i: "i < length bs" by simp
  show ?case
  proof (cases "bs ! i = a")
    case False
    with Suc.prems i have "a \<notin> set (take (i + 1) bs)" by (simp add: take_Suc_conv_app_nth)
    with Suc False show ?thesis by simp
  next
    case True
    then obtain xs ys where bs: "bs = xs @ a # ys" "length xs = i"
      using i id_take_nth_drop [OF i] by (intro that [of "take i bs" "drop (Suc i) bs"]) simp_all
    then show ?thesis using assms(1) by (cases ys rule: rev_cases) (auto simp: butlast_append)
  qed
qed (use assms(1) in simp)

section \<open>Every packet keeps the session well formed\<close>

definition session_ok :: "gdb \<Rightarrow> 'w vm \<Rightarrow> bool" where
  "session_ok g s =
     (vm_ok s \<and> length (gbuf g) = GDB_BUF \<and> distinct (g_bp g) \<and> length (g_bp g) \<le> GDB_MAX_BP \<and>
      (if g_hist g = None then g_count g = 0 else ring_ok g) \<and>
      list_all (\<lambda>f. length (fr_reg f) = GDB_NREG \<and> fr_w f = [] \<and> \<not> fr_overflow f) (history g))"

lemma send_loop_shape: "\<exists>r t. send_loop fr g = g\<lparr>rx := r, tx := t\<rparr>"
proof (induction fr g rule: send_loop.induct)
  case (1 fr g)
  have same: "\<exists>r t. g\<lparr>tx := t0\<rparr> = g\<lparr>rx := r, tx := t\<rparr>" for t0
    by (rule exI [of _ "rx g"]) auto
  have "gdb_write_all g fr = (False, g) \<or> gdb_write_all g fr = (True, g\<lparr>tx := tx g @ fr\<rparr>)"
    by (simp add: gdb_write_all_def)
  then show ?case
  proof
    assume "gdb_write_all g fr = (False, g)"
    then show ?thesis using same [of "tx g"] by (simp add: send_loop.simps [of fr g])
  next
    assume w: "gdb_write_all g fr = (True, g\<lparr>tx := tx g @ fr\<rparr>)"
    note run = send_loop.simps [of fr g]
    show ?thesis
    proof (cases "g_noack g \<or> rx g = []")
      case True
      then show ?thesis using same [of "tx g @ fr"] by (cases "g_noack g") (simp_all add: run w)
    next
      case False
      then obtain a r where r: "rx g = a # r" by (cases "rx g") auto
      show ?thesis
      proof (cases "a = 0x2d")
        case True
        have "\<exists>r' t. send_loop fr (g\<lparr>tx := tx g @ fr, rx := r\<rparr>) = g\<lparr>tx := tx g @ fr, rx := r\<rparr>\<lparr>rx := r', tx := t\<rparr>"
          by (rule 1 [OF w [symmetric] refl]) (use False r True in simp_all)
        then show ?thesis using False r True by (auto simp: run w)
      next
        case a: False
        with False r have "send_loop fr g = g\<lparr>rx := r, tx := tx g @ fr\<rparr>" by (simp add: run w)
        then show ?thesis by blast
      qed
    qed
  qed
qed

lemma history_upd [simp]:
  "history (g\<lparr>rx := r\<rparr>) = history g" "history (g\<lparr>tx := t\<rparr>) = history g"
  "history (g\<lparr>polls := p\<rparr>) = history g" "history (g\<lparr>exited := e\<rparr>) = history g"
  "history (g\<lparr>wmsg := m\<rparr>) = history g" "history (g\<lparr>g_noack := n\<rparr>) = history g"
  "history (g\<lparr>g_bp := bs\<rparr>) = history g" "history (g\<lparr>gbuf := b\<rparr>) = history g"
  by (cases "g_hist g"; simp add: history_def)+

lemma session_ok_io [simp]:
  "session_ok (g\<lparr>rx := r\<rparr>) s = session_ok g s" "session_ok (g\<lparr>tx := t\<rparr>) s = session_ok g s"
  "session_ok (g\<lparr>polls := p\<rparr>) s = session_ok g s" "session_ok (g\<lparr>exited := e\<rparr>) s = session_ok g s"
  "session_ok (g\<lparr>wmsg := m\<rparr>) s = session_ok g s" "session_ok (g\<lparr>g_noack := n\<rparr>) s = session_ok g s"
  by (simp_all add: session_ok_def ring_ok_def)

lemma session_ok_send [simp]: "session_ok (gdb_send g d) s = session_ok g s"
  using send_loop_shape [of "send_frame d" g] by (auto simp: gdb_send_def)

lemma session_ok_vm: "session_ok g s \<Longrightarrow> vm_ok s' \<Longrightarrow> session_ok g s'"
  by (simp add: session_ok_def)

lemma session_ok_bp:
  assumes "session_ok g s"
  shows "session_ok (bp_add g a) s" "session_ok (bp_del g a) s"
proof -
  have bp: "distinct (g_bp g)" "length (g_bp g) \<le> GDB_MAX_BP" using assms by (simp_all add: session_ok_def)
  have "session_ok (g\<lparr>g_bp := bs\<rparr>) s" if "distinct bs" "length bs \<le> GDB_MAX_BP" for bs
    using assms that by (auto simp: session_ok_def ring_ok_def split: if_splits)
  then show "session_ok (bp_add g a) s" "session_ok (bp_del g a) s"
    using bp assms bp_remove_set [OF bp(1), of 0 "length (g_bp g)" a]
    by (auto simp: bp_add_def bp_del_def bp_hit_def)
qed

text \<open>A step of the session's state and the VM: the invariant, and the code untouched.\<close>

definition session_step :: "gdb \<Rightarrow> 'w vm \<Rightarrow> gdb \<Rightarrow> 'w vm \<Rightarrow> bool" where
  "session_step g s g' s' = (session_ok g s \<longrightarrow> session_ok g' s' \<and> readonly s' = readonly s)"

lemma session_step_trans: "session_step g s g1 s1 \<Longrightarrow> session_step g1 s1 g' s' \<Longrightarrow> session_step g s g' s'"
  by (simp add: session_step_def)

lemma session_step_refl [simp]: "session_step g s g s"
  by (simp add: session_step_def)

lemma mem_write_keeps: "mem_write s a bs = Some s' \<Longrightarrow> keeps s s'"
proof (induction s a bs rule: mem_write.induct)
  case (2 s a b bs)
  then obtain s1 where s1: "(case byte_at s a True of Some p \<Rightarrow> wr8 s p 0 b | None \<Rightarrow> Some s) = Some s1"
      "mem_write s1 (a + 1) bs = Some s'" by (auto split: bind_splits)
  have "keeps s s1"
  proof (cases "byte_at s a True")
    case (Some p)
    then obtain i where "p = WPtr i" by (auto simp: byte_at_def Let_def split: if_splits)
    with s1(1) Some show ?thesis using keeps_wr8 [of s i 0 b s1] by simp
  qed (use s1(1) in \<open>simp add: keeps_def\<close>)
  with 2(1) [OF s1] show ?case by (simp add: keeps_def)
qed (simp add: keeps_def)

lemma keeps_session: "keeps s s' \<Longrightarrow> session_step g s g s'"
  by (auto simp: keeps_def session_step_def session_ok_def)

lemma reg_index_nonzero:
  assumes "(i :: u32) \<noteq> 0" "\<not> 32 \<le> i"
  shows "(ucast i :: reg) \<noteq> 0"
proof -
  have "unat i < 32" "unat i \<noteq> 0" using assms by (simp_all add: word_le_nat_alt unat_eq_0)
  then have "unat (ucast i :: reg) \<noteq> 0" by (simp add: unsigned_ucast_eq take_bit_nat_def)
  then show ?thesis by (metis unat_0)
qed

lemma reg_set_keeps: "keeps s (reg_set s i v)"
  using reg_index_nonzero [of i] by (auto simp: keeps_def reg_set_def vm_ok_def)

lemma regs_write_keeps: "regs_write k i p l s = Some s' \<Longrightarrow> keeps s s'"
proof (induction k i p l s rule: regs_write.induct)
  case (2 k i p l s)
  show ?case
  proof (cases "l \<ge> 8")
    case True
    with 2(2) obtain v where v: "reg_from_hex p = Some v" "regs_write k (i + 1) (drop 8 p) (l - 8) (reg_set s (of_nat i) v) = Some s'"
      by (cases "reg_from_hex p") simp_all
    show ?thesis by (rule keeps_trans [OF reg_set_keeps 2(1) [OF True v]])
  qed (use 2(2) in \<open>simp add: keeps_def\<close>)
qed (simp add: keeps_def)

lemma write_mem_loop_Cons:
  assumes "write_mem_loop (Suc n) a (c # p) s = Some s'" "\<not> hexval c < 0"
  obtains d p' s1 where "p = d # p'" "mem_write s a [hexbyte c d] = Some s1"
    "write_mem_loop n (a + 1) p' s1 = Some s'"
  using assms
  by (cases p; cases "mem_write s a [hexbyte c (hd p)]") (simp_all del: mem_write.simps)

lemma write_mem_loop_keeps: "write_mem_loop n a p s = Some s' \<Longrightarrow> keeps s s'"
proof (induction n arbitrary: a p s)
  case (Suc n)
  show ?case
  proof (cases p)
    case (Cons c q)
    show ?thesis
    proof (cases "hexval c < 0")
      case False
      obtain d p' s1 where s1: "mem_write s a [hexbyte c d] = Some s1" "write_mem_loop n (a + 1) p' s1 = Some s'"
        using write_mem_loop_Cons [OF Suc.prems [unfolded Cons] False] by metis
      show ?thesis by (rule keeps_trans [OF mem_write_keeps [OF s1(1)] Suc.IH [OF s1(2)]])
    qed (use Suc.prems Cons in simp)
  qed (use Suc.prems in simp)
qed simp

lemma write_mem_keeps: "write_mem s p = Some s' \<Longrightarrow> keeps s s'"
  by (auto simp: write_mem_def split: bind_splits) (erule write_mem_loop_keeps)

text \<open>Receiving, recording, running and reversing keep the invariant.\<close>

lemma recv_body_bound: "recv_body mx r acc cs = Some (b, v, r') \<Longrightarrow> length acc < mx \<Longrightarrow> length b < mx"
  by (induction r arbitrary: acc cs) (force split: if_splits)+

lemma gdb_write_session [simp]: "session_ok (snd (gdb_write_all g p)) s = session_ok g s"
  by (simp add: gdb_write_all_def)

lemma gdb_recv_session: "session_ok g s \<Longrightarrow> session_ok (snd (gdb_recv g)) s"
proof (induction g rule: gdb_recv.induct)
  case (1 g)
  note run = gdb_recv.simps [of g]
  show ?case
  proof (cases "recv_skip (rx g)")
    case None
    then show ?thesis using 1(2) by (simp add: run)
  next
    case (Some r)
    show ?thesis
    proof (cases "\<exists>b cs h1 h2 r'. recv_body GDB_BUF r [] 0 = Some (b, cs, h1 # h2 # r')")
      case False
      then show ?thesis using 1(2) Some by (auto simp: run split: option.splits list.splits)
    next
      case True
      then obtain b cs h1 h2 r' where b: "recv_body GDB_BUF r [] 0 = Some (b, cs, h1 # h2 # r')" by blast
      let ?g = "g\<lparr>rx := r', gbuf := b @ [0] @ drop (length b + 1) (gbuf g)\<rparr>"
      have len: "length b < GDB_BUF" using recv_body_bound [OF b] by (simp add: GDB_BUF_def)
      have g1: "session_ok ?g s" using 1(2) len by (auto simp: session_ok_def ring_ok_def split: if_splits)
      have "session_ok (snd (gdb_recv (snd (gdb_write_all ?g [0x2d])))) s" if "\<not> g_noack g \<and> hexbyte h1 h2 \<noteq> cs"
        by (rule 1(1) [OF Some b refl refl refl refl refl that]) (use g1 in simp)
      with g1 show ?thesis by (simp add: run Some b Let_def)
    qed
  qed
qed

lemma ring_push_session:
  assumes "session_ok g s" "ring_ok g" "vm_ok s'"
  shows "session_ok (ring_push g (frame_of s)) s'"
proof -
  have "history (ring_push g (frame_of s)) = drop (length (history g) + 1 - HIST_FRAMES) (history g @ [frame_of s])"
    by (rule ring_push_history [OF assms(2)])
  moreover have "list_all (\<lambda>f. length (fr_reg f) = GDB_NREG \<and> fr_w f = [] \<and> \<not> fr_overflow f) (history g @ [frame_of s])"
    using assms(1) by (simp add: session_ok_def frame_of_def reg_file_def GDB_NREG_def)
  moreover have "same_peer g (ring_push g (frame_of s))"
    using hist_push_peer(1) [of g "frame_of s"] by (simp add: ring_push_def)
  moreover have "ring_ok (ring_push g (frame_of s))" by (rule ring.push_ok [OF assms(2)])
  ultimately show ?thesis
    using assms(1,3) by (auto simp: session_ok_def same_peer_def ring_ok_def list_all_iff dest: in_set_dropD)
qed

context trap_hooks
begin

lemma step_one_keeps:
  assumes "gdb_step_one hk s = Some s'"
  shows "keeps s s'"
proof -
  have "keeps s s'" if "riscv_loop hk s 1 = Some (s', k)" for k
    using riscv_loop_ok [of s 1] that by (auto simp: keeps_def)
  then show ?thesis using assms by (auto simp: gdb_step_one_def)
qed

lemma step_record_session:
  assumes "step_record hk g s = Some (g', s')"
  shows "session_step g s g' s'"
  unfolding session_step_def
proof
  assume ok: "session_ok g s"
  have s': "keeps s s'" using step_record_peer [OF assms] step_one_keeps by blast
  then have vm: "vm_ok s'" "readonly s' = readonly s" using ok by (simp_all add: keeps_def session_ok_def)
  show "session_ok g' s' \<and> readonly s' = readonly s"
  proof (cases "g_hist g")
    case None
    then show ?thesis using assms ok vm session_ok_vm by (auto simp: step_record_def)
  next
    case (Some h)
    then have "ring_ok g" using ok by (auto simp: session_ok_def)
    with assms ring_push_session [OF ok this vm(1)] vm(2) show ?thesis
      by (auto simp: step_record_ring)
  qed
qed

lemma interrupted_session: "session_ok (snd (interrupted t g)) s = session_ok g s"
  by (cases "t AND 0x3ff = 0"; cases "polls g"; cases "rx g")
    (simp_all add: interrupted_def gdb_pollin_def gdb_read_byte_def)

lemma gdb_run_session:
  assumes ret: "gdb_run hk halted cont t g s = Some out"
  shows "session_step g s (fst (snd out)) (snd (snd out))"
proof -
  have "hk = hk \<longrightarrow> session_step g s (fst (snd out)) (snd (snd out))"
  proof (rule gdb_run.raw_induct [where P = "\<lambda>hk' halted cont t g s out. hk' = hk \<longrightarrow>
      session_step g s (fst (snd out)) (snd (snd out))", OF _ ret], rule impI)
    fix run :: "'w hooks \<Rightarrow> ('w vm \<Rightarrow> bool) \<Rightarrow> bool \<Rightarrow> u32 \<Rightarrow> gdb \<Rightarrow> 'w vm \<Rightarrow> (stop \<times> gdb \<times> 'w vm) option"
    fix hk' :: "'w hooks" and halted cont t g s out
    assume IH: "\<And>hk' halted cont t g s out. run hk' halted cont t g s = Some out \<Longrightarrow>
        hk' = hk \<longrightarrow> session_step g s (fst (snd out)) (snd (snd out))"
      and eq: "(case step_record hk' g s of
        None \<Rightarrow> None
      | Some (g1, s1) \<Rightarrow>
          if halted s1 then Some (STOP_EXIT, g1, s1)
          else if \<not> cont then Some (STOP_TRAP, g1, s1)
          else if bp_hit g1 (pc s1) then Some (STOP_TRAP, g1, s1)
          else (case interrupted (t + 1) g1 of (stop, g2) \<Rightarrow>
                  if stop then Some (STOP_INT, g2, s1) else run hk' halted cont (t + 1) g2 s1)) = Some out"
      and hk': "hk' = hk"
    obtain g1 s1 where g1: "step_record hk g s = Some (g1, s1)"
      using eq hk' by (auto split: option.splits)
    note st = step_record_session [OF g1]
    obtain b g2 where g2: "interrupted (t + 1) g1 = (b, g2)" by fastforce
    have "session_ok g2 s1 = session_ok g1 s1" using interrupted_session [of "t + 1" g1 s1] by (simp add: g2)
    then have g2s: "session_step g s g2 s1" using st by (simp add: session_step_def)
    show "session_step g s (fst (snd out)) (snd (snd out))"
      using eq g1 g2 st g2s IH [of hk' halted cont "t + 1" g2 s1 out] session_step_trans [OF g2s] hk'
      by (auto split: if_splits)
  qed
  then show ?thesis by simp
qed

lemma report_run_session:
  assumes r: "gdb_run hk halted cont t g s = Some r" "report_run ec r = (g', s')"
  shows "session_step g s g' s'"
proof -
  obtain st g1 s1 where o: "r = (st, g1, s1)" by (cases r)
  have "session_step g s g1 s1" using gdb_run_session [OF r(1)] by (simp add: o)
  moreover have "s' = s1 \<and> session_ok g' s' = session_ok g1 s1"
    using r(2) by (auto simp: o report_run_def send_stop_def Let_def split: if_splits)
  ultimately show ?thesis by (auto simp: session_step_def)
qed

lemma report_run_session_pc:
  assumes "gdb_run hk halted cont t g (s\<lparr>pc := a\<rparr>) = Some r" "report_run ec r = (g', s')"
  shows "session_step g s g' s'"
  using report_run_session [OF assms] keeps_session [OF keeps_pc_inst(2)] session_step_trans by blast

end

lemma restore_regs_keeps: "keeps s (restore_regs r s)"
  by (simp add: keeps_def restore_regs_def vm_ok_def)

lemma step_reverse_session:
  assumes "step_reverse g s = Some (r, g', s')" 
  shows "session_step g s g' s'"
  unfolding session_step_def
proof
  assume ok: "session_ok g s"
  show "session_ok g' s' \<and> readonly s' = readonly s"
  proof (cases "g_count g = 0")
    case True
    with assms ok show ?thesis by (simp add: step_reverse_def)
  next
    case False
    then have ring: "ring_ok g" "history g \<noteq> []"
      using ok by (auto simp: session_ok_def history_def ring_ok_def split: if_splits)
    then obtain g1 where g1: "hist_pop g = Some (last (history g), g1)" "ring_ok g1"
        "history g1 = butlast (history g)" using hist_pop_history by blast
    have f: "fr_w (last (history g)) = []" "\<not> fr_overflow (last (history g))"
      using ok ring(2) by (simp_all add: session_ok_def list_all_iff)
    have "g1 = g\<lparr>g_count := g_count g - 1\<rparr>" using g1(1) by (auto simp: hist_pop_def split: option.splits if_splits)
    then have "session_ok g1 s" using ok g1(2,3)
      by (auto simp: session_ok_def ring_ok_def list_all_iff dest: in_set_butlastD)
    moreover have "g' = g1" "s' = restore_regs (fr_reg (last (history g))) s"
      using assms False g1(1) f by (simp_all add: step_reverse_def)
    ultimately show ?thesis
      using restore_regs_keeps [of s] by (auto simp: keeps_def session_ok_def)
  qed
qed

lemma gdb_reverse_session:
  "gdb_reverse cont g s = Some (g', s') \<Longrightarrow> session_step g s g' s'"
proof (induction cont g s rule: gdb_reverse.induct)
  case (1 cont g s)
  obtain r g1 s1 where r: "step_reverse g s = Some (r, g1, s1)"
    using 1(2) by (auto simp: gdb_reverse.simps [of cont g s] split: option.splits)
  note st = step_reverse_session [OF r]
  show ?case
  proof (cases "r = 0 \<or> \<not> cont \<or> bp_hit g1 (pc s1)")
    case True
    then have "g' = g1 \<and> s' = s1" using 1(2) r by (auto simp: gdb_reverse.simps [of cont g s] split: if_splits)
    then show ?thesis using st by simp
  next
    case False
    have "gdb_reverse cont g s = gdb_reverse cont g1 s1"
      by (subst gdb_reverse.simps) (use r False in simp)
    then have "session_step g1 s1 g' s'" using 1 r False by auto
    then show ?thesis by (rule session_step_trans [OF st])
  qed
qed

lemma handle_q_session: "handle_q g = Some g' \<Longrightarrow> session_ok g' s = session_ok g s"
  by (auto simp: handle_q_def xfer_features_def Let_def split: if_splits option.splits bind_splits)

lemma session_step_send: "keeps s s' \<Longrightarrow> session_step g s (gdb_send g d) s'"
  using keeps_session [of s s' g] by (simp add: session_step_def)

lemma session_step_stop: "session_step g s g' s' \<Longrightarrow> session_step g s (send_stop g' s' v) s'"
  by (simp add: session_step_def send_stop_def)

lemma session_step_bp:
  "session_step g s (gdb_send (bp_add g a) d) s" "session_step g s (gdb_send (bp_del g a) d) s"
  by (simp_all add: session_step_def session_ok_bp)

lemma session_step_q: "handle_q g = Some g' \<Longrightarrow> session_step g s g' s"
  using handle_q_session by (auto simp: session_step_def)

lemma session_step_noack: "session_step g s ((gdb_send g d)\<lparr>g_noack := True\<rparr>) s"
  by (simp add: session_step_def)

context trap_hooks
begin

lemma handle_session:
  assumes "handle hk halted ec n g s = Some (b, g', s')"
  shows "session_step g s g' s'"
proof -
  note leaf = session_step_send regs_write_keeps write_mem_keeps reg_set_keeps session_step_stop
    session_step_bp session_step_q session_step_noack gdb_reverse_session
  show ?thesis
    using assms unfolding handle_def Let_def
    by (auto split: if_split_asm bind_split_asm option.split_asm intro: leaf report_run_session report_run_session_pc)
      (rule session_step_send, simp add: reg_set_keeps)+
qed

lemma serve_loop_session:
  assumes ret: "serve_loop hk halted ec g s = Some out"
  shows "session_step g s (fst out) (snd out)"
proof -
  have "hk = hk \<longrightarrow> session_step g s (fst out) (snd out)"
  proof (rule serve_loop.raw_induct [where P = "\<lambda>hk' halted ec g s out. hk' = hk \<longrightarrow>
      session_step g s (fst out) (snd out)", OF _ ret], rule impI)
    fix serve :: "'w hooks \<Rightarrow> ('w vm \<Rightarrow> bool) \<Rightarrow> ('w vm \<Rightarrow> u32) \<Rightarrow> gdb \<Rightarrow> 'w vm \<Rightarrow> (gdb \<times> 'w vm) option"
    fix hk' :: "'w hooks" and halted ec g s out
    assume IH: "\<And>hk' halted ec g s out. serve hk' halted ec g s = Some out \<Longrightarrow>
        hk' = hk \<longrightarrow> session_step g s (fst out) (snd out)"
      and eq: "(case gdb_recv g of (r, g1) \<Rightarrow>
        (case r of
           None \<Rightarrow> Some (g1, s)
         | Some n \<Rightarrow>
             if n = 0 then serve hk' halted ec (gdb_send g1 []) s
             else (case handle hk' halted ec n g1 s of
                     None \<Rightarrow> None
                   | Some (again, g2, s2) \<Rightarrow>
                       if again then serve hk' halted ec g2 s2 else Some (g2, s2)))) = Some out"
      and hk': "hk' = hk"
    obtain r g1 where r: "gdb_recv g = (r, g1)" by fastforce
    then have g1: "session_step g s g1 s" using gdb_recv_session [of g s] by (simp add: session_step_def)
    show "session_step g s (fst out) (snd out)"
    proof (cases "r = None \<or> r = Some 0")
      case True
      have sent: "session_step g s (gdb_send g1 []) s" using g1 by (simp add: session_step_def)
      from True show ?thesis
        using eq r hk' g1 IH [of hk' halted ec "gdb_send g1 []" s out] session_step_trans [OF sent] by auto
    next
      case False
      then obtain n where n: "r = Some n" "n \<noteq> 0" by auto
      then obtain b g2 s2 where h: "handle hk halted ec n g1 s = Some (b, g2, s2)"
          "(if b then serve hk' halted ec g2 s2 else Some (g2, s2)) = Some out"
        using eq r hk' by (auto split: option.splits)
      note st = session_step_trans [OF g1 handle_session [OF h(1)]]
      show ?thesis
        using h(2) hk' st IH [of hk' halted ec g2 s2 out] session_step_trans [OF st] by (cases b) auto
    qed
  qed
  then show ?thesis by simp
qed

end


section \<open>A guest that loops on the spot\<close>

lemma demo_code:
  "fetch [0x01, 0xa0] 0 = Some (0xa001, 2)" "c_sel 0xa001 = 21" "c_cj 0xa001 = 0"
  "take_bit 16 (0xa001 :: u32) = 0xa001"
  by code_simp+

lemma demo_jump: "exec_action hk (decode r 0xa001 2) 0 0xa001 2 s = Some (s, C_goto 0)"
  by (simp add: decode_def decode16_def Let_def demo_code wr_def)

lemma loop_demo_step: "gdb_step_one init_hooks loop_demo = Some loop_demo"
proof -
  have wf: "wf_region (readonly loop_demo)" by (simp add: loop_demo_def riscv_init_def wf_region_def)
  have "ref_loop init_hooks loop_demo 1 = Some (loop_demo, 1, False)"
    unfolding ref_loop_def by (simp add: loop_demo_def riscv_init_def demo_code demo_jump)
  then show ?thesis by (simp add: gdb_step_one_def riscv_loop_ref [OF wf])
qed

lemma loop_demo_pc [simp]: "pc loop_demo = 0"
  by (simp add: loop_demo_def riscv_init_def)

lemma loop_demo_quiet: "quiet_steps n init_hooks (\<lambda>_. False) {} loop_demo = Some loop_demo"
  by (induction n) (simp_all add: loop_demo_step)

definition run_demo :: gdb where
  "run_demo = wire_demo\<lparr>g_hist := Some (\<lambda>_. frame_of loop_demo), gbuf := replicate GDB_BUF 0\<rparr>"

section \<open>Properties\<close>

text \<open>
  C29: reverse execution undoes recorded steps. After \<open>n\<close> single steps, at most as many as the
  ring holds and whatever it held before, \<open>n\<close> packets \<open>bs\<close> put back the registers and the pc the
  first step started with. Memory stays as the steps left it, since no engine calls the hook that
  would record its old bytes.
\<close>

theorem reverse_restores:
  assumes "trap_hooks hk" "vm_ok s" "ring_ok g" "n \<le> HIST_FRAMES"
  shows "\<exists>gn sn g'. record_steps n hk g s = Some (gn, sn) \<and>
    reverse_steps n gn sn = Some (g', sn\<lparr>regs := regs s, pc := pc s\<rparr>) \<and> ring_ok g'"
proof -
  obtain gn sn where rec: "record_steps n hk g s = Some (gn, sn)" "vm_ok sn"
    using record_steps_total [OF assms(1-3)] by blast
  obtain ss where ss: "length ss = n" "gn = foldl ring_push g (map frame_of ss)" "hd (ss @ [sn]) = s"
    using record_steps_frames [OF rec(1) assms(3)] by blast
  obtain g' where g': "ring.pops (length (map frame_of ss)) gn = Some (rev (map frame_of ss), g')" "ring_ok g'"
    using ring.pops_pushes [OF assms(3), of "map frame_of ss"] assms(4) ss(1,2) by auto
  have "reverse_steps n gn sn = Some (g', if rev ss = [] then sn
      else sn\<lparr>regs := (regs (last (rev ss)))(0 := regs sn 0), pc := pc (last (rev ss))\<rparr>)"
    using reverse_steps_pops [of "rev ss" gn g' sn] g'(1) ss(1) by (simp add: rev_map)
  moreover have "(regs s)(0 := regs sn 0) = regs s"
    using assms(2) rec(2) by (auto simp: vm_ok_def)
  ultimately have "reverse_steps n gn sn = Some (g', sn\<lparr>regs := regs s, pc := pc s\<rparr>)"
    using ss(3) by (cases ss) auto
  with rec(1) g'(2) show ?thesis by blast
qed

lemma reverse_restores_witness:
  "\<exists>gn sn g'. record_steps 5 init_hooks run_demo loop_demo = Some (gn, sn) \<and>
    reverse_steps 5 gn sn = Some (g', sn\<lparr>regs := regs loop_demo, pc := pc loop_demo\<rparr>) \<and> ring_ok g'"
  by (rule reverse_restores [OF default_host.trap_hooks_axioms loop_demo_ok])
    (simp_all add: ring_ok_def run_demo_def wire_demo_def HIST_FRAMES_def)

text \<open>
  C30: \<open>continue\<close> stops at the first breakpoint or exit. If one of the first \<open>n\<close> steps halts the
  host or reaches a breakpoint, and the peer sends no interrupt, the run returns: with the exit or
  the trap, in the state of the first such step, breakpoints and connection as they were.
\<close>

theorem gdb_continue_stops:
  assumes "first_stop n hk halted (set (g_bp g)) s = Some (r, s')" "True \<notin> set (polls g)"
  shows "\<exists>g'. gdb_run hk halted True 0 g s = Some (r, g', s') \<and> same_peer g g'"
  by (rule gdb_run_first_stop [OF assms])

lemma gdb_continue_stops_witness:
  "\<exists>g'. gdb_run init_hooks (\<lambda>_. False) True 0 (run_demo\<lparr>g_bp := [4, 0]\<rparr>) loop_demo =
      Some (STOP_TRAP, g', loop_demo) \<and> same_peer (run_demo\<lparr>g_bp := [4, 0]\<rparr>) g'"
  by (rule gdb_continue_stops [where n = 3])
    (simp_all add: numeral_3_eq_3 loop_demo_step loop_demo_pc run_demo_def wire_demo_def)

text \<open>
  A program that runs forever can be interrupted. When nothing stops a \<open>continue\<close> by itself
  and the peer has sent the interrupt byte, the run returns after exactly 1024 steps and has
  consumed that byte.
\<close>

theorem gdb_interrupt_stops:
  assumes "quiet_steps 1024 hk halted (set (g_bp g)) s = Some s'" "polls g = True # ps" "rx g = 3 # r"
  shows "\<exists>g'. gdb_run hk halted True 0 g s = Some (STOP_INT, g', s') \<and> rx g' = r \<and> tx g' = tx g"
  using gdb_run_interrupted [of 1023 hk halted g s s' 0 ps r] assms by simp

lemma gdb_interrupt_stops_witness:
  "\<exists>g'. gdb_run init_hooks (\<lambda>_. False) True 0 (run_demo\<lparr>polls := [True], rx := [3]\<rparr>) loop_demo =
      Some (STOP_INT, g', loop_demo) \<and> rx g' = [] \<and> tx g' = tx (run_demo\<lparr>polls := [True], rx := [3]\<rparr>)"
  by (rule gdb_interrupt_stops) (simp_all add: loop_demo_quiet run_demo_def wire_demo_def)

text \<open>
  The breakpoint table is a set of at most 64 addresses. Adding inserts while there is room,
  deleting removes exactly the address whatever the order in the table, and both keep the entries
  distinct and within the table.
\<close>

theorem breakpoints_are_a_set:
  assumes "distinct (g_bp g)" "length (g_bp g) \<le> GDB_MAX_BP"
  shows "set (g_bp (bp_add g a)) = (if card (set (g_bp g)) < GDB_MAX_BP then insert a (set (g_bp g)) else set (g_bp g)) \<and>
    set (g_bp (bp_del g a)) = set (g_bp g) - {a} \<and>
    distinct (g_bp (bp_add g a)) \<and> length (g_bp (bp_add g a)) \<le> GDB_MAX_BP \<and>
    distinct (g_bp (bp_del g a)) \<and> length (g_bp (bp_del g a)) \<le> GDB_MAX_BP"
  using assms bp_remove_set [OF assms(1), of 0 "length (g_bp g)" a]
  by (auto simp: bp_add_def bp_del_def bp_hit_def distinct_card)

lemma breakpoints_are_a_set_witness:
  "set (g_bp (bp_add (run_demo\<lparr>g_bp := [8, 4]\<rparr>) 12)) =
     (if card (set (g_bp (run_demo\<lparr>g_bp := [8, 4]\<rparr>))) < GDB_MAX_BP
      then insert 12 (set (g_bp (run_demo\<lparr>g_bp := [8, 4]\<rparr>))) else set (g_bp (run_demo\<lparr>g_bp := [8, 4]\<rparr>))) \<and>
    set (g_bp (bp_del (run_demo\<lparr>g_bp := [8, 4]\<rparr>) 12)) = set (g_bp (run_demo\<lparr>g_bp := [8, 4]\<rparr>)) - {12} \<and>
    distinct (g_bp (bp_add (run_demo\<lparr>g_bp := [8, 4]\<rparr>) 12)) \<and>
    length (g_bp (bp_add (run_demo\<lparr>g_bp := [8, 4]\<rparr>) 12)) \<le> GDB_MAX_BP \<and>
    distinct (g_bp (bp_del (run_demo\<lparr>g_bp := [8, 4]\<rparr>) 12)) \<and>
    length (g_bp (bp_del (run_demo\<lparr>g_bp := [8, 4]\<rparr>) 12)) \<le> GDB_MAX_BP"
  by (rule breakpoints_are_a_set) (simp_all add: GDB_MAX_BP_def)





end
