(* ===== verification/Rt.thy ===== *)
theory Rt
  imports Prelude "HOL-Library.Multiset"
begin

text \<open>
  The guest runtime of the sqlite demo that is not a host call: 64-bit division on a machine with
  32-bit registers (\<open>emu/sqlite/builtins.c\<close>) and \<open>qsort\<close> (\<open>emu/sqlite/rt.c\<close>).

  \<open>qsort\<close> works on the bytes of the array. The comparison is the caller's: a function of the
  bytes of the two elements its pointers name. \<open>None\<close> is an access outside the array. Its
  indices stay below the number of elements, so \<open>size_t\<close> products are products of naturals.
\<close>

section \<open>64-bit division\<close>

text \<open>The loop of \<open>udivmod\<close>, with \<open>i\<close> bits of \<open>n\<close> left to bring down.\<close>

fun udiv_loop :: "nat \<Rightarrow> u64 \<Rightarrow> u64 \<Rightarrow> u64 \<Rightarrow> u64 \<Rightarrow> u64 \<times> u64" where
  "udiv_loop 0 n d q r = (q, r)"
| "udiv_loop (Suc i) n d q r =
     (let r1 = push_bit 1 r OR (drop_bit i n AND 1)
      in if r1 \<ge> d then udiv_loop i n d (q OR push_bit i 1) (r1 - d) else udiv_loop i n d q r1)"

definition udivmod :: "u64 \<Rightarrow> u64 \<Rightarrow> u64 \<times> u64" where
  "udivmod n d = udiv_loop 64 n d 0 0"

definition udivdi3 :: "u64 \<Rightarrow> u64 \<Rightarrow> u64" where
  "udivdi3 n d = fst (udivmod n d)"

definition umoddi3 :: "u64 \<Rightarrow> u64 \<Rightarrow> u64" where
  "umoddi3 n d = snd (udivmod n d)"

definition magnitude :: "u64 \<Rightarrow> u64" where
  "magnitude a = (if a <s 0 then - a else a)"

definition divdi3 :: "u64 \<Rightarrow> u64 \<Rightarrow> u64" where
  "divdi3 a b =
     (let q = fst (udivmod (magnitude a) (magnitude b))
      in if (a <s 0) \<noteq> (b <s 0) then - q else q)"

definition moddi3 :: "u64 \<Rightarrow> u64 \<Rightarrow> u64" where
  "moddi3 a b =
     (let r = snd (udivmod (magnitude a) (magnitude b)) in if a <s 0 then - r else r)"

section \<open>qsort\<close>

text \<open>\<open>while (n--) { char t = *a; *a++ = *b; *b++ = t; }\<close>\<close>

fun qswap :: "nat \<Rightarrow> nat \<Rightarrow> nat \<Rightarrow> u8 list \<Rightarrow> u8 list option" where
  "qswap a b 0 bs = Some bs"
| "qswap a b (Suc n) bs =
     (if a < length bs \<and> b < length bs
      then (let t = bs ! a in qswap (a + 1) (b + 1) n (bs[a := bs ! b, b := t])) else None)"

text \<open>The \<open>sz\<close> bytes a pointer to an element names.\<close>

definition elem_at :: "nat \<Rightarrow> nat \<Rightarrow> u8 list \<Rightarrow> u8 list option" where
  "elem_at sz off bs = (if off + sz \<le> length bs then Some (take sz (drop off bs)) else None)"

text \<open>The innermost loop, \<open>for (j = i; j >= gap; j -= gap)\<close>; the outer loop has \<open>gap > 0\<close>.\<close>

function qsort_sift ::
  "(u8 list \<Rightarrow> u8 list \<Rightarrow> int) \<Rightarrow> nat \<Rightarrow> nat \<Rightarrow> nat \<Rightarrow> u8 list \<Rightarrow> u8 list option" where
  "qsort_sift cmp sz gap j bs =
     (if gap = 0 \<or> j < gap then Some bs
      else do {
        x \<leftarrow> elem_at sz ((j - gap) * sz) bs;
        y \<leftarrow> elem_at sz (j * sz) bs;
        if cmp x y \<le> 0 then Some bs
        else do {
          bs' \<leftarrow> qswap ((j - gap) * sz) (j * sz) sz bs;
          qsort_sift cmp sz gap (j - gap) bs' } })"
  by pat_completeness auto
termination by (relation "measure (\<lambda>(cmp, sz, gap, j, bs). j)") auto

declare qsort_sift.simps [simp del]

text \<open>\<open>for (i = gap; i < n; i++)\<close>, with \<open>k\<close> elements left.\<close>

fun qsort_pass ::
  "(u8 list \<Rightarrow> u8 list \<Rightarrow> int) \<Rightarrow> nat \<Rightarrow> nat \<Rightarrow> nat \<Rightarrow> nat \<Rightarrow> u8 list \<Rightarrow> u8 list option" where
  "qsort_pass cmp sz gap i 0 bs = Some bs"
| "qsort_pass cmp sz gap i (Suc k) bs = do {
     bs' \<leftarrow> qsort_sift cmp sz gap i bs;
     qsort_pass cmp sz gap (i + 1) k bs' }"

text \<open>\<open>for (gap = n / 2; gap > 0; gap /= 2)\<close>\<close>

function qsort_gaps ::
  "(u8 list \<Rightarrow> u8 list \<Rightarrow> int) \<Rightarrow> nat \<Rightarrow> nat \<Rightarrow> nat \<Rightarrow> u8 list \<Rightarrow> u8 list option" where
  "qsort_gaps cmp sz n gap bs =
     (if gap = 0 then Some bs
      else do {
        bs' \<leftarrow> qsort_pass cmp sz gap gap (n - gap) bs;
        qsort_gaps cmp sz n (gap div 2) bs' })"
  by pat_completeness auto
termination by (relation "measure (\<lambda>(cmp, sz, n, gap, bs). gap)") auto

declare qsort_gaps.simps [simp del]

definition qsort :: "u8 list \<Rightarrow> nat \<Rightarrow> nat \<Rightarrow> (u8 list \<Rightarrow> u8 list \<Rightarrow> int) \<Rightarrow> u8 list option" where
  "qsort base n sz cmp = qsort_gaps cmp sz n (n div 2) base"

section \<open>Division is division\<close>

lemma unat_lt_64: "unat (w :: u64) < 2 ^ 64"
  by (rule order_less_le_trans [OF unsigned_less]) simp

lemma bring_down:
  fixes n d r :: u64
  assumes "unat r = (unat n div 2 ^ Suc i) mod unat d" "d \<noteq> 0" "i < 64"
  shows "unat (push_bit 1 r OR (drop_bit i n AND 1)) =
    2 * ((unat n div 2 ^ Suc i) mod unat d) + (unat n div 2 ^ i) mod 2"
proof -
  have "unat n div 2 < 2 ^ 63"
    by (rule less_mult_imp_div_less) (use unat_lt_64 [of n] in simp)
  moreover have "unat n div 2 ^ Suc i \<le> unat n div 2" by (simp add: div_le_mono2)
  ultimately have "unat n div 2 ^ Suc i < 2 ^ 63" by (rule order_le_less_trans [rotated])
  then have r: "unat r < 2 ^ 63"
    unfolding assms(1) using mod_less_eq_dividend le_less_trans by metis
  have "push_bit 1 r OR (drop_bit i n AND 1) = push_bit 1 r + (drop_bit i n AND 1)"
    by (rule disjunctive_add [symmetric]) (auto simp: bit_simps bit_0 intro!: gr0I)
  moreover have "unat (push_bit 1 r) = 2 * unat r"
    using r by (simp add: unat_word_ariths)
  moreover have "unat (drop_bit i n AND 1) = (unat n div 2 ^ i) mod 2"
  proof -
    have "drop_bit i n AND 1 = take_bit 1 (drop_bit i n)" by (simp add: take_bit_eq_mask)
    then have "unat (drop_bit i n AND 1) = take_bit 1 (drop_bit i (unat n))"
      using take_bit_nat_eq_self [OF unat_lt_64 [of n]]
      by (simp only: unsigned_take_bit_eq unsigned_drop_bit_eq) simp
    then show ?thesis by (simp add: drop_bit_eq_div take_bit_eq_mod)
  qed
  moreover have "2 * unat r + (unat n div 2 ^ i) mod 2 < 2 ^ 64" using r by simp
  ultimately show ?thesis
    using assms(1) by (simp add: unat_word_ariths)
qed

lemma div_step:
  fixes n d k :: nat
  assumes "0 < d"
  defines "m \<equiv> n div 2 ^ Suc k" and "b \<equiv> (n div 2 ^ k) mod 2"
  shows "(n div 2 ^ k) mod d = (if d \<le> 2 * (m mod d) + b then 2 * (m mod d) + b - d else 2 * (m mod d) + b)"
    and "(n div 2 ^ k) div d = 2 * (m div d) + (if d \<le> 2 * (m mod d) + b then 1 else 0)"
proof -
  have "m = n div 2 ^ k div 2" by (simp only: m_def power_Suc2 div_mult2_eq)
  then have n: "n div 2 ^ k = 2 * m + b" by (simp add: b_def)
  let ?v = "2 * (m mod d) + b"
  have b: "b < 2" by (simp add: b_def)
  have v: "?v < 2 * d" using mod_less_divisor [OF assms(1), of m] b by linarith
  have "2 * m + b = d * (2 * x) + (2 * y + b)" if "d * x + y = m" for x y
    unfolding that [symmetric] by (simp add: algebra_simps)
  from this [OF mult_div_mod_eq] have e: "2 * m + b = d * (2 * (m div d)) + ?v" .
  have "(2 * m + b) mod d = ?v mod d" "(2 * m + b) div d = 2 * (m div d) + ?v div d"
    unfolding e using assms(1) by simp_all
  moreover have "?v mod d = (if d \<le> ?v then ?v - d else ?v)" "?v div d = (if d \<le> ?v then 1 else 0)"
    using v by (simp_all add: le_mod_geq le_div_geq)
  ultimately show "(n div 2 ^ k) mod d = (if d \<le> ?v then ?v - d else ?v)"
    and "(n div 2 ^ k) div d = 2 * (m div d) + (if d \<le> ?v then 1 else 0)"
    unfolding n by simp_all
qed

lemma unat_set_bit:
  assumes "unat q = 2 ^ Suc i * m" "unat q + 2 ^ i < 2 ^ 64"
  shows "unat (q OR push_bit i 1 :: u64) = unat q + 2 ^ i"
proof -
  have "i < 64" using assms(2) by (metis add_lessD1 add.commute nat_power_less_imp_less zero_less_numeral rel_simps(76) numeral_2_eq_2 zero_less_Suc)
  have "\<not> bit (unat q) i" unfolding assms(1) by (simp add: bit_iff_odd)
  then have "\<not> bit q i" using \<open>i < 64\<close> by (simp add: bit_unsigned_iff)
  then have "q OR push_bit i 1 = q + push_bit i 1"
    by (intro disjunctive_add [symmetric]) (auto simp: bit_simps)
  moreover have "unat (push_bit i 1 :: u64) = 2 ^ i"
  proof -
    have "(2 :: nat) ^ i < 2 ^ 64" using \<open>i < 64\<close> by (rule power_strict_increasing) simp
    then have "unat (of_nat (2 ^ i) :: u64) = 2 ^ i" by (simp only: unat_of_nat) simp
    then show ?thesis by simp
  qed
  ultimately show ?thesis using assms(2) by (simp add: unat_word_ariths)
qed

lemma udiv_loop_div:
  assumes "d \<noteq> 0" "i \<le> 64" "unat r = (unat n div 2 ^ i) mod unat d"
    and "unat q = 2 ^ i * ((unat n div 2 ^ i) div unat d)"
  shows "udiv_loop i n d q r = (n div d, n mod d)"
  using assms(2-)
proof (induction i arbitrary: q r)
  case 0
  then show ?case
    by (auto simp: unat_div unat_mod word_unat_eq_iff)
next
  case (Suc i)
  let ?m = "unat n div 2 ^ Suc i" and ?b = "(unat n div 2 ^ i) mod 2"
  let ?v = "2 * (?m mod unat d) + ?b" and ?r1 = "push_bit 1 r OR (drop_bit i n AND 1)"
  have d: "0 < unat d" using assms(1) by (simp add: unat_gt_0)
  have r1: "unat ?r1 = ?v" by (rule bring_down) (use Suc.prems assms(1) in simp_all)
  note step = div_step [OF d, of "unat n" i]
  note lt = unat_lt_64 [of n]
  show ?case
  proof (cases "unat d \<le> ?v")
    case True
    then have ge: "d \<le> ?r1" by (simp only: word_le_nat_alt r1)
    have r: "unat (?r1 - d) = (unat n div 2 ^ i) mod unat d"
      by (simp only: unat_sub [OF ge] r1 step(1)) (use True in simp)
    have "(unat n div 2 ^ i) div unat d = 2 * (?m div unat d) + 1" using step(2) True by simp
    then have eq: "2 ^ i * ((unat n div 2 ^ i) div unat d) = unat q + 2 ^ i"
      using Suc.prems(3) by (simp add: algebra_simps)
    have "2 ^ i * ((unat n div 2 ^ i) div unat d) \<le> unat n"
      by (metis div_le_dividend div_times_less_eq_dividend le_trans mult.commute mult_le_mono2)
    then have "unat (q OR push_bit i 1) = unat q + 2 ^ i"
      using unat_set_bit [OF Suc.prems(3)] eq lt by simp
    then have "udiv_loop i n d (q OR push_bit i 1) (?r1 - d) = (n div d, n mod d)"
      using Suc.IH [of "?r1 - d" "q OR push_bit i 1"] r eq Suc.prems(1) by simp
    with ge show ?thesis by (simp add: Let_def)
  next
    case False
    then have lt: "\<not> d \<le> ?r1" by (simp only: word_le_nat_alt r1) simp
    have "udiv_loop i n d q ?r1 = (n div d, n mod d)"
      using Suc.IH [of ?r1 q] r1 step False Suc.prems by (simp add: algebra_simps)
    with lt show ?thesis by (simp add: Let_def del: push_bit_eq_mult)
  qed
qed

lemma udivmod_div: "d \<noteq> 0 \<Longrightarrow> udivmod n d = (n div d, n mod d)"
proof -
  assume "d \<noteq> 0"
  moreover have "unat n div 2 ^ 64 = 0" using unat_lt_64 [of n] by simp
  ultimately show ?thesis unfolding udivmod_def by (intro udiv_loop_div) simp_all
qed

lemma uint_of_small: "0 \<le> k \<Longrightarrow> k < 2 ^ 64 \<Longrightarrow> uint (word_of_int k :: u64) = k"
  by (simp add: uint_word_of_int_eq take_bit_int_eq_self)

lemma uint_magnitude: "uint (magnitude a) = \<bar>sint a\<bar>"
proof -
  have "magnitude a = word_of_int \<bar>sint a\<bar>"
    by (auto simp: magnitude_def word_sless_alt)
  moreover have "\<bar>sint a\<bar> < 2 ^ 64" using sint_ge [of a] sint_lt [of a] by (simp add: abs_less_iff)
  ultimately show ?thesis using uint_of_small [of "\<bar>sint a\<bar>"] by simp
qed

text \<open>
  C37: the 64-bit division of the guest runtime is division. For every nonzero divisor the
  shift-and-subtract loop gives the unsigned quotient and remainder, and the signed entry points
  give the quotient rounded toward zero and the remainder with the sign of the dividend, the
  quotient wrapped for the smallest number divided by -1.
\<close>

theorem runtime_division:
  assumes "b \<noteq> 0"
  shows "udivdi3 a b = a div b \<and> umoddi3 a b = a mod b \<and>
    divdi3 a b = word_of_int (sint a sdiv sint b) \<and> moddi3 a b = word_of_int (sint a smod sint b)"
proof -
  have nz: "magnitude b \<noteq> 0" using assms by (auto simp: magnitude_def)
  let ?q = "magnitude a div magnitude b" and ?r = "magnitude a mod magnitude b"
  have q: "uint ?q = \<bar>sint a\<bar> div \<bar>sint b\<bar>" "uint ?r = \<bar>sint a\<bar> mod \<bar>sint b\<bar>"
    by (simp_all add: uint_div uint_mod uint_magnitude)
  then have w: "?q = word_of_int (\<bar>sint a\<bar> div \<bar>sint b\<bar>)" "?r = word_of_int (\<bar>sint a\<bar> mod \<bar>sint b\<bar>)"
    by (metis word_of_int_uint)+
  have s: "a <s 0 \<longleftrightarrow> sint a < 0" "b <s 0 \<longleftrightarrow> sint b < 0" by (simp_all add: word_sless_alt)
  have b: "sint b \<noteq> 0" using assms by (simp add: signed_eq_0_iff)
  have "divdi3 a b = word_of_int (sint a sdiv sint b)"
    using b by (auto simp: divdi3_def udivmod_div [OF nz] w s signed_divide_int_def sgn_if Let_def)
  moreover have "moddi3 a b = word_of_int (sint a smod sint b)"
    using b by (auto simp: moddi3_def udivmod_div [OF nz] w s
        sgn_if Let_def smod_int_alt_def)
  ultimately show ?thesis
    by (simp add: udivdi3_def umoddi3_def udivmod_div [OF assms])
qed

lemma runtime_division_witness:
  "udivdi3 (- 7) 2 = (- 7) div 2 \<and> umoddi3 (- 7) 2 = (- 7) mod 2 \<and>
    divdi3 (- 7) 2 = word_of_int (sint (- 7 :: u64) sdiv sint (2 :: u64)) \<and>
    moddi3 (- 7) 2 = word_of_int (sint (- 7 :: u64) smod sint (2 :: u64))"
  by (rule runtime_division) simp

section \<open>Elements of the array\<close>

definition elems :: "nat \<Rightarrow> nat \<Rightarrow> u8 list \<Rightarrow> u8 list list" where
  "elems sz n bs = map (\<lambda>k. take sz (drop (k * sz) bs)) [0..<n]"

lemma length_elems [simp]: "length (elems sz n bs) = n"
  by (simp add: elems_def)

lemma elem_in_range: "k < n \<Longrightarrow> n * sz \<le> length bs \<Longrightarrow> k * sz + sz \<le> length (bs :: u8 list)"
proof -
  assume "k < n" "n * sz \<le> length bs"
  then have "Suc k * sz \<le> n * sz" by (intro mult_le_mono1) simp
  with \<open>n * sz \<le> length bs\<close> show ?thesis by simp
qed

lemma elem_at_elems:
  "k < n \<Longrightarrow> n * sz \<le> length bs \<Longrightarrow> elem_at sz (k * sz) bs = Some (elems sz n bs ! k)"
  using elem_in_range [of k n sz bs] by (simp add: elem_at_def elems_def)

text \<open>\<open>qswap\<close> of two ranges that do not overlap exchanges them and leaves the rest.\<close>

lemma qswap_bytes:
  assumes "a + n \<le> b" "b + n \<le> length bs"
  shows "\<exists>bs'. qswap a b n bs = Some bs' \<and> length bs' = length bs \<and>
    (\<forall>k. bs' ! k = (if a \<le> k \<and> k < a + n then bs ! (b + (k - a))
                   else if b \<le> k \<and> k < b + n then bs ! (a + (k - b)) else bs ! k))"
  using assms
proof (induction n arbitrary: a b bs)
  case (Suc n)
  let ?bs = "bs[a := bs ! b, b := bs ! a]"
  obtain bs' where bs': "qswap (a + 1) (b + 1) n ?bs = Some bs'" "length bs' = length bs"
    and at: "\<And>k. bs' ! k = (if a + 1 \<le> k \<and> k < a + 1 + n then ?bs ! (b + 1 + (k - (a + 1)))
                   else if b + 1 \<le> k \<and> k < b + 1 + n then ?bs ! (a + 1 + (k - (b + 1))) else ?bs ! k)"
    using Suc.IH [of "a + 1" "b + 1" ?bs] Suc.prems by auto
  have "bs' ! k = (if a \<le> k \<and> k < a + Suc n then bs ! (b + (k - a))
      else if b \<le> k \<and> k < b + Suc n then bs ! (a + (k - b)) else bs ! k)" for k
    using Suc.prems by (cases "k = a"; cases "k = b") (auto simp: at nth_list_update Suc_diff_Suc)
  with bs' Suc.prems show ?case by (auto simp: Let_def)
qed auto

lemma qswap_elems:
  assumes "i < j" "j < n" "n * sz \<le> length bs"
  shows "\<exists>bs'. qswap (i * sz) (j * sz) sz bs = Some bs' \<and> length bs' = length bs \<and>
    elems sz n bs' = (elems sz n bs)[i := elems sz n bs ! j, j := elems sz n bs ! i] \<and>
    drop (n * sz) bs' = drop (n * sz) bs"
proof -
  have ij: "i * sz + sz \<le> j * sz" using assms(1) mult_le_mono1 [of "Suc i" j sz] by simp
  have j: "j * sz + sz \<le> n * sz" using assms(2) mult_le_mono1 [of "Suc j" n sz] by simp
  obtain bs' where bs': "qswap (i * sz) (j * sz) sz bs = Some bs'" "length bs' = length bs"
    and at: "\<And>k. bs' ! k = (if i * sz \<le> k \<and> k < i * sz + sz then bs ! (j * sz + (k - i * sz))
                   else if j * sz \<le> k \<and> k < j * sz + sz then bs ! (i * sz + (k - j * sz)) else bs ! k)"
    using qswap_bytes [OF ij, of bs] j assms(3) by auto
  have elem: "take sz (drop (k * sz) bs') =
      (if k = i then take sz (drop (j * sz) bs) else if k = j then take sz (drop (i * sz) bs)
       else take sz (drop (k * sz) bs))" if "k < n" for k
  proof (rule nth_equalityI)
    have k: "k * sz + sz \<le> length bs" using elem_in_range [OF that assms(3)] .
    then show "length (take sz (drop (k * sz) bs')) = length (if k = i then take sz (drop (j * sz) bs)
        else if k = j then take sz (drop (i * sz) bs) else take sz (drop (k * sz) bs))"
      using j ij assms(3) bs'(2) by auto
    fix m assume "m < length (take sz (drop (k * sz) bs'))"
    then have m: "m < sz" by simp
    have apart: "k < l \<Longrightarrow> k * sz + m < l * sz" "l < k \<Longrightarrow> l * sz + sz \<le> k * sz + m" for l
      using m mult_le_mono1 [of "Suc k" l sz] mult_le_mono1 [of "Suc l" k sz] by simp_all
    show "take sz (drop (k * sz) bs') ! m = (if k = i then take sz (drop (j * sz) bs)
        else if k = j then take sz (drop (i * sz) bs) else take sz (drop (k * sz) bs)) ! m"
      using m k j ij assms apart [of i] apart [of j] bs'(2)
      by (cases "k < i"; cases "k = i"; cases "k < j"; cases "k = j") (simp_all add: at)
  qed
  have "elems sz n bs' = (elems sz n bs)[i := elems sz n bs ! j, j := elems sz n bs ! i]"
    by (rule nth_equalityI) (use elem assms in \<open>auto simp: elems_def nth_list_update\<close>)
  moreover have "drop (n * sz) bs' = drop (n * sz) bs"
    by (rule nth_equalityI) (use bs'(2) ij j in \<open>auto simp: at\<close>)
  ultimately show ?thesis using bs' by blast
qed

section \<open>Passes on the elements\<close>

lemma mset_exchange:
  assumes "i < length xs" "j < length xs"
  shows "mset (xs[i := xs ! j, j := xs ! i]) = mset xs"
  using mset_swap [OF assms] by (cases "i = j") (simp_all add: list_update_swap [of i j])

text \<open>What a pass keeps: the number of bytes, the elements up to order, the bytes after the array.\<close>

definition rearranged :: "nat \<Rightarrow> nat \<Rightarrow> u8 list \<Rightarrow> u8 list \<Rightarrow> bool" where
  "rearranged sz n bs bs' = (length bs' = length bs \<and> mset (elems sz n bs') = mset (elems sz n bs) \<and>
     drop (n * sz) bs' = drop (n * sz) bs)"

lemma rearranged_refl [simp]: "rearranged sz n bs bs"
  by (simp add: rearranged_def)

lemma rearranged_trans [trans]:
  "rearranged sz n a b \<Longrightarrow> rearranged sz n b c \<Longrightarrow> rearranged sz n a c"
  by (simp add: rearranged_def)

lemma qswap_rearranged:
  assumes "i < j" "j < n" "n * sz \<le> length bs" "qswap (i * sz) (j * sz) sz bs = Some bs'"
  shows "rearranged sz n bs bs'"
    "elems sz n bs' = (elems sz n bs)[i := elems sz n bs ! j, j := elems sz n bs ! i]"
  using qswap_elems [OF assms(1-3)] assms mset_exchange [of i "elems sz n bs" j]
  by (auto simp: rearranged_def)

lemma qsort_sift_rearranged:
  assumes "j < n" "n * sz \<le> length bs"
  shows "\<exists>bs'. qsort_sift cmp sz gap j bs = Some bs' \<and> rearranged sz n bs bs'"
  using assms
proof (induction j arbitrary: bs rule: less_induct)
  case (less j)
  note run = qsort_sift.simps [of cmp sz gap j bs]
  show ?case
  proof (cases "gap = 0 \<or> j < gap")
    case False
    then have i: "j - gap < j" "j - gap < n" using less.prems by auto
    let ?e = "elems sz n bs"
    have at: "elem_at sz ((j - gap) * sz) bs = Some (?e ! (j - gap))" "elem_at sz (j * sz) bs = Some (?e ! j)"
      using elem_at_elems less.prems i(2) by blast+
    show ?thesis
    proof (cases "cmp (?e ! (j - gap)) (?e ! j) \<le> 0")
      case True
      then show ?thesis using False at by (simp add: run)
    next
      case gt: False
      obtain bs1 where bs1: "qswap ((j - gap) * sz) (j * sz) sz bs = Some bs1"
        using qswap_elems [OF i(1) less.prems] by blast
      note re = qswap_rearranged(1) [OF i(1) less.prems bs1]
      then have "n * sz \<le> length bs1" using less.prems(2) by (simp add: rearranged_def)
      from less.IH [OF i(1,2) this] re show ?thesis
        using False at gt bs1 rearranged_trans by (auto simp: run)
    qed
  qed (auto simp: run)
qed

lemma qsort_pass_rearranged:
  assumes "i + k \<le> n" "n * sz \<le> length bs"
  shows "\<exists>bs'. qsort_pass cmp sz gap i k bs = Some bs' \<and> rearranged sz n bs bs'"
  using assms
proof (induction k arbitrary: i bs)
  case (Suc k)
  obtain bs1 where bs1: "qsort_sift cmp sz gap i bs = Some bs1" "rearranged sz n bs bs1"
    using qsort_sift_rearranged [of i n sz bs cmp gap] Suc.prems by auto
  then have "n * sz \<le> length bs1" using Suc.prems(2) by (simp add: rearranged_def)
  from Suc.IH [of "i + 1" bs1] this Suc.prems(1) bs1 show ?case
    using rearranged_trans by auto
qed simp

text \<open>One step of the last pass, where the gap is 1, is an insertion into the sorted part.\<close>

definition le_by :: "(u8 list \<Rightarrow> u8 list \<Rightarrow> int) \<Rightarrow> u8 list \<Rightarrow> u8 list \<Rightarrow> bool" where
  "le_by cmp x y = (cmp x y \<le> 0)"

text \<open>A comparison that orders: of two elements one is not above the other, and transitively so.\<close>

definition orders :: "(u8 list \<Rightarrow> u8 list \<Rightarrow> int) \<Rightarrow> bool" where
  "orders cmp = ((\<forall>x y. le_by cmp x y \<or> le_by cmp y x) \<and> transp (le_by cmp))"

text \<open>The part up to \<open>j\<close> is sorted but for the element at \<open>j\<close>, which is not above what follows it.\<close>

definition sift_inv :: "(u8 list \<Rightarrow> u8 list \<Rightarrow> int) \<Rightarrow> u8 list list \<Rightarrow> nat \<Rightarrow> nat \<Rightarrow> bool" where
  "sift_inv cmp xs j i = (\<forall>a b. a < b \<and> b \<le> i \<and> b \<noteq> j \<longrightarrow> le_by cmp (xs ! a) (xs ! b))"

lemma sift_inv_swap:
  assumes "sift_inv cmp xs j i" "0 < j" "j \<le> i" "i < length xs" "orders cmp" "\<not> le_by cmp (xs ! (j - 1)) (xs ! j)"
  shows "sift_inv cmp (xs[j - 1 := xs ! j, j := xs ! (j - 1)]) (j - 1) i"
proof -
  have tot: "le_by cmp (xs ! j) (xs ! (j - 1))" using assms(5,6) by (auto simp: orders_def)
  have inv: "a < b \<Longrightarrow> b \<le> i \<Longrightarrow> b \<noteq> j \<Longrightarrow> le_by cmp (xs ! a) (xs ! b)" for a b
    using assms(1) by (simp add: sift_inv_def)
  show ?thesis
    unfolding sift_inv_def
  proof (intro allI impI, elim conjE)
    fix a b assume ab: "a < b" "b \<le> i" "b \<noteq> j - 1"
    show "le_by cmp (xs[j - 1 := xs ! j, j := xs ! (j - 1)] ! a) (xs[j - 1 := xs ! j, j := xs ! (j - 1)] ! b)"
      using ab assms(2-4) tot inv [of a b] inv [of "j - 1" b] inv [of j b] inv [of a "j - 1"]
      by (cases "a = j - 1"; cases "a = j"; cases "b = j") auto
  qed
qed

lemma sift_inv_done:
  assumes "sift_inv cmp xs j i" "j \<le> i" "orders cmp" "j = 0 \<or> le_by cmp (xs ! (j - 1)) (xs ! j)"
  shows "\<forall>a b. a < b \<and> b \<le> i \<longrightarrow> le_by cmp (xs ! a) (xs ! b)"
proof (intro allI impI, elim conjE)
  fix a b assume ab: "a < b" "b \<le> i"
  show "le_by cmp (xs ! a) (xs ! b)"
  proof (cases "b = j")
    case False
    then show ?thesis using assms(1) ab by (simp add: sift_inv_def)
  next
    case True
    then have last: "le_by cmp (xs ! (j - 1)) (xs ! j)" using assms(4) ab by auto
    show ?thesis
    proof (cases "a = j - 1")
      case True
      then show ?thesis using last \<open>b = j\<close> by simp
    next
      case False
      then have "a < j - 1" using ab \<open>b = j\<close> by simp
      moreover then have "j - 1 \<noteq> j" by arith
      ultimately have "le_by cmp (xs ! a) (xs ! (j - 1))"
        using assms(1) [unfolded sift_inv_def, rule_format, of a "j - 1"] assms(2) by auto
      then show ?thesis using last assms(3) \<open>b = j\<close> by (auto simp: orders_def dest: transpD)
    qed
  qed
qed

lemma qsort_sift_sorts:
  assumes "j \<le> i" "i < n" "n * sz \<le> length bs" "orders cmp" "sift_inv cmp (elems sz n bs) j i"
  shows "\<exists>bs'. qsort_sift cmp sz 1 j bs = Some bs' \<and>
    (\<forall>a b. a < b \<and> b \<le> i \<longrightarrow> le_by cmp (elems sz n bs' ! a) (elems sz n bs' ! b))"
  using assms(1,3,5)
proof (induction j arbitrary: bs)
  case 0
  then show ?case
    using sift_inv_done [OF 0(3) _ assms(4)] by (simp add: qsort_sift.simps [of cmp sz "Suc 0" 0 bs])
next
  case (Suc j)
  let ?e = "elems sz n bs"
  have jn: "j < n" "Suc j < n" using Suc.prems(1) assms(2) by simp_all
  have at: "elem_at sz (j * sz) bs = Some (?e ! j)" "elem_at sz (Suc j * sz) bs = Some (?e ! Suc j)"
    using elem_at_elems [OF jn(1) Suc.prems(2)] elem_at_elems [OF jn(2) Suc.prems(2)] by simp_all
  note run = qsort_sift.simps [of cmp sz "Suc 0" "Suc j" bs]
  show ?case
  proof (cases "le_by cmp (?e ! j) (?e ! Suc j)")
    case True
    have "\<forall>a b. a < b \<and> b \<le> i \<longrightarrow> le_by cmp (?e ! a) (?e ! b)"
      by (rule sift_inv_done [OF Suc.prems(3,1) assms(4)]) (use True in simp)
    with True at show ?thesis by (simp add: run le_by_def)
  next
    case False
    obtain bs1 where bs1: "qswap (j * sz) (Suc j * sz) sz bs = Some bs1" "length bs1 = length bs"
        "elems sz n bs1 = ?e[j := ?e ! Suc j, Suc j := ?e ! j]"
      using qswap_elems [of j "Suc j" n sz bs] jn(2) Suc.prems(2) by auto
    have "sift_inv cmp (elems sz n bs1) j i"
      using sift_inv_swap [OF Suc.prems(3) _ Suc.prems(1) _ assms(4)] False assms(2) by (simp add: bs1(3))
    with Suc.IH [of bs1] Suc.prems(1,2) bs1(1,2) False at show ?thesis
      by (auto simp: run le_by_def)
  qed
qed

lemma qsort_pass_sorts:
  assumes "i + k = n" "0 < i" "n * sz \<le> length bs" "orders cmp"
    and "\<forall>a b. a < b \<and> b < i \<longrightarrow> le_by cmp (elems sz n bs ! a) (elems sz n bs ! b)"
  shows "\<exists>bs'. qsort_pass cmp sz 1 i k bs = Some bs' \<and>
    (\<forall>a b. a < b \<and> b < n \<longrightarrow> le_by cmp (elems sz n bs' ! a) (elems sz n bs' ! b))"
  using assms(1-3,5)
proof (induction k arbitrary: i bs)
  case (Suc k)
  have "sift_inv cmp (elems sz n bs) i i" using Suc.prems(4) by (simp add: sift_inv_def)
  then obtain bs1 where bs1: "qsort_sift cmp sz 1 i bs = Some bs1"
      "\<forall>a b. a < b \<and> b \<le> i \<longrightarrow> le_by cmp (elems sz n bs1 ! a) (elems sz n bs1 ! b)"
    using qsort_sift_sorts [of i i n sz bs cmp] Suc.prems(1,3) assms(4) by auto
  have "length bs1 = length bs"
    using qsort_sift_rearranged [of i n sz bs cmp 1] Suc.prems(1,3) bs1(1) by (auto simp: rearranged_def)
  with Suc.IH [of "i + 1" bs1] Suc.prems bs1 show ?case by (simp add: less_Suc_eq_le)
qed simp

lemma qsort_gaps_sorts:
  assumes "n * sz \<le> length bs" "orders cmp" "0 < gap" "gap < n"
  shows "\<exists>bs'. qsort_gaps cmp sz n gap bs = Some bs' \<and> rearranged sz n bs bs' \<and>
    (\<forall>a b. a < b \<and> b < n \<longrightarrow> le_by cmp (elems sz n bs' ! a) (elems sz n bs' ! b))"
  using assms(1,3,4)
proof (induction gap arbitrary: bs rule: less_induct)
  case (less gap)
  note run = qsort_gaps.simps [of cmp sz n gap bs]
  obtain bs1 where bs1: "qsort_pass cmp sz gap gap (n - gap) bs = Some bs1" "rearranged sz n bs bs1"
    using qsort_pass_rearranged [of gap "n - gap" n sz bs cmp gap] less.prems by auto
  show ?case
  proof (cases "gap = 1")
    case True
    obtain bs2 where "qsort_pass cmp sz 1 1 (n - 1) bs = Some bs2"
        "\<forall>a b. a < b \<and> b < n \<longrightarrow> le_by cmp (elems sz n bs2 ! a) (elems sz n bs2 ! b)"
      using qsort_pass_sorts [of 1 "n - 1" n sz bs cmp] less.prems assms(2) by auto
    moreover then have "bs2 = bs1" using bs1(1) True by simp
    moreover have "qsort_gaps cmp sz n gap bs = Some bs1"
      unfolding run using bs1(1) True by (simp add: qsort_gaps.simps [of cmp sz n 0 bs1])
    ultimately show ?thesis using bs1(2) by blast
  next
    case False
    have half: "gap div 2 < gap" "0 < gap div 2" "gap div 2 < n" using less.prems False by auto
    have "n * sz \<le> length bs1" using less.prems(1) bs1(2) by (simp add: rearranged_def)
    then obtain bs' where bs': "qsort_gaps cmp sz n (gap div 2) bs1 = Some bs'" "rearranged sz n bs1 bs'"
        "\<forall>a b. a < b \<and> b < n \<longrightarrow> le_by cmp (elems sz n bs' ! a) (elems sz n bs' ! b)"
      using less.IH [OF half(1) _ half(2,3), of bs1] by auto
    with bs1 less.prems(2) rearranged_trans [OF bs1(2) bs'(2)] show ?thesis by (auto simp: run)
  qed
qed

text \<open>
  C35: \<open>qsort\<close> sorts. On an array of \<open>n\<close> elements of \<open>sz\<close> bytes and a comparison that is a total
  order of the elements, it returns without touching a byte outside the array; the elements are
  those it was given, in non-descending order, and the bytes after the array are as before.
\<close>

theorem qsort_sorts:
  assumes "n * sz \<le> length bs" "orders cmp"
  shows "\<exists>bs'. qsort bs n sz cmp = Some bs' \<and> sorted_wrt (le_by cmp) (elems sz n bs') \<and>
    mset (elems sz n bs') = mset (elems sz n bs) \<and> drop (n * sz) bs' = drop (n * sz) bs \<and>
    length bs' = length bs"
proof (cases "n < 2")
  case True
  then have "n div 2 = 0" "n = 0 \<or> n = 1" by auto
  then show ?thesis
    by (auto simp: qsort_def qsort_gaps.simps [of cmp sz _ 0] elems_def)
next
  case False
  then have "0 < n div 2" "n div 2 < n" by auto
  then obtain bs' where "qsort_gaps cmp sz n (n div 2) bs = Some bs'" "rearranged sz n bs bs'"
    "\<forall>a b. a < b \<and> b < n \<longrightarrow> le_by cmp (elems sz n bs' ! a) (elems sz n bs' ! b)"
    using qsort_gaps_sorts [OF assms, of "n div 2"] by blast
  then show ?thesis by (auto simp: qsort_def rearranged_def sorted_wrt_iff_nth_less)
qed

definition first_byte :: "u8 list \<Rightarrow> u8 list \<Rightarrow> int" where
  "first_byte x y = (case (x, y) of (a # _, b # _) \<Rightarrow> uint a - uint b | ([], []) \<Rightarrow> 0 | ([], _) \<Rightarrow> - 1 | _ \<Rightarrow> 1)"

lemma first_byte_orders: "orders first_byte"
  unfolding orders_def
proof
  show "\<forall>x y. le_by first_byte x y \<or> le_by first_byte y x"
    by (auto simp: le_by_def first_byte_def split: list.splits)
  show "transp (le_by first_byte)"
    by (rule transpI) (auto simp: le_by_def first_byte_def split: list.splits)
qed

lemma qsort_sorts_witness:
  "\<exists>bs'. qsort [9, 0, 4, 1, 7, 2, 1, 3, 99] 4 2 first_byte = Some bs' \<and>
    sorted_wrt (le_by first_byte) (elems 2 4 bs') \<and>
    mset (elems 2 4 bs') = mset (elems 2 4 [9, 0, 4, 1, 7, 2, 1, 3, 99]) \<and>
    drop (4 * 2) bs' = drop (4 * 2) [9, 0, 4, 1, 7, 2, 1, 3, 99] \<and>
    length bs' = length [9, 0, 4, 1, 7, 2, 1, 3, 99 :: u8]"
  by (rule qsort_sorts [OF _ first_byte_orders]) simp

end
