(* ===== verification/Spec2Isabelle.thy ===== *)
theory Spec2Isabelle
  imports Host_Driver Purva_Main Purvs_Loop Memop Tctool_Sound Purg_Run Gdb_Run Rt
begin

text \<open>
  purv is a family of small RV32IMC emulators in C with the tools around them. This development
  models the engines, the transcoder, the tool that builds images, the embedding runtime with its
  allocator, the gdb server and the hosts, and proves what they promise.

  The program. Every engine executes a guest over the same state (\<open>emu/purv.h\<close>): 32 registers, a
  pc, a read-only and a writable region of host memory with their guest addresses, and handlers for
  traps and for accesses outside the regions.
    \<^item> \<open>emu/purv.c\<close> is the reference: one loop that fetches, decodes and executes, with fetch checks
      hoisted into windows.
    \<^item> \<open>emu/purvs/purvs.c\<close> decodes straight-line runs ahead into records and executes those with a
      pluggable evaluator.
    \<^item> \<open>emu/purva\<close> splits the work: \<open>transcode.c\<close> turns machine code into op words, fusing pairs and
      frames, \<open>tctool.c\<close> does this for a linked ELF file and repairs every code address in it,
      \<open>image.h\<close> stores the result, \<open>purva.c\<close> executes it, \<open>purvarun.h\<close> embeds it in another program
      and serves the guest's \<open>malloc\<close>.
    \<^item> \<open>emu/purg.c\<close> is a generated engine of one instruction per call, kept for gdb;
      \<open>emu/gdbstub.c\<close> serves the remote protocol for any engine.
    \<^item> \<open>emu/purvmemop.h\<close> runs \<open>memcpy\<close> and its kin natively, for all engines.
    \<^item> \<open>emu/main.c\<close>, \<open>emu/purva/main.c\<close> and \<open>emu/purvhost.h\<close> are the hosts: they load a program, set
      up its stack, run it in slices and report. \<open>emu/sqlite\<close> is a large guest with its runtime.

  The theories, in the order of the calls.
    \<^item> \<^theory_text>\<open>Prelude\<close>: the machine integers, little-endian bytes, sign extension. \<^theory_text>\<open>Elf32\<close>: the fields of
      an ELF file and \<open>memcpy\<close>, for the two readers.
    \<^item> \<^theory_text>\<open>Vm\<close>: state, regions, \<open>mem_xlate\<close>, \<open>RiscvEmulatorInit\<close>. \<^theory_text>\<open>Alu\<close>: the bodies \<open>alu:\<close> and \<open>mul:\<close>,
      proved against the manual's integer definitions.
    \<^item> \<^theory_text>\<open>Purv_Decode\<close>, \<^theory_text>\<open>Purv\<close>, \<^theory_text>\<open>Purv_Loop\<close>: \<open>RiscvEmulatorLoop\<close> of \<open>purv.c\<close>. A decode arm returns the
      action body it jumps to with the locals that body reads. Shown: the loop returns, never leaves
      the host buffers, keeps the code, equals a loop that checks every fetch, and resumes.
      The contract of the handlers is the locale \<open>trap_hooks\<close>.
    \<^item> \<^theory_text>\<open>Guest_Mem\<close>: guest memory as a byte map (\<open>purvhost_guest_byte\<close>) and the loads and stores
      against it. \<^theory_text>\<open>Memop\<close>: \<open>purv_memop\<close>, shown to be the C library's functions on that map.
    \<^item> \<^theory_text>\<open>Purvs_Decode\<close>, \<^theory_text>\<open>Purvs_Eval\<close>, \<^theory_text>\<open>Purvs_Loop\<close>: \<open>decode_one\<close>, the evaluator and the run loop of
      \<open>purvs.c\<close>, shown equal to purv instruction by instruction and run by run. The contract of an
      evaluator is the locale \<open>value_eval\<close>.
    \<^item> \<^theory_text>\<open>Transcode\<close>, \<^theory_text>\<open>Tc_Fields\<close>, \<^theory_text>\<open>Tc_Layout\<close>: \<open>transcode.c\<close>. Shown: both passes agree on the layout,
      branches land on the place of their target, targets are never hidden inside a fusion.
    \<^item> \<^theory_text>\<open>Purva\<close>, \<^theory_text>\<open>Purva_Sem\<close>, \<^theory_text>\<open>Purva_Fused\<close>, \<^theory_text>\<open>Purva_Frame\<close>, \<^theory_text>\<open>Purva_Equiv\<close>: the handlers and the loop of
      \<open>purva.c\<close>, and each emitted op word, fused or not, against purv on the instructions it was made
      from.
    \<^item> \<^theory_text>\<open>Purvarun\<close>, \<^theory_text>\<open>Purva_Heap\<close>, \<^theory_text>\<open>Purva_Malloc\<close>, \<^theory_text>\<open>Purva_Embed\<close>: \<open>purvarun.h\<close>. The free ring lives in
      guest memory; its abstraction is a list of blocks that tile the heap. Shown: \<open>malloc\<close>, \<open>free\<close> and
      \<open>realloc\<close> keep it, hand out disjoint blocks and keep their contents. The contract is the locale
      \<open>block_allocator\<close>.
    \<^item> \<^theory_text>\<open>Purva_Image\<close>, \<^theory_text>\<open>Tctool\<close>, \<^theory_text>\<open>Tctool_Sound\<close>, \<^theory_text>\<open>Purva_Main\<close>: image files, the tool, the driver. Shown:
      merged sections keep their addresses, re-encoded address pairs and patched words reach their
      targets, and what the tool writes is accepted by \<open>purva_run_init\<close>.
    \<^item> \<^theory_text>\<open>Purg_Types\<close>, \<^theory_text>\<open>Purg\<close>, \<^theory_text>\<open>Purg_Fields\<close>, \<^theory_text>\<open>Purg_Equiv\<close>, \<^theory_text>\<open>Purg_Run\<close>: the generated engine with its
      bit-field views, shown equal to purv over purv's memory map (locale \<open>purg_host\<close>).
    \<^item> \<^theory_text>\<open>Gdbstub\<close>, \<^theory_text>\<open>Gdb_Wire\<close>, \<^theory_text>\<open>Gdb_Run\<close>: \<open>gdbstub.c\<close>. Shown: packets survive damaged frames, memory
      written is memory read, reverse execution restores the registers, \<open>continue\<close> stops at
      breakpoints, and no input breaks the invariants. The undo ring is a \<open>bounded_stack\<close>.
    \<^item> \<^theory_text>\<open>Host_Main\<close>, \<^theory_text>\<open>Host_Setup\<close>, \<^theory_text>\<open>Host_Run\<close>, \<^theory_text>\<open>Host_Stack\<close>, \<^theory_text>\<open>Host_Driver\<close>: \<open>main.c\<close> and \<open>purvhost.h\<close>. Shown:
      segments and stack are where the guest expects them, and \<open>main\<close> comes back with an exit code.
      The contract of an engine is the locale \<open>engine\<close>.
    \<^item> \<^theory_text>\<open>Rt\<close>: \<open>qsort\<close> of \<open>sqlite/rt.c\<close> and the 64-bit division of \<open>sqlite/builtins.c\<close>.

  Conventions. A \<open>uint32_t\<close> is a \<open>32 word\<close>; what C computes on \<open>int32_t\<close> is modelled with the wrap
  the compilers of the repository produce, and where C leaves the result undefined the findings say
  so. \<open>size_t\<close> has 64 bits. An access outside a host buffer, a call through a NULL handler and a
  read past the end of a string buffer are the result \<open>None\<close>, so that memory safety is a theorem.
  The handlers of the C state are a record \<open>hooks\<close> that stays fixed while an engine runs; the
  host's globals are the field \<open>world\<close>. Files are their bytes; allocation, writes that may fail and
  what \<open>poll\<close> answers are arguments.

  Bounds and fuel. No fuel is invented: the run loops of purv, purva, the embedder and the hosts
  are recursive on what is left of the instruction budget the C code itself is given, the shell sort
  on its gaps, \<open>udivmod\<close> on its 64 rounds. Loops whose end is not plain from the code (the walk of
  \<open>malloc\<close> and \<open>free\<close> around the ring, the sweeps of the transcoder, the decode-ahead loop and
  \<open>fixup_pc\<close> of purvs, \<open>continue\<close> and the session of gdb, \<open>dump_signature\<close>) are
  \<open>partial_function (option)\<close>: not ending is the value \<open>None\<close>, and the theorems show that it does
  not arise, on every input or under the condition they name. The decode buffer of purvs holds
  64 instructions in 129 slots and the undo ring of gdb 65536 frames, as in the code.

  Not modelled. \<open>emu/purvs/main.c\<close> is the text of \<open>emu/main.c\<close>. Command-line parsing, reading files
  and terminal output are input and output only. The profiling build of \<open>purva.c\<close> and the \<open>TCVERIFY\<close>
  aid of the tool count and print. The hosts, the VFS and the benchmark of \<open>emu/sqlite\<close> glue the
  engines to SQLite, which is not in the repository; of its runtime the string functions beyond the
  accelerated ones, number parsing and the floating-point stubs, which trap, are left out.
  \<open>emu/bench\<close>, \<open>emu/examples\<close>, \<open>emu/compact\<close>, \<open>emu/act\<close> and \<open>conformance\<close> are guests, tests and
  adapters. \<open>RiscvEmulatorDestroy\<close> and \<open>purva_run_free\<close> release memory only.
\<close>

end
